(* ===== verification/Prelude.thy ===== *)
theory Prelude
  imports Main "HOL-Library.Word" "HOL-Library.Monad_Syntax"
begin

text \<open>
  Shared vocabulary of the development: the integer types of the target, the outcome types of
  the C functions, byte-addressed blocks of memory, string tables, and the generic lemmas on
  them.

  \<^item> The target is the ESP8266 (Xtensa, gcc): \<open>int\<close>, \<open>size_t\<close> and pointers have 32 bits, plain
    \<open>char\<close> is unsigned, conversions to a narrower signed type keep the low bits.  An \<open>int\<close> is a
    \<open>32 word\<close> read with \<open>sint\<close>; comparisons of an \<open>int\<close> with a \<open>size_t\<close> are unsigned, as the
    usual arithmetic conversions make them.
  \<^item> An execution is \<open>'a ub\<close>: \<open>None\<close> when the C code runs into undefined behaviour (an access
    outside the block a pointer points into, a null pointer), \<open>Some x\<close> when it returns \<open>x\<close>.
  \<^item> A function with an out parameter returns \<open>errcode + 'a\<close>: \<open>Inl\<close> the error code (the out
    parameter is not written), \<open>Inr\<close> the value written when the code is \<open>COMP_MSG_ERR_OK\<close>.
  \<^item> A function that changes its object returns the code and the new object, so that changes made
    before an error return are kept.
\<close>

unbundle bit_operations_syntax

subsection \<open>Types\<close>

type_synonym u8 = "8 word"
type_synonym u16 = "16 word"
type_synonym u32 = "32 word"
type_synonym i8 = "8 word"
type_synonym i16 = "16 word"
type_synonym i32 = "32 word"
type_synonym size_t = "32 word"
type_synonym errcode = "8 word"
type_synonym 'a ub = "'a option"
type_synonym mem = "8 word list"

named_theorems dv_simps \<open>outcome of the accessors inside a view\<close>
named_theorems frame_simps \<open>what an operation leaves unchanged\<close>

subsection \<open>Sequencing\<close>

text \<open>
  \<open>checkErrOK(result)\<close> after a call that returns a code (\<open>checkErrOK\<close>), and after a call with an
  out parameter (\<open>checkGet\<close>): leave the function with the code when it is not \<open>0\<close>.
\<close>

definition checkErrOK :: "(errcode \<times> 's) ub \<Rightarrow> ('s \<Rightarrow> (errcode \<times> 's) ub) \<Rightarrow> (errcode \<times> 's) ub" where
  "checkErrOK m k =
     (case m of None \<Rightarrow> None
      | Some (rc, s) \<Rightarrow> if rc \<noteq> 0 then Some (rc, s) else k s)"

definition checkGet :: "(errcode + 'a) ub \<Rightarrow> ('a \<Rightarrow> (errcode + 'b) ub) \<Rightarrow> (errcode + 'b) ub" where
  "checkGet m k =
     (case m of None \<Rightarrow> None
      | Some (Inl rc) \<Rightarrow> Some (Inl rc)
      | Some (Inr v) \<Rightarrow> k v)"

subsection \<open>Blocks of memory\<close>

definition rd_byte :: "mem \<Rightarrow> u32 \<Rightarrow> u8 ub" where
  "rd_byte m off = (if unat off < length m then Some (m ! unat off) else None)"

definition wr_byte :: "mem \<Rightarrow> u32 \<Rightarrow> u8 \<Rightarrow> mem ub" where
  "wr_byte m off b = (if unat off < length m then Some (m[unat off := b]) else None)"

primrec put :: "'a list \<Rightarrow> nat \<Rightarrow> 'a list \<Rightarrow> 'a list" where
  "put m off [] = m"
| "put m off (b # bs) = put (m[off := b]) (Suc off) bs"

text \<open>\<open>c_memcpy\<close> out of a block, into a block: both are undefined when the block is left.\<close>

definition rd_block :: "mem \<Rightarrow> u32 \<Rightarrow> nat \<Rightarrow> mem ub" where
  "rd_block m off n =
     (if unat off + n \<le> length m then Some (take n (drop (unat off) m)) else None)"

definition wr_block :: "mem \<Rightarrow> u32 \<Rightarrow> mem \<Rightarrow> mem ub" where
  "wr_block m off bs =
     (if unat off + length bs \<le> length m then Some (put m (unat off) bs) else None)"

subsection \<open>Growing arrays\<close>

text \<open>
  An array on the heap is the list of its cells.  \<open>os_zalloc\<close> gives cells with the all-zero value,
  \<open>os_realloc\<close> keeps the cells that fit and leaves the new ones indeterminate (\<open>Undef\<close>); reading an
  indeterminate cell, and any access outside the array, is undefined.  A null pointer is the empty
  array.  \<open>allocs\<close> tells for every allocation of a function, by its number in the text of the
  function, whether it succeeds.
\<close>

datatype 'a cell = Undef | Def 'a

type_synonym allocs = "nat \<Rightarrow> bool"

definition rd_cell :: "'a cell list \<Rightarrow> nat \<Rightarrow> 'a ub" where
  "rd_cell xs i = (if i < length xs then (case xs ! i of Undef \<Rightarrow> None | Def v \<Rightarrow> Some v) else None)"

definition wr_cell :: "'a cell list \<Rightarrow> nat \<Rightarrow> 'a \<Rightarrow> 'a cell list ub" where
  "wr_cell xs i v = (if i < length xs then Some (xs[i := Def v]) else None)"

definition zalloc_cells :: "nat \<Rightarrow> 'a \<Rightarrow> 'a cell list" where
  "zalloc_cells n z = replicate n (Def z)"

definition realloc_cells :: "nat \<Rightarrow> 'a cell list \<Rightarrow> 'a cell list" where
  "realloc_cells n xs = take n xs @ replicate (n - length xs) Undef"

text \<open>
  The search loop \<open>while (idx < num) { if (match(array[idx])) ...; idx++; }\<close> with \<open>k\<close> rounds left:
  the first match with its index.  \<open>find_idx\<close> is the same search on a list.
\<close>

primrec scan :: "'a cell list \<Rightarrow> ('a \<Rightarrow> bool) \<Rightarrow> nat \<Rightarrow> nat \<Rightarrow> (nat \<times> 'a) option ub" where
  "scan xs P idx 0 = Some None"
| "scan xs P idx (Suc k) =
    do { e \<leftarrow> rd_cell xs idx; if P e then Some (Some (idx, e)) else scan xs P (Suc idx) k }"

primrec find_idx :: "('a \<Rightarrow> bool) \<Rightarrow> nat \<Rightarrow> 'a list \<Rightarrow> (nat \<times> 'a) option" where
  "find_idx P i [] = None"
| "find_idx P i (x # xs) = (if P x then Some (i, x) else find_idx P (Suc i) xs)"

subsection \<open>Strictly descending lists\<close>

text \<open>A linear test that a list has no repetition, for tables kept in descending order.\<close>

fun strictly_desc :: "'a::linorder list \<Rightarrow> bool" where
  "strictly_desc (x # y # zs) = (y < x \<and> strictly_desc (y # zs))"
| "strictly_desc _ = True"

lemma strictly_desc_sorted: "strictly_desc xs \<Longrightarrow> sorted_wrt (>) xs"
proof (induction xs rule: strictly_desc.induct)
  case (1 x y zs)
  then have "sorted_wrt (>) (y # zs)" and "y < x" by simp_all
  then show ?case by (auto intro: less_trans)
qed simp_all

lemma strictly_desc_distinct: "strictly_desc xs \<Longrightarrow> distinct xs"
  by (metis strictly_desc_sorted distinct_rev sorted_wrt_rev strict_sorted_iff)

subsection \<open>Sequencing lemmas\<close>

lemma checkErrOK_simps [simp]:
  "checkErrOK None k = None"
  "checkErrOK (Some (0, s)) k = k s"
  "rc \<noteq> 0 \<Longrightarrow> checkErrOK (Some (rc, s)) k = Some (rc, s)"
  by (simp_all add: checkErrOK_def)

lemma checkErrOK_Some_0:
  "checkErrOK m k = Some (0, t) \<longleftrightarrow> (\<exists>s. m = Some (0, s) \<and> k s = Some (0, t))"
  by (auto simp: checkErrOK_def split: option.splits if_splits)

lemma checkGet_simps [simp]:
  "checkGet None k = None"
  "checkGet (Some (Inl rc)) k = Some (Inl rc)"
  "checkGet (Some (Inr v)) k = k v"
  by (simp_all add: checkGet_def)

subsection \<open>Lemmas on blocks\<close>

lemma length_put [simp]: "length (put m off bs) = length m"
  by (induction bs arbitrary: m off) auto

lemma nth_put:
  "off + length bs \<le> length m \<Longrightarrow> i < length m \<Longrightarrow>
   put m off bs ! i = (if off \<le> i \<and> i < off + length bs then bs ! (i - off) else m ! i)"
proof (induction bs arbitrary: m off)
  case Nil
  then show ?case by auto
next
  case (Cons b bs)
  have "put m off (b # bs) ! i = put (m[off := b]) (Suc off) bs ! i" by simp
  also have "\<dots> = (if Suc off \<le> i \<and> i < Suc off + length bs then bs ! (i - Suc off)
                   else m[off := b] ! i)"
    using Cons.prems by (intro Cons.IH) auto
  finally show ?case
    using Cons.prems by (auto simp: nth_list_update nth_Cons' Suc_diff_Suc)
qed

lemma take_drop_put_same:
  "off + length bs \<le> length m \<Longrightarrow> take (length bs) (drop off (put m off bs)) = bs"
  by (rule nth_equalityI) (auto simp: nth_put)

lemma take_drop_put_disjoint:
  assumes "off + length bs \<le> length m" and "a + n \<le> off \<or> off + length bs \<le> a"
  shows "take n (drop a (put m off bs)) = take n (drop a m)"
proof (rule nth_equalityI)
  fix i assume "i < length (take n (drop a (put m off bs)))"
  then show "take n (drop a (put m off bs)) ! i = take n (drop a m) ! i"
    using assms by (auto simp: nth_put)
qed simp

lemma put_put_same:
  assumes "length bs = length cs" and "off + length bs \<le> length m"
  shows "put (put m off bs) off cs = put m off cs"
  by (rule nth_equalityI) (use assms in \<open>auto simp: nth_put\<close>)

lemma put_put_disjoint:
  assumes "off + length bs \<le> length m" "a + length cs \<le> length m"
    and "a + length cs \<le> off \<or> off + length bs \<le> a"
  shows "put (put m off bs) a cs = put (put m a cs) off bs"
  by (rule nth_equalityI) (use assms in \<open>auto simp: nth_put\<close>)

lemma put_put_adjacent:
  assumes "off + length bs + length cs \<le> length m"
  shows "put (put m off bs) (off + length bs) cs = put m off (bs @ cs)"
  by (rule nth_equalityI) (use assms in \<open>auto simp: nth_put nth_append\<close>)

lemma put_whole: "length bs = length m \<Longrightarrow> put m 0 bs = bs"
  by (rule nth_equalityI) (auto simp: nth_put)

lemma take_put: "n \<le> off \<Longrightarrow> off + length bs \<le> length m \<Longrightarrow> take n (put m off bs) = take n m"
  using take_drop_put_disjoint [of off bs m 0 n] by simp

subsection \<open>Lemmas on arrays\<close>

lemma length_realloc_cells [simp]: "length (realloc_cells n xs) = n"
  by (simp add: realloc_cells_def)

lemma length_zalloc_cells [simp]: "length (zalloc_cells n z) = n"
  by (simp add: zalloc_cells_def)

lemma nth_realloc_cells [simp]: "i < length xs \<Longrightarrow> i < n \<Longrightarrow> realloc_cells n xs ! i = xs ! i"
  by (simp add: realloc_cells_def nth_append)

lemma rd_cell_Def [simp]: "i < length xs \<Longrightarrow> xs ! i = Def v \<Longrightarrow> rd_cell xs i = Some v"
  by (simp add: rd_cell_def)

lemma wr_cell_fits [simp]: "i < length xs \<Longrightarrow> wr_cell xs i v = Some (xs[i := Def v])"
  by (simp add: wr_cell_def)

lemma rd_cell_append [simp]: "rd_cell (map Def es @ rest) i = (if i < length es then Some (es ! i) else rd_cell rest (i - length es))"
  by (cases "i < length es") (auto simp: rd_cell_def nth_append split: cell.splits)

lemma scan_offset:
  "scan (map Def pre @ map Def es @ rest) P (length pre) (length es) = Some (find_idx P (length pre) es)"
proof (induction es arbitrary: pre)
  case (Cons e es)
  from Cons.IH [of "pre @ [e]"] show ?case by simp
qed simp

lemma scan_defined: "scan (map Def es @ rest) P 0 (length es) = Some (find_idx P 0 es)"
  using scan_offset [of "[]"] by simp

lemma find_idx_None_iff: "find_idx P i xs = None \<longleftrightarrow> (\<forall>x \<in> set xs. \<not> P x)"
  by (induction xs arbitrary: i) auto

lemma find_idx_SomeD:
  "find_idx P i xs = Some (j, x) \<Longrightarrow> i \<le> j \<and> j < i + length xs \<and> x = xs ! (j - i) \<and> P x
    \<and> (\<forall>k < j - i. \<not> P (xs ! k))"
proof (induction xs arbitrary: i)
  case (Cons y ys)
  show ?case
  proof (cases "P y")
    case False
    with Cons.prems have "find_idx P (Suc i) ys = Some (j, x)" by simp
    from Cons.IH [OF this]
    have *: "Suc i \<le> j \<and> j < Suc i + length ys \<and> x = ys ! (j - Suc i) \<and> P x
        \<and> (\<forall>k < j - Suc i. \<not> P (ys ! k))" .
    then have "j - i = Suc (j - Suc i)" by linarith
    with * False show ?thesis by (auto simp: less_Suc_eq_0_disj)
  qed (use Cons in simp)
qed simp

lemma find_idx_unique:
  assumes "k < length xs" "P (xs ! k)" "\<And>m. m < length xs \<Longrightarrow> P (xs ! m) \<Longrightarrow> m = k"
  shows "find_idx P i xs = Some (i + k, xs ! k)"
proof (cases "find_idx P i xs")
  case None
  then show ?thesis using assms(1,2) nth_mem [OF assms(1)] by (simp add: find_idx_None_iff)
next
  case (Some p)
  obtain j x where p: "p = (j, x)" by (cases p)
  from find_idx_SomeD [OF Some [unfolded p]]
  have "i \<le> j" "j - i < length xs" "x = xs ! (j - i)" "P x" by linarith+
  then have "j - i = k" using assms(3) by simp
  with \<open>i \<le> j\<close> \<open>x = xs ! (j - i)\<close> show ?thesis by (auto simp: Some p)
qed

subsection \<open>Lemmas on words\<close>

lemma unat_plus_small: "unat a + unat b < 2 ^ 32 \<Longrightarrow> unat (a + b) = unat a + unat b" for a b :: u32
  by (simp add: unat_word_ariths)

lemma unat_plus_numeral:
  "unat a + 1 < 2 ^ 32 \<Longrightarrow> unat (a + 1) = unat a + 1"
  "unat a + 2 < 2 ^ 32 \<Longrightarrow> unat (a + 2) = unat a + 2"
  "unat a + 3 < 2 ^ 32 \<Longrightarrow> unat (a + 3) = unat a + 3"
  "unat a + 4 < 2 ^ 32 \<Longrightarrow> unat (a + 4) = unat a + 4" for a :: u32
  by (simp_all add: unat_plus_small)

lemma unat_u32_less: "unat (a :: u32) < 4294967296"
  using unsigned_less [of a] by simp

lemma less_u32: "a < b \<longleftrightarrow> unat a < unat b" for a b :: u32
  by (rule word_less_nat_alt)

lemma and_255: "x AND 255 = take_bit 8 x" for x :: "'a::len word"
proof -
  have "(255 :: 'a word) = mask 8" by (simp add: mask_eq_exp_minus_1)
  then show ?thesis by (simp add: take_bit_eq_mask)
qed

lemma and_255_u8 [simp]: "x AND 255 = x" for x :: u8
  by (simp add: and_255 take_bit_word_eq_self)

lemma signed_drop_byte:
  "k \<le> 8 \<Longrightarrow> ucast (signed_drop_bit k (x :: u16) AND 255) = (ucast (drop_bit k x AND 255) :: u8)"
  "l \<le> 24 \<Longrightarrow> ucast (signed_drop_bit l (y :: u32) AND 255) = (ucast (drop_bit l y AND 255) :: u8)"
  unfolding and_255 by (auto intro!: bit_word_eqI simp: bit_simps split: if_splits)

subsection \<open>Big-endian encodings\<close>

definition be16 :: "u16 \<Rightarrow> mem" where
  "be16 x = [ucast (drop_bit 8 x AND 0xFF), ucast (x AND 0xFF)]"

definition from_be16 :: "mem \<Rightarrow> u16" where
  "from_be16 bs = push_bit 8 (ucast (bs ! 0) AND 0xFF) + push_bit 0 (ucast (bs ! 1) AND 0xFF)"

definition be32 :: "u32 \<Rightarrow> mem" where
  "be32 x = [ucast (drop_bit 24 x AND 0xFF), ucast (drop_bit 16 x AND 0xFF),
             ucast (drop_bit 8 x AND 0xFF), ucast (x AND 0xFF)]"

definition from_be32 :: "mem \<Rightarrow> u32" where
  "from_be32 bs = push_bit 24 (ucast (bs ! 0) AND 0xFF) + push_bit 16 (ucast (bs ! 1) AND 0xFF)
                  + push_bit 8 (ucast (bs ! 2) AND 0xFF) + push_bit 0 (ucast (bs ! 3) AND 0xFF)"

lemma length_be [simp]: "length (be16 x) = 2" "length (be32 y) = 4"
  by (simp_all add: be16_def be32_def)

lemma from_be16_be16 [simp]: "from_be16 (be16 x) = x"
proof -
  let ?b = "\<lambda>k. push_bit k (take_bit 8 (ucast (ucast (take_bit 8 (drop_bit k x)) :: u8)) :: u16)"
  have "from_be16 (be16 x) = ?b 8 OR ?b 0"
    unfolding from_be16_def be16_def and_255
    by (subst disjunctive_add) (auto simp: bit_simps)
  also have "\<dots> = x" by (rule bit_word_eqI) (auto simp: bit_simps)
  finally show ?thesis .
qed

lemma from_be32_be32 [simp]: "from_be32 (be32 x) = x"
proof -
  let ?b = "\<lambda>k. push_bit k (take_bit 8 (ucast (ucast (take_bit 8 (drop_bit k x)) :: u8)) :: u32)"
  have "from_be32 (be32 x) = ?b 24 + ?b 16 + ?b 8 + ?b 0"
    by (simp add: from_be32_def be32_def and_255)
  also have "?b 24 + ?b 16 = ?b 24 OR ?b 16"
    by (rule disjunctive_add) (auto simp: bit_simps)
  also have "(?b 24 OR ?b 16) + ?b 8 = (?b 24 OR ?b 16) OR ?b 8"
    by (rule disjunctive_add) (auto simp: bit_simps)
  also have "((?b 24 OR ?b 16) OR ?b 8) + ?b 0 = ((?b 24 OR ?b 16) OR ?b 8) OR ?b 0"
    by (rule disjunctive_add) (auto simp: bit_simps)
  also have "\<dots> = x"
  proof (rule bit_word_eqI)
    fix n assume "n < LENGTH(32)"
    then show "bit (((?b 24 OR ?b 16) OR ?b 8) OR ?b 0) n = bit x n"
      by (cases "n < 8"; cases "n < 16"; cases "n < 24") (auto simp: bit_simps)
  qed
  finally show ?thesis .
qed

lemma unat_ucast_16_32 [simp]: "unat (ucast (w :: u16) :: u32) = unat w"
  by (simp add: unsigned_ucast_eq take_bit_nat_eq_self_iff order_less_le_trans [OF unsigned_less])

lemma unat_ucast_8_16 [simp]: "unat (ucast (w :: u8) :: u16) = unat w"
  by (simp add: unsigned_ucast_eq take_bit_nat_eq_self_iff order_less_le_trans [OF unsigned_less])

lemma unat_ucast_8_32 [simp]: "unat (ucast (w :: u8) :: u32) = unat w"
  by (simp add: unsigned_ucast_eq take_bit_nat_eq_self_iff order_less_le_trans [OF unsigned_less])

lemma ucast_ucast_8_16_8 [simp]: "ucast (ucast (b :: u8) :: u16) = b"
  by (rule bit_word_eqI) (simp add: bit_simps)

lemma unat_of_char [simp]: "unat (of_char c :: u8) = of_char c"
proof -
  have "(of_char c :: nat) < 256" by (rule nat_of_char_less_256)
  moreover have "(of_char c :: u8) = of_nat (of_char c)" by (simp add: of_nat_of_char)
  ultimately show ?thesis by (simp add: unat_of_nat)
qed

lemma inj_of_char_u8: "inj (of_char :: char \<Rightarrow> u8)"
proof (rule injI)
  fix c d assume "(of_char c :: u8) = of_char d"
  then have "unat (of_char c :: u8) = unat (of_char d :: u8)" by simp
  then show "c = d" by (simp only: unat_of_char of_char_eq_iff)
qed

lemma unat_of_nat_u8: "n < 256 \<Longrightarrow> unat (word_of_nat n :: u8) = n"
  by (simp add: unat_of_nat)

lemma unat_of_nat_u16: "n < 65536 \<Longrightarrow> unat (word_of_nat n :: u16) = n"
  by (simp add: unat_of_nat)

lemma unat_of_nat_u32: "n < 4294967296 \<Longrightarrow> unat (word_of_nat n :: u32) = n"
  by (simp add: unat_of_nat)

subsection \<open>Numbers stored in fewer bits\<close>

lemma narrow_of_int:
  "ucast (word_of_int v :: 32 word) = (word_of_int v :: 8 word)"
  "ucast (word_of_int v :: 32 word) = (word_of_int v :: 16 word)"
  by (rule bit_word_eqI, simp add: bit_simps)+

lemma widen_of_int:
  "scast (word_of_int v :: 8 word) = (word_of_int (signed_take_bit 7 v) :: 32 word)"
  "scast (word_of_int v :: 16 word) = (word_of_int (signed_take_bit 15 v) :: 32 word)"
  "ucast (word_of_int v :: 8 word) = (word_of_int (take_bit 8 v) :: 32 word)"
  "ucast (word_of_int v :: 16 word) = (word_of_int (take_bit 16 v) :: 32 word)"
  by (simp_all add: scast_eq ucast_eq signed_of_int unsigned_of_int)

lemma narrow_widen:
  fixes x :: "32 word"
  shows "-128 \<le> sint x \<Longrightarrow> sint x < 128 \<Longrightarrow> scast (ucast x :: 8 word) = x"
    and "-32768 \<le> sint x \<Longrightarrow> sint x < 32768 \<Longrightarrow> scast (ucast x :: 16 word) = x"
    and "0 \<le> sint x \<Longrightarrow> sint x < 256 \<Longrightarrow> ucast (ucast x :: 8 word) = x"
    and "0 \<le> sint x \<Longrightarrow> sint x < 65536 \<Longrightarrow> ucast (ucast x :: 16 word) = x"
proof -
  have x: "word_of_int (sint x) = x" by simp
  note n = narrow_of_int [of "sint x", unfolded x]
  note w = widen_of_int [of "sint x", folded n]
  have "signed_take_bit 7 (sint x) = sint x" if "-128 \<le> sint x" "sint x < 128"
    using that by (simp add: signed_take_bit_int_eq_self_iff)
  then show "-128 \<le> sint x \<Longrightarrow> sint x < 128 \<Longrightarrow> scast (ucast x :: 8 word) = x"
    by (simp only: w x)
  have "signed_take_bit 15 (sint x) = sint x" if "-32768 \<le> sint x" "sint x < 32768"
    using that by (simp add: signed_take_bit_int_eq_self_iff)
  then show "-32768 \<le> sint x \<Longrightarrow> sint x < 32768 \<Longrightarrow> scast (ucast x :: 16 word) = x"
    by (simp only: w x)
  have "take_bit 8 (sint x) = sint x" if "0 \<le> sint x" "sint x < 256"
    using that by (simp add: take_bit_int_eq_self_iff)
  then show "0 \<le> sint x \<Longrightarrow> sint x < 256 \<Longrightarrow> ucast (ucast x :: 8 word) = x"
    by (simp only: w x)
  have "take_bit 16 (sint x) = sint x" if "0 \<le> sint x" "sint x < 65536"
    using that by (simp add: take_bit_int_eq_self_iff)
  then show "0 \<le> sint x \<Longrightarrow> sint x < 65536 \<Longrightarrow> ucast (ucast x :: 16 word) = x"
    by (simp only: w x)
qed

end
