(* ===== verification/ErrorCodes.thy ===== *)
theory ErrorCodes
  imports Prelude
begin

text \<open>
  The two enumerations of result codes: \<open>enum DataViewErrorCode\<close> of \<^verbatim>\<open>app/compMsg/dataView.h\<close> and
  \<open>enum CompMsgErrorCodes\<close> of \<^verbatim>\<open>app/compMsg/compMsgErrorCodes.h\<close>.  Every function returns its code
  as a \<open>uint8_t\<close>, so the names are abbreviations of bytes; the two tables below are the
  enumerations as the headers list them.
\<close>

subsection \<open>Names of the codes\<close>

abbreviation (input) "DATA_VIEW_ERR_OK \<equiv> (0 :: errcode)"
abbreviation (input) "DATA_VIEW_ERR_VALUE_NOT_SET \<equiv> (255 :: errcode)"
abbreviation (input) "DATA_VIEW_ERR_VALUE_OUT_OF_RANGE \<equiv> (254 :: errcode)"
abbreviation (input) "DATA_VIEW_ERR_BAD_VALUE \<equiv> (253 :: errcode)"
abbreviation (input) "DATA_VIEW_ERR_BAD_FIELD_TYPE \<equiv> (252 :: errcode)"
abbreviation (input) "DATA_VIEW_ERR_FIELD_TYPE_NOT_FOUND \<equiv> (251 :: errcode)"
abbreviation (input) "DATA_VIEW_ERR_VALUE_TOO_BIG \<equiv> (250 :: errcode)"
abbreviation (input) "DATA_VIEW_ERR_OUT_OF_MEMORY \<equiv> (249 :: errcode)"
abbreviation (input) "DATA_VIEW_ERR_OUT_OF_RANGE \<equiv> (248 :: errcode)"
abbreviation (input) "DATA_VIEW_ERR_FILE_NAME_TOKEN_NOT_FOUND \<equiv> (247 :: errcode)"

abbreviation (input) "COMP_MSG_ERR_OK \<equiv> (0 :: errcode)"
abbreviation (input) "COMP_MSG_ERR_VALUE_NOT_SET \<equiv> (255 :: errcode)"
abbreviation (input) "COMP_MSG_ERR_VALUE_OUT_OF_RANGE \<equiv> (254 :: errcode)"
abbreviation (input) "COMP_MSG_ERR_BAD_VALUE \<equiv> (253 :: errcode)"
abbreviation (input) "COMP_MSG_ERR_BAD_FIELD_TYPE \<equiv> (252 :: errcode)"
abbreviation (input) "COMP_MSG_ERR_FIELD_TYPE_NOT_FOUND \<equiv> (251 :: errcode)"
abbreviation (input) "COMP_MSG_ERR_VALUE_TOO_BIG \<equiv> (250 :: errcode)"
abbreviation (input) "COMP_MSG_ERR_OUT_OF_MEMORY \<equiv> (249 :: errcode)"
abbreviation (input) "COMP_MSG_ERR_OUT_OF_RANGE \<equiv> (248 :: errcode)"
abbreviation (input) "COMP_MSG_ERR_FILE_NAME_TOKEN_NOT_FOUND \<equiv> (247 :: errcode)"
abbreviation (input) "COMP_MSG_ERR_FIELD_NOT_FOUND \<equiv> (230 :: errcode)"
abbreviation (input) "COMP_MSG_ERR_BAD_SPECIAL_FIELD \<equiv> (229 :: errcode)"
abbreviation (input) "COMP_MSG_ERR_BAD_HANDLE \<equiv> (228 :: errcode)"
abbreviation (input) "COMP_MSG_ERR_HANDLE_NOT_FOUND \<equiv> (227 :: errcode)"
abbreviation (input) "COMP_MSG_ERR_NOT_ENCODED \<equiv> (226 :: errcode)"
abbreviation (input) "COMP_MSG_ERR_ENCODE_ERROR \<equiv> (225 :: errcode)"
abbreviation (input) "COMP_MSG_ERR_DECODE_ERROR \<equiv> (224 :: errcode)"
abbreviation (input) "COMP_MSG_ERR_BAD_CRC_VALUE \<equiv> (223 :: errcode)"
abbreviation (input) "COMP_MSG_ERR_CRYPTO_INIT_FAILED \<equiv> (222 :: errcode)"
abbreviation (input) "COMP_MSG_ERR_CRYPTO_OP_FAILED \<equiv> (221 :: errcode)"
abbreviation (input) "COMP_MSG_ERR_CRYPTO_BAD_MECHANISM \<equiv> (220 :: errcode)"
abbreviation (input) "COMP_MSG_ERR_NOT_ENCRYPTED \<equiv> (219 :: errcode)"
abbreviation (input) "COMP_MSG_ERR_DEFINITION_NOT_FOUND \<equiv> (218 :: errcode)"
abbreviation (input) "COMP_MSG_ERR_DEFINITION_TOO_MANY_FIELDS \<equiv> (217 :: errcode)"
abbreviation (input) "COMP_MSG_ERR_BAD_TABLE_ROW \<equiv> (216 :: errcode)"
abbreviation (input) "COMP_MSG_ERR_TOO_MANY_FIELDS \<equiv> (215 :: errcode)"
abbreviation (input) "COMP_MSG_ERR_BAD_DEFINTION_CMD_KEY \<equiv> (214 :: errcode)"
abbreviation (input) "COMP_MSG_ERR_NO_SLOT_FOUND \<equiv> (213 :: errcode)"
abbreviation (input) "COMP_MSG_ERR_BAD_NUM_FIELDS \<equiv> (212 :: errcode)"
abbreviation (input) "COMP_MSG_ERR_ALREADY_INITTED \<equiv> (211 :: errcode)"
abbreviation (input) "COMP_MSG_ERR_NOT_YET_INITTED \<equiv> (210 :: errcode)"
abbreviation (input) "COMP_MSG_ERR_FIELD_CANNOT_BE_SET \<equiv> (209 :: errcode)"
abbreviation (input) "COMP_MSG_ERR_NO_SUCH_FIELD \<equiv> (208 :: errcode)"
abbreviation (input) "COMP_MSG_ERR_DUPLICATE_FIELD \<equiv> (207 :: errcode)"
abbreviation (input) "COMP_MSG_ERR_BAD_DATA_LGTH \<equiv> (206 :: errcode)"
abbreviation (input) "COMP_MSG_ERR_NOT_YET_PREPARED \<equiv> (205 :: errcode)"
abbreviation (input) "COMP_MSG_ERR_FIELD_TOTAL_LGTH_MISSING \<equiv> (200 :: errcode)"
abbreviation (input) "COMP_MSG_ERR_OPEN_FILE \<equiv> (189 :: errcode)"
abbreviation (input) "COMP_MSG_ERR_FILE_NOT_OPENED \<equiv> (188 :: errcode)"
abbreviation (input) "COMP_MSG_ERR_FLUSH_FILE \<equiv> (187 :: errcode)"
abbreviation (input) "COMP_MSG_ERR_WRITE_FILE \<equiv> (186 :: errcode)"
abbreviation (input) "COMP_MSG_ERR_FUNNY_EXTRA_FIELDS \<equiv> (185 :: errcode)"
abbreviation (input) "COMP_MSG_ERR_FIELD_TOO_LONG \<equiv> (184 :: errcode)"
abbreviation (input) "COMP_MSG_ERR_BAD_MODULE_VALUE_WHICH \<equiv> (183 :: errcode)"
abbreviation (input) "COMP_MSG_ERR_ALREADY_UPDATING \<equiv> (182 :: errcode)"
abbreviation (input) "COMP_MSG_ERR_DNS_ERROR \<equiv> (181 :: errcode)"
abbreviation (input) "COMP_MSG_ERR_STATION_SCAN \<equiv> (180 :: errcode)"
abbreviation (input) "COMP_MSG_ERR_BAD_RECEIVED_LGTH \<equiv> (179 :: errcode)"
abbreviation (input) "COMP_MSG_ERR_BAD_FILE_CONTENTS \<equiv> (178 :: errcode)"
abbreviation (input) "COMP_MSG_ERR_HEADER_NOT_FOUND \<equiv> (177 :: errcode)"
abbreviation (input) "COMP_MSG_ERR_BAD_FIELD_NAME \<equiv> (175 :: errcode)"
abbreviation (input) "COMP_MSG_ERR_BAD_HANDLE_TYPE \<equiv> (174 :: errcode)"
abbreviation (input) "COMP_MSG_ERR_INVALID_BASE64_STRING \<equiv> (173 :: errcode)"
abbreviation (input) "COMP_MSG_ERR_TOO_FEW_FILE_LINES \<equiv> (172 :: errcode)"
abbreviation (input) "COMP_MSG_ERR_ACTION_NAME_NOT_FOUND \<equiv> (171 :: errcode)"
abbreviation (input) "COMP_MSG_ERR_DUPLICATE_ENTRY \<equiv> (170 :: errcode)"
abbreviation (input) "COMP_MSG_ERR_NO_WEBSOCKET_OPENED \<equiv> (169 :: errcode)"
abbreviation (input) "COMP_MSG_ERR_TOO_MANY_REQUESTS \<equiv> (168 :: errcode)"
abbreviation (input) "COMP_MSG_ERR_REQUEST_NOT_FOUND \<equiv> (167 :: errcode)"
abbreviation (input) "COMP_MSG_ERR_UART_REQUEST_NOT_SET \<equiv> (166 :: errcode)"
abbreviation (input) "COMP_MSG_ERR_FUNNY_HANDLE_TYPE \<equiv> (165 :: errcode)"
abbreviation (input) "COMP_MSG_ERR_FIELD_VALUE_CALLBACK_NOT_FOUND \<equiv> (164 :: errcode)"
abbreviation (input) "COMP_MSG_ERR_CONNECT_STATION_WRONG_PASSWD \<equiv> (163 :: errcode)"
abbreviation (input) "COMP_MSG_ERR_CONNECT_STATION_NO_AP_FOUND \<equiv> (162 :: errcode)"
abbreviation (input) "COMP_MSG_ERR_CONNECT_STATION_CONNECT_FAILED \<equiv> (161 :: errcode)"
abbreviation (input) "COMP_MSG_ERR_CONNECT_STATION_CONNECTING \<equiv> (160 :: errcode)"
abbreviation (input) "COMP_MSG_ERR_CONNECT_STATION_IDLE \<equiv> (159 :: errcode)"
abbreviation (input) "COMP_MSG_ERR_ESPCONN_TIMEOUT \<equiv> (158 :: errcode)"
abbreviation (input) "COMP_MSG_ERR_ESPCONN_RTE \<equiv> (157 :: errcode)"
abbreviation (input) "COMP_MSG_ERR_ESPCONN_INPROGRESS \<equiv> (156 :: errcode)"
abbreviation (input) "COMP_MSG_ERR_ESPCONN_ABRT \<equiv> (155 :: errcode)"
abbreviation (input) "COMP_MSG_ERR_ESPCONN_RST \<equiv> (154 :: errcode)"
abbreviation (input) "COMP_MSG_ERR_ESPCONN_CLSD \<equiv> (153 :: errcode)"
abbreviation (input) "COMP_MSG_ERR_ESPCONN_CONN \<equiv> (152 :: errcode)"
abbreviation (input) "COMP_MSG_ERR_ESPCONN_ARG \<equiv> (151 :: errcode)"
abbreviation (input) "COMP_MSG_ERR_ESPCONN_ISCONN \<equiv> (150 :: errcode)"
abbreviation (input) "COMP_MSG_ERR_GET_STATION_CONFIG \<equiv> (149 :: errcode)"
abbreviation (input) "COMP_MSG_ERR_CANNOT_DISCONNECT \<equiv> (148 :: errcode)"
abbreviation (input) "COMP_MSG_ERR_CANNOT_SET_OPMODE \<equiv> (147 :: errcode)"
abbreviation (input) "COMP_MSG_ERR_REGIST_CONNECT_CB \<equiv> (146 :: errcode)"
abbreviation (input) "COMP_MSG_ERR_TCP_ACCEPT \<equiv> (145 :: errcode)"
abbreviation (input) "COMP_MSG_ERR_REGIST_TIME \<equiv> (144 :: errcode)"
abbreviation (input) "COMP_MSG_ERR_BAD_WIFI_VALUE_WHICH \<equiv> (143 :: errcode)"
abbreviation (input) "COMP_MSG_ERR_BAD_ROW \<equiv> (142 :: errcode)"
abbreviation (input) "COMP_MSG_ERR_CANNOT_GET_MAC_ADDR \<equiv> (141 :: errcode)"
abbreviation (input) "COMP_MSG_ERR_WRONG_DESC_FILE_LINE \<equiv> (140 :: errcode)"
abbreviation (input) "COMP_MSG_ERR_BAD_NUM_DESC_FILE_LINES \<equiv> (139 :: errcode)"
abbreviation (input) "COMP_MSG_ERR_BAD_DESC_FILE_USE_LINE \<equiv> (138 :: errcode)"
abbreviation (input) "COMP_MSG_ERR_FIELD_DESC_TOO_FEW_FIELDS \<equiv> (137 :: errcode)"
abbreviation (input) "COMP_MSG_ERR_BAD_DESC_FILE_FIELD_GROUP_TYPE \<equiv> (136 :: errcode)"
abbreviation (input) "COMP_MSG_ERR_BAD_DESC_FILE_FIELD_VALUE_TYPE \<equiv> (135 :: errcode)"
abbreviation (input) "COMP_MSG_ERR_CANNOT_GET_IP \<equiv> (134 :: errcode)"
abbreviation (input) "COMP_MSG_ERR_BAD_SECURITY_TYPE \<equiv> (133 :: errcode)"
abbreviation (input) "COMP_MSG_ERR_BAD_RW_VALUE \<equiv> (133 :: errcode)"
abbreviation (input) "COMP_MSG_ERR_BAD_RUN_ACTION_CALLBACK \<equiv> (132 :: errcode)"
abbreviation (input) "COMP_MSG_ERR_BAD_OPERATING_MODE \<equiv> (131 :: errcode)"
abbreviation (input) "COMP_MSG_ERR_HEADER_FIELD_GROUP_NOT_FOUND \<equiv> (130 :: errcode)"
abbreviation (input) "COMP_MSG_ERR_BAD_ENCRYPTED_VALUE \<equiv> (129 :: errcode)"
abbreviation (input) "COMP_MSG_ERR_BAD_HANDLE_TYPE_VALUE \<equiv> (128 :: errcode)"
abbreviation (input) "COMP_MSG_ERR_FUNNY_FIELD_VALUE_START \<equiv> (127 :: errcode)"
abbreviation (input) "COMP_MSG_ERR_EXPECTED_INT_VALUE \<equiv> (126 :: errcode)"
abbreviation (input) "COMP_MSG_ERR_CALLBACK_NAME_NOT_FOUND \<equiv> (125 :: errcode)"
abbreviation (input) "COMP_MSG_ERR_DATA_VALUE_FIELD_NOT_FOUND \<equiv> (124 :: errcode)"
abbreviation (input) "COMP_MSG_ERR_BAD_CMD_KEY_VALUE \<equiv> (123 :: errcode)"
abbreviation (input) "COMP_MSG_ERR_BAD_MSG_FIELD_INFO_IDX \<equiv> (122 :: errcode)"
abbreviation (input) "COMP_MSG_ERR_MSG_FIELD_INFO_IDX_NOT_SET \<equiv> (121 :: errcode)"
abbreviation (input) "COMP_MSG_ERR_NOT_A_STRING \<equiv> (120 :: errcode)"
abbreviation (input) "COMP_MSG_ERR_BAD_HEADER_FIELD_FLAG \<equiv> (119 :: errcode)"
abbreviation (input) "COMP_MSG_ERR_BAD_FIELD_INFO \<equiv> (118 :: errcode)"
abbreviation (input) "COMP_MSG_ERR_TOO_MANY_LINE_FIELDS \<equiv> (117 :: errcode)"
abbreviation (input) "COMP_MSG_ERR_DIFFERENT_FIELD_VALUE \<equiv> (116 :: errcode)"
abbreviation (input) "COMP_MSG_ERR_CMD_KEY_NOT_FOUND \<equiv> (115 :: errcode)"
abbreviation (input) "COMP_MSG_ERR_FIELD_VALUE_INFO_NOT_FOUND \<equiv> (114 :: errcode)"
abbreviation (input) "COMP_MSG_ERR_DUPLICATE_FIELD_VALUE_ENTRY \<equiv> (113 :: errcode)"
abbreviation (input) "COMP_MSG_ERR_TOO_MANY_FIELD_VALUE_ENTRIES \<equiv> (112 :: errcode)"
abbreviation (input) "COMP_MSG_ERR_CANNOT_CONNECT \<equiv> (99 :: errcode)"

subsection \<open>The enumerations\<close>

definition DataViewErrorCode :: "(string \<times> errcode) list" where
  "DataViewErrorCode =
    [(''OK'', DATA_VIEW_ERR_OK),
     (''VALUE_NOT_SET'', DATA_VIEW_ERR_VALUE_NOT_SET),
     (''VALUE_OUT_OF_RANGE'', DATA_VIEW_ERR_VALUE_OUT_OF_RANGE),
     (''BAD_VALUE'', DATA_VIEW_ERR_BAD_VALUE),
     (''BAD_FIELD_TYPE'', DATA_VIEW_ERR_BAD_FIELD_TYPE),
     (''FIELD_TYPE_NOT_FOUND'', DATA_VIEW_ERR_FIELD_TYPE_NOT_FOUND),
     (''VALUE_TOO_BIG'', DATA_VIEW_ERR_VALUE_TOO_BIG),
     (''OUT_OF_MEMORY'', DATA_VIEW_ERR_OUT_OF_MEMORY),
     (''OUT_OF_RANGE'', DATA_VIEW_ERR_OUT_OF_RANGE),
     (''FILE_NAME_TOKEN_NOT_FOUND'', DATA_VIEW_ERR_FILE_NAME_TOKEN_NOT_FOUND)]"

definition CompMsgErrorCodes :: "(string \<times> errcode) list" where
  "CompMsgErrorCodes =
    [(''OK'', COMP_MSG_ERR_OK),
     (''VALUE_NOT_SET'', COMP_MSG_ERR_VALUE_NOT_SET),
     (''VALUE_OUT_OF_RANGE'', COMP_MSG_ERR_VALUE_OUT_OF_RANGE),
     (''BAD_VALUE'', COMP_MSG_ERR_BAD_VALUE),
     (''BAD_FIELD_TYPE'', COMP_MSG_ERR_BAD_FIELD_TYPE),
     (''FIELD_TYPE_NOT_FOUND'', COMP_MSG_ERR_FIELD_TYPE_NOT_FOUND),
     (''VALUE_TOO_BIG'', COMP_MSG_ERR_VALUE_TOO_BIG),
     (''OUT_OF_MEMORY'', COMP_MSG_ERR_OUT_OF_MEMORY),
     (''OUT_OF_RANGE'', COMP_MSG_ERR_OUT_OF_RANGE),
     (''FILE_NAME_TOKEN_NOT_FOUND'', COMP_MSG_ERR_FILE_NAME_TOKEN_NOT_FOUND),
     (''FIELD_NOT_FOUND'', COMP_MSG_ERR_FIELD_NOT_FOUND),
     (''BAD_SPECIAL_FIELD'', COMP_MSG_ERR_BAD_SPECIAL_FIELD),
     (''BAD_HANDLE'', COMP_MSG_ERR_BAD_HANDLE),
     (''HANDLE_NOT_FOUND'', COMP_MSG_ERR_HANDLE_NOT_FOUND),
     (''NOT_ENCODED'', COMP_MSG_ERR_NOT_ENCODED),
     (''ENCODE_ERROR'', COMP_MSG_ERR_ENCODE_ERROR),
     (''DECODE_ERROR'', COMP_MSG_ERR_DECODE_ERROR),
     (''BAD_CRC_VALUE'', COMP_MSG_ERR_BAD_CRC_VALUE),
     (''CRYPTO_INIT_FAILED'', COMP_MSG_ERR_CRYPTO_INIT_FAILED),
     (''CRYPTO_OP_FAILED'', COMP_MSG_ERR_CRYPTO_OP_FAILED),
     (''CRYPTO_BAD_MECHANISM'', COMP_MSG_ERR_CRYPTO_BAD_MECHANISM),
     (''NOT_ENCRYPTED'', COMP_MSG_ERR_NOT_ENCRYPTED),
     (''DEFINITION_NOT_FOUND'', COMP_MSG_ERR_DEFINITION_NOT_FOUND),
     (''DEFINITION_TOO_MANY_FIELDS'', COMP_MSG_ERR_DEFINITION_TOO_MANY_FIELDS),
     (''BAD_TABLE_ROW'', COMP_MSG_ERR_BAD_TABLE_ROW),
     (''TOO_MANY_FIELDS'', COMP_MSG_ERR_TOO_MANY_FIELDS),
     (''BAD_DEFINTION_CMD_KEY'', COMP_MSG_ERR_BAD_DEFINTION_CMD_KEY),
     (''NO_SLOT_FOUND'', COMP_MSG_ERR_NO_SLOT_FOUND),
     (''BAD_NUM_FIELDS'', COMP_MSG_ERR_BAD_NUM_FIELDS),
     (''ALREADY_INITTED'', COMP_MSG_ERR_ALREADY_INITTED),
     (''NOT_YET_INITTED'', COMP_MSG_ERR_NOT_YET_INITTED),
     (''FIELD_CANNOT_BE_SET'', COMP_MSG_ERR_FIELD_CANNOT_BE_SET),
     (''NO_SUCH_FIELD'', COMP_MSG_ERR_NO_SUCH_FIELD),
     (''DUPLICATE_FIELD'', COMP_MSG_ERR_DUPLICATE_FIELD),
     (''BAD_DATA_LGTH'', COMP_MSG_ERR_BAD_DATA_LGTH),
     (''NOT_YET_PREPARED'', COMP_MSG_ERR_NOT_YET_PREPARED),
     (''FIELD_TOTAL_LGTH_MISSING'', COMP_MSG_ERR_FIELD_TOTAL_LGTH_MISSING),
     (''OPEN_FILE'', COMP_MSG_ERR_OPEN_FILE),
     (''FILE_NOT_OPENED'', COMP_MSG_ERR_FILE_NOT_OPENED),
     (''FLUSH_FILE'', COMP_MSG_ERR_FLUSH_FILE),
     (''WRITE_FILE'', COMP_MSG_ERR_WRITE_FILE),
     (''FUNNY_EXTRA_FIELDS'', COMP_MSG_ERR_FUNNY_EXTRA_FIELDS),
     (''FIELD_TOO_LONG'', COMP_MSG_ERR_FIELD_TOO_LONG),
     (''BAD_MODULE_VALUE_WHICH'', COMP_MSG_ERR_BAD_MODULE_VALUE_WHICH),
     (''ALREADY_UPDATING'', COMP_MSG_ERR_ALREADY_UPDATING),
     (''DNS_ERROR'', COMP_MSG_ERR_DNS_ERROR),
     (''STATION_SCAN'', COMP_MSG_ERR_STATION_SCAN),
     (''BAD_RECEIVED_LGTH'', COMP_MSG_ERR_BAD_RECEIVED_LGTH),
     (''BAD_FILE_CONTENTS'', COMP_MSG_ERR_BAD_FILE_CONTENTS),
     (''HEADER_NOT_FOUND'', COMP_MSG_ERR_HEADER_NOT_FOUND),
     (''BAD_FIELD_NAME'', COMP_MSG_ERR_BAD_FIELD_NAME),
     (''BAD_HANDLE_TYPE'', COMP_MSG_ERR_BAD_HANDLE_TYPE),
     (''INVALID_BASE64_STRING'', COMP_MSG_ERR_INVALID_BASE64_STRING),
     (''TOO_FEW_FILE_LINES'', COMP_MSG_ERR_TOO_FEW_FILE_LINES),
     (''ACTION_NAME_NOT_FOUND'', COMP_MSG_ERR_ACTION_NAME_NOT_FOUND),
     (''DUPLICATE_ENTRY'', COMP_MSG_ERR_DUPLICATE_ENTRY),
     (''NO_WEBSOCKET_OPENED'', COMP_MSG_ERR_NO_WEBSOCKET_OPENED),
     (''TOO_MANY_REQUESTS'', COMP_MSG_ERR_TOO_MANY_REQUESTS),
     (''REQUEST_NOT_FOUND'', COMP_MSG_ERR_REQUEST_NOT_FOUND),
     (''UART_REQUEST_NOT_SET'', COMP_MSG_ERR_UART_REQUEST_NOT_SET),
     (''FUNNY_HANDLE_TYPE'', COMP_MSG_ERR_FUNNY_HANDLE_TYPE),
     (''FIELD_VALUE_CALLBACK_NOT_FOUND'', COMP_MSG_ERR_FIELD_VALUE_CALLBACK_NOT_FOUND),
     (''CONNECT_STATION_WRONG_PASSWD'', COMP_MSG_ERR_CONNECT_STATION_WRONG_PASSWD),
     (''CONNECT_STATION_NO_AP_FOUND'', COMP_MSG_ERR_CONNECT_STATION_NO_AP_FOUND),
     (''CONNECT_STATION_CONNECT_FAILED'', COMP_MSG_ERR_CONNECT_STATION_CONNECT_FAILED),
     (''CONNECT_STATION_CONNECTING'', COMP_MSG_ERR_CONNECT_STATION_CONNECTING),
     (''CONNECT_STATION_IDLE'', COMP_MSG_ERR_CONNECT_STATION_IDLE),
     (''ESPCONN_TIMEOUT'', COMP_MSG_ERR_ESPCONN_TIMEOUT),
     (''ESPCONN_RTE'', COMP_MSG_ERR_ESPCONN_RTE),
     (''ESPCONN_INPROGRESS'', COMP_MSG_ERR_ESPCONN_INPROGRESS),
     (''ESPCONN_ABRT'', COMP_MSG_ERR_ESPCONN_ABRT),
     (''ESPCONN_RST'', COMP_MSG_ERR_ESPCONN_RST),
     (''ESPCONN_CLSD'', COMP_MSG_ERR_ESPCONN_CLSD),
     (''ESPCONN_CONN'', COMP_MSG_ERR_ESPCONN_CONN),
     (''ESPCONN_ARG'', COMP_MSG_ERR_ESPCONN_ARG),
     (''ESPCONN_ISCONN'', COMP_MSG_ERR_ESPCONN_ISCONN),
     (''GET_STATION_CONFIG'', COMP_MSG_ERR_GET_STATION_CONFIG),
     (''CANNOT_DISCONNECT'', COMP_MSG_ERR_CANNOT_DISCONNECT),
     (''CANNOT_SET_OPMODE'', COMP_MSG_ERR_CANNOT_SET_OPMODE),
     (''REGIST_CONNECT_CB'', COMP_MSG_ERR_REGIST_CONNECT_CB),
     (''TCP_ACCEPT'', COMP_MSG_ERR_TCP_ACCEPT),
     (''REGIST_TIME'', COMP_MSG_ERR_REGIST_TIME),
     (''BAD_WIFI_VALUE_WHICH'', COMP_MSG_ERR_BAD_WIFI_VALUE_WHICH),
     (''BAD_ROW'', COMP_MSG_ERR_BAD_ROW),
     (''CANNOT_GET_MAC_ADDR'', COMP_MSG_ERR_CANNOT_GET_MAC_ADDR),
     (''WRONG_DESC_FILE_LINE'', COMP_MSG_ERR_WRONG_DESC_FILE_LINE),
     (''BAD_NUM_DESC_FILE_LINES'', COMP_MSG_ERR_BAD_NUM_DESC_FILE_LINES),
     (''BAD_DESC_FILE_USE_LINE'', COMP_MSG_ERR_BAD_DESC_FILE_USE_LINE),
     (''FIELD_DESC_TOO_FEW_FIELDS'', COMP_MSG_ERR_FIELD_DESC_TOO_FEW_FIELDS),
     (''BAD_DESC_FILE_FIELD_GROUP_TYPE'', COMP_MSG_ERR_BAD_DESC_FILE_FIELD_GROUP_TYPE),
     (''BAD_DESC_FILE_FIELD_VALUE_TYPE'', COMP_MSG_ERR_BAD_DESC_FILE_FIELD_VALUE_TYPE),
     (''CANNOT_GET_IP'', COMP_MSG_ERR_CANNOT_GET_IP),
     (''BAD_SECURITY_TYPE'', COMP_MSG_ERR_BAD_SECURITY_TYPE),
     (''BAD_RW_VALUE'', COMP_MSG_ERR_BAD_RW_VALUE),
     (''BAD_RUN_ACTION_CALLBACK'', COMP_MSG_ERR_BAD_RUN_ACTION_CALLBACK),
     (''BAD_OPERATING_MODE'', COMP_MSG_ERR_BAD_OPERATING_MODE),
     (''HEADER_FIELD_GROUP_NOT_FOUND'', COMP_MSG_ERR_HEADER_FIELD_GROUP_NOT_FOUND),
     (''BAD_ENCRYPTED_VALUE'', COMP_MSG_ERR_BAD_ENCRYPTED_VALUE),
     (''BAD_HANDLE_TYPE_VALUE'', COMP_MSG_ERR_BAD_HANDLE_TYPE_VALUE),
     (''FUNNY_FIELD_VALUE_START'', COMP_MSG_ERR_FUNNY_FIELD_VALUE_START),
     (''EXPECTED_INT_VALUE'', COMP_MSG_ERR_EXPECTED_INT_VALUE),
     (''CALLBACK_NAME_NOT_FOUND'', COMP_MSG_ERR_CALLBACK_NAME_NOT_FOUND),
     (''DATA_VALUE_FIELD_NOT_FOUND'', COMP_MSG_ERR_DATA_VALUE_FIELD_NOT_FOUND),
     (''BAD_CMD_KEY_VALUE'', COMP_MSG_ERR_BAD_CMD_KEY_VALUE),
     (''BAD_MSG_FIELD_INFO_IDX'', COMP_MSG_ERR_BAD_MSG_FIELD_INFO_IDX),
     (''MSG_FIELD_INFO_IDX_NOT_SET'', COMP_MSG_ERR_MSG_FIELD_INFO_IDX_NOT_SET),
     (''NOT_A_STRING'', COMP_MSG_ERR_NOT_A_STRING),
     (''BAD_HEADER_FIELD_FLAG'', COMP_MSG_ERR_BAD_HEADER_FIELD_FLAG),
     (''BAD_FIELD_INFO'', COMP_MSG_ERR_BAD_FIELD_INFO),
     (''TOO_MANY_LINE_FIELDS'', COMP_MSG_ERR_TOO_MANY_LINE_FIELDS),
     (''DIFFERENT_FIELD_VALUE'', COMP_MSG_ERR_DIFFERENT_FIELD_VALUE),
     (''CMD_KEY_NOT_FOUND'', COMP_MSG_ERR_CMD_KEY_NOT_FOUND),
     (''FIELD_VALUE_INFO_NOT_FOUND'', COMP_MSG_ERR_FIELD_VALUE_INFO_NOT_FOUND),
     (''DUPLICATE_FIELD_VALUE_ENTRY'', COMP_MSG_ERR_DUPLICATE_FIELD_VALUE_ENTRY),
     (''TOO_MANY_FIELD_VALUE_ENTRIES'', COMP_MSG_ERR_TOO_MANY_FIELD_VALUE_ENTRIES),
     (''CANNOT_CONNECT'', COMP_MSG_ERR_CANNOT_CONNECT)]"

subsection \<open>Agreement of the two enumerations\<close>

lemma CompMsgErrorCodes_desc:
  "strictly_desc (tl (map snd (filter (\<lambda>(n, c). n \<noteq> ''BAD_RW_VALUE'') CompMsgErrorCodes)) @ [0])
   \<and> map snd (filter (\<lambda>(n, c). n \<noteq> ''BAD_RW_VALUE'') CompMsgErrorCodes)
     = 0 # tl (map snd (filter (\<lambda>(n, c). n \<noteq> ''BAD_RW_VALUE'') CompMsgErrorCodes))"
  by code_simp

lemma CompMsgErrorCodes_distinct:
  "distinct (map snd (filter (\<lambda>(n, c). n \<noteq> ''BAD_RW_VALUE'') CompMsgErrorCodes))"
  using CompMsgErrorCodes_desc strictly_desc_distinct
  by (metis distinct1_rotate rotate1.simps(2))

lemma DataViewErrorCode_shared:
  "list_all (\<lambda>(n, c). map_of CompMsgErrorCodes n = Some c) DataViewErrorCode
   \<and> map_of CompMsgErrorCodes ''BAD_RW_VALUE'' = map_of CompMsgErrorCodes ''BAD_SECURITY_TYPE''
   \<and> filter (\<lambda>(n, c). c = 0) CompMsgErrorCodes = [(''OK'', COMP_MSG_ERR_OK)]"
  by code_simp

text \<open>
  The header asks that the codes shared with \<^verbatim>\<open>dataView.h\<close> "must correspond": every
  code of \<open>enum DataViewErrorCode\<close> has the same value in \<open>enum CompMsgErrorCodes\<close>, so a code
  returned by a data view can be handed on as a \<open>COMP_MSG_ERR\<close> code; and leaving out
  \<open>BAD_RW_VALUE\<close>, which repeats the value 133 of \<open>BAD_SECURITY_TYPE\<close>, the codes are pairwise
  different, with \<open>OK\<close> the only one that is 0.
\<close>

lemma error_codes_correspond:
  "list_all (\<lambda>(n, c). map_of CompMsgErrorCodes n = Some c) DataViewErrorCode
   \<and> map_of CompMsgErrorCodes ''BAD_RW_VALUE'' = map_of CompMsgErrorCodes ''BAD_SECURITY_TYPE''
   \<and> distinct (map snd (filter (\<lambda>(n, c). n \<noteq> ''BAD_RW_VALUE'') CompMsgErrorCodes))
   \<and> filter (\<lambda>(n, c). c = 0) CompMsgErrorCodes = [(''OK'', COMP_MSG_ERR_OK)]"
  using DataViewErrorCode_shared CompMsgErrorCodes_distinct by blast

end
