(* ===== verification/DataView.thy ===== *)
theory DataView
  imports ErrorCodes
begin

text \<open>
  \<^verbatim>\<open>app/compMsg/dataView.c\<close>: typed big-endian access to a byte buffer.

  A view is the block \<open>data\<close> points into, the length \<open>lgth\<close> it was created with, and a serial
  number.  Every accessor first compares the offset with \<open>lgth\<close>; the comparisons are the code's
  (\<open>offset > lgth\<close>, \<open>offset + 1 > lgth\<close>, \<open>offset + 3 > lgth\<close>, all unsigned), which admit an access
  one byte past the end: the model lets that access go to the block and be undefined where the
  block ends.  The locale \<open>accessor\<close> is the contract the users of a view rely on inside its bounds;
  it is interpreted for the six scalar accessor pairs.
\<close>

subsection \<open>State\<close>

record dataView =
  data :: mem
  lgth :: size_t
  dv_id :: u8

definition OUT_OF_RANGE_get :: "(errcode + 'a) ub" where
  "OUT_OF_RANGE_get = Some (Inl DATA_VIEW_ERR_OUT_OF_RANGE)"

definition OUT_OF_RANGE_set :: "dataView \<Rightarrow> (errcode \<times> dataView) ub" where
  "OUT_OF_RANGE_set self = Some (DATA_VIEW_ERR_OUT_OF_RANGE, self)"

subsection \<open>8 bit accessors\<close>

definition getUint8 :: "dataView \<Rightarrow> i32 \<Rightarrow> (errcode + u8) ub" where
  "getUint8 self offset =
     (if offset > lgth self then OUT_OF_RANGE_get
      else do { b \<leftarrow> rd_byte (data self) offset; Some (Inr b) })"

definition getInt8 :: "dataView \<Rightarrow> i32 \<Rightarrow> (errcode + i8) ub" where
  "getInt8 self offset =
     (if offset > lgth self then OUT_OF_RANGE_get
      else do { b \<leftarrow> rd_byte (data self) offset; Some (Inr b) })"

definition setUint8 :: "dataView \<Rightarrow> i32 \<Rightarrow> u8 \<Rightarrow> (errcode \<times> dataView) ub" where
  "setUint8 self offset value =
     (if offset > lgth self then OUT_OF_RANGE_set self
      else do { m \<leftarrow> wr_byte (data self) offset value;
                Some (DATA_VIEW_ERR_OK, self\<lparr>data := m\<rparr>) })"

definition setInt8 :: "dataView \<Rightarrow> i32 \<Rightarrow> i8 \<Rightarrow> (errcode \<times> dataView) ub" where
  "setInt8 self offset value =
     (if offset > lgth self then OUT_OF_RANGE_set self
      else do { m \<leftarrow> wr_byte (data self) offset (value AND 0xFF);
                Some (DATA_VIEW_ERR_OK, self\<lparr>data := m\<rparr>) })"

subsection \<open>16 bit accessors\<close>

definition getUint16 :: "dataView \<Rightarrow> i32 \<Rightarrow> (errcode + u16) ub" where
  "getUint16 self offset =
     (if offset + 1 > lgth self then OUT_OF_RANGE_get
      else do { b0 \<leftarrow> rd_byte (data self) offset;
                b1 \<leftarrow> rd_byte (data self) (offset + 1);
                Some (Inr (push_bit 8 (ucast b0 AND 0xFF) + push_bit 0 (ucast b1 AND 0xFF))) })"

definition getInt16 :: "dataView \<Rightarrow> i32 \<Rightarrow> (errcode + i16) ub" where
  "getInt16 self offset =
     (if offset + 1 > lgth self then OUT_OF_RANGE_get
      else do { b0 \<leftarrow> rd_byte (data self) offset;
                b1 \<leftarrow> rd_byte (data self) (offset + 1);
                Some (Inr (push_bit 8 (ucast b0 AND 0xFF) + push_bit 0 (ucast b1 AND 0xFF))) })"

definition setUint16 :: "dataView \<Rightarrow> i32 \<Rightarrow> u16 \<Rightarrow> (errcode \<times> dataView) ub" where
  "setUint16 self offset value =
     (if offset + 1 > lgth self then OUT_OF_RANGE_set self
      else do { m0 \<leftarrow> wr_byte (data self) offset (ucast (drop_bit 8 value AND 0xFF));
                m1 \<leftarrow> wr_byte m0 (offset + 1) (ucast (value AND 0xFF));
                Some (DATA_VIEW_ERR_OK, self\<lparr>data := m1\<rparr>) })"

definition setInt16 :: "dataView \<Rightarrow> i32 \<Rightarrow> i16 \<Rightarrow> (errcode \<times> dataView) ub" where
  "setInt16 self offset value =
     (if offset + 1 > lgth self then OUT_OF_RANGE_set self
      else do { m0 \<leftarrow> wr_byte (data self) offset (ucast (signed_drop_bit 8 value AND 0xFF));
                m1 \<leftarrow> wr_byte m0 (offset + 1) (ucast (value AND 0xFF));
                Some (DATA_VIEW_ERR_OK, self\<lparr>data := m1\<rparr>) })"

subsection \<open>32 bit accessors\<close>

definition getUint32 :: "dataView \<Rightarrow> i32 \<Rightarrow> (errcode + u32) ub" where
  "getUint32 self offset =
     (if offset + 3 > lgth self then OUT_OF_RANGE_get
      else do { b0 \<leftarrow> rd_byte (data self) offset;
                b1 \<leftarrow> rd_byte (data self) (offset + 1);
                b2 \<leftarrow> rd_byte (data self) (offset + 2);
                b3 \<leftarrow> rd_byte (data self) (offset + 3);
                Some (Inr (push_bit 24 (ucast b0 AND 0xFF) + push_bit 16 (ucast b1 AND 0xFF)
                           + push_bit 8 (ucast b2 AND 0xFF) + push_bit 0 (ucast b3 AND 0xFF))) })"

definition getInt32 :: "dataView \<Rightarrow> i32 \<Rightarrow> (errcode + i32) ub" where
  "getInt32 self offset =
     (if offset + 3 > lgth self then OUT_OF_RANGE_get
      else do { b0 \<leftarrow> rd_byte (data self) offset;
                b1 \<leftarrow> rd_byte (data self) (offset + 1);
                b2 \<leftarrow> rd_byte (data self) (offset + 2);
                b3 \<leftarrow> rd_byte (data self) (offset + 3);
                Some (Inr (push_bit 24 (ucast b0 AND 0xFF) + push_bit 16 (ucast b1 AND 0xFF)
                           + push_bit 8 (ucast b2 AND 0xFF) + push_bit 0 (ucast b3 AND 0xFF))) })"

definition setUint32 :: "dataView \<Rightarrow> i32 \<Rightarrow> u32 \<Rightarrow> (errcode \<times> dataView) ub" where
  "setUint32 self offset value =
     (if offset + 3 > lgth self then OUT_OF_RANGE_set self
      else do { m0 \<leftarrow> wr_byte (data self) offset (ucast (drop_bit 24 value AND 0xFF));
                m1 \<leftarrow> wr_byte m0 (offset + 1) (ucast (drop_bit 16 value AND 0xFF));
                m2 \<leftarrow> wr_byte m1 (offset + 2) (ucast (drop_bit 8 value AND 0xFF));
                m3 \<leftarrow> wr_byte m2 (offset + 3) (ucast (value AND 0xFF));
                Some (DATA_VIEW_ERR_OK, self\<lparr>data := m3\<rparr>) })"

definition setInt32 :: "dataView \<Rightarrow> i32 \<Rightarrow> i32 \<Rightarrow> (errcode \<times> dataView) ub" where
  "setInt32 self offset value =
     (if offset + 3 > lgth self then OUT_OF_RANGE_set self
      else do { m0 \<leftarrow> wr_byte (data self) offset (ucast (signed_drop_bit 24 value AND 0xFF));
                m1 \<leftarrow> wr_byte m0 (offset + 1) (ucast (signed_drop_bit 16 value AND 0xFF));
                m2 \<leftarrow> wr_byte m1 (offset + 2) (ucast (signed_drop_bit 8 value AND 0xFF));
                m3 \<leftarrow> wr_byte m2 (offset + 3) (ucast (value AND 0xFF));
                Some (DATA_VIEW_ERR_OK, self\<lparr>data := m3\<rparr>) })"

subsection \<open>Vectors of bytes\<close>

definition getUint8Vector :: "dataView \<Rightarrow> i32 \<Rightarrow> size_t \<Rightarrow> (errcode + mem) ub" where
  "getUint8Vector self offset n =
     (if offset + n > lgth self then OUT_OF_RANGE_get
      else do { bs \<leftarrow> rd_block (data self) offset (unat n); Some (Inr bs) })"

definition getInt8Vector :: "dataView \<Rightarrow> i32 \<Rightarrow> size_t \<Rightarrow> (errcode + mem) ub" where
  "getInt8Vector self offset n =
     (if offset + n > lgth self then OUT_OF_RANGE_get
      else do { bs \<leftarrow> rd_block (data self) offset (unat n); Some (Inr bs) })"

text \<open>
  \<open>value\<close> is the block the argument points to; copying more bytes than it holds is undefined.
\<close>

definition setUint8Vector :: "dataView \<Rightarrow> i32 \<Rightarrow> mem \<Rightarrow> size_t \<Rightarrow> (errcode \<times> dataView) ub" where
  "setUint8Vector self offset value n =
     (if offset + n > lgth self then OUT_OF_RANGE_set self
      else do { bs \<leftarrow> rd_block value 0 (unat n);
                m \<leftarrow> wr_block (data self) offset bs;
                Some (DATA_VIEW_ERR_OK, self\<lparr>data := m\<rparr>) })"

definition setInt8Vector :: "dataView \<Rightarrow> i32 \<Rightarrow> mem \<Rightarrow> size_t \<Rightarrow> (errcode \<times> dataView) ub" where
  "setInt8Vector self offset value n =
     (if offset + n > lgth self then OUT_OF_RANGE_set self
      else do { bs \<leftarrow> rd_block value 0 (unat n);
                m \<leftarrow> wr_block (data self) offset bs;
                Some (DATA_VIEW_ERR_OK, self\<lparr>data := m\<rparr>) })"

subsection \<open>Vectors of 16 and 32 bit values\<close>

text \<open>
  The loops count \<open>idx\<close> up to the number of elements and call the scalar accessor with the
  \<^emph>\<open>same\<close> \<open>offset\<close> in every round, as the code does.  \<open>get_loop\<close> and \<open>set_loop\<close> are that
  \<open>while\<close> loop, for the accessor it calls.
\<close>

primrec get_loop :: "(errcode + 'a) ub \<Rightarrow> nat \<Rightarrow> (errcode + 'a list) ub" where
  "get_loop rd 0 = Some (Inr [])"
| "get_loop rd (Suc k) =
     checkGet rd (\<lambda>v. checkGet (get_loop rd k) (\<lambda>vs. Some (Inr (v # vs))))"

primrec set_loop ::
  "(dataView \<Rightarrow> 'a \<Rightarrow> (errcode \<times> dataView) ub) \<Rightarrow> dataView \<Rightarrow> 'a list \<Rightarrow> (errcode \<times> dataView) ub" where
  "set_loop wr self [] = Some (DATA_VIEW_ERR_OK, self)"
| "set_loop wr self (v # vs) = checkErrOK (wr self v) (\<lambda>self'. set_loop wr self' vs)"

definition getUint16Vector :: "dataView \<Rightarrow> i32 \<Rightarrow> size_t \<Rightarrow> (errcode + u16 list) ub" where
  "getUint16Vector self offset n =
     (if offset + n * 2 > lgth self then OUT_OF_RANGE_get
      else get_loop (getUint16 self offset) (unat n))"

definition getInt16Vector :: "dataView \<Rightarrow> i32 \<Rightarrow> size_t \<Rightarrow> (errcode + i16 list) ub" where
  "getInt16Vector self offset n =
     (if offset + n * 2 > lgth self then OUT_OF_RANGE_get
      else get_loop (getInt16 self offset) (unat n))"

definition setUint16Vector :: "dataView \<Rightarrow> i32 \<Rightarrow> u16 list \<Rightarrow> (errcode \<times> dataView) ub" where
  "setUint16Vector self offset value =
     (if offset + word_of_nat (length value) * 2 > lgth self then OUT_OF_RANGE_set self
      else set_loop (\<lambda>dv. setUint16 dv offset) self value)"

definition setInt16Vector :: "dataView \<Rightarrow> i32 \<Rightarrow> i16 list \<Rightarrow> (errcode \<times> dataView) ub" where
  "setInt16Vector self offset value =
     (if offset + word_of_nat (length value) * 2 > lgth self then OUT_OF_RANGE_set self
      else set_loop (\<lambda>dv. setInt16 dv offset) self value)"

definition getUint32Vector :: "dataView \<Rightarrow> i32 \<Rightarrow> size_t \<Rightarrow> (errcode + u32 list) ub" where
  "getUint32Vector self offset n =
     (if offset + n * 4 > lgth self then OUT_OF_RANGE_get
      else get_loop (getUint32 self offset) (unat n))"

definition getInt32Vector :: "dataView \<Rightarrow> i32 \<Rightarrow> size_t \<Rightarrow> (errcode + i32 list) ub" where
  "getInt32Vector self offset n =
     (if offset + n * 4 > lgth self then OUT_OF_RANGE_get
      else get_loop (getInt32 self offset) (unat n))"

definition setUint32Vector :: "dataView \<Rightarrow> i32 \<Rightarrow> u32 list \<Rightarrow> (errcode \<times> dataView) ub" where
  "setUint32Vector self offset value =
     (if offset + word_of_nat (length value) * 4 > lgth self then OUT_OF_RANGE_set self
      else set_loop (\<lambda>dv. setUint32 dv offset) self value)"

definition setInt32Vector :: "dataView \<Rightarrow> i32 \<Rightarrow> i32 list \<Rightarrow> (errcode \<times> dataView) ub" where
  "setInt32Vector self offset value =
     (if offset + word_of_nat (length value) * 4 > lgth self then OUT_OF_RANGE_set self
      else set_loop (\<lambda>dv. setInt32 dv offset) self value)"

subsection \<open>The view itself\<close>

definition setDataViewData :: "dataView \<Rightarrow> mem \<Rightarrow> size_t \<Rightarrow> errcode \<times> dataView" where
  "setDataViewData self d n = (DATA_VIEW_ERR_OK, self\<lparr>data := d, lgth := n\<rparr>)"

definition getDataViewData :: "dataView \<Rightarrow> errcode \<times> mem \<times> size_t" where
  "getDataViewData self = (DATA_VIEW_ERR_OK, data self, lgth self)"

text \<open>
  The static counter \<open>dataViewId\<close> is passed in and out; \<open>ok\<close> tells whether \<open>os_zalloc\<close> returned a
  block.
\<close>

definition newDataView :: "bool \<Rightarrow> u8 \<Rightarrow> mem \<Rightarrow> size_t \<Rightarrow> u8 \<times> dataView option" where
  "newDataView ok dataViewId d n =
     (if \<not> ok then (dataViewId, None)
      else (dataViewId + 1, Some \<lparr>data = d, lgth = n, dv_id = dataViewId + 1\<rparr>))"

subsection \<open>The contract of the accessors\<close>

text \<open>A view is well formed when its length is the length of its block.\<close>

definition wf_view :: "dataView \<Rightarrow> bool" where
  "wf_view v \<longleftrightarrow> length (data v) = unat (lgth v)"

definition fits :: "dataView \<Rightarrow> u32 \<Rightarrow> nat \<Rightarrow> bool" where
  "fits v off n \<longleftrightarrow> wf_view v \<and> unat off + n \<le> unat (lgth v)"

text \<open>
  What a user of a view relies on: inside the view a value is stored as its \<open>width\<close> bytes
  \<open>enc x\<close> at its offset, nothing else changes, and it is read back from those bytes.
\<close>

locale accessor =
  fixes width :: nat
    and enc :: "'a \<Rightarrow> mem"
    and dec :: "mem \<Rightarrow> 'a"
    and getv :: "dataView \<Rightarrow> u32 \<Rightarrow> (errcode + 'a) ub"
    and setv :: "dataView \<Rightarrow> u32 \<Rightarrow> 'a \<Rightarrow> (errcode \<times> dataView) ub"
  assumes length_enc: "length (enc x) = width"
    and dec_enc: "dec (enc x) = x"
    and getv_fits: "fits v off width \<Longrightarrow>
      getv v off = Some (Inr (dec (take width (drop (unat off) (data v)))))"
    and setv_fits: "fits v off width \<Longrightarrow>
      setv v off x = Some (DATA_VIEW_ERR_OK, v\<lparr>data := put (data v) (unat off) (enc x)\<rparr>)"
begin

lemma fits_kept: "fits v off width \<Longrightarrow> fits (v\<lparr>data := put (data v) a bs\<rparr>) b n = fits v b n"
  by (simp add: fits_def wf_view_def)

lemma get_set_same:
  assumes "fits v off width"
  shows "\<exists>v'. setv v off x = Some (DATA_VIEW_ERR_OK, v') \<and> getv v' off = Some (Inr x)
    \<and> lgth v' = lgth v \<and> dv_id v' = dv_id v"
proof -
  have "unat off + length (enc x) \<le> length (data v)"
    using assms by (simp add: length_enc fits_def wf_view_def)
  from take_drop_put_same [OF this]
  have "take width (drop (unat off) (put (data v) (unat off) (enc x))) = enc x"
    by (simp add: length_enc)
  then show ?thesis
    using assms by (simp add: setv_fits getv_fits fits_kept dec_enc)
qed

lemma get_set_disjoint:
  assumes "fits v off width" and "fits v a width" and "unat a + width \<le> unat off \<or> unat off + width \<le> unat a"
    and "setv v off x = Some (rc, v')"
  shows "getv v' a = getv v a"
proof -
  have v': "v' = v\<lparr>data := put (data v) (unat off) (enc x)\<rparr>"
    using assms(1,4) by (simp add: setv_fits)
  have "take width (drop (unat a) (put (data v) (unat off) (enc x)))
      = take width (drop (unat a) (data v))"
    using assms by (intro take_drop_put_disjoint) (auto simp: fits_def wf_view_def length_enc)
  then show ?thesis
    using assms by (simp add: v' getv_fits fits_kept)
qed

lemma set_set_same:
  assumes "fits v off width"
  shows "checkErrOK (setv v off x) (\<lambda>v'. setv v' off y) = setv v off y"
  using assms by (simp add: setv_fits fits_kept put_put_same length_enc fits_def wf_view_def)

lemma set_loop_last:
  assumes "fits v off width" and "xs \<noteq> []"
  shows "set_loop (\<lambda>dv. setv dv off) v xs = setv v off (last xs)"
  using assms(2,1)
proof (induction xs arbitrary: v rule: list_nonempty_induct)
  case (single x)
  then show ?case by (simp add: setv_fits)
next
  case (cons x xs)
  let ?v = "v\<lparr>data := put (data v) (unat off) (enc x)\<rparr>"
  have "set_loop (\<lambda>dv. setv dv off) v (x # xs) = set_loop (\<lambda>dv. setv dv off) ?v xs"
    using cons.prems by (simp add: setv_fits)
  also have "\<dots> = setv ?v off (last xs)"
    using cons by (simp add: fits_kept)
  also have "\<dots> = setv v off (last xs)"
    using set_set_same [of v off x "last xs"] cons.prems by (simp add: setv_fits)
  finally show ?case using cons.hyps by simp
qed

lemma get_loop_replicate:
  assumes "fits v off width"
  shows "get_loop (getv v off) n
    = Some (Inr (replicate n (dec (take width (drop (unat off) (data v))))))"
  by (induction n) (simp_all add: getv_fits assms)

end

text \<open>Two accessors on one view: a store with one leaves disjoint fields read by the other.\<close>

locale accessor_pair = A: accessor wa ea da ga sa + B: accessor wb eb db gb sb
  for wa :: nat and ea :: "'a \<Rightarrow> mem" and da :: "mem \<Rightarrow> 'a"
    and ga :: "dataView \<Rightarrow> u32 \<Rightarrow> (errcode + 'a) ub"
    and sa :: "dataView \<Rightarrow> u32 \<Rightarrow> 'a \<Rightarrow> (errcode \<times> dataView) ub"
    and wb :: nat and eb :: "'b \<Rightarrow> mem" and db :: "mem \<Rightarrow> 'b"
    and gb :: "dataView \<Rightarrow> u32 \<Rightarrow> (errcode + 'b) ub"
    and sb :: "dataView \<Rightarrow> u32 \<Rightarrow> 'b \<Rightarrow> (errcode \<times> dataView) ub"
begin

lemma frame:
  assumes "fits v off wa" and "fits v a wb" and "unat a + wb \<le> unat off \<or> unat off + wa \<le> unat a"
    and "sa v off x = Some (rc, v')"
  shows "gb v' a = gb v a"
proof -
  have v': "v' = v\<lparr>data := put (data v) (unat off) (ea x)\<rparr>"
    using assms(1,4) by (simp add: A.setv_fits)
  have "take wb (drop (unat a) (put (data v) (unat off) (ea x))) = take wb (drop (unat a) (data v))"
    using assms by (intro take_drop_put_disjoint) (auto simp: fits_def wf_view_def A.length_enc)
  then show ?thesis
    using assms by (simp add: v' B.getv_fits A.fits_kept)
qed

lemma stores_commute:
  assumes "fits v off wa" and "fits v a wb" and "unat a + wb \<le> unat off \<or> unat off + wa \<le> unat a"
  shows "checkErrOK (sa v off x) (\<lambda>v'. sb v' a y) = checkErrOK (sb v a y) (\<lambda>v'. sa v' off x)"
proof -
  have "put (put (data v) (unat off) (ea x)) (unat a) (eb y)
      = put (put (data v) (unat a) (eb y)) (unat off) (ea x)"
    using assms by (intro put_put_disjoint) (auto simp: fits_def wf_view_def A.length_enc B.length_enc)
  then show ?thesis
    using assms by (simp add: A.setv_fits B.setv_fits A.fits_kept B.fits_kept)
qed

end

subsection \<open>Outcomes inside and outside the view\<close>

lemma rd_byte_in: "unat off < length m \<Longrightarrow> rd_byte m off = Some (m ! unat off)"
  by (simp add: rd_byte_def)

lemma rd_byte_out: "length m \<le> unat off \<Longrightarrow> rd_byte m off = None"
  by (simp add: rd_byte_def)

lemma fits_offsets:
  assumes "fits v off n"
  shows "1 < n \<Longrightarrow> unat (off + 1) = unat off + 1"
    and "2 < n \<Longrightarrow> unat (off + 2) = unat off + 2"
    and "3 < n \<Longrightarrow> unat (off + 3) = unat off + 3"
  using assms unat_u32_less [of "lgth v"] by (simp_all add: fits_def unat_plus_numeral)

lemma nth_take_drop: "i < n \<Longrightarrow> off + n \<le> length m \<Longrightarrow> take n (drop off m) ! i = m ! (off + i)"
  by simp

lemma get8_fits:
  assumes "fits v off 1"
  shows "getUint8 v off = Some (Inr (hd (take 1 (drop (unat off) (data v)))))"
  using assms
  by (auto simp: getUint8_def fits_def wf_view_def rd_byte_def less_u32 hd_drop_conv_nth)

lemma set8_fits:
  assumes "fits v off 1"
  shows "setUint8 v off x = Some (0, v\<lparr>data := put (data v) (unat off) [x]\<rparr>)"
  using assms by (auto simp: setUint8_def fits_def wf_view_def wr_byte_def less_u32)

lemma get16_fits:
  assumes "fits v off 2"
  shows "getUint16 v off = Some (Inr (from_be16 (take 2 (drop (unat off) (data v)))))"
  using assms fits_offsets [OF assms]
  by (auto simp: getUint16_def fits_def wf_view_def rd_byte_def less_u32 from_be16_def)

lemma set16_fits:
  assumes "fits v off 2"
  shows "setUint16 v off x = Some (0, v\<lparr>data := put (data v) (unat off) (be16 x)\<rparr>)"
  using assms fits_offsets [OF assms]
  by (auto simp: setUint16_def fits_def wf_view_def wr_byte_def less_u32 be16_def)

lemma get32_fits:
  assumes "fits v off 4"
  shows "getUint32 v off = Some (Inr (from_be32 (take 4 (drop (unat off) (data v)))))"
  using assms fits_offsets [OF assms]
  by (auto simp: getUint32_def fits_def wf_view_def rd_byte_def less_u32 from_be32_def)

lemma set32_fits:
  assumes "fits v off 4"
  shows "setUint32 v off x = Some (0, v\<lparr>data := put (data v) (unat off) (be32 x)\<rparr>)"
  using assms fits_offsets [OF assms]
  by (auto simp: setUint32_def fits_def wf_view_def wr_byte_def less_u32 be32_def numeral_eq_Suc)

text \<open>On the bits, the signed accessors are the unsigned ones.\<close>

lemma getInt_eq: "getInt8 = getUint8" "getInt16 = getUint16" "getInt32 = getUint32"
  by (simp_all add: fun_eq_iff getInt8_def getUint8_def getInt16_def getUint16_def
      getInt32_def getUint32_def)

lemma setInt_eq: "setInt8 = setUint8" "setInt16 = setUint16" "setInt32 = setUint32"
  by (simp_all add: fun_eq_iff setInt8_def setUint8_def setInt16_def setUint16_def
      setInt32_def setUint32_def signed_drop_byte)

subsection \<open>The accessors keep the contract\<close>

interpretation acc_u8: accessor 1 "\<lambda>x. [x]" hd getUint8 setUint8
  by unfold_locales (simp_all only: get8_fits set8_fits list.size list.sel One_nat_def)

interpretation acc_i8: accessor 1 "\<lambda>x. [x]" hd getInt8 setInt8
  unfolding getInt_eq setInt_eq by (rule acc_u8.accessor_axioms)

interpretation acc_u16: accessor 2 be16 from_be16 getUint16 setUint16
  by unfold_locales (simp_all add: get16_fits set16_fits)

interpretation acc_i16: accessor 2 be16 from_be16 getInt16 setInt16
  unfolding getInt_eq setInt_eq by (rule acc_u16.accessor_axioms)

interpretation acc_u32: accessor 4 be32 from_be32 getUint32 setUint32
  by unfold_locales (simp_all add: get32_fits set32_fits)

interpretation acc_i32: accessor 4 be32 from_be32 getInt32 setInt32
  unfolding getInt_eq setInt_eq by (rule acc_u32.accessor_axioms)

interpretation u16_u8: accessor_pair 2 be16 from_be16 getUint16 setUint16
  1 "\<lambda>x. [x]" hd getUint8 setUint8 ..

interpretation u16_u32: accessor_pair 2 be16 from_be16 getUint16 setUint16
  4 be32 from_be32 getUint32 setUint32 ..

interpretation u32_u16: accessor_pair 4 be32 from_be32 getUint32 setUint32
  2 be16 from_be16 getUint16 setUint16 ..

lemmas view_fits [dv_simps] =
  get8_fits set8_fits get16_fits set16_fits get32_fits set32_fits

subsection \<open>Outcomes at the end of the view\<close>

text \<open>
  The offset \<open>-1\<close> is outside every block.  An access that passes the code's comparison without
  fitting touches either that offset or the one just past the end.
\<close>

lemma unat_minus_1: "unat (- 1 :: u32) = 4294967295"
  by (simp add: unsigned_minus_1_eq_mask mask_eq_exp_minus_1)

lemma bytes_at_minus_1:
  assumes "wf_view v"
  shows "rd_byte (data v) (- 1) = None"
    and "length m = length (data v) \<Longrightarrow> wr_byte m (- 1) b = None"
  using assms unat_u32_less [of "lgth v"]
  by (auto simp: rd_byte_def wr_byte_def wf_view_def unat_minus_1)

lemma unat_plus_no_wrap:
  "off \<noteq> -1 \<Longrightarrow> unat (off + 1) = unat off + 1"
  "off \<noteq> -1 \<Longrightarrow> off \<noteq> -2 \<Longrightarrow> off \<noteq> -3 \<Longrightarrow> unat (off + 3) = unat off + 3" for off :: u32
  using unat_u32_less [of off]
  by (simp_all add: unat_plus_numeral word_unat_eq_iff unat_minus_1)

lemma not_fits16:
  assumes "wf_view v" and "\<not> unat off + 2 \<le> unat (lgth v)" and "off + 1 \<le> lgth v"
  shows "off = -1 \<or> unat (off + 1) = length (data v)"
proof (cases "off = -1")
  case False
  then show ?thesis
    using assms unat_plus_no_wrap(1) [of off] by (simp add: wf_view_def word_le_nat_alt)
qed simp

lemma not_fits32:
  assumes "wf_view v" and "\<not> unat off + 4 \<le> unat (lgth v)" and "off + 3 \<le> lgth v"
  shows "off = -1 \<or> off = -2 \<or> off = -3 \<or> unat (off + 3) = length (data v)"
proof (cases "off = -1 \<or> off = -2 \<or> off = -3")
  case False
  then show ?thesis
    using assms unat_plus_no_wrap(2) [of off] by (simp add: wf_view_def word_le_nat_alt)
qed blast

text \<open>Outside the comparison the code is \<open>OUT_OF_RANGE\<close> and nothing is touched.\<close>

lemma out_of_range:
  "lgth v < off \<Longrightarrow> getUint8 v off = Some (Inl DATA_VIEW_ERR_OUT_OF_RANGE)"
  "lgth v < off + 1 \<Longrightarrow> getUint16 v off = Some (Inl DATA_VIEW_ERR_OUT_OF_RANGE)"
  "lgth v < off + 3 \<Longrightarrow> getUint32 v off = Some (Inl DATA_VIEW_ERR_OUT_OF_RANGE)"
  "lgth v < off \<Longrightarrow> setUint8 v off a = Some (DATA_VIEW_ERR_OUT_OF_RANGE, v)"
  "lgth v < off + 1 \<Longrightarrow> setUint16 v off b = Some (DATA_VIEW_ERR_OUT_OF_RANGE, v)"
  "lgth v < off + 3 \<Longrightarrow> setUint32 v off c = Some (DATA_VIEW_ERR_OUT_OF_RANGE, v)"
  by (simp_all add: getUint8_def getUint16_def getUint32_def setUint8_def setUint16_def
      setUint32_def OUT_OF_RANGE_get_def OUT_OF_RANGE_set_def)

lemma getUint16_not_fits:
  assumes "wf_view v" and "\<not> unat off + 2 \<le> unat (lgth v)" and "off + 1 \<le> lgth v"
  shows "getUint16 v off = None"
  using not_fits16 [OF assms] assms(3) bytes_at_minus_1 [OF assms(1)]
  by (auto simp: getUint16_def rd_byte_out split: bind_splits)

lemma getUint32_not_fits:
  assumes "wf_view v" and "\<not> unat off + 4 \<le> unat (lgth v)" and "off + 3 \<le> lgth v"
  shows "getUint32 v off = None"
  using not_fits32 [OF assms] assms(3) bytes_at_minus_1 [OF assms(1)]
  by (auto simp: getUint32_def rd_byte_out split: bind_splits)

lemma wr_byte_length: "wr_byte m off b = Some m' \<Longrightarrow> length m' = length m"
  by (auto simp: wr_byte_def split: if_splits)

lemma wr_byte_out: "length m \<le> unat off \<Longrightarrow> wr_byte m off b = None"
  by (simp add: wr_byte_def)

lemma setUint16_not_fits:
  assumes "wf_view v" and "\<not> unat off + 2 \<le> unat (lgth v)" and "off + 1 \<le> lgth v"
  shows "setUint16 v off x = None"
  using not_fits16 [OF assms] assms(3) bytes_at_minus_1 [OF assms(1)]
  by (auto simp: setUint16_def wr_byte_out dest: wr_byte_length split: bind_splits)

lemma setUint32_not_fits:
  assumes "wf_view v" and "\<not> unat off + 4 \<le> unat (lgth v)" and "off + 3 \<le> lgth v"
  shows "setUint32 v off x = None"
  using not_fits32 [OF assms] assms(1) assms(3) [THEN leD] unat_u32_less [of "lgth v"]
  by (elim disjE) (simp_all add: setUint32_def wr_byte_def wf_view_def unat_minus_1)

subsection \<open>Properties\<close>

text \<open>
  Outcome of the unsigned scalar getters at every offset of a well-formed view: the
  big-endian value when the field lies inside the view, the code \<open>OUT_OF_RANGE\<close> when the range
  check fires, and undefined behaviour in the remaining cases, where the comparison with \<open>>\<close>
  admits an access that ends one byte past the view (or a small negative offset).
\<close>

lemma scalar_get_outcome:
  assumes "wf_view v"
  shows "getUint8 v off =
      (if unat off + 1 \<le> unat (lgth v) then Some (Inr (data v ! unat off))
       else if off \<le> lgth v then None else Some (Inl DATA_VIEW_ERR_OUT_OF_RANGE))
    \<and> getUint16 v off =
      (if unat off + 2 \<le> unat (lgth v) then Some (Inr (from_be16 (take 2 (drop (unat off) (data v)))))
       else if off + 1 \<le> lgth v then None else Some (Inl DATA_VIEW_ERR_OUT_OF_RANGE))
    \<and> getUint32 v off =
      (if unat off + 4 \<le> unat (lgth v) then Some (Inr (from_be32 (take 4 (drop (unat off) (data v)))))
       else if off + 3 \<le> lgth v then None else Some (Inl DATA_VIEW_ERR_OUT_OF_RANGE))"
proof (intro conjI)
  show "getUint8 v off =
      (if unat off + 1 \<le> unat (lgth v) then Some (Inr (data v ! unat off))
       else if off \<le> lgth v then None else Some (Inl DATA_VIEW_ERR_OUT_OF_RANGE))"
    using assms by (simp add: getUint8_def OUT_OF_RANGE_get_def rd_byte_def wf_view_def
        word_le_nat_alt less_u32)
qed (use assms in \<open>simp_all add: get16_fits get32_fits fits_def getUint16_not_fits
      getUint32_not_fits out_of_range not_le\<close>)

lemma scalar_get_outcome_witness:
  "wf_view \<lparr>data = [1, 2], lgth = 2, dv_id = 1\<rparr>
   \<and> getUint16 \<lparr>data = [1, 2], lgth = 2, dv_id = 1\<rparr> 0 = Some (Inr 0x102)
   \<and> getUint16 \<lparr>data = [1, 2], lgth = 2, dv_id = 1\<rparr> 1 = None
   \<and> getUint16 \<lparr>data = [1, 2], lgth = 2, dv_id = 1\<rparr> 2 = Some (Inl DATA_VIEW_ERR_OUT_OF_RANGE)"
proof -
  let ?v = "\<lparr>data = [1, 2], lgth = 2, dv_id = 1\<rparr>"
  have h: "wf_view ?v" by (simp add: wf_view_def)
  show ?thesis
    using scalar_get_outcome [OF h, of 0] scalar_get_outcome [OF h, of 1]
      scalar_get_outcome [OF h, of 2] h
    by (simp add: from_be16_def)
qed

text \<open>
  Outcome of the unsigned scalar setters at every offset of a well-formed view: inside
  the view exactly the bytes of the field are replaced by the big-endian encoding and the length
  is kept; on \<open>OUT_OF_RANGE\<close> the view is unchanged; otherwise the store leaves the block.
\<close>

lemma scalar_set_outcome:
  assumes "wf_view v"
  shows "setUint8 v off a =
      (if unat off + 1 \<le> unat (lgth v) then Some (DATA_VIEW_ERR_OK, v\<lparr>data := put (data v) (unat off) [a]\<rparr>)
       else if off \<le> lgth v then None else Some (DATA_VIEW_ERR_OUT_OF_RANGE, v))
    \<and> setUint16 v off b =
      (if unat off + 2 \<le> unat (lgth v) then Some (DATA_VIEW_ERR_OK, v\<lparr>data := put (data v) (unat off) (be16 b)\<rparr>)
       else if off + 1 \<le> lgth v then None else Some (DATA_VIEW_ERR_OUT_OF_RANGE, v))
    \<and> setUint32 v off c =
      (if unat off + 4 \<le> unat (lgth v) then Some (DATA_VIEW_ERR_OK, v\<lparr>data := put (data v) (unat off) (be32 c)\<rparr>)
       else if off + 3 \<le> lgth v then None else Some (DATA_VIEW_ERR_OUT_OF_RANGE, v))"
proof (intro conjI)
  show "setUint8 v off a =
      (if unat off + 1 \<le> unat (lgth v) then Some (DATA_VIEW_ERR_OK, v\<lparr>data := put (data v) (unat off) [a]\<rparr>)
       else if off \<le> lgth v then None else Some (DATA_VIEW_ERR_OUT_OF_RANGE, v))"
    using assms by (simp add: setUint8_def OUT_OF_RANGE_set_def wr_byte_def wf_view_def
        word_le_nat_alt less_u32)
qed (use assms in \<open>simp_all add: set16_fits set32_fits fits_def setUint16_not_fits
      setUint32_not_fits out_of_range not_le\<close>)

lemma scalar_set_outcome_witness:
  "wf_view \<lparr>data = [0, 0, 0], lgth = 3, dv_id = 1\<rparr>
   \<and> setUint16 \<lparr>data = [0, 0, 0], lgth = 3, dv_id = 1\<rparr> 1 0x1234
     = Some (DATA_VIEW_ERR_OK, \<lparr>data = [0, 0x12, 0x34], lgth = 3, dv_id = 1\<rparr>)
   \<and> setUint16 \<lparr>data = [0, 0, 0], lgth = 3, dv_id = 1\<rparr> 2 0x1234 = None"
proof -
  let ?v = "\<lparr>data = [0, 0, 0], lgth = 3, dv_id = 1\<rparr>"
  have h: "wf_view ?v" by (simp add: wf_view_def)
  show ?thesis
    using scalar_set_outcome [OF h, of 1 0 "0x1234" 0] scalar_set_outcome [OF h, of 2 0 "0x1234" 0] h
    by (simp add: be16_def)
qed

text \<open>
  The outcome of a scalar access of \<open>w\<close> bytes at any offset: the field lies inside the view, or the comparison of the code lets
  an access through that leaves the block, or it refuses.
\<close>

definition get_outcome :: "nat \<Rightarrow> (mem \<Rightarrow> 'a) \<Rightarrow> dataView \<Rightarrow> u32 \<Rightarrow> (errcode + 'a) ub" where
  "get_outcome w dec v off =
    (if unat off + w \<le> unat (lgth v) then Some (Inr (dec (take w (drop (unat off) (data v)))))
     else if off + word_of_nat (w - 1) \<le> lgth v then None else Some (Inl DATA_VIEW_ERR_OUT_OF_RANGE))"

definition set_outcome :: "nat \<Rightarrow> ('a \<Rightarrow> mem) \<Rightarrow> dataView \<Rightarrow> u32 \<Rightarrow> 'a \<Rightarrow> (errcode \<times> dataView) ub" where
  "set_outcome w enc v off x =
    (if unat off + w \<le> unat (lgth v) then Some (DATA_VIEW_ERR_OK, v\<lparr>data := put (data v) (unat off) (enc x)\<rparr>)
     else if off + word_of_nat (w - 1) \<le> lgth v then None else Some (DATA_VIEW_ERR_OUT_OF_RANGE, v))"

lemma unsigned_outcomes:
  assumes "wf_view v"
  shows "getUint8 v off = get_outcome 1 hd v off" "getUint16 v off = get_outcome 2 from_be16 v off"
    "getUint32 v off = get_outcome 4 from_be32 v off"
    "setUint8 v off a = set_outcome 1 (\<lambda>x. [x]) v off a" "setUint16 v off b = set_outcome 2 be16 v off b"
    "setUint32 v off c = set_outcome 4 be32 v off c"
proof -
  have "hd (take 1 (drop (unat off) (data v))) = data v ! unat off" if "unat off + 1 \<le> unat (lgth v)"
    using that assms by (simp add: wf_view_def hd_drop_conv_nth)
  then show "getUint8 v off = get_outcome 1 hd v off" using scalar_get_outcome [OF assms, of off] by (simp add: get_outcome_def)
qed (use scalar_get_outcome [OF assms, of off] scalar_set_outcome [OF assms, of off a b c] in \<open>simp_all add: get_outcome_def set_outcome_def\<close>)

text \<open>
  Claim C36.  Outcome of each of the six scalar getters and six scalar setters, 8, 16 and 32 bits wide, unsigned and signed, at every
  offset of a well-formed view.  Inside the view a getter returns the big-endian value and a setter
  replaces exactly the bytes of the field; when the range check fires the code is \<open>OUT_OF_RANGE\<close> and nothing is changed; in the
  remaining cases, where the comparison with \<open>>\<close> admits an access that ends one byte past the view (or at a small
  negative offset), the access leaves the block.
\<close>

theorem scalar_outcome:
  assumes "wf_view v"
  shows "getUint8 v off = get_outcome 1 hd v off \<and> getInt8 v off = get_outcome 1 hd v off
    \<and> getUint16 v off = get_outcome 2 from_be16 v off \<and> getInt16 v off = get_outcome 2 from_be16 v off
    \<and> getUint32 v off = get_outcome 4 from_be32 v off \<and> getInt32 v off = get_outcome 4 from_be32 v off
    \<and> setUint8 v off a = set_outcome 1 (\<lambda>x. [x]) v off a \<and> setInt8 v off a = set_outcome 1 (\<lambda>x. [x]) v off a
    \<and> setUint16 v off b = set_outcome 2 be16 v off b \<and> setInt16 v off b = set_outcome 2 be16 v off b
    \<and> setUint32 v off c = set_outcome 4 be32 v off c \<and> setInt32 v off c = set_outcome 4 be32 v off c"
  unfolding getInt_eq setInt_eq using unsigned_outcomes [OF assms] by blast

theorem scalar_outcome_witness:
  "getInt16 \<lparr>data = [1, 2], lgth = 2, dv_id = 1\<rparr> 0 = Some (Inr 0x102)
   \<and> getInt16 \<lparr>data = [1, 2], lgth = 2, dv_id = 1\<rparr> 1 = None
   \<and> setInt8 \<lparr>data = [1, 2], lgth = 2, dv_id = 1\<rparr> 1 7 = Some (DATA_VIEW_ERR_OK, \<lparr>data = [1, 7], lgth = 2, dv_id = 1\<rparr>)
   \<and> setInt8 \<lparr>data = [1, 2], lgth = 2, dv_id = 1\<rparr> 2 7 = None
   \<and> setInt8 \<lparr>data = [1, 2], lgth = 2, dv_id = 1\<rparr> 3 7 = Some (DATA_VIEW_ERR_OUT_OF_RANGE, \<lparr>data = [1, 2], lgth = 2, dv_id = 1\<rparr>)"
proof -
  have h: "wf_view \<lparr>data = [1, 2], lgth = 2, dv_id = 1\<rparr>" by (simp add: wf_view_def)
  have "getInt16 \<lparr>data = [1, 2], lgth = 2, dv_id = 1\<rparr> off = get_outcome 2 from_be16 \<lparr>data = [1, 2], lgth = 2, dv_id = 1\<rparr> off"
    "setInt8 \<lparr>data = [1, 2], lgth = 2, dv_id = 1\<rparr> off 7 = set_outcome 1 (\<lambda>x. [x]) \<lparr>data = [1, 2], lgth = 2, dv_id = 1\<rparr> off 7" for off
    using scalar_outcome [OF h, of off 7 0 0] by blast+
  then show ?thesis by (simp add: get_outcome_def set_outcome_def from_be16_def put_def)
qed

text \<open>
  Claim C37.  Wherever a field lies inside a view, up to its last byte, a stored value is read back
  unchanged, for each of the six pairs of a setter and its getter, and the length of the view is kept.
\<close>

theorem scalar_roundtrip:
  "(fits v off 1 \<longrightarrow> (\<exists>v'. setUint8 v off a = Some (DATA_VIEW_ERR_OK, v') \<and> getUint8 v' off = Some (Inr a) \<and> lgth v' = lgth v))
   \<and> (fits v off 1 \<longrightarrow> (\<exists>v'. setInt8 v off a = Some (DATA_VIEW_ERR_OK, v') \<and> getInt8 v' off = Some (Inr a) \<and> lgth v' = lgth v))
   \<and> (fits v off 2 \<longrightarrow> (\<exists>v'. setUint16 v off b = Some (DATA_VIEW_ERR_OK, v') \<and> getUint16 v' off = Some (Inr b) \<and> lgth v' = lgth v))
   \<and> (fits v off 2 \<longrightarrow> (\<exists>v'. setInt16 v off b = Some (DATA_VIEW_ERR_OK, v') \<and> getInt16 v' off = Some (Inr b) \<and> lgth v' = lgth v))
   \<and> (fits v off 4 \<longrightarrow> (\<exists>v'. setUint32 v off c = Some (DATA_VIEW_ERR_OK, v') \<and> getUint32 v' off = Some (Inr c) \<and> lgth v' = lgth v))
   \<and> (fits v off 4 \<longrightarrow> (\<exists>v'. setInt32 v off c = Some (DATA_VIEW_ERR_OK, v') \<and> getInt32 v' off = Some (Inr c) \<and> lgth v' = lgth v))"
  using acc_u8.get_set_same acc_i8.get_set_same acc_u16.get_set_same acc_i16.get_set_same acc_u32.get_set_same acc_i32.get_set_same
  by meson

theorem scalar_roundtrip_witness:
  "(\<exists>v'. setUint32 \<lparr>data = [0, 0, 0, 0, 0], lgth = 5, dv_id = 1\<rparr> 1 0xDEADBEEF = Some (DATA_VIEW_ERR_OK, v')
        \<and> getUint32 v' 1 = Some (Inr 0xDEADBEEF))
   \<and> (\<exists>v'. setInt16 \<lparr>data = [0, 0, 0, 0, 0], lgth = 5, dv_id = 1\<rparr> 3 0xFFFE = Some (DATA_VIEW_ERR_OK, v') \<and> getInt16 v' 3 = Some (Inr 0xFFFE))
   \<and> (\<exists>v'. setInt8 \<lparr>data = [0, 0, 0, 0, 0], lgth = 5, dv_id = 1\<rparr> 4 0xFF = Some (DATA_VIEW_ERR_OK, v') \<and> getInt8 v' 4 = Some (Inr 0xFF))"
proof -
  let ?v = "\<lparr>data = [0, 0, 0, 0, 0], lgth = 5, dv_id = 1\<rparr>"
  have h: "fits ?v 1 4" "fits ?v 3 2" "fits ?v 4 1" by (simp_all add: fits_def wf_view_def)
  have "\<exists>v'. setUint32 ?v 1 0xDEADBEEF = Some (DATA_VIEW_ERR_OK, v') \<and> getUint32 v' 1 = Some (Inr 0xDEADBEEF)"
    using scalar_roundtrip [of ?v 1 0 0 "0xDEADBEEF"] h(1) by blast
  moreover have "\<exists>v'. setInt16 ?v 3 0xFFFE = Some (DATA_VIEW_ERR_OK, v') \<and> getInt16 v' 3 = Some (Inr 0xFFFE)"
    using scalar_roundtrip [of ?v 3 0 "0xFFFE" 0] h(2) by blast
  moreover have "\<exists>v'. setInt8 ?v 4 0xFF = Some (DATA_VIEW_ERR_OK, v') \<and> getInt8 v' 4 = Some (Inr 0xFF)"
    using scalar_roundtrip [of ?v 4 "0xFF" 0 0] h(3) by blast
  ultimately show ?thesis by blast
qed

text \<open>
  A 16 bit store changes no field that does not overlap it, whatever width the field is
  read with.
\<close>

lemma store_frame:
  assumes "fits v off 2" and "setUint16 v off x = Some (rc, v')"
    and "unat a + n \<le> unat off \<or> unat off + 2 \<le> unat a" and "fits v a n"
  shows "(n = 1 \<longrightarrow> getUint8 v' a = getUint8 v a) \<and> (n = 2 \<longrightarrow> getUint16 v' a = getUint16 v a)
    \<and> (n = 4 \<longrightarrow> getUint32 v' a = getUint32 v a)"
  using assms u16_u8.frame acc_u16.get_set_disjoint u16_u32.frame by blast

lemma store_frame_witness:
  "setUint16 \<lparr>data = [1, 2, 3, 4, 5, 6], lgth = 6, dv_id = 1\<rparr> 4 0
     = Some (DATA_VIEW_ERR_OK, \<lparr>data = [1, 2, 3, 4, 0, 0], lgth = 6, dv_id = 1\<rparr>)
   \<and> getUint32 \<lparr>data = [1, 2, 3, 4, 0, 0], lgth = 6, dv_id = 1\<rparr> 0
     = getUint32 \<lparr>data = [1, 2, 3, 4, 5, 6], lgth = 6, dv_id = 1\<rparr> 0"
proof -
  let ?v = "\<lparr>data = [1, 2, 3, 4, 5, 6], lgth = 6, dv_id = 1\<rparr>"
  let ?v' = "\<lparr>data = [1, 2, 3, 4, 0, 0], lgth = 6, dv_id = 1\<rparr>"
  have f: "fits ?v 4 2" "fits ?v 0 4" by (simp_all add: fits_def wf_view_def)
  have s: "setUint16 ?v 4 0 = Some (DATA_VIEW_ERR_OK, ?v')"
    by (simp add: set16_fits f(1) be16_def)
  show ?thesis using store_frame [OF f(1) s _ f(2)] s by simp
qed

text \<open>
  Bytes stored as a vector inside a view are read back as the same vector.
\<close>

lemma byte_vector_roundtrip:
  assumes "fits v off (unat n)" and "unat n \<le> length value"
  shows "\<exists>v'. setUint8Vector v off value n = Some (DATA_VIEW_ERR_OK, v')
    \<and> getUint8Vector v' off n = Some (Inr (take (unat n) value)) \<and> lgth v' = lgth v"
proof -
  have in_view: "\<not> lgth v < off + n"
    using assms(1) unat_u32_less [of "lgth v"] by (simp add: fits_def less_u32 unat_plus_small)
  have "take (unat n) (drop (unat off) (put (data v) (unat off) (take (unat n) value)))
      = take (unat n) value"
    using assms take_drop_put_same [of "unat off" "take (unat n) value" "data v"]
    by (simp add: fits_def wf_view_def min_absorb2)
  with in_view show ?thesis
    using assms by (simp add: setUint8Vector_def getUint8Vector_def rd_block_def wr_block_def
        fits_def wf_view_def)
qed

lemma byte_vector_roundtrip_witness:
  "fits \<lparr>data = [0, 0, 0], lgth = 3, dv_id = 1\<rparr> 1 (unat (2 :: u32))
   \<and> (\<exists>v'. setUint8Vector \<lparr>data = [0, 0, 0], lgth = 3, dv_id = 1\<rparr> 1 [7, 8] 2 = Some (DATA_VIEW_ERR_OK, v')
        \<and> getUint8Vector v' 1 2 = Some (Inr [7, 8]))"
proof -
  have h: "fits \<lparr>data = [0, 0, 0], lgth = 3, dv_id = 1\<rparr> 1 (unat (2 :: u32))"
    by (simp add: fits_def wf_view_def)
  show ?thesis using h byte_vector_roundtrip [OF h, of "[7, 8]"] by auto
qed

text \<open>
  The loops over 16 bit elements never advance the offset: reading \<open>n\<close> elements gives
  the first one \<open>n\<close> times, and writing a vector leaves only its last element, at the first place.
\<close>

lemma vector16_same_offset:
  assumes "fits v off (2 * unat n)" and "0 < unat n"
    and "fits v off (2 * length value)" and "value \<noteq> []"
  shows "getUint16Vector v off n
      = Some (Inr (replicate (unat n) (from_be16 (take 2 (drop (unat off) (data v))))))
    \<and> setUint16Vector v off value = setUint16 v off (last value)"
proof
  have L: "unat (lgth v) < 4294967296" by (rule unat_u32_less)
  have f: "fits v off 2" using assms(1,2) by (simp add: fits_def)
  have "unat (n * 2) = unat n * 2"
    using assms(1) L by (simp add: fits_def unat_word_ariths)
  then have "\<not> lgth v < off + n * 2"
    using assms(1) L by (simp add: fits_def less_u32 unat_plus_small)
  then show "getUint16Vector v off n
      = Some (Inr (replicate (unat n) (from_be16 (take 2 (drop (unat off) (data v))))))"
    by (simp add: getUint16Vector_def acc_u16.get_loop_replicate [OF f])
  have "unat (word_of_nat (length value) * 2 :: u32) = length value * 2"
    using assms(3) L by (simp add: fits_def unat_word_ariths unat_of_nat)
  then have "\<not> lgth v < off + word_of_nat (length value) * 2"
    using assms(3) L by (simp add: fits_def less_u32 unat_plus_small)
  then show "setUint16Vector v off value = setUint16 v off (last value)"
    by (simp add: setUint16Vector_def acc_u16.set_loop_last [OF f assms(4)])
qed

lemma vector16_same_offset_witness:
  "getUint16Vector \<lparr>data = [0, 1, 0, 2], lgth = 4, dv_id = 1\<rparr> 0 2 = Some (Inr [1, 1])"
proof -
  let ?v = "\<lparr>data = [0, 1, 0, 2], lgth = 4, dv_id = 1\<rparr>"
  have h: "fits ?v 0 (2 * unat (2 :: u32))" "fits ?v 0 (2 * length [3 :: u16, 4])"
    by (simp_all add: fits_def wf_view_def)
  have "replicate 2 (1 :: u16) = [1, 1]" by (simp add: numeral_2_eq_2)
  then show ?thesis using vector16_same_offset [OF h(1) _ h(2)]
    by (simp add: from_be16_def)
qed

end
