(* ===== verification/Base64.thy ===== *)
theory Base64
  imports ErrorCodes
begin

text \<open>
  \<^verbatim>\<open>app/compMsg/compMsgUtil.c\<close>, functions \<open>toBase64\<close> and \<open>fromBase64\<close>.

  The argument \<open>ok\<close> tells whether \<open>os_zalloc\<close> returned a block.  Both functions write through a
  moving pointer into the block they allocated; the model computes the bytes written and is
  undefined when they, with the terminating zero of the encoder, do not fit the allocated size.
  The decoder keeps the length in an \<open>int\<close>: a length that is negative there, or three times of
  which overflows, is undefined.  Plain \<open>char\<close> is unsigned on the target, so \<open>BASE64_INVALID\<close> is the byte 255.
\<close>

subsection \<open>Tables\<close>

definition b64 :: "u8 list" where
  "b64 = map of_char ''ABCDEFGHIJKLMNOPQRSTUVWXYZabcdefghijklmnopqrstuvwxyz0123456789+/''"

definition BASE64_INVALID :: u8 where
  "BASE64_INVALID = 0xFF"

definition BASE64_PADDING :: u8 where
  "BASE64_PADDING = of_char CHR ''=''"

definition unbytes64 :: "u8 list" where
  "unbytes64 = foldl (\<lambda>t i. t[unat (b64 ! i) := word_of_nat i]) (replicate 256 BASE64_INVALID) [0..<64]"

definition ISBASE64 :: "u8 \<Rightarrow> bool" where
  "ISBASE64 c \<longleftrightarrow> unbytes64 ! unat c \<noteq> BASE64_INVALID"

subsection \<open>Encoder\<close>

text \<open>The four 6 bit indices of a group of three bytes.\<close>

definition idx0 :: "u8 \<Rightarrow> u8" where "idx0 a = drop_bit 2 a"
definition idx1 :: "u8 \<Rightarrow> u8 \<Rightarrow> u8" where "idx1 a b = push_bit 4 (a AND 3) OR drop_bit 4 b"
definition idx2 :: "u8 \<Rightarrow> u8 \<Rightarrow> u8" where "idx2 b c = push_bit 2 (b AND 15) OR drop_bit 6 c"
definition idx3 :: "u8 \<Rightarrow> u8" where "idx3 c = c AND 63"

definition quad :: "u8 \<Rightarrow> u8 \<Rightarrow> u8 \<Rightarrow> bool \<Rightarrow> bool \<Rightarrow> u8 list" where
  "quad a b c has_b has_c =
    [b64 ! unat (idx0 a),
     b64 ! unat (idx1 a b),
     if has_b then b64 ! unat (idx2 b c) else BASE64_PADDING,
     if has_c then b64 ! unat (idx3 c) else BASE64_PADDING]"

fun toBase64_loop :: "u8 list \<Rightarrow> u8 list" where
  "toBase64_loop [] = []"
| "toBase64_loop [a] = quad a 0 0 False False"
| "toBase64_loop [a, b] = quad a b 0 True False"
| "toBase64_loop (a # b # c # msg) = quad a b c True True @ toBase64_loop msg"

definition toBase64 :: "bool \<Rightarrow> u8 list \<Rightarrow> (errcode + u8 list) ub" where
  "toBase64 ok msg =
    (let n = word_of_nat (length msg) :: size_t in
     if n = 0 then Some (Inl COMP_MSG_ERR_OUT_OF_MEMORY)
     else if \<not> ok then Some (Inl COMP_MSG_ERR_OUT_OF_MEMORY)
     else let out = toBase64_loop msg in
       if length out + 1 \<le> unat ((n + 2) div 3 * 4 + 1) then Some (Inr out) else None)"

subsection \<open>Decoder\<close>

definition unb :: "u8 \<Rightarrow> u8" where
  "unb c = (unbytes64[unat BASE64_PADDING := 0]) ! unat c"

text \<open>The loop over \<open>blocks\<close> groups of four characters; what is left is the padded group.\<close>

fun fromBase64_blocks :: "nat \<Rightarrow> u8 list \<Rightarrow> u8 list \<times> u8 list" where
  "fromBase64_blocks (Suc k) (p0 # p1 # p2 # p3 # p) =
    (let a = unb p0; b = unb p1; c = unb p2; d = unb p3; (q, rest) = fromBase64_blocks k p in
     ([push_bit 2 a OR drop_bit 4 b, push_bit 4 b OR drop_bit 2 c, push_bit 6 c OR d] @ q, rest))"
| "fromBase64_blocks _ p = ([], p)"

definition fromBase64_pad :: "nat \<Rightarrow> u8 list \<Rightarrow> u8 list" where
  "fromBase64_pad pad p =
    (if pad = 0 then []
     else let a = unb (p ! 0); b = unb (p ! 1) in
       (push_bit 2 a OR drop_bit 4 b)
       # (if pad = 1 then [push_bit 4 b OR drop_bit 2 (unb (p ! 2))] else []))"

definition pad_of :: "u8 list \<Rightarrow> nat" where
  "pad_of enc =
    (let n = length enc in
     if enc ! (n - 1) = BASE64_PADDING then (if enc ! (n - 2) \<noteq> BASE64_PADDING then 1 else 2) else 0)"

definition fromBase64 :: "bool \<Rightarrow> u8 list \<Rightarrow> (errcode + u8 list) ub" where
  "fromBase64 ok enc =
    (let n = length enc in
     if n = 0 then Some (Inl COMP_MSG_ERR_OUT_OF_MEMORY)
     else if n mod 4 \<noteq> 0 then Some (Inl COMP_MSG_ERR_INVALID_BASE64_STRING)
     else if 2 ^ 31 \<le> n then None
     else let pad = pad_of enc; blocks = n div 4 - (if pad = 0 then 0 else 1) in
       if \<not> list_all ISBASE64 (take (n - pad) enc)
       then Some (Inl COMP_MSG_ERR_INVALID_BASE64_STRING)
       else if 2 ^ 31 \<le> 3 * n then None
       else if \<not> ok then Some (Inl COMP_MSG_ERR_OUT_OF_MEMORY)
       else let (q, rest) = fromBase64_blocks blocks enc; out = q @ fromBase64_pad pad rest in
         if length out \<le> 1 + 3 * n div 4 then Some (Inr out) else None)"

subsection \<open>The tables are inverse\<close>

lemma length_b64 [simp]: "length b64 = 64"
  by (simp add: b64_def)

lemma distinct_b64_chars:
  "distinct ''ABCDEFGHIJKLMNOPQRSTUVWXYZabcdefghijklmnopqrstuvwxyz0123456789+/=''"
  by simp

lemma distinct_b64: "distinct (b64 @ [BASE64_PADDING])"
proof -
  have "b64 @ [BASE64_PADDING]
      = map of_char ''ABCDEFGHIJKLMNOPQRSTUVWXYZabcdefghijklmnopqrstuvwxyz0123456789+/=''"
    by (simp add: b64_def BASE64_PADDING_def)
  then show ?thesis
    using distinct_b64_chars inj_of_char_u8 by (simp only: distinct_map) (blast intro: inj_on_subset)
qed

lemma unat_u8_less [simp]: "unat (x :: u8) < 256"
  using unsigned_less [of x] by simp

lemma unat_u8_eq [simp]: "unat x = unat y \<longleftrightarrow> x = y" for x y :: u8
  by (simp flip: word_unat_eq_iff)

lemma length_foldl_update [simp]: "length (foldl (\<lambda>t i. t[f i := g i]) t xs) = length t"
  by (induction xs arbitrary: t) auto

lemma foldl_update_out:
  "j \<notin> f ` set xs \<Longrightarrow> foldl (\<lambda>t i. t[f i := g i]) t xs ! j = t ! j"
  by (induction xs arbitrary: t) auto

lemma foldl_update_in:
  "distinct xs \<Longrightarrow> inj_on f (set xs) \<Longrightarrow> k \<in> set xs \<Longrightarrow> f k < length t \<Longrightarrow>
   foldl (\<lambda>t i. t[f i := g i]) t xs ! f k = g k"
proof (induction xs arbitrary: t)
  case Nil
  then show ?case by simp
next
  case (Cons x xs)
  show ?case
  proof (cases "k \<in> set xs")
    case True
    with Cons show ?thesis by simp
  next
    case False
    then have "f k \<notin> f ` set xs" and "k = x"
      using Cons.prems by (auto simp: inj_on_def)
    with Cons.prems show ?thesis by (simp add: foldl_update_out)
  qed
qed

lemma inj_b64: "inj_on (\<lambda>i. unat (b64 ! i)) (set [0..<64])"
  using distinct_b64 by (simp add: inj_on_def nth_eq_iff_index_eq)

lemma unbytes64_nth: "k < 64 \<Longrightarrow> unbytes64 ! unat (b64 ! k) = word_of_nat k"
  unfolding unbytes64_def using foldl_update_in [OF _ inj_b64, of k "replicate 256 BASE64_INVALID"]
  by simp

lemma unbytes64_other: "c \<notin> set b64 \<Longrightarrow> unbytes64 ! unat c = BASE64_INVALID"
  unfolding unbytes64_def
  by (subst foldl_update_out) (auto simp: in_set_conv_nth)

lemma length_unbytes64 [simp]: "length unbytes64 = 256"
  by (simp add: unbytes64_def)

lemma ISBASE64_iff: "ISBASE64 c \<longleftrightarrow> c \<in> set b64"
proof
  assume "c \<in> set b64"
  then obtain k where k: "k < 64" "c = b64 ! k" by (auto simp: in_set_conv_nth)
  then have "unat (word_of_nat k :: u8) \<noteq> unat BASE64_INVALID"
    by (simp add: unat_of_nat BASE64_INVALID_def)
  with k show "ISBASE64 c" by (auto simp: ISBASE64_def unbytes64_nth)
qed (auto simp: ISBASE64_def intro: unbytes64_other)

lemma b64_nth:
  assumes "k < 64"
  shows "unb (b64 ! k) = word_of_nat k" and "ISBASE64 (b64 ! k)" and "b64 ! k \<noteq> BASE64_PADDING"
proof -
  show "b64 ! k \<noteq> BASE64_PADDING" using distinct_b64 assms by (auto simp: in_set_conv_nth)
  then show "unb (b64 ! k) = word_of_nat k"
    using assms by (simp add: unb_def nth_list_update unbytes64_nth)
  show "ISBASE64 (b64 ! k)" using assms by (simp add: ISBASE64_iff)
qed

lemma unb_padding [simp]: "unb BASE64_PADDING = 0"
  by (simp add: unb_def)

subsection \<open>Bits of one group\<close>

lemma and_masks: "x AND 3 = take_bit 2 x" "x AND 15 = take_bit 4 x" "x AND 63 = take_bit 6 x"
  for x :: u8
proof -
  have "(3 :: u8) = mask 2" "(15 :: u8) = mask 4" "(63 :: u8) = mask 6"
    by (simp_all add: mask_eq_exp_minus_1)
  then show "x AND 3 = take_bit 2 x" "x AND 15 = take_bit 4 x" "x AND 63 = take_bit 6 x"
    by (simp_all add: take_bit_eq_mask)
qed

lemma less_64: "take_bit 6 x = x \<Longrightarrow> unat x < 64" for x :: u8
proof -
  assume "take_bit 6 x = x"
  then have "unat x = take_bit 6 (unat x)" by (metis unsigned_take_bit_eq)
  also have "\<dots> < 2 ^ 6" by (rule take_bit_nat_less_exp)
  finally show ?thesis by simp
qed

lemmas idx_defs = idx0_def idx1_def idx2_def idx3_def and_masks

lemma idx_less: "unat (idx0 a) < 64" "unat (idx1 a b) < 64" "unat (idx2 b c) < 64" "unat (idx3 c) < 64"
  unfolding idx_defs
  by (rule less_64, rule bit_word_eqI, auto simp: bit_simps dest: bit_imp_le_length)+

lemma Suc_Suc_minus_2: "2 \<le> n \<Longrightarrow> Suc (Suc (n - 2)) = n"
  by simp

lemma regroup:
  "push_bit 2 (idx0 a) OR drop_bit 4 (idx1 a b) = a"
  "push_bit 4 (idx1 a b) OR drop_bit 2 (idx2 b c) = b"
  "push_bit 6 (idx2 b c) OR idx3 c = c"
proof -
  have "bit (push_bit 2 (idx0 a) OR drop_bit 4 (idx1 a b)) n = bit a n" if "n < LENGTH(8)" for n
    using that unfolding idx_defs by (cases "n < 2") (auto simp: bit_simps Suc_Suc_minus_2)
  then show "push_bit 2 (idx0 a) OR drop_bit 4 (idx1 a b) = a" by (rule bit_word_eqI)
  have "bit (push_bit 4 (idx1 a b) OR drop_bit 2 (idx2 b c)) n = bit b n" if "n < LENGTH(8)" for n
    using that unfolding idx_defs by (cases "n < 4") (auto simp: bit_simps)
  then show "push_bit 4 (idx1 a b) OR drop_bit 2 (idx2 b c) = b" by (rule bit_word_eqI)
  have "bit (push_bit 6 (idx2 b c) OR idx3 c) n = bit c n" if "n < LENGTH(8)" for n
    using that unfolding idx_defs by (cases "n < 6") (auto simp: bit_simps)
  then show "push_bit 6 (idx2 b c) OR idx3 c = c" by (rule bit_word_eqI)
qed

subsection \<open>Groups\<close>

lemma unb_idx [simp]:
  "unb (b64 ! unat (idx0 a)) = idx0 a" "unb (b64 ! unat (idx1 a b)) = idx1 a b"
  "unb (b64 ! unat (idx2 b c)) = idx2 b c" "unb (b64 ! unat (idx3 c)) = idx3 c"
  by (simp_all add: b64_nth(1) idx_less)

lemma quad_full:
  "length (quad a b c hb hc) = 4"
  "list_all ISBASE64 (quad a b c True True)"
  "fromBase64_blocks (Suc k) (quad a b c True True @ r)
    = (let (q, rest) = fromBase64_blocks k r in (a # b # c # q, rest))"
  by (simp_all add: quad_def b64_nth(2) idx_less regroup Let_def)

lemma toBase64_loop_append:
  "length m mod 3 = 0 \<Longrightarrow> toBase64_loop (m @ t) = toBase64_loop m @ toBase64_loop t"
  by (induction m rule: toBase64_loop.induct) auto

lemma length_toBase64_loop: "length (toBase64_loop m) = 4 * ((length m + 2) div 3)"
proof (induction m rule: toBase64_loop.induct)
  case (4 a b c m)
  have "(length m + 5) div 3 = (length m + 2) div 3 + 1"
    using div_add_self2 [of 3 "length m + 2"] by (simp add: add.assoc)
  with 4 show ?case by (simp add: quad_full(1) add.commute)
qed (simp_all add: quad_full(1))

lemma toBase64_loop_full:
  assumes "length m mod 3 = 0"
  shows "list_all ISBASE64 (toBase64_loop m)"
    and "fromBase64_blocks (length m div 3) (toBase64_loop m @ r) = (m, r)"
  using assms
  by (induction m rule: toBase64_loop.induct) (auto simp: quad_full simp del: fromBase64_blocks.simps(1))

text \<open>A message is a number of full groups of three bytes and a tail of at most two.\<close>

lemma split_groups:
  obtains m t where "msg = m @ t" and "length m mod 3 = 0" and "length t < 3"
    and "t = [] \<or> (\<exists>a. t = [a]) \<or> (\<exists>a b. t = [a, b])"
proof -
  let ?k = "3 * (length msg div 3)"
  let ?t = "drop ?k msg"
  have "length ?t < 3" by (simp add: modulo_nat_def [symmetric] minus_mult_div_eq_mod)
  then have "?t = [] \<or> (\<exists>a. ?t = [a]) \<or> (\<exists>a b. ?t = [a, b])"
    by (cases ?t; cases "tl ?t"; cases "tl (tl ?t)") auto
  moreover have "length (take ?k msg) mod 3 = 0" by (simp add: min_absorb2)
  ultimately show thesis
    using that [of "take ?k msg" ?t] \<open>length ?t < 3\<close> by simp
qed

lemma toBase64_loop_1: "toBase64_loop [a] = [b64 ! unat (idx0 a), b64 ! unat (idx1 a 0),
    BASE64_PADDING, BASE64_PADDING]"
  by (simp add: quad_def)

lemma toBase64_loop_2: "toBase64_loop [a, b] = [b64 ! unat (idx0 a), b64 ! unat (idx1 a b),
    b64 ! unat (idx2 b 0), BASE64_PADDING]"
  by (simp add: quad_def)

text \<open>
  The decoder on the encoding of full groups \<open>m\<close> followed by one last group \<open>g\<close> that ends in
  \<open>pad\<close> padding characters.
\<close>

lemma fromBase64_groups:
  assumes m: "length m mod 3 = 0" and g: "length g = (if g = [] then 0 else 4)"
    and ne: "m \<noteq> [] \<or> g \<noteq> []" and pad: "pad_of (toBase64_loop m @ g) = pad"
    and gp: "g = [] \<longleftrightarrow> pad = 0" "pad \<le> 2"
    and ok: "list_all ISBASE64 (take (4 - pad) g)" and small: "length m < 2 ^ 28"
  shows "fromBase64 True (toBase64_loop m @ g) = Some (Inr (m @ fromBase64_pad pad g))"
proof -
  obtain k where k: "length m = 3 * k" using m by (metis mod_0_imp_dvd dvdE)
  let ?e = "toBase64_loop m"
  have len: "length ?e = 4 * k" by (simp add: length_toBase64_loop k)
  have blk: "fromBase64_blocks k (?e @ g) = (m, g)"
    using toBase64_loop_full(2) [OF m, of g] k by simp
  have all: "list_all ISBASE64 ?e" by (rule toBase64_loop_full(1) [OF m])
  have outl: "length (fromBase64_pad pad g) \<le> (if g = [] then 0 else 2)"
    using gp(1) by (simp add: fromBase64_pad_def Let_def)
  show ?thesis
  proof (cases "g = []")
    case True
    then have "k \<noteq> 0" using ne k by (cases k) auto
    with True show ?thesis
      using pad gp blk len all k small
      by (simp add: fromBase64_def Let_def fromBase64_pad_def)
  next
    case False
    then have g4: "length g = 4" using g by simp
    have "list_all ISBASE64 (take (4 * k + 4 - pad) (?e @ g))"
    proof -
      have "4 * k + 4 - pad = 4 * k + (4 - pad)" using gp(2) by simp
      then show ?thesis using all ok len by simp
    qed
    then show ?thesis
      using False g4 pad gp blk len k small outl
      by (simp add: fromBase64_def Let_def)
  qed
qed

lemma pad_of_groups:
  "length xs mod 3 = 0 \<Longrightarrow> xs \<noteq> [] \<Longrightarrow> pad_of (toBase64_loop xs) = 0"
  "x \<noteq> BASE64_PADDING \<Longrightarrow> pad_of (e @ [u, v, x, BASE64_PADDING]) = 1"
  "pad_of (e @ [u, v, BASE64_PADDING, BASE64_PADDING]) = 2"
proof -
  assume "length xs mod 3 = 0" and "xs \<noteq> []"
  then have "toBase64_loop xs \<noteq> []"
    by (cases xs rule: toBase64_loop.cases) (simp_all add: quad_def)
  moreover from this have "last (toBase64_loop xs) \<in> set (toBase64_loop xs)" by simp
  then have "last (toBase64_loop xs) \<noteq> BASE64_PADDING"
    using toBase64_loop_full(1) [OF \<open>length xs mod 3 = 0\<close>] distinct_b64
    by (auto simp: list_all_iff ISBASE64_iff)
  ultimately show "pad_of (toBase64_loop xs) = 0"
    by (simp add: pad_of_def last_conv_nth Let_def)
qed (simp_all add: pad_of_def nth_append numeral_eq_Suc)

lemma fromBase64_toBase64_loop:
  assumes "msg \<noteq> []" and "length msg < 2 ^ 28"
  shows "fromBase64 True (toBase64_loop msg) = Some (Inr msg)"
proof -
  obtain m t where mt: "msg = m @ t" "length m mod 3 = 0"
    "t = [] \<or> (\<exists>a. t = [a]) \<or> (\<exists>a b. t = [a, b])" by (rule split_groups)
  have small: "length m < 2 ^ 28" using assms mt by simp
  note app = toBase64_loop_append [OF mt(2)]
  from mt(3) show ?thesis
  proof (elim disjE exE)
    assume "t = []"
    then show ?thesis
      using fromBase64_groups [of m "[]" 0] mt assms pad_of_groups(1) by (simp add: fromBase64_pad_def)
  next
    fix a assume t: "t = [a]"
    show ?thesis
      using fromBase64_groups [OF mt(2), of "toBase64_loop t" 2] small
      by (simp add: mt(1) app t toBase64_loop_1 pad_of_groups b64_nth idx_less fromBase64_pad_def regroup
          del: toBase64_loop.simps)
  next
    fix a b assume t: "t = [a, b]"
    show ?thesis
      using fromBase64_groups [OF mt(2), of "toBase64_loop t" 1] small
      by (simp add: mt(1) app t toBase64_loop_2 pad_of_groups b64_nth idx_less fromBase64_pad_def regroup
          numeral_3_eq_3 del: toBase64_loop.simps)
  qed
qed

lemma length_fromBase64_blocks:
  "4 * k \<le> length p \<Longrightarrow> fromBase64_blocks k p = (q, r) \<Longrightarrow> length q = 3 * k"
  by (induction k p arbitrary: q r rule: fromBase64_blocks.induct)
     (auto simp: Let_def split: prod.splits)

text \<open>
  Claim C32.  Base64 is faithful: every non-empty message of less than 2^28 bytes is encoded
  without leaving the allocated block, into four characters per started group of three bytes, and
  decoding that text yields exactly the message.
\<close>

theorem base64_roundtrip:
  assumes "msg \<noteq> []" and "length msg < 2 ^ 28"
  shows "\<exists>e. toBase64 True msg = Some (Inr e) \<and> length e = 4 * ((length msg + 2) div 3)
             \<and> fromBase64 True e = Some (Inr msg)"
proof -
  let ?n = "word_of_nat (length msg) :: u32"
  have un: "unat ?n = length msg" using assms(2) by (simp add: unat_of_nat take_bit_nat_eq_self)
  then have n0: "?n \<noteq> 0" using assms(1) by (metis length_0_conv unsigned_0)
  have "unat (?n + 2) = length msg + 2" using un assms(2) by (simp add: unat_plus_numeral)
  then have d: "unat ((?n + 2) div 3) = (length msg + 2) div 3" by (simp add: unat_div)
  then have "unat ((?n + 2) div 3 * 4) = (length msg + 2) div 3 * 4"
    using assms(2) by (simp add: unat_word_ariths)
  then have "unat ((?n + 2) div 3 * 4 + 1) = (length msg + 2) div 3 * 4 + 1"
    using assms(2) by (simp add: unat_word_ariths)
  then have "toBase64 True msg = Some (Inr (toBase64_loop msg))"
    using n0 by (simp add: toBase64_def Let_def length_toBase64_loop)
  then show ?thesis
    using fromBase64_toBase64_loop [OF assms] by (simp add: length_toBase64_loop)
qed

theorem base64_roundtrip_witness:
  "\<exists>e. toBase64 True [1, 2, 255, 4] = Some (Inr e) \<and> length e = 4 * ((length [1, 2, 255, 4 :: u8] + 2) div 3)
       \<and> fromBase64 True e = Some (Inr [1, 2, 255, 4])"
  using base64_roundtrip [of "[1, 2, 255, 4]"] by simp

text \<open>
  Claim C33.  The decoder never leaves its blocks and reports exactly the malformed texts: on any
  text of less than 2^28 bytes it returns the out of memory code for the empty text, the invalid
  code exactly when the length is no multiple of four or a character before the padding is not of
  the alphabet, and otherwise a message of three bytes per group less one byte per padding character.
\<close>

theorem fromBase64_outcome:
  assumes "length enc < 2 ^ 28"
  shows "\<exists>r. fromBase64 True enc = Some r \<and>
    (case r of
       Inl rc \<Rightarrow> rc = (if enc = [] then COMP_MSG_ERR_OUT_OF_MEMORY else COMP_MSG_ERR_INVALID_BASE64_STRING)
              \<and> (enc = [] \<or> length enc mod 4 \<noteq> 0
                 \<or> \<not> list_all (\<lambda>c. c \<in> set b64) (take (length enc - pad_of enc) enc))
     | Inr msg \<Rightarrow> enc \<noteq> [] \<and> length enc mod 4 = 0
              \<and> list_all (\<lambda>c. c \<in> set b64) (take (length enc - pad_of enc) enc)
              \<and> length msg = 3 * (length enc div 4) - pad_of enc)"
proof (cases "enc = [] \<or> length enc mod 4 \<noteq> 0")
  case True
  then show ?thesis by (auto simp: fromBase64_def Let_def)
next
  case False
  then obtain k where k: "length enc = 4 * Suc k"
    by (metis length_0_conv mod_0_imp_dvd dvdE mult_0_right not0_implies_Suc)
  let ?pad = "pad_of enc"
  have pad: "?pad = 0 \<or> ?pad = 1 \<or> ?pad = 2" by (simp add: pad_of_def Let_def)
  obtain q r where qr: "fromBase64_blocks (if ?pad = 0 then Suc k else k) enc = (q, r)"
    by (cases "fromBase64_blocks (if ?pad = 0 then Suc k else k) enc") auto
  have "length q = 3 * (if ?pad = 0 then Suc k else k)"
    using qr k by (intro length_fromBase64_blocks [of _ enc]) auto
  then have len: "length (q @ fromBase64_pad ?pad r) = 3 * Suc k - ?pad"
    using pad by (auto simp: fromBase64_pad_def Let_def)
  have iff: "list_all ISBASE64 xs = list_all (\<lambda>c. c \<in> set b64) xs" for xs
    by (simp add: list_all_iff ISBASE64_iff)
  show ?thesis
    using False k assms qr len by (simp add: fromBase64_def Let_def iff split: if_splits)
qed

theorem fromBase64_outcome_witness:
  "\<exists>r. fromBase64 True [65, 66, 67] = Some r \<and>
    (case r of
       Inl rc \<Rightarrow> rc = (if [65, 66, 67 :: u8] = [] then COMP_MSG_ERR_OUT_OF_MEMORY else COMP_MSG_ERR_INVALID_BASE64_STRING)
     | Inr msg \<Rightarrow> False)"
  using fromBase64_outcome [of "[65, 66, 67]"] by (auto split: sum.splits)

end
