(* ===== verification/Crypto.thy ===== *)
theory Crypto
  imports ErrorCodes
begin

text \<open>
  \<^verbatim>\<open>app/crypto/mech.c\<close> (block modes over the AES functions of the SDK) and the functions
  \<open>encryptMsg\<close> and \<open>decryptMsg\<close> of \<^verbatim>\<open>app/compMsg/compMsgUtil.c\<close> that call it.

  The AES functions are in the SDK's binary libraries and are the parameter \<open>aes\<close>: for each
  operation the \<open>init\<close> that makes a context out of a key, or fails, and the \<open>crypt\<close> that maps a
  block of 16 bytes to a block of 16 bytes.  \<open>deinit\<close> only releases the context.  The abstract
  specification is cipher block chaining on lists of blocks (\<open>cbc_enc\<close>, \<open>cbc_dec\<close>); the pointer
  loop of \<open>do_aes\<close> is shown to compute it.
\<close>

subsection \<open>State\<close>

definition AES_BLOCKSIZE :: nat where
  "AES_BLOCKSIZE = 16"

datatype crypto_op_kind = OP_ENCRYPT | OP_DECRYPT

record 'c aes_func =
  init :: "mem \<Rightarrow> 'c option"
  crypt :: "'c \<Rightarrow> mem \<Rightarrow> mem"

type_synonym 'c aes_funcs = "crypto_op_kind \<Rightarrow> 'c aes_func"

record crypto_op_t =
  co_key :: mem
  co_iv :: mem
  co_ivlen :: size_t
  co_data :: mem
  co_datalen :: size_t
  co_out :: mem
  co_op :: crypto_op_kind

datatype mech_run = Do_aes_ecb | Do_aes_cbc

record crypto_mech_t =
  mech_name :: string
  run :: mech_run
  block_size :: u16

subsection \<open>Block modes\<close>

text \<open>The loop \<open>for (i = 0; i < AES_BLOCKSIZE; ++i) block[i] ^= xor[i]\<close> on two blocks.\<close>

definition xor_block :: "mem \<Rightarrow> mem \<Rightarrow> mem" where
  "xor_block block x = map2 (XOR) block x"

text \<open>
  The \<open>while (left)\<close> loop.  \<open>src\<close> and \<open>dst\<close> advance together, so one index \<open>i\<close> stands for
  \<open>src - co->data\<close> and \<open>dst - co->out\<close>.  The result is the final contents of the output block.
\<close>

function do_aes_loop ::
  "(mem \<Rightarrow> mem) \<Rightarrow> bool \<Rightarrow> crypto_op_kind \<Rightarrow> mem \<Rightarrow> mem \<Rightarrow> nat \<Rightarrow> nat \<Rightarrow> mem \<Rightarrow> mem ub" where
  "do_aes_loop cr with_cbc op iv dat i left out =
    (if left = 0 then Some out
     else
       let n = (if left > AES_BLOCKSIZE then AES_BLOCKSIZE else left) in
       if i + n > length dat \<or> i + AES_BLOCKSIZE > length out then None
       else
         let block = take n (drop i dat) @ replicate (AES_BLOCKSIZE - n) 0;
             block = (if with_cbc \<and> op = OP_ENCRYPT
                      then xor_block block
                             (if i = 0 then iv else take AES_BLOCKSIZE (drop (i - AES_BLOCKSIZE) out))
                      else block);
             dst = cr block;
             dst = (if with_cbc \<and> op = OP_DECRYPT
                    then xor_block dst
                           (if i = 0 then iv else take AES_BLOCKSIZE (drop (i - AES_BLOCKSIZE) dat))
                    else dst)
         in do_aes_loop cr with_cbc op iv dat (i + n) (left - n) (put out i dst))"
  by pat_completeness auto
termination
  by (relation "measure (\<lambda>(cr, w, op, iv, dat, i, left, out). left)") (auto simp: AES_BLOCKSIZE_def)

declare do_aes_loop.simps [simp del]

definition do_aes :: "'c aes_funcs \<Rightarrow> crypto_op_t \<Rightarrow> bool \<Rightarrow> (bool \<times> crypto_op_t) ub" where
  "do_aes aes co with_cbc =
    (case init (aes (co_op co)) (co_key co) of
       None \<Rightarrow> Some (False, co)
     | Some ctx \<Rightarrow>
         do { ivb \<leftarrow> (if with_cbc \<and> co_ivlen co \<noteq> 0
                     then rd_block (co_iv co) 0 (min (unat (co_ivlen co)) AES_BLOCKSIZE)
                     else Some []);
              let iv = ivb @ replicate (AES_BLOCKSIZE - length ivb) 0;
              out \<leftarrow> do_aes_loop (crypt (aes (co_op co)) ctx) with_cbc (co_op co) iv
                       (co_data co) 0 (unat (co_datalen co)) (co_out co);
              Some (True, co\<lparr>co_out := out\<rparr>) })"

definition do_aes_ecb :: "'c aes_funcs \<Rightarrow> crypto_op_t \<Rightarrow> (bool \<times> crypto_op_t) ub" where
  "do_aes_ecb aes co = do_aes aes co False"

definition do_aes_cbc :: "'c aes_funcs \<Rightarrow> crypto_op_t \<Rightarrow> (bool \<times> crypto_op_t) ub" where
  "do_aes_cbc aes co = do_aes aes co True"

definition run_mech :: "mech_run \<Rightarrow> 'c aes_funcs \<Rightarrow> crypto_op_t \<Rightarrow> (bool \<times> crypto_op_t) ub" where
  "run_mech r = (case r of Do_aes_ecb \<Rightarrow> do_aes_ecb | Do_aes_cbc \<Rightarrow> do_aes_cbc)"

subsection \<open>Mechanisms\<close>

definition mechs :: "crypto_mech_t list" where
  "mechs =
    [\<lparr>mech_name = ''AES-ECB'', run = Do_aes_ecb, block_size = 16\<rparr>,
     \<lparr>mech_name = ''AES-CBC'', run = Do_aes_cbc, block_size = 16\<rparr>]"

text \<open>\<open>strcasecmp\<close> of the C library: equality up to the case of ASCII letters.\<close>

definition tolower_c :: "char \<Rightarrow> char" where
  "tolower_c c = (if 65 \<le> (of_char c :: nat) \<and> of_char c \<le> (90 :: nat) then char_of (of_char c + 32 :: nat) else c)"

definition strcaseeq :: "string \<Rightarrow> string \<Rightarrow> bool" where
  "strcaseeq s t \<longleftrightarrow> map tolower_c s = map tolower_c t"

definition crypto_encryption_mech :: "string \<Rightarrow> crypto_mech_t option" where
  "crypto_encryption_mech name = find (\<lambda>m. strcaseeq name (mech_name m)) mechs"

subsection \<open>Messages\<close>

text \<open>
  The out parameters \<open>*buf\<close> and \<open>*lgth\<close>.  \<open>Freed\<close> is the address of a block that was released:
  both functions leave it in \<open>*buf\<close> when the mechanism fails.
\<close>

datatype bufptr = NullPtr | Freed | Block mem

definition cryptMsg ::
  "crypto_op_kind \<Rightarrow> 'c aes_funcs \<Rightarrow> bool \<Rightarrow> mem \<Rightarrow> size_t \<Rightarrow> mem \<Rightarrow> mem \<Rightarrow> size_t
    \<Rightarrow> (errcode \<times> bufptr \<times> i32) ub" where
  "cryptMsg op aes ok msg mlen key iv ivlen =
    (case crypto_encryption_mech ''AES-CBC'' of
       None \<Rightarrow> Some (COMP_MSG_ERR_CRYPTO_BAD_MECHANISM, NullPtr, 0)
     | Some mech \<Rightarrow>
         let bs = ucast (block_size mech) :: size_t;
             clen = (mlen + bs - 1) div bs * bs in
         if \<not> ok then Some (COMP_MSG_ERR_CRYPTO_INIT_FAILED, NullPtr, clen)
         else
           do { (done, co) \<leftarrow> run_mech (run mech) aes
                  \<lparr>co_key = key, co_iv = iv, co_ivlen = ivlen, co_data = msg, co_datalen = mlen,
                   co_out = replicate (unat clen) 0, co_op = op\<rparr>;
                if \<not> done then Some (COMP_MSG_ERR_CRYPTO_INIT_FAILED, Freed, clen)
                else Some (COMP_MSG_ERR_OK, Block (co_out co), clen) })"

definition encryptMsg ::
  "'c aes_funcs \<Rightarrow> bool \<Rightarrow> mem \<Rightarrow> size_t \<Rightarrow> mem \<Rightarrow> mem \<Rightarrow> size_t \<Rightarrow> (errcode \<times> bufptr \<times> i32) ub" where
  "encryptMsg aes ok msg mlen key iv ivlen = cryptMsg OP_ENCRYPT aes ok msg mlen key iv ivlen"

definition decryptMsg ::
  "'c aes_funcs \<Rightarrow> bool \<Rightarrow> mem \<Rightarrow> size_t \<Rightarrow> mem \<Rightarrow> mem \<Rightarrow> size_t \<Rightarrow> (errcode \<times> bufptr \<times> i32) ub" where
  "decryptMsg aes ok msg mlen key iv ivlen = cryptMsg OP_DECRYPT aes ok msg mlen key iv ivlen"

subsection \<open>Specification: cipher block chaining\<close>

function chunks :: "mem \<Rightarrow> mem list" where
  "chunks m =
    (if m = [] then []
     else (take 16 m @ replicate (16 - length m) 0) # chunks (drop 16 m))"
  by pat_completeness auto
termination by (relation "measure length") auto

declare chunks.simps [simp del]

lemma chunks_Nil [simp]: "chunks [] = []"
  by (simp add: chunks.simps)

primrec cbc_enc :: "(mem \<Rightarrow> mem) \<Rightarrow> mem \<Rightarrow> mem list \<Rightarrow> mem list" where
  "cbc_enc E iv [] = []"
| "cbc_enc E iv (b # bs) = E (xor_block b iv) # cbc_enc E (E (xor_block b iv)) bs"

primrec cbc_dec :: "(mem \<Rightarrow> mem) \<Rightarrow> mem \<Rightarrow> mem list \<Rightarrow> mem list" where
  "cbc_dec D iv [] = []"
| "cbc_dec D iv (c # cs) = xor_block (D c) iv # cbc_dec D c cs"

definition block16 :: "mem \<Rightarrow> bool" where
  "block16 b \<longleftrightarrow> length b = 16"

definition pads :: "nat \<Rightarrow> nat" where
  "pads n = 16 * ((n + 15) div 16)"

subsection \<open>Lemmas\<close>

lemma length_xor_block [simp]: "length (xor_block a b) = min (length a) (length b)"
  by (simp add: xor_block_def)

lemma xor_block_cancel: "length a = length b \<Longrightarrow> xor_block (xor_block a b) b = a"
  by (rule nth_equalityI) (simp_all add: xor_block_def xor.assoc)

lemma block16_xor [intro]: "block16 a \<Longrightarrow> block16 b \<Longrightarrow> block16 (xor_block a b)"
  by (simp add: block16_def)

lemma chunks_block16: "list_all block16 (chunks m)"
  by (induction m rule: chunks.induct) (subst chunks.simps, simp add: block16_def [of "_ @ _"] min_def)

lemma pads_0 [simp]: "pads 0 = 0"
  by (simp add: pads_def)

lemma pads_step: "0 < n \<Longrightarrow> pads n = 16 + pads (n - 16)"
proof -
  assume "0 < n"
  show ?thesis
  proof (cases "n \<le> 16")
    case True
    with \<open>0 < n\<close> have "n + 15 = 16 + (n - 1)" and "n - 1 < 16" by simp_all
    then have "(n + 15) div 16 = 1" by simp
    with True show ?thesis by (simp add: pads_def)
  next
    case False
    then have "n + 15 = 16 + (n - 16 + 15)" by simp
    then have "(n + 15) div 16 = 1 + (n - 16 + 15) div 16" by (metis div_add_self1 add.commute zero_neq_numeral)
    then show ?thesis by (simp add: pads_def)
  qed
qed

lemma length_concat_chunks: "length (concat (chunks m)) = pads (length m)"
proof (induction m rule: chunks.induct)
  case (1 m)
  then show ?case
    by (cases "m = []"; subst chunks.simps) (simp_all add: pads_step [of "length m"])
qed

lemma concat_chunks: "concat (chunks m) = m @ replicate (pads (length m) - length m) 0"
proof (induction m rule: chunks.induct)
  case (1 m)
  show ?case
  proof (cases "m = []")
    case False
    have p: "pads (length m) = 16 + pads (length m - 16)"
      using False by (intro pads_step) simp
    show ?thesis
    proof (cases "length m \<le> 16")
      case True
      with False p show ?thesis by (subst chunks.simps) simp
    next
      case big: False
      with False 1 p show ?thesis
        by (subst chunks.simps) (simp add: append_assoc [symmetric] del: append_assoc)
    qed
  qed simp
qed

lemma chunks_concat: "list_all block16 bs \<Longrightarrow> chunks (concat bs) = bs"
proof (induction bs)
  case (Cons b bs)
  then have "length b = 16" by (simp add: block16_def)
  then show ?case
    using Cons by (subst chunks.simps) auto
qed simp

lemma length_concat_block16: "list_all block16 bs \<Longrightarrow> length (concat bs) = 16 * length bs"
  by (induction bs) (auto simp: block16_def)

lemma length_cbc [simp]: "length (cbc_enc E iv bs) = length bs" "length (cbc_dec D iv bs) = length bs"
  by (induction bs arbitrary: iv) auto

lemma cbc_enc_block16:
  assumes "\<And>b. block16 b \<Longrightarrow> block16 (E b)"
  shows "block16 iv \<Longrightarrow> list_all block16 bs \<Longrightarrow> list_all block16 (cbc_enc E iv bs)"
  using assms by (induction bs arbitrary: iv) auto

lemma cbc_dec_block16:
  assumes "\<And>b. block16 b \<Longrightarrow> block16 (D b)"
  shows "block16 iv \<Longrightarrow> list_all block16 bs \<Longrightarrow> list_all block16 (cbc_dec D iv bs)"
  using assms by (induction bs arbitrary: iv) auto

lemma cbc_dec_enc:
  assumes "\<And>b. block16 b \<Longrightarrow> block16 (E b)" and "\<And>b. block16 b \<Longrightarrow> D (E b) = b"
  shows "block16 iv \<Longrightarrow> list_all block16 bs \<Longrightarrow> cbc_dec D iv (cbc_enc E iv bs) = bs"
proof (induction bs arbitrary: iv)
  case (Cons b bs)
  then have x: "block16 (xor_block b iv)" by auto
  with Cons have "cbc_dec D (E (xor_block b iv)) (cbc_enc E (E (xor_block b iv)) bs) = bs"
    by (simp add: assms)
  moreover have "xor_block (xor_block b iv) iv = b"
    using Cons.prems by (simp add: xor_block_cancel block16_def)
  ultimately show ?case using x by (simp add: assms)
qed simp

text \<open>Another initial vector for the decryption changes the first block only.\<close>

definition other_iv :: "mem \<Rightarrow> mem \<Rightarrow> mem \<Rightarrow> mem" where
  "other_iv iv iv' m = xor_block (xor_block (take 16 m) iv) iv' @ drop 16 m"

lemma cbc_dec_other:
  assumes "\<And>b. block16 b \<Longrightarrow> block16 (E b)" and "\<And>b. block16 b \<Longrightarrow> D (E b) = b"
    and "block16 iv" "block16 iv'" "list_all block16 bs"
  shows "concat (cbc_dec D iv' (cbc_enc E iv bs)) = other_iv iv iv' (concat bs)"
proof (cases bs)
  case Nil
  then show ?thesis by (simp add: other_iv_def xor_block_def)
next
  case (Cons b bs')
  then have x: "block16 b" "list_all block16 bs'" "block16 (xor_block b iv)" using assms(3,5) by auto
  then have "cbc_dec D (E (xor_block b iv)) (cbc_enc E (E (xor_block b iv)) bs') = bs'"
    by (intro cbc_dec_enc assms(1,2)) auto
  then show ?thesis using Cons x assms(2) by (simp add: other_iv_def block16_def)
qed

lemma length_other_iv: "length iv = 16 \<Longrightarrow> length iv' = 16 \<Longrightarrow> length (other_iv iv iv' m) = length m"
  by (auto simp: other_iv_def)

lemma xor_twice: "(x XOR a) XOR b = x \<Longrightarrow> b = a" for a b x :: u8
proof (rule bit_word_eqI)
  fix k assume "(x XOR a) XOR b = x" "k < LENGTH(8)"
  from arg_cong [OF this(1), of "\<lambda>w. bit w k"] show "bit b k = bit a k" by (auto simp: bit_xor_iff)
qed

lemma other_iv_same:
  assumes "16 \<le> length m" "length iv = 16" "length iv' = 16"
  shows "other_iv iv iv' m = m \<longleftrightarrow> iv' = iv"
proof -
  let ?b = "take 16 m"
  have "xor_block (xor_block ?b iv) iv' = ?b \<longleftrightarrow> iv' = iv"
  proof
    assume e: "xor_block (xor_block ?b iv) iv' = ?b"
    show "iv' = iv"
    proof (rule nth_equalityI)
      fix i assume "i < length iv'"
      then have i: "i < 16" "i < length ?b" using assms by simp_all
      then have "(?b ! i XOR iv ! i) XOR iv' ! i = ?b ! i" using arg_cong [OF e, of "\<lambda>m. m ! i"] assms by (simp add: xor_block_def)
      then show "iv' ! i = iv ! i" by (rule xor_twice)
    qed (use assms in simp)
  qed (use assms in \<open>simp add: xor_block_cancel\<close>)
  moreover have "other_iv iv iv' m = m \<longleftrightarrow> xor_block (xor_block ?b iv) iv' = ?b"
    unfolding other_iv_def by (metis append_take_drop_id append_same_eq)
  ultimately show ?thesis by simp
qed

subsection \<open>The loop computes the specification\<close>

lemma chunks_step:
  "m \<noteq> [] \<Longrightarrow> chunks m = (take 16 m @ replicate (16 - length m) 0) # chunks (drop 16 m)"
  by (subst chunks.simps) simp

lemma do_aes_loop_0: "do_aes_loop cr w op iv dat i 0 out = Some out"
  by (subst do_aes_loop.simps) simp

text \<open>One round: \<open>b\<close> is the zero padded block at the index, \<open>x\<close> the block chained into it.\<close>

lemma do_aes_loop_step:
  assumes "0 < left" and "i + left \<le> length dat" and "i + 16 \<le> length out"
  shows "do_aes_loop cr True op iv dat i left out =
    (let n = min left 16; b = take n (drop i dat) @ replicate (16 - n) 0;
         x = (if i = 0 then iv else take 16 (drop (i - 16) (if op = OP_ENCRYPT then out else dat)));
         y = (if op = OP_ENCRYPT then cr (xor_block b x) else xor_block (cr b) x) in
     do_aes_loop cr True op iv dat (i + n) (left - n) (put out i y))"
proof -
  have "(if left > 16 then 16 else left) = min left (16 :: nat)" by simp
  then show ?thesis
    using assms
    by (subst do_aes_loop.simps) (cases op; simp add: Let_def AES_BLOCKSIZE_def min_def)
qed

lemma length_concat_cbc:
  assumes "\<And>b. block16 b \<Longrightarrow> block16 (cr b)" and "block16 iv"
  shows "length (concat (cbc_enc cr iv (chunks m))) = pads (length m)"
    and "length (concat (cbc_dec cr iv (chunks m))) = pads (length m)"
proof -
  have "16 * length (chunks m) = pads (length m)"
    using length_concat_block16 [OF chunks_block16, of m] by (simp add: length_concat_chunks)
  then show "length (concat (cbc_enc cr iv (chunks m))) = pads (length m)"
    and "length (concat (cbc_dec cr iv (chunks m))) = pads (length m)"
    using assms by (simp_all add: length_concat_block16 cbc_enc_block16 cbc_dec_block16 chunks_block16)
qed

definition prev_block :: "mem \<Rightarrow> nat \<Rightarrow> mem \<Rightarrow> mem" where
  "prev_block iv i m = (if i = 0 then iv else take 16 (drop (i - 16) m))"

lemma prev_block_next: "prev_block iv (i + 16) m = take 16 (drop i m)"
  by (simp add: prev_block_def)

lemma head_block:
  assumes "dat = drop i d" and "left = length dat"
  shows "take (min left 16) (drop i d) @ replicate (16 - min left 16) 0
    = take 16 dat @ replicate (16 - length dat) 0"
    and "left - min left 16 = length (drop 16 dat)"
    and "chunks (drop (i + min left 16) d) = chunks (drop 16 dat)"
proof -
  show "chunks (drop (i + min left 16) d) = chunks (drop 16 dat)"
    using assms by (cases "left \<le> 16") (simp_all add: min_def add.commute)
qed (use assms in \<open>auto simp: min_def\<close>)

lemma do_aes_loop_cbc:
  assumes cr: "\<And>b. block16 b \<Longrightarrow> block16 (cr b)" and iv: "block16 iv"
  shows "i + left = length d \<Longrightarrow> i + pads left \<le> length out \<Longrightarrow>
    i = 0 \<or> 16 \<le> i \<Longrightarrow> left = length dat \<Longrightarrow> dat = drop i d \<Longrightarrow>
    do_aes_loop cr True op iv d i left out = Some (put out i (concat
      (if op = OP_ENCRYPT then cbc_enc cr (prev_block iv i out) (chunks dat)
       else cbc_dec cr (prev_block iv i d) (chunks dat))))"
proof (induction left arbitrary: i out dat rule: less_induct)
  case (less left)
  show ?case
  proof (cases "left = 0")
    case True
    then show ?thesis using less.prems by (simp add: do_aes_loop_0)
  next
    case False
    let ?n = "min left 16"
    let ?b = "take 16 dat @ replicate (16 - length dat) 0"
    let ?x = "prev_block iv i (if op = OP_ENCRYPT then out else d)"
    let ?y = "if op = OP_ENCRYPT then cr (xor_block ?b ?x) else xor_block (cr ?b) ?x"
    have p: "pads left = 16 + pads (left - 16)" using False by (intro pads_step) simp
    have fit: "i + 16 \<le> length out" "i + left \<le> length d" using less.prems p by simp_all
    have b16: "block16 ?b" by (simp add: block16_def)
    have "i \<noteq> 0 \<Longrightarrow> min (length d - (i - 16)) 16 = 16"
      using less.prems(1,3) by linarith
    then have x16: "block16 ?x"
      using less.prems(3) fit(1) iv by (auto simp: block16_def prev_block_def)
    then have y16: "length ?y = 16"
      using cr [OF block16_xor [OF b16 x16]] block16_xor [OF cr [OF b16] x16]
      by (cases op) (simp_all add: block16_def)
    note hb = head_block [OF less.prems(5,4)]
    have step: "do_aes_loop cr True op iv d i left out
        = do_aes_loop cr True op iv d (i + ?n) (left - ?n) (put out i ?y)"
      using False fit by (subst do_aes_loop_step) (simp_all add: Let_def hb prev_block_def)
    have ch: "chunks dat = ?b # chunks (drop 16 dat)"
      using False less.prems by (intro chunks_step) auto
    show ?thesis
    proof (cases "left \<le> 16")
      case True
      then show ?thesis
        using step ch less.prems by (simp add: do_aes_loop_0)
    next
      case big: False
      then have n: "?n = 16" by simp
      let ?r = "concat (if op = OP_ENCRYPT then cbc_enc cr ?y (chunks (drop 16 dat))
          else cbc_dec cr ?b (chunks (drop 16 dat)))"
      have prev: "prev_block iv (i + 16) (if op = OP_ENCRYPT then put out i ?y else d)
          = (if op = OP_ENCRYPT then ?y else ?b)"
      proof -
        have "take 16 (drop i (put out i ?y)) = ?y"
          using take_drop_put_same [of i ?y out] fit(1) y16 by simp
        moreover have "take 16 (drop i d) = ?b" using big less.prems by simp
        ultimately show ?thesis by (cases op) (simp_all add: prev_block_next)
      qed
      have "do_aes_loop cr True op iv d (i + 16) (left - 16) (put out i ?y)
        = Some (put (put out i ?y) (i + 16) (concat
           (if op = OP_ENCRYPT then cbc_enc cr (prev_block iv (i + 16) (put out i ?y)) (chunks (drop 16 dat))
            else cbc_dec cr (prev_block iv (i + 16) d) (chunks (drop 16 dat)))))"
        using big less.prems p by (intro less.IH) (auto simp: add.commute)
      also have "\<dots> = Some (put (put out i ?y) (i + 16) ?r)"
        using prev by (cases op) simp_all
      finally have "do_aes_loop cr True op iv d (i + 16) (left - 16) (put out i ?y)
        = Some (put (put out i ?y) (i + 16) ?r)" .
      moreover have "put (put out i ?y) (i + 16) ?r = put out i (?y @ ?r)"
      proof -
        have "block16 ?y" using y16 by (simp only: block16_def)
        then have "length ?r = pads (left - 16)"
          using length_concat_cbc(1) [of cr ?y "drop 16 dat", OF cr]
            length_concat_cbc(2) [of cr ?b "drop 16 dat", OF cr] b16 less.prems(4)
          by (cases op) simp_all
        then show ?thesis
          using put_put_adjacent [of i ?y ?r out] less.prems(2) by (simp only: y16 p)
      qed
      ultimately show ?thesis using step n ch by (cases op) simp_all
    qed
  qed
qed

subsection \<open>Messages\<close>

definition iv_block :: "mem \<Rightarrow> size_t \<Rightarrow> mem" where
  "iv_block iv ivlen = (let k = min (unat ivlen) 16 in take k iv @ replicate (16 - k) 0)"

text \<open>The hypotheses on the SDK: a context's function maps blocks to blocks of 16 bytes.\<close>

definition keeps_block16 :: "(mem \<Rightarrow> mem) \<Rightarrow> bool" where
  "keeps_block16 f \<longleftrightarrow> (\<forall>b. block16 b \<longrightarrow> block16 (f b))"

definition inverts :: "(mem \<Rightarrow> mem) \<Rightarrow> (mem \<Rightarrow> mem) \<Rightarrow> bool" where
  "inverts D E \<longleftrightarrow> (\<forall>b. block16 b \<longrightarrow> D (E b) = b)"

lemma mech_cbc: "crypto_encryption_mech ''AES-CBC''
    = Some \<lparr>mech_name = ''AES-CBC'', run = Do_aes_cbc, block_size = 16\<rparr>"
  by code_simp

lemma clen_eq:
  fixes mlen :: u32
  assumes "unat mlen < 2 ^ 31"
  shows "unat ((mlen + 16 - 1) div 16 * 16) = pads (unat mlen)"
proof -
  have "unat (mlen + 16 - 1) = unat mlen + 15"
    using assms unat_plus_small [of 15 mlen] by simp
  then have d: "unat ((mlen + 16 - 1) div 16) = (unat mlen + 15) div 16"
    by (simp only: unat_div) simp
  have "(unat mlen + 15) div 16 * 16 < 2 ^ 32"
    using assms by (intro le_less_trans [OF div_times_less_eq_dividend]) simp
  moreover have "unat (x * 16) = unat x * 16 mod 2 ^ 32" for x :: u32
    by (simp add: unat_word_ariths)
  then have "unat ((mlen + 16 - 1) div 16 * 16) = (unat mlen + 15) div 16 * 16 mod 2 ^ 32"
    by (simp only: d)
  ultimately show ?thesis by (simp only: pads_def mod_less mult.commute)
qed

lemma cryptMsg_cbc:
  assumes "unat mlen = length msg" "length msg < 2 ^ 31" "unat ivlen \<le> length iv"
    and init: "init (aes op) key = Some ctx" and cr: "keeps_block16 (crypt (aes op) ctx)"
  shows "cryptMsg op aes True msg mlen key iv ivlen = Some (COMP_MSG_ERR_OK, Block (concat
     (if op = OP_ENCRYPT then cbc_enc (crypt (aes op) ctx) (iv_block iv ivlen) (chunks msg)
      else cbc_dec (crypt (aes op) ctx) (iv_block iv ivlen) (chunks msg))),
     (mlen + 16 - 1) div 16 * 16)"
proof -
  let ?cr = "crypt (aes op) ctx" and ?iv = "iv_block iv ivlen"
  let ?out = "replicate (pads (length msg)) (0 :: u8)"
  have k: "\<And>b. block16 b \<Longrightarrow> block16 (?cr b)" using cr by (simp add: keeps_block16_def)
  have b: "block16 ?iv" using assms(3) by (simp add: iv_block_def block16_def Let_def)
  let ?r = "concat (if op = OP_ENCRYPT then cbc_enc ?cr ?iv (chunks msg) else cbc_dec ?cr ?iv (chunks msg))"
  have "length ?r = length ?out" using length_concat_cbc [of ?cr ?iv msg, OF k b] by (cases op) simp_all
  then have "put ?out 0 ?r = ?r" by (rule put_whole)
  moreover have "do_aes_loop ?cr True op ?iv msg 0 (length msg) ?out = Some (put ?out 0 ?r)"
    using do_aes_loop_cbc [of ?cr ?iv 0 "length msg" msg ?out msg op, OF k b]
    by (simp add: prev_block_def)
  ultimately have "do_aes_loop ?cr True op ?iv msg 0 (length msg) ?out = Some ?r" by (simp only:)
  then have "do_aes_cbc aes \<lparr>co_key = key, co_iv = iv, co_ivlen = ivlen, co_data = msg,
        co_datalen = mlen, co_out = ?out, co_op = op\<rparr>
      = Some (True, \<lparr>co_key = key, co_iv = iv, co_ivlen = ivlen, co_data = msg,
        co_datalen = mlen, co_out = concat (if op = OP_ENCRYPT then cbc_enc ?cr ?iv (chunks msg)
           else cbc_dec ?cr ?iv (chunks msg)), co_op = op\<rparr>)"
    using assms(1,3) init
    by (auto simp: do_aes_cbc_def do_aes_def rd_block_def iv_block_def AES_BLOCKSIZE_def Let_def min_def)
  then show ?thesis
    using clen_eq [of mlen] assms(1,2)
    by (simp add: cryptMsg_def mech_cbc run_mech_def)
qed

text \<open>
  Claim C30.  \<open>encryptMsg\<close> and \<open>decryptMsg\<close> compute cipher block chaining over the zero padded
  16 byte blocks of the message, with the zero padded initial vector: for every message of less
  than 2^31 bytes the pointer loop stays inside its blocks and fills the whole output.
\<close>

theorem crypt_is_cbc:
  assumes "unat mlen = length msg" and "length msg < 2 ^ 31" and "unat ivlen \<le> length iv"
    and "init (aes OP_ENCRYPT) key = Some ectx" and "keeps_block16 (crypt (aes OP_ENCRYPT) ectx)"
    and "init (aes OP_DECRYPT) key = Some dctx" and "keeps_block16 (crypt (aes OP_DECRYPT) dctx)"
  shows "encryptMsg aes True msg mlen key iv ivlen = Some (COMP_MSG_ERR_OK,
      Block (concat (cbc_enc (crypt (aes OP_ENCRYPT) ectx) (iv_block iv ivlen) (chunks msg))),
      (mlen + 16 - 1) div 16 * 16)
    \<and> decryptMsg aes True msg mlen key iv ivlen = Some (COMP_MSG_ERR_OK,
      Block (concat (cbc_dec (crypt (aes OP_DECRYPT) dctx) (iv_block iv ivlen) (chunks msg))),
      (mlen + 16 - 1) div 16 * 16)"
  using assms by (simp add: encryptMsg_def decryptMsg_def cryptMsg_cbc)

text \<open>An instance of the SDK functions for the witnesses: the key is a mask of 16 bytes.\<close>

definition xor_aes :: "mem aes_funcs" where
  "xor_aes op = \<lparr>init = (\<lambda>k. if length k = 16 then Some k else None), crypt = (\<lambda>k b. xor_block b k)\<rparr>"

lemma xor_aes_ok: "length k = 16 \<Longrightarrow> init (xor_aes op) k = Some k"
    "length k = 16 \<Longrightarrow> keeps_block16 (crypt (xor_aes op) k)"
    "length k = 16 \<Longrightarrow> inverts (crypt (xor_aes op) k) (crypt (xor_aes op') k)"
  by (simp_all add: xor_aes_def keeps_block16_def inverts_def block16_def xor_block_cancel)

theorem crypt_is_cbc_witness:
  "encryptMsg xor_aes True [1, 2, 3] 3 (replicate 16 7) (replicate 16 9) 16 = Some (COMP_MSG_ERR_OK,
      Block (concat (cbc_enc (crypt (xor_aes OP_ENCRYPT) (replicate 16 7)) (iv_block (replicate 16 9) 16) (chunks [1, 2, 3]))),
      (3 + 16 - 1) div 16 * 16)"
  using crypt_is_cbc [of 3 "[1, 2, 3]" 16 "replicate 16 9" xor_aes "replicate 16 7" "replicate 16 7" "replicate 16 7"]
  by (simp add: xor_aes_ok)

text \<open>The encryption reads no byte behind the length it is given.\<close>

lemma do_aes_loop_prefix:
  "i + left \<le> length d \<Longrightarrow> do_aes_loop cr w OP_ENCRYPT iv (d @ r) i left out = do_aes_loop cr w OP_ENCRYPT iv d i left out"
proof (induction left arbitrary: i out rule: less_induct)
  case (less left)
  let ?n = "if left > AES_BLOCKSIZE then AES_BLOCKSIZE else left"
  have n: "?n \<le> left" "left \<noteq> 0 \<Longrightarrow> 0 < ?n" by (simp_all add: AES_BLOCKSIZE_def)
  then have "i + ?n \<le> length d" using less.prems by linarith
  moreover have "take ?n (drop i (d @ r)) = take ?n (drop i d)" using calculation by simp
  moreover have "do_aes_loop cr w OP_ENCRYPT iv (d @ r) (i + ?n) (left - ?n) out' = do_aes_loop cr w OP_ENCRYPT iv d (i + ?n) (left - ?n) out'"
    if "left \<noteq> 0" for out' using n(1) n(2) [OF that] less.prems by (intro less.IH) linarith+
  ultimately show ?case
    by (subst (1 2) do_aes_loop.simps) (simp add: Let_def)
qed

lemma encryptMsg_prefix:
  "unat mlen \<le> length msg \<Longrightarrow> encryptMsg aes ok (msg @ r) mlen key iv ivlen = encryptMsg aes ok msg mlen key iv ivlen"
  by (auto simp: encryptMsg_def cryptMsg_def mech_cbc run_mech_def do_aes_cbc_def do_aes_def do_aes_loop_prefix Let_def
      split: option.splits bind_splits)

lemma decrypt_encrypt_other:
  assumes "unat mlen = length msg" and "length msg < 2 ^ 30" and "unat ivlen \<le> length iv" and "unat ivlen \<le> length iv'"
    and "init (aes OP_ENCRYPT) key = Some ectx" and "keeps_block16 (crypt (aes OP_ENCRYPT) ectx)"
    and "init (aes OP_DECRYPT) key = Some dctx" and "keeps_block16 (crypt (aes OP_DECRYPT) dctx)"
    and "inverts (crypt (aes OP_DECRYPT) dctx) (crypt (aes OP_ENCRYPT) ectx)"
  shows "\<exists>c n. encryptMsg aes True msg mlen key iv ivlen = Some (COMP_MSG_ERR_OK, Block c, n)
    \<and> unat n = length c
    \<and> decryptMsg aes True c n key iv' ivlen
      = Some (COMP_MSG_ERR_OK, Block (other_iv (iv_block iv ivlen) (iv_block iv' ivlen)
          (msg @ replicate (pads (length msg) - length msg) 0)), n)"
proof -
  let ?E = "crypt (aes OP_ENCRYPT) ectx" and ?D = "crypt (aes OP_DECRYPT) dctx"
  let ?iv = "iv_block iv ivlen" and ?n = "(mlen + 16 - 1) div 16 * 16"
  let ?c = "concat (cbc_enc ?E ?iv (chunks msg))"
  have k: "\<And>b. block16 b \<Longrightarrow> block16 (?E b)" "\<And>b. block16 b \<Longrightarrow> ?D (?E b) = b"
    using assms by (simp_all add: keeps_block16_def inverts_def)
  have b: "block16 ?iv" "block16 (iv_block iv' ivlen)" using assms(3,4) by (simp_all add: iv_block_def block16_def Let_def)
  have len: "length ?c = pads (length msg)" by (rule length_concat_cbc(1) [OF k(1) b(1)])
  have n: "unat ?n = pads (length msg)" using clen_eq [of mlen] assms(1,2) by simp
  have small: "pads (length msg) < 2 ^ 31" using assms(2) by (simp add: pads_def)
  have "unat ((?n + 16 - 1) div 16 * 16) = pads (pads (length msg))"
    using clen_eq [of ?n] small unfolding n by simp
  also have "\<dots> = unat ?n" unfolding n by (simp add: pads_def)
  finally have nn: "(?n + 16 - 1) div 16 * 16 = ?n" by (simp only: word_unat_eq_iff)
  have "chunks ?c = cbc_enc ?E ?iv (chunks msg)"
    using b by (intro chunks_concat cbc_enc_block16 k(1) chunks_block16)
  then have "concat (cbc_dec ?D (iv_block iv' ivlen) (chunks ?c))
      = other_iv ?iv (iv_block iv' ivlen) (msg @ replicate (pads (length msg) - length msg) 0)"
    using cbc_dec_other [OF k b chunks_block16] by (simp add: concat_chunks)
  then have "decryptMsg aes True ?c ?n key iv' ivlen
      = Some (COMP_MSG_ERR_OK, Block (other_iv ?iv (iv_block iv' ivlen) (msg @ replicate (pads (length msg) - length msg) 0)), ?n)"
    using cryptMsg_cbc [of ?n ?c ivlen iv' aes OP_DECRYPT key dctx] assms n len small nn
    by (simp add: decryptMsg_def)
  moreover have "encryptMsg aes True msg mlen key iv ivlen = Some (COMP_MSG_ERR_OK, Block ?c, ?n)"
    using cryptMsg_cbc [of mlen msg ivlen iv aes OP_ENCRYPT key ectx] assms
    by (simp add: encryptMsg_def)
  ultimately show ?thesis using n len by auto
qed

lemma decrypt_encrypt:
  assumes "unat mlen = length msg" and "length msg < 2 ^ 30" and "unat ivlen \<le> length iv"
    and "init (aes OP_ENCRYPT) key = Some ectx" and "keeps_block16 (crypt (aes OP_ENCRYPT) ectx)"
    and "init (aes OP_DECRYPT) key = Some dctx" and "keeps_block16 (crypt (aes OP_DECRYPT) dctx)"
    and "inverts (crypt (aes OP_DECRYPT) dctx) (crypt (aes OP_ENCRYPT) ectx)"
  shows "\<exists>c n. encryptMsg aes True msg mlen key iv ivlen = Some (COMP_MSG_ERR_OK, Block c, n)
    \<and> unat n = length c
    \<and> decryptMsg aes True c n key iv ivlen
      = Some (COMP_MSG_ERR_OK, Block (msg @ replicate (pads (length msg) - length msg) 0), n)"
proof -
  let ?m = "msg @ replicate (pads (length msg) - length msg) 0"
  have "other_iv (iv_block iv ivlen) (iv_block iv ivlen) ?m = ?m"
  proof (cases "msg = []")
    case True
    then show ?thesis by (simp add: other_iv_def xor_block_def)
  next
    case False
    then have "16 \<le> length ?m" using pads_step [of "length msg"] by simp
    then show ?thesis using other_iv_same [of ?m] assms(3) by (simp add: iv_block_def Let_def)
  qed
  then show ?thesis using decrypt_encrypt_other [OF assms(1-3,3-8)] by simp
qed

text \<open>
  Claim C31.  Decrypting what \<open>encryptMsg\<close> produced, with the same key and initial vector, gives
  the message followed by zeros up to the next multiple of 16 bytes, whenever the SDK's decryption
  inverts its encryption on single blocks.
\<close>

theorem crypt_roundtrip:
  assumes "unat mlen = length msg" and "length msg < 2 ^ 30" and "unat ivlen \<le> length iv"
    and "init (aes OP_ENCRYPT) key = Some ectx" and "keeps_block16 (crypt (aes OP_ENCRYPT) ectx)"
    and "init (aes OP_DECRYPT) key = Some dctx" and "keeps_block16 (crypt (aes OP_DECRYPT) dctx)"
    and "inverts (crypt (aes OP_DECRYPT) dctx) (crypt (aes OP_ENCRYPT) ectx)"
  shows "\<exists>c n. encryptMsg aes True msg mlen key iv ivlen = Some (COMP_MSG_ERR_OK, Block c, n)
    \<and> unat n = length c
    \<and> decryptMsg aes True c n key iv ivlen
      = Some (COMP_MSG_ERR_OK, Block (msg @ replicate (pads (length msg) - length msg) 0), n)"
  using decrypt_encrypt [OF assms] .

theorem crypt_roundtrip_witness:
  "\<exists>c n. encryptMsg xor_aes True [1, 2, 3] 3 (replicate 16 7) (replicate 16 9) 16 = Some (COMP_MSG_ERR_OK, Block c, n)
    \<and> unat n = length c
    \<and> decryptMsg xor_aes True c n (replicate 16 7) (replicate 16 9) 16
      = Some (COMP_MSG_ERR_OK, Block ([1, 2, 3] @ replicate 13 0), n)"
  using crypt_roundtrip [of 3 "[1, 2, 3]" 16 "replicate 16 9" xor_aes "replicate 16 7" "replicate 16 7" "replicate 16 7"]
  by (simp add: xor_aes_ok pads_def)

end
