(* ===== verification/TypesAndNames.thy ===== *)
theory TypesAndNames
  imports ErrorCodes
begin

text \<open>
  \<^verbatim>\<open>app/compMsg/compMsgTypesAndNames.c\<close>: the tables of field types, special field names and field
  groups, the dictionary of the other field names (numbered as they are first met), and the
  descriptions and values kept per field number.

  Part one holds the tables and the locale \<open>str2id_table\<close>: a table without repetition is a
  bijection between its names and its numbers.  Part two holds the state \<open>typesAndNames\<close> with one
  definition per function of the file; a field name is a C string (\<open>None\<close> a null pointer), arrays
  are lists of cells.  Part three shows that the dictionary implements a list of names in order of
  first registration (\<open>name_list\<close>, \<open>intern\<close>).
\<close>

subsection \<open>Numbers of types, special fields and field groups\<close>

abbreviation (input) "DATA_VIEW_FIELD_NONE \<equiv> (0 :: u8)"
abbreviation (input) "DATA_VIEW_FIELD_UINT8_T \<equiv> (1 :: u8)"
abbreviation (input) "DATA_VIEW_FIELD_INT8_T \<equiv> (2 :: u8)"
abbreviation (input) "DATA_VIEW_FIELD_UINT16_T \<equiv> (3 :: u8)"
abbreviation (input) "DATA_VIEW_FIELD_INT16_T \<equiv> (4 :: u8)"
abbreviation (input) "DATA_VIEW_FIELD_UINT32_T \<equiv> (5 :: u8)"
abbreviation (input) "DATA_VIEW_FIELD_INT32_T \<equiv> (6 :: u8)"
abbreviation (input) "DATA_VIEW_FIELD_UINT8_VECTOR \<equiv> (7 :: u8)"
abbreviation (input) "DATA_VIEW_FIELD_INT8_VECTOR \<equiv> (8 :: u8)"
abbreviation (input) "DATA_VIEW_FIELD_UINT16_VECTOR \<equiv> (9 :: u8)"
abbreviation (input) "DATA_VIEW_FIELD_INT16_VECTOR \<equiv> (10 :: u8)"
abbreviation (input) "DATA_VIEW_FIELD_UINT32_VECTOR \<equiv> (11 :: u8)"
abbreviation (input) "DATA_VIEW_FIELD_INT32_VECTOR \<equiv> (12 :: u8)"
abbreviation (input) "COMP_MSG_SPEC_FIELD_NONE \<equiv> (0 :: u8)"
abbreviation (input) "COMP_MSG_SPEC_FIELD_SRC \<equiv> (1 :: u8)"
abbreviation (input) "COMP_MSG_SPEC_FIELD_GRP \<equiv> (2 :: u8)"
abbreviation (input) "COMP_MSG_SPEC_FIELD_DST \<equiv> (3 :: u8)"
abbreviation (input) "COMP_MSG_SPEC_FIELD_TOTAL_LGTH \<equiv> (4 :: u8)"
abbreviation (input) "COMP_MSG_SPEC_FIELD_IP_ADDR \<equiv> (5 :: u8)"
abbreviation (input) "COMP_MSG_SPEC_FIELD_CMD_KEY \<equiv> (6 :: u8)"
abbreviation (input) "COMP_MSG_SPEC_FIELD_CMD_LGTH \<equiv> (7 :: u8)"
abbreviation (input) "COMP_MSG_SPEC_FIELD_RANDOM_NUM \<equiv> (8 :: u8)"
abbreviation (input) "COMP_MSG_SPEC_FIELD_SEQUENCE_NUM \<equiv> (9 :: u8)"
abbreviation (input) "COMP_MSG_SPEC_FIELD_FILLER \<equiv> (10 :: u8)"
abbreviation (input) "COMP_MSG_SPEC_FIELD_CRC \<equiv> (11 :: u8)"
abbreviation (input) "COMP_MSG_SPEC_FIELD_TOTAL_CRC \<equiv> (12 :: u8)"
abbreviation (input) "COMP_MSG_SPEC_FIELD_GUID \<equiv> (13 :: u8)"
abbreviation (input) "COMP_MSG_SPEC_FIELD_SRC_ID \<equiv> (14 :: u8)"
abbreviation (input) "COMP_MSG_SPEC_FIELD_HDR_FILLER \<equiv> (15 :: u8)"
abbreviation (input) "COMP_MSG_SPEC_FIELD_NUM_KEY_VALUES \<equiv> (16 :: u8)"
abbreviation (input) "COMP_MSG_SPEC_FIELD_PROVISIONING_SSID \<equiv> (17 :: u8)"
abbreviation (input) "COMP_MSG_SPEC_FIELD_PROVISIONING_PORT \<equiv> (18 :: u8)"
abbreviation (input) "COMP_MSG_SPEC_FIELD_PROVISIONING_IP_ADDR \<equiv> (19 :: u8)"
abbreviation (input) "COMP_MSG_SPEC_FIELD_CLIENT_SSID \<equiv> (20 :: u8)"
abbreviation (input) "COMP_MSG_SPEC_FIELD_CLIENT_PASSWD \<equiv> (21 :: u8)"
abbreviation (input) "COMP_MSG_SPEC_FIELD_CLIENT_IP_ADDR \<equiv> (22 :: u8)"
abbreviation (input) "COMP_MSG_SPEC_FIELD_CLIENT_PORT \<equiv> (23 :: u8)"
abbreviation (input) "COMP_MSG_SPEC_FIELD_CLIENT_STATUS \<equiv> (24 :: u8)"
abbreviation (input) "COMP_MSG_SPEC_FIELD_SSDP_IP_ADDR \<equiv> (25 :: u8)"
abbreviation (input) "COMP_MSG_SPEC_FIELD_SSDP_PORT \<equiv> (26 :: u8)"
abbreviation (input) "COMP_MSG_SPEC_FIELD_SSDP_STATUS \<equiv> (27 :: u8)"
abbreviation (input) "COMP_MSG_SPEC_FIELD_CLOUD_SECURE_CONNECT \<equiv> (28 :: u8)"
abbreviation (input) "COMP_MSG_SPEC_FIELD_CLOUD_PORT \<equiv> (29 :: u8)"
abbreviation (input) "COMP_MSG_SPEC_FIELD_CLOUD_HOST_1 \<equiv> (30 :: u8)"
abbreviation (input) "COMP_MSG_SPEC_FIELD_CLOUD_HOST_2 \<equiv> (31 :: u8)"
abbreviation (input) "COMP_MSG_SPEC_FIELD_CLOUD_URL_1_PART_1 \<equiv> (32 :: u8)"
abbreviation (input) "COMP_MSG_SPEC_FIELD_CLOUD_URL_1_PART_2 \<equiv> (33 :: u8)"
abbreviation (input) "COMP_MSG_SPEC_FIELD_CLOUD_URL_TENANT_ID_1 \<equiv> (34 :: u8)"
abbreviation (input) "COMP_MSG_SPEC_FIELD_CLOUD_URL_2_PART_1 \<equiv> (35 :: u8)"
abbreviation (input) "COMP_MSG_SPEC_FIELD_CLOUD_URL_2_PART_2 \<equiv> (36 :: u8)"
abbreviation (input) "COMP_MSG_SPEC_FIELD_CLOUD_URL_TENANT_ID_2 \<equiv> (37 :: u8)"
abbreviation (input) "COMP_MSG_SPEC_FIELD_CLOUD_NODE_TOKEN_1 \<equiv> (38 :: u8)"
abbreviation (input) "COMP_MSG_SPEC_FIELD_CLOUD_NODE_TOKEN_2 \<equiv> (39 :: u8)"
abbreviation (input) "COMP_MSG_SPEC_FIELD_OTA_PORT \<equiv> (40 :: u8)"
abbreviation (input) "COMP_MSG_SPEC_FIELD_OTA_ROM_PATH \<equiv> (41 :: u8)"
abbreviation (input) "COMP_MSG_SPEC_FIELD_OTA_FS_PATH \<equiv> (42 :: u8)"
abbreviation (input) "COMP_MSG_SPEC_FIELD_OTA_HOST \<equiv> (43 :: u8)"
abbreviation (input) "COMP_MSG_SPEC_FIELD_PROD_TEST_SSID \<equiv> (44 :: u8)"
abbreviation (input) "COMP_MSG_SPEC_FIELD_PROD_TEST_PASSWD \<equiv> (45 :: u8)"
abbreviation (input) "COMP_MSG_SPEC_FIELD_PROD_TEST_SECURITY_TYPE \<equiv> (46 :: u8)"
abbreviation (input) "COMP_MSG_SPEC_FIELD_PROD_TEST_TARGET_PROTOCOL \<equiv> (47 :: u8)"
abbreviation (input) "COMP_MSG_SPEC_FIELD_PROD_TEST_IP_ADDR \<equiv> (48 :: u8)"
abbreviation (input) "COMP_MSG_SPEC_FIELD_PROD_TEST_SUBNET \<equiv> (49 :: u8)"
abbreviation (input) "COMP_MSG_SPEC_FIELD_PROD_TEST_GATEWAY \<equiv> (50 :: u8)"
abbreviation (input) "COMP_MSG_SPEC_FIELD_PROD_TEST_DNS \<equiv> (51 :: u8)"
abbreviation (input) "COMP_MSG_SPEC_FIELD_PROD_TEST_PING_ADDRESS \<equiv> (52 :: u8)"
abbreviation (input) "COMP_MSG_SPEC_FIELD_PROD_TEST_STATUS \<equiv> (53 :: u8)"
abbreviation (input) "COMP_MSG_SPEC_FIELD_HDR_RESERVE \<equiv> (54 :: u8)"
abbreviation (input) "COMP_MSG_SPEC_FIELD_LOW \<equiv> (55 :: u8)"
abbreviation (input) "COMP_MSG_USE_FIELD_GROUP \<equiv> (1 :: u8)"
abbreviation (input) "COMP_MSG_HEADS_FIELD_GROUP \<equiv> (2 :: u8)"
abbreviation (input) "COMP_MSG_DESC_HEADER_FIELD_GROUP \<equiv> (3 :: u8)"
abbreviation (input) "COMP_MSG_DESC_MID_PART_FIELD_GROUP \<equiv> (4 :: u8)"
abbreviation (input) "COMP_MSG_DESC_TRAILER_FIELD_GROUP \<equiv> (5 :: u8)"
abbreviation (input) "COMP_MSG_DESC_KEY_VALUE_FIELD_GROUP \<equiv> (6 :: u8)"
abbreviation (input) "COMP_MSG_FIELDS_TO_SAVE_FIELD_GROUP \<equiv> (7 :: u8)"
abbreviation (input) "COMP_MSG_ACTIONS_FIELD_GROUP \<equiv> (8 :: u8)"
abbreviation (input) "COMP_MSG_VAL_HEADER_FIELD_GROUP \<equiv> (9 :: u8)"
abbreviation (input) "COMP_MSG_WIFI_DATA_VALUES_FIELD_GROUP \<equiv> (10 :: u8)"
abbreviation (input) "COMP_MSG_MODULE_DATA_VALUES_FIELD_GROUP \<equiv> (11 :: u8)"
abbreviation (input) "COMP_MSG_DESC_FIELD_GROUP \<equiv> (12 :: u8)"
abbreviation (input) "COMP_MSG_VAL_FIELD_GROUP \<equiv> (13 :: u8)"

abbreviation (input) "COMP_MSG_NO_INCR \<equiv> (0 :: u8)"
abbreviation (input) "COMP_MSG_INCR \<equiv> (1 :: u8)"
abbreviation (input) "COMP_MSG_DECR \<equiv> (-1 :: u8)"
abbreviation (input) "COMP_MSG_FREE_FIELD_ID \<equiv> (0xFF :: u8)"

subsection \<open>Tables\<close>

text \<open>
  A table ends with an entry whose string is null.  Both searches run up to that entry; running
  past the array would be undefined.
\<close>

definition terminated :: "(string \<times> u8) list \<Rightarrow> (string option \<times> u8) list" where
  "terminated tab = map (\<lambda>(s, i). (Some s, i)) tab @ [(None, -1)]"

fun search_str :: "(string option \<times> u8) list \<Rightarrow> string \<Rightarrow> u8 option ub" where
  "search_str [] s = None"
| "search_str ((None, i) # es) s = Some None"
| "search_str ((Some t, i) # es) s = (if t = s then Some (Some i) else search_str es s)"

fun search_id :: "(string option \<times> u8) list \<Rightarrow> u8 \<Rightarrow> string option ub" where
  "search_id [] n = None"
| "search_id ((None, i) # es) n = Some None"
| "search_id ((Some t, i) # es) n = (if i = n then Some (Some t) else search_id es n)"

definition fieldType2Ids :: "(string \<times> u8) list" where
  "fieldType2Ids =
    [(''none'', DATA_VIEW_FIELD_NONE),
     (''uint8_t'', DATA_VIEW_FIELD_UINT8_T),
     (''int8_t'', DATA_VIEW_FIELD_INT8_T),
     (''uint16_t'', DATA_VIEW_FIELD_UINT16_T),
     (''int16_t'', DATA_VIEW_FIELD_INT16_T),
     (''uint32_t'', DATA_VIEW_FIELD_UINT32_T),
     (''int32_t'', DATA_VIEW_FIELD_INT32_T),
     (''uint8_t*'', DATA_VIEW_FIELD_UINT8_VECTOR),
     (''int8_t*'', DATA_VIEW_FIELD_INT8_VECTOR),
     (''uint16_t*'', DATA_VIEW_FIELD_UINT16_VECTOR),
     (''int16_t*'', DATA_VIEW_FIELD_INT16_VECTOR),
     (''uint32_t*'', DATA_VIEW_FIELD_UINT32_VECTOR),
     (''int32_t*'', DATA_VIEW_FIELD_INT32_VECTOR)]"

definition specialFieldNames :: "(string \<times> u8) list" where
  "specialFieldNames =
    [(''@src'', COMP_MSG_SPEC_FIELD_SRC),
     (''@grp'', COMP_MSG_SPEC_FIELD_GRP),
     (''@dst'', COMP_MSG_SPEC_FIELD_DST),
     (''@totalLgth'', COMP_MSG_SPEC_FIELD_TOTAL_LGTH),
     (''@ipAddr'', COMP_MSG_SPEC_FIELD_IP_ADDR),
     (''@cmdKey'', COMP_MSG_SPEC_FIELD_CMD_KEY),
     (''@cmdLgth'', COMP_MSG_SPEC_FIELD_CMD_LGTH),
     (''@randomNum'', COMP_MSG_SPEC_FIELD_RANDOM_NUM),
     (''@sequenceNum'', COMP_MSG_SPEC_FIELD_SEQUENCE_NUM),
     (''@filler'', COMP_MSG_SPEC_FIELD_FILLER),
     (''@crc'', COMP_MSG_SPEC_FIELD_CRC),
     (''@totalCrc'', COMP_MSG_SPEC_FIELD_TOTAL_CRC),
     (''@GUID'', COMP_MSG_SPEC_FIELD_GUID),
     (''@srcId'', COMP_MSG_SPEC_FIELD_SRC_ID),
     (''@hdrFiller'', COMP_MSG_SPEC_FIELD_HDR_FILLER),
     (''@numKeyValues'', COMP_MSG_SPEC_FIELD_NUM_KEY_VALUES),
     (''@provisioningSsid'', COMP_MSG_SPEC_FIELD_PROVISIONING_SSID),
     (''@provisioningPort'', COMP_MSG_SPEC_FIELD_PROVISIONING_PORT),
     (''@provisioningIPAddr'', COMP_MSG_SPEC_FIELD_PROVISIONING_IP_ADDR),
     (''@clientSsid'', COMP_MSG_SPEC_FIELD_CLIENT_SSID),
     (''@clientPasswd'', COMP_MSG_SPEC_FIELD_CLIENT_PASSWD),
     (''@clientIPAddr'', COMP_MSG_SPEC_FIELD_CLIENT_IP_ADDR),
     (''@clientPort'', COMP_MSG_SPEC_FIELD_CLIENT_PORT),
     (''@clientStatus'', COMP_MSG_SPEC_FIELD_CLIENT_STATUS),
     (''@SSDPIPAddr'', COMP_MSG_SPEC_FIELD_SSDP_IP_ADDR),
     (''@SSDPPort'', COMP_MSG_SPEC_FIELD_SSDP_PORT),
     (''@SSDPStatus'', COMP_MSG_SPEC_FIELD_SSDP_STATUS),
     (''@cloudPort'', COMP_MSG_SPEC_FIELD_CLOUD_PORT),
     (''@cloudSecureConnect'', COMP_MSG_SPEC_FIELD_CLOUD_SECURE_CONNECT),
     (''@cloudHost1'', COMP_MSG_SPEC_FIELD_CLOUD_HOST_1),
     (''@cloudHost2'', COMP_MSG_SPEC_FIELD_CLOUD_HOST_2),
     (''@cloudUrl1Part1'', COMP_MSG_SPEC_FIELD_CLOUD_URL_1_PART_1),
     (''@cloudUrl1Part2'', COMP_MSG_SPEC_FIELD_CLOUD_URL_1_PART_2),
     (''@cloudUrlTenantId1'', COMP_MSG_SPEC_FIELD_CLOUD_URL_TENANT_ID_1),
     (''@cloudUrl2Part1'', COMP_MSG_SPEC_FIELD_CLOUD_URL_2_PART_1),
     (''@cloudUrl2Part2'', COMP_MSG_SPEC_FIELD_CLOUD_URL_2_PART_2),
     (''@cloudUrlTenantId2'', COMP_MSG_SPEC_FIELD_CLOUD_URL_TENANT_ID_2),
     (''@cloudNodeToken1'', COMP_MSG_SPEC_FIELD_CLOUD_NODE_TOKEN_1),
     (''@cloudNodeToken2'', COMP_MSG_SPEC_FIELD_CLOUD_NODE_TOKEN_2),
     (''@otaPort'', COMP_MSG_SPEC_FIELD_OTA_PORT),
     (''@otaRomPath'', COMP_MSG_SPEC_FIELD_OTA_ROM_PATH),
     (''@otaFsPath'', COMP_MSG_SPEC_FIELD_OTA_FS_PATH),
     (''@otaHost'', COMP_MSG_SPEC_FIELD_OTA_HOST),
     (''@prodTestSsid'', COMP_MSG_SPEC_FIELD_PROD_TEST_SSID),
     (''@prodTestPasswd'', COMP_MSG_SPEC_FIELD_PROD_TEST_PASSWD),
     (''@prodTestSecurityType'', COMP_MSG_SPEC_FIELD_PROD_TEST_SECURITY_TYPE),
     (''@prodTestTargetProtocol'', COMP_MSG_SPEC_FIELD_PROD_TEST_TARGET_PROTOCOL),
     (''@prodTestIpAddr'', COMP_MSG_SPEC_FIELD_PROD_TEST_IP_ADDR),
     (''@prodTestSubnet'', COMP_MSG_SPEC_FIELD_PROD_TEST_SUBNET),
     (''@prodTestGateway'', COMP_MSG_SPEC_FIELD_PROD_TEST_GATEWAY),
     (''@prodTestDns'', COMP_MSG_SPEC_FIELD_PROD_TEST_DNS),
     (''@prodTestPingAddress'', COMP_MSG_SPEC_FIELD_PROD_TEST_PING_ADDRESS),
     (''@prodTestStatus'', COMP_MSG_SPEC_FIELD_PROD_TEST_STATUS),
     (''@hdrReserve'', COMP_MSG_SPEC_FIELD_HDR_RESERVE)]"

definition fieldGroupStr2Ids :: "(string \<times> u8) list" where
  "fieldGroupStr2Ids =
    [(''@$msgDescHeader'', COMP_MSG_DESC_HEADER_FIELD_GROUP),
     (''@$msgDescMidPart'', COMP_MSG_DESC_MID_PART_FIELD_GROUP),
     (''@$msgDescTrailer'', COMP_MSG_DESC_TRAILER_FIELD_GROUP),
     (''@$msgDescKeyValue'', COMP_MSG_DESC_KEY_VALUE_FIELD_GROUP),
     (''@$msgFieldsToSave'', COMP_MSG_FIELDS_TO_SAVE_FIELD_GROUP),
     (''@$msgHeads'', COMP_MSG_HEADS_FIELD_GROUP),
     (''@$msgActions'', COMP_MSG_ACTIONS_FIELD_GROUP),
     (''@$msgValHeader'', COMP_MSG_VAL_HEADER_FIELD_GROUP),
     (''@$msgWifiData'', COMP_MSG_WIFI_DATA_VALUES_FIELD_GROUP),
     (''@$msgModuleData'', COMP_MSG_MODULE_DATA_VALUES_FIELD_GROUP),
     (''@$msgDesc'', COMP_MSG_DESC_FIELD_GROUP),
     (''@$msgVal'', COMP_MSG_VAL_FIELD_GROUP)]"

definition getFieldTypeIdFromStr :: "string \<Rightarrow> (errcode + u8) ub" where
  "getFieldTypeIdFromStr fieldTypeStr =
    do { r \<leftarrow> search_str (terminated fieldType2Ids) fieldTypeStr;
         Some (case r of Some i \<Rightarrow> Inr i | None \<Rightarrow> Inl DATA_VIEW_ERR_FIELD_TYPE_NOT_FOUND) }"

definition getFieldTypeStrFromId :: "u8 \<Rightarrow> (errcode + string) ub" where
  "getFieldTypeStrFromId fieldTypeId =
    do { r \<leftarrow> search_id (terminated fieldType2Ids) fieldTypeId;
         Some (case r of Some s \<Rightarrow> Inr s | None \<Rightarrow> Inl DATA_VIEW_ERR_FIELD_TYPE_NOT_FOUND) }"

definition getFileNameTokenIdFromStr :: "string \<Rightarrow> (errcode + u8) ub" where
  "getFileNameTokenIdFromStr fileNameTokenStr =
    do { r \<leftarrow> search_str (terminated fieldGroupStr2Ids) fileNameTokenStr;
         Some (case r of Some i \<Rightarrow> Inr i | None \<Rightarrow> Inl DATA_VIEW_ERR_FILE_NAME_TOKEN_NOT_FOUND) }"

subsection \<open>The contract of a table\<close>

lemma search_str_map_of: "search_str (terminated tab) s = Some (map_of tab s)"
  unfolding terminated_def by (induction tab) auto

lemma search_id_map_of:
  "search_id (terminated tab) n = Some (map_of (map (\<lambda>(s, i). (i, s)) tab) n)"
  unfolding terminated_def by (induction tab) auto

locale str2id_table =
  fixes tab :: "(string \<times> u8) list"
  assumes distinct_strs: "distinct (map fst tab)"
    and distinct_ids: "distinct (map snd tab)"
begin

lemma search_str_iff: "search_str (terminated tab) s = Some (Some i) \<longleftrightarrow> (s, i) \<in> set tab"
  using distinct_strs by (simp add: search_str_map_of)

lemma search_id_iff: "search_id (terminated tab) n = Some (Some s) \<longleftrightarrow> (s, n) \<in> set tab"
proof -
  have "distinct (map fst (map (\<lambda>(s, i). (i, s)) tab))"
    using distinct_ids by (simp add: comp_def case_prod_unfold)
  then show ?thesis by (auto simp: search_id_map_of)
qed

lemma search_inverse:
  "search_str (terminated tab) s = Some (Some i) \<longleftrightarrow> search_id (terminated tab) i = Some (Some s)"
  by (simp add: search_str_iff search_id_iff)

lemma search_total: "search_str (terminated tab) s \<noteq> None" "search_id (terminated tab) n \<noteq> None"
  by (simp_all add: search_str_map_of search_id_map_of)

end

interpretation types_tab: str2id_table fieldType2Ids
  by unfold_locales (code_simp, code_simp)

interpretation special_tab: str2id_table specialFieldNames
  by unfold_locales (code_simp, code_simp)

interpretation group_tab: str2id_table fieldGroupStr2Ids
  by unfold_locales (code_simp, code_simp)

subsection \<open>State\<close>

text \<open>
  The union \<open>value\<close> of \<open>dataValue_t\<close> (\<^verbatim>\<open>compMsgDataValue.h\<close>): the value with the member it was
  stored through (the vector members are not used by the code modelled here).  \<open>stringValue\<close> points
  to a block of bytes, \<open>None\<close> is the null pointer; zeroed memory is \<open>NumericValue 0\<close>.  A callback is the
  address of a function, \<open>0\<close> the null pointer.
\<close>

datatype dvValue =
    StringValue "mem option"
  | NumericValue i32
  | U8 u8
  | I8 i8
  | U16 u16
  | I16 i16
  | U32 u32
  | I32 i32

type_synonym callback = nat

record dataValue =
  dvFlags :: u16
  dvValue :: dvValue
  dvFieldTypeId :: u8
  dvFieldLgth :: u16

record keyValueDesc =
  keyId :: u16
  keyAccess :: u8
  keyType :: u8
  keyLgth :: u16
  keyNumValues :: u16

record fieldDescInfo =
  fieldFlags :: u32
  fieldTypeId :: u8
  fieldLgth :: u16
  fieldOffset :: u16
  keyValueDesc :: "keyValueDesc option"

record fieldValInfo =
  valFlags :: u32
  valDataValue :: dataValue
  fieldValueCallbackId :: u8
  fieldValueCallback :: callback

record fieldName2id =
  fieldName :: "string option"
  fieldNameId :: u8
  refCnt :: u8

record typesAndNames =
  tn_id :: u8
  numNames :: size_t
  maxNames :: size_t
  names :: "fieldName2id cell list"
  numSpecFieldIds :: u8
  numMsgDescFields :: u16
  fieldDescInfos :: "fieldDescInfo option cell list"
  numMsgValFields :: u16
  fieldValInfos :: "fieldValInfo option cell list"

definition zeroDataValue :: dataValue where
  "zeroDataValue = \<lparr>dvFlags = 0, dvValue = NumericValue 0, dvFieldTypeId = 0, dvFieldLgth = 0\<rparr>"

definition zeroKeyValueDesc :: keyValueDesc where
  "zeroKeyValueDesc = \<lparr>keyId = 0, keyAccess = 0, keyType = 0, keyLgth = 0, keyNumValues = 0\<rparr>"

definition zeroFieldDescInfo :: fieldDescInfo where
  "zeroFieldDescInfo = \<lparr>fieldFlags = 0, fieldTypeId = 0, fieldLgth = 0, fieldOffset = 0, keyValueDesc = None\<rparr>"

definition zeroFieldValInfo :: fieldValInfo where
  "zeroFieldValInfo = \<lparr>valFlags = 0, valDataValue = zeroDataValue, fieldValueCallbackId = 0, fieldValueCallback = 0\<rparr>"

definition zeroFieldName2id :: fieldName2id where
  "zeroFieldName2id = \<lparr>fieldName = None, fieldNameId = 0, refCnt = 0\<rparr>"

subsection \<open>Arrays of field infos\<close>

text \<open>
  \<open>addMsgFieldDescInfos\<close> and \<open>addMsgFieldValInfos\<close> are the same code on two arrays: a new or a
  grown array of pointers whose last \<open>numEntries\<close> entries are null.  When the allocation fails the
  array is lost (its pointer is overwritten by null) and the count stays.
\<close>

definition addInfos :: "bool \<Rightarrow> u16 \<Rightarrow> u8 \<Rightarrow> 'a option cell list \<Rightarrow> errcode \<times> u16 \<times> 'a option cell list" where
  "addInfos ok num numEntries infos =
    (if \<not> ok then (DATA_VIEW_ERR_OUT_OF_MEMORY, num, [])
     else
       let total = unat num + unat numEntries;
           infos' = (if num = 0 then zalloc_cells total None else realloc_cells total infos) in
       (COMP_MSG_ERR_OK, num + ucast numEntries,
        take (unat num) infos' @ replicate (unat numEntries) (Def None)))"

definition addMsgFieldDescInfos :: "bool \<Rightarrow> typesAndNames \<Rightarrow> u8 \<Rightarrow> errcode \<times> typesAndNames" where
  "addMsgFieldDescInfos ok self numEntries =
    (let (rc, num, infos) = addInfos ok (numMsgDescFields self) numEntries (fieldDescInfos self) in
     (rc, self\<lparr>numMsgDescFields := num, fieldDescInfos := infos\<rparr>))"

definition addMsgFieldValInfos :: "bool \<Rightarrow> typesAndNames \<Rightarrow> u8 \<Rightarrow> errcode \<times> typesAndNames" where
  "addMsgFieldValInfos ok self numEntries =
    (let (rc, num, infos) = addInfos ok (numMsgValFields self) numEntries (fieldValInfos self) in
     (rc, self\<lparr>numMsgValFields := num, fieldValInfos := infos\<rparr>))"

subsection \<open>Field names\<close>

definition getFieldNameStrFromId :: "typesAndNames \<Rightarrow> u8 \<Rightarrow> (errcode + string option) ub" where
  "getFieldNameStrFromId self nameId =
    do { r \<leftarrow> search_id (terminated specialFieldNames) nameId;
         case r of
           Some s \<Rightarrow> Some (Inr (Some s))
         | None \<Rightarrow>
             do { m \<leftarrow> scan (names self) (\<lambda>e. fieldNameId e = nameId - numSpecFieldIds self) 0
                    (unat (numNames self));
                  case m of
                    Some (idx, e) \<Rightarrow> Some (Inr (fieldName e))
                  | None \<Rightarrow> Some (Inl COMP_MSG_ERR_FIELD_NOT_FOUND) } }"

text \<open>\<open>fieldName[0] == '@' && fieldName[1] != '#' && fieldName[1] != '$'\<close> on a C string.\<close>

fun is_special :: "string \<Rightarrow> bool" where
  "is_special (c # d # _) \<longleftrightarrow> c = CHR ''@'' \<and> d \<noteq> CHR ''#'' \<and> d \<noteq> CHR ''$''"
| "is_special [c] \<longleftrightarrow> c = CHR ''@''"
| "is_special [] \<longleftrightarrow> False"

text \<open>The array of names is grown before it is searched.\<close>

definition growNames :: "bool \<Rightarrow> typesAndNames \<Rightarrow> errcode \<times> typesAndNames" where
  "growNames ok self =
    (if maxNames self = 0 then
       if ok then (COMP_MSG_ERR_OK, self\<lparr>maxNames := 4, names := zalloc_cells 4 zeroFieldName2id\<rparr>)
       else (DATA_VIEW_ERR_OUT_OF_MEMORY, self\<lparr>maxNames := 4, names := []\<rparr>)
     else
       let m = maxNames self + 2 in
       if ok then (COMP_MSG_ERR_OK, self\<lparr>maxNames := m, names := realloc_cells (unat m) (names self)\<rparr>)
       else (DATA_VIEW_ERR_OUT_OF_MEMORY, self\<lparr>maxNames := m, names := []\<rparr>))"

text \<open>
  The search loop, with \<open>k\<close> rounds left.  \<open>incrRefCnt\<close> is a \<open>uint8_t\<close>, so the branches for a
  negative value are dead and \<open>COMP_MSG_DECR\<close> arrives as 255; an entry marked free gets its number
  back on the way.  \<open>Inl\<close>: the name was found, with its entry's number; \<open>Inr\<close>: it was not, with the
  index of the first free entry.
\<close>

primrec nameLoop ::
  "u8 \<Rightarrow> string \<Rightarrow> fieldName2id cell list \<Rightarrow> nat option \<Rightarrow> nat \<Rightarrow> nat
    \<Rightarrow> ((u8 + nat option) \<times> fieldName2id cell list) ub" where
  "nameLoop incr name ns firstFree idx 0 = Some (Inr firstFree, ns)"
| "nameLoop incr name ns firstFree idx (Suc k) =
    do { e \<leftarrow> rd_cell ns idx;
         if fieldName e = Some name then
           do { ns' \<leftarrow> wr_cell ns idx (if incr > 0 then e\<lparr>refCnt := refCnt e + 1\<rparr> else e);
                Some (Inl (fieldNameId e), ns') }
         else if incr = COMP_MSG_INCR \<and> fieldNameId e = COMP_MSG_FREE_FIELD_ID \<and> firstFree = None then
           do { ns' \<leftarrow> wr_cell ns idx (e\<lparr>fieldNameId := word_of_nat (idx + 1)\<rparr>);
                nameLoop incr name ns' (Some idx) (Suc idx) k }
         else nameLoop incr name ns firstFree (Suc idx) k }"

text \<open>
  Storing a name: a copy of the string is allocated and, without a test of the pointer, written.
  \<open>appendName\<close> is the branch that adds an entry behind the used ones, with a slot in both arrays of
  field infos.
\<close>

definition appendName :: "allocs \<Rightarrow> typesAndNames \<Rightarrow> string \<Rightarrow> ((errcode + u8) \<times> typesAndNames) ub" where
  "appendName ok self name =
    (let (rc, self) = addMsgFieldDescInfos (ok 1) self 1 in
     if rc \<noteq> COMP_MSG_ERR_OK then Some (Inl rc, self)
     else let (rc, self) = addMsgFieldValInfos (ok 2) self 1 in
     if rc \<noteq> COMP_MSG_ERR_OK then Some (Inl rc, self)
     else if \<not> ok 3 then None
     else
       let i = ucast (numNames self + 1) in
       do { ns' \<leftarrow> wr_cell (names self) (unat (numNames self))
              \<lparr>fieldName = Some name, fieldNameId = i, refCnt = 1\<rparr>;
            Some (Inr (i + numSpecFieldIds self),
                  self\<lparr>names := ns', numNames := numNames self + 1\<rparr>) })"

definition getFieldNameIdFromStr ::
  "allocs \<Rightarrow> typesAndNames \<Rightarrow> string \<Rightarrow> u8 \<Rightarrow> ((errcode + u8) \<times> typesAndNames) ub" where
  "getFieldNameIdFromStr ok self name incrRefCnt =
    (if is_special name then
       do { r \<leftarrow> search_str (terminated specialFieldNames) name;
            Some (case r of Some i \<Rightarrow> Inr i | None \<Rightarrow> Inl COMP_MSG_ERR_BAD_SPECIAL_FIELD, self) }
     else
       let (rc, self) = (if incrRefCnt = COMP_MSG_INCR \<and> numNames self \<ge> maxNames self
                         then growNames (ok 0) self else (COMP_MSG_ERR_OK, self)) in
       if rc \<noteq> COMP_MSG_ERR_OK then Some (Inl rc, self)
       else
         do { (r, ns) \<leftarrow> nameLoop incrRefCnt name (names self) None 0 (unat (numNames self));
              let self = self\<lparr>names := ns\<rparr>;
              case r of
                Inl i \<Rightarrow> Some (Inr (i + numSpecFieldIds self), self)
              | Inr firstFree \<Rightarrow>
                  if incrRefCnt = 0 then Some (Inl COMP_MSG_ERR_FIELD_NOT_FOUND, self)
                  else (case firstFree of
                    Some idx \<Rightarrow>
                      do { e \<leftarrow> rd_cell ns idx;
                           if \<not> ok 3 then None
                           else do { ns' \<leftarrow> wr_cell ns idx (e\<lparr>refCnt := 1, fieldName := Some name\<rparr>);
                             Some (Inr (fieldNameId e + numSpecFieldIds self), self\<lparr>names := ns'\<rparr>) } }
                  | None \<Rightarrow> appendName ok self name) })"

subsection \<open>Field descriptions and values\<close>

definition getMsgFieldDescInfo ::
  "bool \<Rightarrow> typesAndNames \<Rightarrow> u8 \<Rightarrow> ((errcode + fieldDescInfo) \<times> typesAndNames) ub" where
  "getMsgFieldDescInfo ok self idx =
    (if ucast idx \<ge> numMsgDescFields self then Some (Inl COMP_MSG_ERR_BAD_MSG_FIELD_INFO_IDX, self)
     else
       do { p \<leftarrow> rd_cell (fieldDescInfos self) (unat idx);
            case p of
              Some entry \<Rightarrow> Some (Inr entry, self)
            | None \<Rightarrow>
                if \<not> ok then Some (Inl DATA_VIEW_ERR_OUT_OF_MEMORY, self)
                else do { infos \<leftarrow> wr_cell (fieldDescInfos self) (unat idx) (Some zeroFieldDescInfo);
                          Some (Inr zeroFieldDescInfo, self\<lparr>fieldDescInfos := infos\<rparr>) } })"

definition setMsgFieldDescInfo ::
  "allocs \<Rightarrow> typesAndNames \<Rightarrow> u8 \<Rightarrow> fieldDescInfo \<Rightarrow> (errcode \<times> typesAndNames) ub" where
  "setMsgFieldDescInfo ok self idx info =
    (if ucast idx \<ge> numMsgDescFields self then Some (COMP_MSG_ERR_BAD_MSG_FIELD_INFO_IDX, self)
     else
       do { p \<leftarrow> rd_cell (fieldDescInfos self) (unat idx);
            if p = None \<and> \<not> ok 0 then Some (DATA_VIEW_ERR_OUT_OF_MEMORY, self)
            else
              let entry = (case p of Some e \<Rightarrow> e | None \<Rightarrow> zeroFieldDescInfo);
                  entry = entry\<lparr>fieldFlags := fieldFlags info, fieldTypeId := fieldTypeId info,
                                fieldLgth := fieldLgth info, fieldOffset := fieldOffset info\<rparr>;
                  full = keyValueDesc entry = None \<and> keyValueDesc info \<noteq> None \<and> \<not> ok 1;
                  entry = (if full \<or> keyValueDesc info = None then entry
                           else entry\<lparr>keyValueDesc := keyValueDesc info\<rparr>) in
              do { infos \<leftarrow> wr_cell (fieldDescInfos self) (unat idx) (Some entry);
                   let self = self\<lparr>fieldDescInfos := infos\<rparr>;
                   if full then Some (DATA_VIEW_ERR_OUT_OF_MEMORY, self)
                   else do { r \<leftarrow> getFieldNameStrFromId self idx;
                             Some (case r of Inl rc \<Rightarrow> rc | Inr _ \<Rightarrow> COMP_MSG_ERR_OK, self) } } })"

definition getMsgFieldValInfo ::
  "bool \<Rightarrow> typesAndNames \<Rightarrow> u8 \<Rightarrow> fieldValInfo \<Rightarrow> ((errcode + fieldValInfo) \<times> typesAndNames) ub" where
  "getMsgFieldValInfo ok self idx dest =
    (if ucast idx \<ge> numMsgValFields self then Some (Inl COMP_MSG_ERR_BAD_MSG_FIELD_INFO_IDX, self)
     else
       do { p \<leftarrow> rd_cell (fieldValInfos self) (unat idx);
            if p = None \<and> \<not> ok then Some (Inl DATA_VIEW_ERR_OUT_OF_MEMORY, self)
            else
              let entry = (case p of Some e \<Rightarrow> e | None \<Rightarrow> zeroFieldValInfo) in
              do { infos \<leftarrow> wr_cell (fieldValInfos self) (unat idx) (Some entry);
                   Some (Inr (dest\<lparr>valFlags := valFlags entry, valDataValue := valDataValue entry,
                                   fieldValueCallbackId := fieldValueCallbackId entry\<rparr>),
                         self\<lparr>fieldValInfos := infos\<rparr>) } })"

definition setMsgFieldValInfo ::
  "bool \<Rightarrow> typesAndNames \<Rightarrow> u8 \<Rightarrow> fieldValInfo \<Rightarrow> (errcode \<times> typesAndNames) ub" where
  "setMsgFieldValInfo ok self idx info =
    (if ucast idx \<ge> numMsgValFields self then Some (COMP_MSG_ERR_BAD_MSG_FIELD_INFO_IDX, self)
     else
       do { p \<leftarrow> rd_cell (fieldValInfos self) (unat idx);
            if p = None \<and> \<not> ok then Some (DATA_VIEW_ERR_OUT_OF_MEMORY, self)
            else
              let entry = (case p of Some e \<Rightarrow> e | None \<Rightarrow> zeroFieldValInfo);
                  entry = entry\<lparr>valFlags := valFlags info, valDataValue := valDataValue info,
                                fieldValueCallbackId := fieldValueCallbackId info\<rparr> in
              do { infos \<leftarrow> wr_cell (fieldValInfos self) (unat idx) (Some entry);
                   let self = self\<lparr>fieldValInfos := infos\<rparr>;
                   r \<leftarrow> getFieldNameStrFromId self idx;
                   Some (case r of Inl rc \<Rightarrow> rc | Inr _ \<Rightarrow> COMP_MSG_ERR_OK, self) } })"

subsection \<open>Creation and release\<close>

text \<open>The loop that releases the names reads every entry below \<open>numNames\<close>.\<close>

definition freeCompMsgTypesAndNames :: "typesAndNames \<Rightarrow> (errcode \<times> typesAndNames) ub" where
  "freeCompMsgTypesAndNames self =
    (if numNames self \<noteq> 0 then
       do { _ \<leftarrow> scan (names self) (\<lambda>_. False) 0 (unat (numNames self));
            Some (DATA_VIEW_ERR_OK, self\<lparr>numNames := 0, maxNames := 0, names := []\<rparr>) }
     else Some (DATA_VIEW_ERR_OK, self))"

text \<open>
  \<open>sizeof(specialFieldNames) / sizeof(str2id_t)\<close> counts the terminating entry; the results of the
  two additions are not tested.
\<close>

definition compMsgTypesAndNamesInit :: "allocs \<Rightarrow> typesAndNames \<Rightarrow> errcode \<times> typesAndNames" where
  "compMsgTypesAndNamesInit ok self =
    (let self = self\<lparr>numSpecFieldIds := word_of_nat (length (terminated specialFieldNames))\<rparr>;
         (_, self) = addMsgFieldDescInfos (ok 0) self (numSpecFieldIds self + 1);
         (_, self) = addMsgFieldValInfos (ok 1) self (numSpecFieldIds self + 1) in
     (COMP_MSG_ERR_OK, self))"

definition newCompMsgTypesAndNames :: "bool \<Rightarrow> u8 \<Rightarrow> u8 \<times> typesAndNames option" where
  "newCompMsgTypesAndNames ok compMsgTypesAndNamesId =
    (if \<not> ok then (compMsgTypesAndNamesId, None)
     else (compMsgTypesAndNamesId + 1,
       Some \<lparr>tn_id = compMsgTypesAndNamesId + 1, numNames = 0, maxNames = 0, names = [],
             numSpecFieldIds = 0, numMsgDescFields = 0, fieldDescInfos = [],
             numMsgValFields = 0, fieldValInfos = []\<rparr>))"

subsection \<open>The dictionary as a list of names\<close>

definition un_Def :: "fieldName2id cell \<Rightarrow> fieldName2id" where
  "un_Def c = (case c of Def e \<Rightarrow> e | Undef \<Rightarrow> zeroFieldName2id)"

definition entries_of :: "typesAndNames \<Rightarrow> fieldName2id list" where
  "entries_of st = map un_Def (take (unat (numNames st)) (names st))"

definition name_list :: "typesAndNames \<Rightarrow> string list" where
  "name_list st = map (\<lambda>e. case fieldName e of Some s \<Rightarrow> s | None \<Rightarrow> []) (entries_of st)"

text \<open>
  Well-formed: the used entries are defined, hold a name each, no name twice, and are numbered from
  1.  With at most 200 names a number plus the 55 special entries fits the 8 bits of an id, and no
  number is the mark 255 of a free entry.
\<close>

definition wf_names :: "typesAndNames \<Rightarrow> bool" where
  "wf_names st \<longleftrightarrow>
    length (names st) = unat (maxNames st) \<and> unat (numNames st) \<le> unat (maxNames st)
    \<and> unat (maxNames st) \<le> 202 \<and> unat (numNames st) \<le> 200 \<and> numSpecFieldIds st = 55
    \<and> take (unat (numNames st)) (names st) = map Def (entries_of st)
    \<and> map fieldNameId (entries_of st) = map word_of_nat [1..<Suc (unat (numNames st))]
    \<and> map fieldName (entries_of st) = map Some (name_list st)
    \<and> distinct (name_list st)"

text \<open>The specification: a name gets the position at which it was first registered.\<close>

definition intern :: "string list \<Rightarrow> string \<Rightarrow> nat \<times> string list" where
  "intern ns name = (case find_idx (\<lambda>s. s = name) 0 ns of Some (i, _) \<Rightarrow> (i, ns) | None \<Rightarrow> (length ns, ns @ [name]))"

lemma entries_eqI:
  "names st = map Def es @ rest \<Longrightarrow> unat (numNames st) = length es \<Longrightarrow> entries_of st = es"
  by (simp add: entries_of_def un_Def_def comp_def)

lemma wf_namesI:
  assumes "names st = map Def es @ rest" "unat (numNames st) = length es"
    and "length (names st) = unat (maxNames st)" "unat (maxNames st) \<le> 202" "length es \<le> 200"
    and "numSpecFieldIds st = 55" "map fieldNameId es = map word_of_nat [1..<Suc (length es)]"
    and ns: "map fieldName es = map Some ns" "distinct ns"
  shows "wf_names st" and "name_list st = ns"
proof -
  have e: "entries_of st = es" using assms(1,2) by (rule entries_eqI)
  let ?g = "\<lambda>s. case s of Some s \<Rightarrow> s | None \<Rightarrow> []"
  have "name_list st = map ?g (map fieldName es)" by (simp add: name_list_def e)
  also have "\<dots> = ns" by (simp add: ns comp_def)
  finally show n: "name_list st = ns" .
  then show "wf_names st" using assms by (simp add: wf_names_def e del: upt_Suc)
qed

lemma wf_namesE:
  assumes "wf_names st"
  obtains es rest where "names st = map Def es @ rest" "unat (numNames st) = length es"
    "length (names st) = unat (maxNames st)" "unat (maxNames st) \<le> 202" "length es \<le> 200"
    "numSpecFieldIds st = 55" "map fieldNameId es = map word_of_nat [1..<Suc (length es)]"
    "map fieldName es = map Some (name_list st)" "distinct (name_list st)"
proof -
  let ?es = "entries_of st"
  have "take (unat (numNames st)) (names st) = map Def ?es"
    using assms by (simp add: wf_names_def)
  then have "names st = map Def ?es @ drop (unat (numNames st)) (names st)"
    by (metis append_take_drop_id)
  moreover have "unat (numNames st) = length ?es"
    using assms by (simp add: wf_names_def entries_of_def)
  ultimately show thesis
    using assms that [of ?es] by (simp add: wf_names_def del: upt_Suc)
qed

definition bump :: "u8 \<Rightarrow> fieldName2id \<Rightarrow> fieldName2id" where
  "bump incr e = (if incr > 0 then e\<lparr>refCnt := refCnt e + 1\<rparr> else e)"

lemma bump_simps [simp]: "fieldName (bump i e) = fieldName e" "fieldNameId (bump i e) = fieldNameId e"
  by (simp_all add: bump_def)

lemma nameLoop_offset:
  assumes "\<forall>e \<in> set es. fieldNameId e \<noteq> COMP_MSG_FREE_FIELD_ID"
  shows "nameLoop incr name (map Def pre @ map Def es @ rest) ff (length pre) (length es) =
    Some (case find_idx (\<lambda>e. fieldName e = Some name) (length pre) es of
            None \<Rightarrow> (Inr ff, map Def pre @ map Def es @ rest)
          | Some (j, e) \<Rightarrow> (Inl (fieldNameId e), (map Def pre @ map Def es @ rest)[j := Def (bump incr e)]))"
  using assms
proof (induction es arbitrary: pre)
  case (Cons e es)
  from Cons.IH [of "pre @ [e]"] Cons.prems show ?case
    by (auto simp: bump_def split: option.splits)
qed simp

lemma nameLoop_start:
  assumes "\<forall>e \<in> set es. fieldNameId e \<noteq> COMP_MSG_FREE_FIELD_ID"
  shows "nameLoop incr name (map Def es @ rest) ff 0 (length es) =
    Some (case find_idx (\<lambda>e. fieldName e = Some name) 0 es of
            None \<Rightarrow> (Inr ff, map Def es @ rest)
          | Some (j, e) \<Rightarrow> (Inl (fieldNameId e), (map Def es @ rest)[j := Def (bump incr e)]))"
  using nameLoop_offset [OF assms, of incr name "[]" rest ff]
  unfolding list.map(1) append_Nil list.size(3) .

lemma find_name:
  "map fieldName es = map Some ns \<Longrightarrow>
   map_option fst (find_idx (\<lambda>e. fieldName e = Some name) i es) = map_option fst (find_idx (\<lambda>s. s = name) i ns)"
  by (induction es arbitrary: ns i) (auto simp: map_eq_Cons_conv)

lemma ids_numbered:
  assumes "map fieldNameId es = map word_of_nat [1..<Suc (length es)]" "length es \<le> 200"
  shows "j < length es \<Longrightarrow> fieldNameId (es ! j) = word_of_nat (j + 1)"
    and "\<forall>e \<in> set es. fieldNameId e \<noteq> COMP_MSG_FREE_FIELD_ID"
proof -
  have ids: "fieldNameId (es ! j) = word_of_nat (j + 1)" if "j < length es" for j
  proof -
    have "map fieldNameId es ! j = map word_of_nat [1..<Suc (length es)] ! j" by (simp only: assms)
    then show ?thesis using that by (simp del: upt_Suc)
  qed
  show "j < length es \<Longrightarrow> fieldNameId (es ! j) = word_of_nat (j + 1)" by (rule ids)
  show "\<forall>e \<in> set es. fieldNameId e \<noteq> COMP_MSG_FREE_FIELD_ID"
  proof
    fix e assume "e \<in> set es"
    then obtain j where j: "j < length es" "e = es ! j" by (auto simp: in_set_conv_nth)
    then have "j + 1 < 256" "j + 1 \<noteq> 255" using assms(2) by simp_all
    then have "unat (word_of_nat (j + 1) :: u8) \<noteq> 255" by (simp only: unat_of_nat_u8 simp_thms)
    then show "fieldNameId e \<noteq> COMP_MSG_FREE_FIELD_ID" using ids [OF j(1)] j(2) by auto
  qed
qed

lemma nameLoop_wf:
  assumes "names st = map Def es @ rest" "map fieldName es = map Some ns"
    "map fieldNameId es = map word_of_nat [1..<Suc (length es)]" "length es \<le> 200"
  shows "nameLoop incr name (names st) None 0 (length es) =
    Some (case find_idx (\<lambda>s. s = name) 0 ns of
            None \<Rightarrow> (Inr None, names st)
          | Some (j, _) \<Rightarrow> (Inl (word_of_nat (j + 1)), map Def (es[j := bump incr (es ! j)]) @ rest))"
proof -
  note ids = ids_numbered [OF assms(3,4)]
  note loop = nameLoop_start [OF ids(2), of incr name rest None, folded assms(1)]
  note fn = find_name [OF assms(2), of name 0]
  show ?thesis
  proof (cases "find_idx (\<lambda>e. fieldName e = Some name) 0 es")
    case None
    with fn have "find_idx (\<lambda>s. s = name) 0 ns = None" by simp
    with None show ?thesis by (simp add: loop)
  next
    case (Some p)
    obtain j e where p: "p = (j, e)" by (cases p)
    have j: "j < length es" "e = es ! j" using find_idx_SomeD [OF Some [unfolded p]] by simp_all
    from fn obtain s where "find_idx (\<lambda>s. s = name) 0 ns = Some (j, s)"
      by (cases "find_idx (\<lambda>s. s = name) 0 ns") (auto simp: Some p)
    then show ?thesis
      unfolding loop using j
      by (simp add: Some p ids(1) map_update list_update_append assms(1) del: of_nat_add of_nat_Suc)
  qed
qed

lemma add_infos_names [simp]:
  "names (snd (addMsgFieldDescInfos b st n)) = names st" "names (snd (addMsgFieldValInfos b st n)) = names st"
  "numNames (snd (addMsgFieldDescInfos b st n)) = numNames st" "numNames (snd (addMsgFieldValInfos b st n)) = numNames st"
  "maxNames (snd (addMsgFieldDescInfos b st n)) = maxNames st" "maxNames (snd (addMsgFieldValInfos b st n)) = maxNames st"
  "numSpecFieldIds (snd (addMsgFieldDescInfos b st n)) = numSpecFieldIds st"
  "numSpecFieldIds (snd (addMsgFieldValInfos b st n)) = numSpecFieldIds st"
  by (simp_all add: addMsgFieldDescInfos_def addMsgFieldValInfos_def split: prod.splits)

lemma add_infos_ok [simp]:
  "fst (addMsgFieldDescInfos True st n) = 0" "fst (addMsgFieldValInfos True st n) = 0"
  by (simp_all add: addMsgFieldDescInfos_def addMsgFieldValInfos_def addInfos_def Let_def)

definition grown :: "typesAndNames \<Rightarrow> typesAndNames" where
  "grown st = (if numNames st \<ge> maxNames st then snd (growNames True st) else st)"

lemma growNames_ok: "fst (growNames True st) = 0"
  by (simp add: growNames_def Let_def)

lemma grown_wf:
  assumes "wf_names st" and "unat (numNames st) < 200"
  obtains es rest where "names (grown st) = map Def es @ rest" "rest \<noteq> []" "numNames (grown st) = numNames st"
    "unat (numNames st) = length es"
    "length (names (grown st)) = unat (maxNames (grown st))" "unat (maxNames (grown st)) \<le> 202"
    "numSpecFieldIds (grown st) = 55" "map fieldNameId es = map word_of_nat [1..<Suc (length es)]"
    "map fieldName es = map Some (name_list st)" "distinct (name_list st)"
proof -
  from assms(1) obtain es rest where w: "names st = map Def es @ rest" "unat (numNames st) = length es"
    "length (names st) = unat (maxNames st)" "unat (maxNames st) \<le> 202" "numSpecFieldIds st = 55"
    "map fieldNameId es = map word_of_nat [1..<Suc (length es)]"
    "map fieldName es = map Some (name_list st)" "distinct (name_list st)" by (rule wf_namesE)
  show thesis
  proof (cases "numNames st \<ge> maxNames st")
    case False
    then have "length es < length (names st)" using w by (simp add: not_le word_less_nat_alt)
    then have "rest \<noteq> []" using w(1) by auto
    with False w that [of es rest] show thesis by (simp add: grown_def)
  next
    case True
    then have "unat (maxNames st) \<le> length es" using w(2) by (simp add: word_le_nat_alt)
    moreover have "unat (maxNames st) = length es + length rest" using w(1,3) by simp
    ultimately have full: "unat (maxNames st) = length es" "rest = []" by simp_all
    show thesis
    proof (cases "maxNames st = 0")
      case z: True
      then have "es = []" using full by simp
      with True z w that [of "[]" "zalloc_cells 4 zeroFieldName2id"] show thesis
        by (simp add: grown_def growNames_def zalloc_cells_def)
    next
      case False
      have m: "unat (maxNames st + 2) = length es + 2"
        using full w(2) assms(2) by (simp add: unat_plus_numeral)
      then have "names (grown st) = map Def es @ [Undef, Undef]"
        using True False full w(1) by (simp add: grown_def growNames_def Let_def realloc_cells_def numeral_2_eq_2)
      with True False m w assms(2) that [of es "[Undef, Undef]"] show thesis
        by (simp add: grown_def growNames_def Let_def)
    qed
  qed
qed

lemma numbered_snoc:
  "map f es = map word_of_nat [1..<Suc (length es)] \<Longrightarrow> f e = (word_of_nat (Suc (length es)) :: u8) \<Longrightarrow>
   map f (es @ [e]) = map word_of_nat [1..<Suc (length (es @ [e]))]"
  by simp

lemma appendName_ok:
  assumes "\<And>k. ok k" "unat (numNames st) < length (names st)"
  shows "\<exists>st'. appendName ok st name = Some (Inr (ucast (numNames st + 1) + numSpecFieldIds st), st')
    \<and> names st' = (names st)[unat (numNames st) := Def \<lparr>fieldName = Some name, fieldNameId = ucast (numNames st + 1), refCnt = 1\<rparr>]
    \<and> numNames st' = numNames st + 1 \<and> maxNames st' = maxNames st \<and> numSpecFieldIds st' = numSpecFieldIds st"
  unfolding appendName_def by (simp add: assms Let_def case_prod_unfold)

lemma getFieldNameIdFromStr_incr:
  assumes "\<not> is_special name" and "\<And>k. ok k"
    and "nameLoop COMP_MSG_INCR name (names (grown st)) None 0 (unat (numNames (grown st))) = Some (r, ns)"
  shows "r = Inl i \<Longrightarrow> getFieldNameIdFromStr ok st name COMP_MSG_INCR
      = Some (Inr (i + numSpecFieldIds (grown st)), (grown st)\<lparr>names := ns\<rparr>)"
    and "r = Inr None \<Longrightarrow> getFieldNameIdFromStr ok st name COMP_MSG_INCR
      = appendName ok ((grown st)\<lparr>names := ns\<rparr>) name"
proof -
  have "(if COMP_MSG_INCR = COMP_MSG_INCR \<and> numNames st \<ge> maxNames st then growNames (ok 0) st else (COMP_MSG_ERR_OK, st))
      = (0, grown st)"
    using growNames_ok [of st] by (simp add: assms(2) grown_def prod_eq_iff)
  note e = getFieldNameIdFromStr_def [of ok st name COMP_MSG_INCR, unfolded this]
  show "r = Inl i \<Longrightarrow> getFieldNameIdFromStr ok st name COMP_MSG_INCR
      = Some (Inr (i + numSpecFieldIds (grown st)), (grown st)\<lparr>names := ns\<rparr>)"
    and "r = Inr None \<Longrightarrow> getFieldNameIdFromStr ok st name COMP_MSG_INCR
      = appendName ok ((grown st)\<lparr>names := ns\<rparr>) name"
    using assms(1,3) by (simp_all add: e)
qed

lemma intern_step:
  assumes wf: "wf_names st" and plain: "\<not> is_special name" and room: "unat (numNames st) < 200"
    and ok: "\<And>k. ok k"
  shows "\<exists>st'. getFieldNameIdFromStr ok st name COMP_MSG_INCR
        = Some (Inr (word_of_nat (fst (intern (name_list st) name) + 56)), st')
      \<and> wf_names st' \<and> name_list st' = snd (intern (name_list st) name)"
proof -
  obtain es rest where g: "names (grown st) = map Def es @ rest" "rest \<noteq> []" "numNames (grown st) = numNames st"
    "unat (numNames st) = length es" "length (names (grown st)) = unat (maxNames (grown st))"
    "unat (maxNames (grown st)) \<le> 202" "numSpecFieldIds (grown st) = 55"
    "map fieldNameId es = map word_of_nat [1..<Suc (length es)]"
    "map fieldName es = map Some (name_list st)" "distinct (name_list st)"
    using grown_wf [OF wf room] by metis
  have small: "length es \<le> 200" using room g(4) by simp
  note loop = nameLoop_wf [OF g(1) g(9) g(8) small, of COMP_MSG_INCR name]
  note run = getFieldNameIdFromStr_incr [of name ok st, OF plain ok, unfolded g(3,4)]
  show ?thesis
  proof (cases "find_idx (\<lambda>s. s = name) 0 (name_list st)")
    case (Some p)
    then obtain j s where p: "find_idx (\<lambda>s. s = name) 0 (name_list st) = Some (j, s)" by (cases p) auto
    let ?es = "es[j := bump COMP_MSG_INCR (es ! j)]"
    let ?st = "(grown st)\<lparr>names := map Def ?es @ rest\<rparr>"
    have j: "j < length es"
      using find_idx_SomeD [OF p] map_eq_imp_length_eq [OF g(9)] by simp
    have m: "map fieldNameId ?es = map fieldNameId es" "map fieldName ?es = map fieldName es"
      using j by (simp_all add: map_update) (metis list_update_id nth_map)+
    have "wf_names ?st" "name_list ?st = name_list st"
      using wf_namesI [of ?st ?es rest "name_list st"] g small m by (simp_all del: upt_Suc)
    moreover have "getFieldNameIdFromStr ok st name COMP_MSG_INCR = Some (Inr (word_of_nat (j + 56)), ?st)"
      using run(1) [OF _ refl] loop g(7) p by (simp add: add.commute)
    ultimately show ?thesis using p by (simp add: intern_def)
  next
    case None
    let ?e = "\<lparr>fieldName = Some name, fieldNameId = word_of_nat (Suc (length es)), refCnt = 1\<rparr>"
    have un: "unat (numNames st + 1) = length es + 1"
      using g(4) room by (simp add: unat_plus_numeral)
    have nn: "ucast (numNames st + 1) = (word_of_nat (Suc (length es)) :: u8)"
      using un by (metis Suc_eq_plus1 of_nat_unat)
    have upd: "(names (grown st))[length es := Def ?e] = map Def (es @ [?e]) @ tl rest"
      using g(1,2) by (cases rest) (simp_all add: list_update_append)
    have room': "unat (numNames (grown st)) < length (names (grown st))"
      using g(1,2,3,4) by simp
    obtain st' where st': "appendName ok (grown st) name = Some (Inr (word_of_nat (Suc (length es)) + 55), st')"
      "names st' = map Def (es @ [?e]) @ tl rest" "numNames st' = numNames st + 1"
      "maxNames st' = maxNames (grown st)" "numSpecFieldIds st' = 55"
      using appendName_ok [of ok "grown st" name, OF ok room'] unfolding g(3,4) nn upd g(7) by blast
    have "length (names st') = unat (maxNames st')"
      using st' g(5) upd by (metis length_list_update)
    moreover have "distinct (name_list st @ [name])"
      using None g(10) by (auto simp: find_idx_None_iff)
    ultimately have "wf_names st'" "name_list st' = name_list st @ [name]"
      using wf_namesI [of st' "es @ [?e]" "tl rest" "name_list st @ [name]"] g st' room un
        numbered_snoc [OF g(8), of ?e] by (simp_all del: upt_Suc)
    moreover have "length (name_list st) = length es" using map_eq_imp_length_eq [OF g(9)] by simp
    moreover have "getFieldNameIdFromStr ok st name COMP_MSG_INCR = Some (Inr (word_of_nat (length es + 56)), st')"
      using run(2) [OF _ refl] loop None st'(1) by (simp add: add.commute)
    ultimately show ?thesis using None by (simp add: intern_def)
  qed
qed

lemma lookup_step:
  assumes wf: "wf_names st" and plain: "\<not> is_special name"
  shows "getFieldNameIdFromStr ok st name COMP_MSG_NO_INCR = Some
     (case find_idx (\<lambda>s. s = name) 0 (name_list st) of
        Some (i, _) \<Rightarrow> Inr (word_of_nat (i + 56)) | None \<Rightarrow> Inl COMP_MSG_ERR_FIELD_NOT_FOUND, st)"
proof -
  from wf obtain es rest where w: "names st = map Def es @ rest" "unat (numNames st) = length es"
    "length es \<le> 200" "numSpecFieldIds st = 55" "map fieldNameId es = map word_of_nat [1..<Suc (length es)]"
    "map fieldName es = map Some (name_list st)" by (rule wf_namesE)
  have same: "es[j := bump COMP_MSG_NO_INCR (es ! j)] = es" for j by (simp add: bump_def)
  have "nameLoop COMP_MSG_NO_INCR name (names st) None 0 (length es) =
    Some (case find_idx (\<lambda>s. s = name) 0 (name_list st) of
            None \<Rightarrow> (Inr None, names st) | Some (j, _) \<Rightarrow> (Inl (word_of_nat (j + 1)), names st))"
    using nameLoop_wf [OF w(1,6,5,3), of COMP_MSG_NO_INCR name] unfolding same w(1) [symmetric] .
  then show ?thesis
    using plain w(2,4) by (simp add: getFieldNameIdFromStr_def add.commute split: option.splits)
qed

lemma special_ids_low: "map_of (map (\<lambda>(s, i). (i, s)) specialFieldNames) i = Some s \<Longrightarrow> unat i \<le> 54"
proof -
  have "list_all (\<lambda>(s, i). i \<le> 54) specialFieldNames" by (simp add: specialFieldNames_def)
  moreover assume "map_of (map (\<lambda>(s, i). (i, s)) specialFieldNames) i = Some s"
  then have "(s, i) \<in> set specialFieldNames" by (auto dest: map_of_SomeD)
  ultimately have "i \<le> 54" by (auto simp: list_all_iff)
  then show ?thesis by (simp add: word_le_nat_alt)
qed

lemma name_of_number:
  assumes wf: "wf_names st" and i: "i < length (name_list st)"
  shows "getFieldNameStrFromId st (word_of_nat (i + 56)) = Some (Inr (Some (name_list st ! i)))"
proof -
  from wf obtain es rest where w: "names st = map Def es @ rest" "unat (numNames st) = length es"
    "length es \<le> 200" "numSpecFieldIds st = 55" "map fieldNameId es = map word_of_nat [1..<Suc (length es)]"
    "map fieldName es = map Some (name_list st)" by (rule wf_namesE)
  have len: "length (name_list st) = length es" using map_eq_imp_length_eq [OF w(6)] by simp
  have n: "unat (word_of_nat (i + 56) :: u8) = i + 56"
    using i len w(3) by (intro unat_of_nat_u8) simp
  have "map_of (map (\<lambda>(s, i). (i, s)) specialFieldNames) (word_of_nat (i + 56)) = None"
  proof (rule ccontr)
    assume "map_of (map (\<lambda>(s, i). (i, s)) specialFieldNames) (word_of_nat (i + 56)) \<noteq> None"
    then have "unat (word_of_nat (i + 56) :: u8) \<le> 54" by (auto intro: special_ids_low)
    then show False by (simp only: n)
  qed
  moreover have "word_of_nat (i + 56) - 55 = (word_of_nat (i + 1) :: u8)" by simp
  moreover have "find_idx (\<lambda>e. fieldNameId e = word_of_nat (i + 1)) 0 es = Some (0 + i, es ! i)"
  proof (rule find_idx_unique)
    show "i < length es" using i len by simp
    then show "fieldNameId (es ! i) = word_of_nat (i + 1)" by (rule ids_numbered(1) [OF w(5,3)])
    fix m assume m: "m < length es" "fieldNameId (es ! m) = word_of_nat (i + 1)"
    then have "(word_of_nat (m + 1) :: u8) = word_of_nat (i + 1)"
      using ids_numbered(1) [OF w(5,3)] by simp
    then have "unat (word_of_nat (m + 1) :: u8) = unat (word_of_nat (i + 1) :: u8)" by (simp only:)
    then show "m = i" using m(1) i len w(3) by (simp only: unat_of_nat_u8)
  qed
  moreover have "fieldName (es ! i) = Some (name_list st ! i)"
    using i len by (metis nth_map w(6))
  ultimately show ?thesis
    using w(1,2,4) by (simp add: getFieldNameStrFromId_def search_id_map_of scan_defined
        del: of_nat_add of_nat_Suc)
qed

subsection \<open>Properties\<close>

text \<open>
  The type and the special name tables are bijections, searched without running past
  their end: a type name has the number \<open>i\<close> exactly when \<open>i\<close> is printed as that name, unknown names
  and numbers are reported, and a special field name is accepted with the number it is printed for,
  whatever the dictionary holds.
\<close>

lemma type_and_special_names_bijective:
  "(getFieldTypeIdFromStr s = Some (Inr i) \<longleftrightarrow> getFieldTypeStrFromId i = Some (Inr s))
   \<and> (getFieldTypeIdFromStr s = Some (Inl DATA_VIEW_ERR_FIELD_TYPE_NOT_FOUND) \<longleftrightarrow> s \<notin> fst ` set fieldType2Ids)
   \<and> (getFieldTypeStrFromId i = Some (Inl DATA_VIEW_ERR_FIELD_TYPE_NOT_FOUND) \<longleftrightarrow> i \<notin> snd ` set fieldType2Ids)
   \<and> (is_special s \<and> getFieldNameIdFromStr ok st s incr = Some (Inr i, st) \<longleftrightarrow> (s, i) \<in> set specialFieldNames)
   \<and> (i \<in> snd ` set specialFieldNames \<and> getFieldNameStrFromId st i = Some (Inr (Some s))
      \<longleftrightarrow> (s, i) \<in> set specialFieldNames)"
  (is "?A \<and> ?B \<and> ?C \<and> ?D \<and> ?E")
proof (intro conjI)
  obtain a b where "search_str (terminated fieldType2Ids) s = Some a" "search_id (terminated fieldType2Ids) i = Some b"
    using types_tab.search_total by blast
  then show ?A
    using types_tab.search_inverse [of s i]
    by (auto simp: getFieldTypeIdFromStr_def getFieldTypeStrFromId_def split: option.splits)
  show ?B
    by (simp add: getFieldTypeIdFromStr_def search_str_map_of map_of_eq_None_iff [symmetric]
        split: option.splits)
  have "i \<notin> snd ` set fieldType2Ids \<longleftrightarrow> map_of (map (\<lambda>(s, i). (i, s)) fieldType2Ids) i = None"
    by (force simp: map_of_eq_None_iff)
  then show ?C
    by (simp add: getFieldTypeStrFromId_def search_id_map_of split: option.splits)
  have "list_all (\<lambda>(s, i). is_special s) specialFieldNames" by (simp add: specialFieldNames_def)
  then have "(s, i) \<in> set specialFieldNames \<Longrightarrow> is_special s" by (auto simp: list_all_iff)
  moreover have "search_str (terminated specialFieldNames) s = Some (Some i) \<longleftrightarrow> (s, i) \<in> set specialFieldNames"
    by (rule special_tab.search_str_iff)
  moreover obtain c where "search_str (terminated specialFieldNames) s = Some c"
    using special_tab.search_total(1) by blast
  ultimately show ?D
    by (auto simp: getFieldNameIdFromStr_def split: option.splits)
  have "i \<in> snd ` set specialFieldNames \<longleftrightarrow> (\<exists>t. search_id (terminated specialFieldNames) i = Some (Some t))"
    unfolding special_tab.search_id_iff by force
  then show ?E
    using special_tab.search_id_iff [of i s]
    by (auto simp: getFieldNameStrFromId_def)
qed

text \<open>
  Claim C34.  The dictionary of field names implements a list of names in order of registration:
  registering a plain name returns 56 plus its position (the next free one when the name is new),
  appends it exactly when it is new, keeps the dictionary well formed, and the returned number is
  from then on printed as that name.
\<close>

theorem register_refines_intern:
  assumes "wf_names st" and "\<not> is_special name" and "unat (numNames st) < 200" and "\<forall>k. ok k"
  shows "\<exists>st' i. getFieldNameIdFromStr ok st name COMP_MSG_INCR = Some (Inr (word_of_nat (i + 56)), st')
    \<and> (i, name_list st') = intern (name_list st) name \<and> wf_names st'
    \<and> getFieldNameStrFromId st' (word_of_nat (i + 56)) = Some (Inr (Some name))"
proof -
  let ?i = "fst (intern (name_list st) name)"
  obtain st' where st': "getFieldNameIdFromStr ok st name COMP_MSG_INCR = Some (Inr (word_of_nat (?i + 56)), st')"
    "wf_names st'" "name_list st' = snd (intern (name_list st) name)"
    using intern_step [OF assms(1,2,3)] assms(4) by blast
  have "?i < length (name_list st') \<and> name_list st' ! ?i = name"
    using st'(3) by (auto simp: intern_def split: option.splits dest!: find_idx_SomeD)
  then have "getFieldNameStrFromId st' (word_of_nat (?i + 56)) = Some (Inr (Some name))"
    using name_of_number [OF st'(2)] by metis
  with st' show ?thesis by (metis prod.collapse)
qed

definition tn0 :: typesAndNames where
  "tn0 = \<lparr>tn_id = 1, numNames = 0, maxNames = 0, names = [], numSpecFieldIds = 55, numMsgDescFields = 0,
    fieldDescInfos = [], numMsgValFields = 0, fieldValInfos = []\<rparr>"

lemma wf_tn0: "wf_names tn0" "numNames tn0 = 0"
  by (simp_all add: tn0_def wf_names_def entries_of_def name_list_def)

theorem register_refines_intern_witness:
  "\<exists>st' i. getFieldNameIdFromStr (\<lambda>_. True) tn0 ''temp'' COMP_MSG_INCR = Some (Inr (word_of_nat (i + 56)), st')
    \<and> (i, name_list st') = intern (name_list tn0) ''temp'' \<and> wf_names st'
    \<and> getFieldNameStrFromId st' (word_of_nat (i + 56)) = Some (Inr (Some ''temp''))"
  using register_refines_intern [of tn0 "''temp''" "\<lambda>_. True"] by (simp add: wf_tn0)

text \<open>
  Claim C35.  A lookup without registration changes nothing: it returns 56 plus the position of a
  registered name and \<open>FIELD_NOT_FOUND\<close> for any other plain name; every registered number is printed
  as its name, and different names have different numbers.
\<close>

theorem lookup_registered:
  assumes "wf_names st" and "i < length (name_list st)" and "\<not> is_special name"
  shows "(name \<notin> set (name_list st)
      \<longrightarrow> getFieldNameIdFromStr ok st name COMP_MSG_NO_INCR = Some (Inl COMP_MSG_ERR_FIELD_NOT_FOUND, st))
    \<and> (name = name_list st ! i
      \<longrightarrow> getFieldNameIdFromStr ok st name COMP_MSG_NO_INCR = Some (Inr (word_of_nat (i + 56)), st))
    \<and> getFieldNameStrFromId st (word_of_nat (i + 56)) = Some (Inr (Some (name_list st ! i)))"
proof (intro conjI impI)
  assume "name \<notin> set (name_list st)"
  then have "find_idx (\<lambda>s. s = name) 0 (name_list st) = None" by (auto simp: find_idx_None_iff)
  then show "getFieldNameIdFromStr ok st name COMP_MSG_NO_INCR = Some (Inl COMP_MSG_ERR_FIELD_NOT_FOUND, st)"
    using lookup_step [OF assms(1,3), of ok] by simp
next
  assume "name = name_list st ! i"
  moreover have "distinct (name_list st)" using assms(1) by (simp add: wf_names_def)
  ultimately have "find_idx (\<lambda>s. s = name) 0 (name_list st) = Some (0 + i, name_list st ! i)"
    using assms(2) by (intro find_idx_unique) (auto simp: nth_eq_iff_index_eq)
  then show "getFieldNameIdFromStr ok st name COMP_MSG_NO_INCR = Some (Inr (word_of_nat (i + 56)), st)"
    using lookup_step [OF assms(1,3), of ok] by simp
next
  show "getFieldNameStrFromId st (word_of_nat (i + 56)) = Some (Inr (Some (name_list st ! i)))"
    using assms(1,2) by (rule name_of_number)
qed

definition tn1 :: typesAndNames where
  "tn1 = tn0\<lparr>numNames := 1, maxNames := 4, names := Def \<lparr>fieldName = Some ''temp'', fieldNameId = 1, refCnt = 1\<rparr>
    # replicate 3 (Def zeroFieldName2id)\<rparr>"

lemma wf_tn1: "wf_names tn1" "name_list tn1 = [''temp'']"
  by (simp_all add: tn1_def tn0_def wf_names_def entries_of_def name_list_def un_Def_def)

theorem lookup_registered_witness:
  "getFieldNameIdFromStr (\<lambda>_. False) tn1 ''temp'' COMP_MSG_NO_INCR = Some (Inr 56, tn1)
   \<and> getFieldNameIdFromStr (\<lambda>_. False) tn1 ''hum'' COMP_MSG_NO_INCR = Some (Inl COMP_MSG_ERR_FIELD_NOT_FOUND, tn1)"
  using lookup_registered [of tn1 0 "''temp''" "\<lambda>_. False"] lookup_registered [of tn1 0 "''hum''" "\<lambda>_. False"]
  by (simp add: wf_tn1)

end
