(* ===== verification/CompMsgUtil.thy ===== *)
theory CompMsgUtil
  imports ErrorCodes
begin

text \<open>
  \<^verbatim>\<open>app/compMsg/compMsgUtil.c\<close>: the table of field value callbacks and the array of message
  descriptions.  (The Base64 and encryption functions of the file are in \<open>Base64\<close> and \<open>Crypto\<close>.)
  A callback is the address of a function.
\<close>

subsection \<open>State\<close>

record callbackInfo =
  callbackId :: u8
  callback :: nat

record compMsgUtil =
  numFieldValueCallbackInfos :: u8
  maxFieldValueCallbackInfos :: u8
  fieldValueCallbackInfos :: "callbackInfo cell list option"

definition zeroCallbackInfo :: callbackInfo where
  "zeroCallbackInfo = \<lparr>callbackId = 0, callback = 0\<rparr>"

text \<open>The cells behind the pointer: none behind a null pointer.\<close>

definition infos :: "compMsgUtil \<Rightarrow> callbackInfo cell list" where
  "infos self = (case fieldValueCallbackInfos self of Some xs \<Rightarrow> xs | None \<Rightarrow> [])"

subsection \<open>Callbacks\<close>

text \<open>
  \<open>setFieldValueCallback\<close> and \<open>getFieldValueCallback\<close> test \<open>fieldValueCallbackInfo->callbackId, callbackId\<close>:
  the comma operator, whose value is the argument.
\<close>

definition setFieldValueCallback :: "compMsgUtil \<Rightarrow> u8 \<Rightarrow> nat \<Rightarrow> (errcode \<times> compMsgUtil) ub" where
  "setFieldValueCallback self cbId cb =
    do { m \<leftarrow> scan (infos self) (\<lambda>_. cbId \<noteq> 0) 0 (unat (numFieldValueCallbackInfos self));
         case m of
           Some (idx, e) \<Rightarrow>
             do { xs \<leftarrow> wr_cell (infos self) idx (e\<lparr>callback := cb\<rparr>);
                  Some (COMP_MSG_ERR_OK, self\<lparr>fieldValueCallbackInfos := Some xs\<rparr>) }
         | None \<Rightarrow> Some (COMP_MSG_ERR_FIELD_VALUE_CALLBACK_NOT_FOUND, self) }"

definition addFieldValueCallbackId :: "allocs \<Rightarrow> compMsgUtil \<Rightarrow> u8 \<Rightarrow> nat \<Rightarrow> (errcode \<times> compMsgUtil) ub" where
  "addFieldValueCallbackId ok self cbId cb =
    (let (rc, self) =
       (if numFieldValueCallbackInfos self \<ge> maxFieldValueCallbackInfos self then
          (case fieldValueCallbackInfos self of
             None \<Rightarrow>
               if ok 0 then (COMP_MSG_ERR_OK, self\<lparr>maxFieldValueCallbackInfos := 40,
                              fieldValueCallbackInfos := Some (zalloc_cells 40 zeroCallbackInfo)\<rparr>)
               else (DATA_VIEW_ERR_OUT_OF_MEMORY, self\<lparr>maxFieldValueCallbackInfos := 40\<rparr>)
           | Some xs \<Rightarrow>
               let m = maxFieldValueCallbackInfos self + 5 in
               (COMP_MSG_ERR_OK, self\<lparr>maxFieldValueCallbackInfos := m,
                  fieldValueCallbackInfos := (if ok 1 then Some (realloc_cells (unat m) xs) else None)\<rparr>))
        else (COMP_MSG_ERR_OK, self)) in
     if rc \<noteq> COMP_MSG_ERR_OK then Some (rc, self)
     else
       do { xs \<leftarrow> wr_cell (infos self) (unat (numFieldValueCallbackInfos self))
              \<lparr>callbackId = cbId, callback = cb\<rparr>;
            Some (COMP_MSG_ERR_OK, self\<lparr>fieldValueCallbackInfos := Some xs,
               numFieldValueCallbackInfos := numFieldValueCallbackInfos self + 1\<rparr>) })"

definition getFieldValueCallback :: "compMsgUtil \<Rightarrow> u8 \<Rightarrow> (errcode + nat) ub" where
  "getFieldValueCallback self cbId =
    do { m \<leftarrow> scan (infos self) (\<lambda>_. cbId \<noteq> 0) 0 (unat (numFieldValueCallbackInfos self));
         Some (case m of Some (idx, e) \<Rightarrow> Inr (callback e)
                       | None \<Rightarrow> Inl COMP_MSG_ERR_FIELD_VALUE_CALLBACK_NOT_FOUND) }"

definition getFieldValueCallbackId :: "compMsgUtil \<Rightarrow> nat \<Rightarrow> (errcode + u8) ub" where
  "getFieldValueCallbackId self cb =
    do { m \<leftarrow> scan (infos self) (\<lambda>e. callback e = cb) 0 (unat (numFieldValueCallbackInfos self));
         Some (case m of Some (idx, e) \<Rightarrow> Inr (callbackId e)
                       | None \<Rightarrow> Inl COMP_MSG_ERR_FIELD_VALUE_CALLBACK_NOT_FOUND) }"

definition compMsgUtilInit :: "compMsgUtil \<Rightarrow> errcode \<times> compMsgUtil" where
  "compMsgUtilInit self = (COMP_MSG_ERR_OK,
     self\<lparr>numFieldValueCallbackInfos := 0, maxFieldValueCallbackInfos := 0, fieldValueCallbackInfos := None\<rparr>)"

definition newCompMsgUtil :: "bool \<Rightarrow> compMsgUtil option" where
  "newCompMsgUtil ok =
    (if ok then Some \<lparr>numFieldValueCallbackInfos = 0, maxFieldValueCallbackInfos = 0,
                      fieldValueCallbackInfos = None\<rparr>
     else None)"

subsection \<open>Message descriptions\<close>

text \<open>
  The struct \<open>msgDescription_t\<close> of \<^verbatim>\<open>compMsgMsgDesc.h\<close>; its pointers are lists, \<open>None\<close> the null pointer.
\<close>

record msgDescription =
  headerFieldValues :: "u8 list option"
  encrypted :: u8
  handleType :: u8
  md_cmdKey :: u16
  numFields :: u8
  fieldSequence :: "u8 list option"
  fieldOffsets :: "u16 list option"
  lastFieldOffset :: u16
  md_fieldFlags :: u16

record msgDescriptionInfos =
  numMsgDescriptions :: u8
  maxMsgDescriptions :: u8
  msgDescriptions :: "msgDescription cell list"

definition zeroMsgDescription :: msgDescription where
  "zeroMsgDescription = \<lparr>headerFieldValues = None, encrypted = 0, handleType = 0, md_cmdKey = 0,
     numFields = 0, fieldSequence = None, fieldOffsets = None, lastFieldOffset = 0, md_fieldFlags = 0\<rparr>"

definition addFieldDescription :: "allocs \<Rightarrow> msgDescriptionInfos \<Rightarrow> (errcode \<times> msgDescriptionInfos) ub" where
  "addFieldDescription ok self =
    (let (rc, self) =
       (if numMsgDescriptions self \<ge> maxMsgDescriptions self then
          if maxMsgDescriptions self = 0 then
            let self = self\<lparr>maxMsgDescriptions := 5\<rparr> in
            if ok 0 then (COMP_MSG_ERR_OK, self\<lparr>msgDescriptions := zalloc_cells 5 zeroMsgDescription\<rparr>)
            else (DATA_VIEW_ERR_OUT_OF_MEMORY, self\<lparr>msgDescriptions := []\<rparr>)
          else
            let self = self\<lparr>maxMsgDescriptions := maxMsgDescriptions self + 1\<rparr> in
            if ok 1 then (COMP_MSG_ERR_OK,
              self\<lparr>msgDescriptions := realloc_cells (unat (maxMsgDescriptions self)) (msgDescriptions self)\<rparr>)
            else (DATA_VIEW_ERR_OUT_OF_MEMORY, self\<lparr>msgDescriptions := []\<rparr>)
        else (COMP_MSG_ERR_OK, self)) in
     if rc \<noteq> COMP_MSG_ERR_OK then Some (rc, self)
     else
       do { ds \<leftarrow> wr_cell (msgDescriptions self) (unat (numMsgDescriptions self)) zeroMsgDescription;
            Some (COMP_MSG_ERR_OK, self\<lparr>msgDescriptions := ds,
               numMsgDescriptions := numMsgDescriptions self + 1\<rparr>) })"

subsection \<open>The table as a list\<close>

text \<open>The registered pairs, oldest first, and the invariant of the table.\<close>

definition registered :: "compMsgUtil \<Rightarrow> callbackInfo list \<Rightarrow> bool" where
  "registered self es \<longleftrightarrow>
    unat (numFieldValueCallbackInfos self) = length es
    \<and> length (infos self) = unat (maxFieldValueCallbackInfos self)
    \<and> length es \<le> length (infos self) \<and> take (length es) (infos self) = map Def es
    \<and> (fieldValueCallbackInfos self = None \<longleftrightarrow> maxFieldValueCallbackInfos self = 0)"

lemma registered_cells:
  "registered self es \<Longrightarrow> infos self = map Def es @ drop (length es) (infos self)"
  by (metis append_take_drop_id registered_def)

lemma scan_registered:
  assumes "registered self es"
  shows "scan (infos self) P 0 (unat (numFieldValueCallbackInfos self)) = Some (find_idx P 0 es)"
proof -
  have "unat (numFieldValueCallbackInfos self) = length es"
    using assms by (simp add: registered_def)
  then show ?thesis
    using scan_defined [of es "drop (length es) (infos self)" P] registered_cells [OF assms] by simp
qed

lemma append_cell:
  assumes "take n xs = map Def es" "n = length es" "n < length xs"
  shows "take (Suc n) (xs[n := Def e]) = map Def (es @ [e])"
  using assms by (simp add: take_Suc_conv_app_nth)

lemma infos_update [simp]:
  "infos (self\<lparr>numFieldValueCallbackInfos := n\<rparr>) = infos self"
  "infos (self\<lparr>maxFieldValueCallbackInfos := n\<rparr>) = infos self"
  "infos (self\<lparr>fieldValueCallbackInfos := Some xs\<rparr>) = xs"
  by (simp_all add: infos_def)

lemma add_registered:
  assumes reg: "registered self es" and room: "length es < 250" and ok: "\<And>k. ok k"
  shows "\<exists>self'. addFieldValueCallbackId ok self i c = Some (COMP_MSG_ERR_OK, self')
    \<and> registered self' (es @ [\<lparr>callbackId = i, callback = c\<rparr>])"
proof -
  let ?n = "numFieldValueCallbackInfos self" and ?m = "maxFieldValueCallbackInfos self"
  have n: "unat ?n = length es" and l: "length (infos self) = unat ?m" and le: "length es \<le> unat ?m"
    and tk: "take (length es) (infos self) = map Def es"
    and nl: "fieldValueCallbackInfos self = None \<longleftrightarrow> ?m = 0"
    using reg by (simp_all add: registered_def)
  have n1: "unat (?n + 1) = length es + 1" using n room by (simp add: unat_word_ariths)
  note defs = addFieldValueCallbackId_def registered_def Let_def ok
  show ?thesis
  proof (cases "?n \<ge> ?m")
    case False
    then have "length es < length (infos self)" using n l by (simp add: not_le word_less_nat_alt)
    moreover have "?m \<noteq> 0" using False by auto
    ultimately show ?thesis
      using False n n1 l append_cell [OF tk refl] by (simp add: defs)
  next
    case True
    then have full: "unat ?m = length es" using n le by (simp add: word_le_nat_alt)
    show ?thesis
    proof (cases "fieldValueCallbackInfos self")
      case None
      then have "es = []" using nl full by simp
      moreover have "take (Suc 0) ((zalloc_cells 40 zeroCallbackInfo)[0 := Def e]) = map Def ([] @ [e])" for e
        by (intro append_cell) simp_all
      ultimately show ?thesis
        using True None n n1 by (simp add: defs)
    next
      case (Some xs)
      have m5: "unat (?m + 5) = length es + 5" using full room by (simp add: unat_word_ariths)
      have x: "infos self = xs" using Some by (simp add: infos_def)
      have "take (length es) (realloc_cells (length es + 5) xs) = map Def es"
        using tk l full by (simp add: realloc_cells_def x)
      then have "take (Suc (length es)) ((realloc_cells (length es + 5) xs)[length es := Def e]) = map Def (es @ [e])" for e
        by (intro append_cell) simp_all
      moreover have "?m + 5 \<noteq> 0" using m5 by (metis add_is_0 unsigned_0 zero_neq_numeral)
      ultimately show ?thesis
        using True Some n n1 m5 by (simp add: defs)
    qed
  qed
qed

subsection \<open>Properties\<close>

text \<open>
  The callback table keeps the registrations in order: adding one to a table of fewer
  than 250 entries succeeds when the allocations do, whatever the capacity was, and appends it; and
  \<open>getFieldValueCallbackId\<close> returns the id of the oldest registration of a callback, or the not
  found code.
\<close>

lemma callback_table:
  assumes "registered self es" and "length es < 250" and "\<forall>k. ok k"
  shows "(\<exists>self'. addFieldValueCallbackId ok self i c = Some (COMP_MSG_ERR_OK, self')
      \<and> registered self' (es @ [\<lparr>callbackId = i, callback = c\<rparr>]))
    \<and> getFieldValueCallbackId self cb = Some (case find (\<lambda>e. callback e = cb) es of
        Some e \<Rightarrow> Inr (callbackId e) | None \<Rightarrow> Inl COMP_MSG_ERR_FIELD_VALUE_CALLBACK_NOT_FOUND)"
proof
  show "\<exists>self'. addFieldValueCallbackId ok self i c = Some (COMP_MSG_ERR_OK, self')
      \<and> registered self' (es @ [\<lparr>callbackId = i, callback = c\<rparr>])"
    using add_registered [OF assms(1,2)] assms(3) by blast
  have "map_option snd (find_idx P k xs) = find P xs" for P k and xs :: "callbackInfo list"
    by (induction xs arbitrary: k) auto
  from this [of "\<lambda>e. callback e = cb" 0 es]
  show "getFieldValueCallbackId self cb = Some (case find (\<lambda>e. callback e = cb) es of
        Some e \<Rightarrow> Inr (callbackId e) | None \<Rightarrow> Inl COMP_MSG_ERR_FIELD_VALUE_CALLBACK_NOT_FOUND)"
    unfolding getFieldValueCallbackId_def scan_registered [OF assms(1)]
    by (cases "find_idx (\<lambda>e. callback e = cb) 0 es") (auto split: option.splits)
qed

definition util0 :: compMsgUtil where
  "util0 = \<lparr>numFieldValueCallbackInfos = 0, maxFieldValueCallbackInfos = 0, fieldValueCallbackInfos = None\<rparr>"

lemma registered_util0: "registered util0 []"
  by (simp add: registered_def util0_def infos_def)

lemma callback_table_witness:
  "(\<exists>self'. addFieldValueCallbackId (\<lambda>_. True) util0 3 77 = Some (COMP_MSG_ERR_OK, self')
      \<and> registered self' [\<lparr>callbackId = 3, callback = 77\<rparr>])
   \<and> getFieldValueCallbackId util0 77 = Some (Inl COMP_MSG_ERR_FIELD_VALUE_CALLBACK_NOT_FOUND)"
  using callback_table [OF registered_util0, of "\<lambda>_. True" 3 77 77] by simp

text \<open>
  The lookup by id does not look at the ids: for every non-zero id it returns the
  callback that was registered first, and \<open>setFieldValueCallback\<close> overwrites that one; for id zero
  both report that nothing was found.
\<close>

lemma callback_lookup_ignores_id:
  assumes "registered self (e # es)"
  shows "getFieldValueCallback self i
      = Some (if i \<noteq> 0 then Inr (callback e) else Inl COMP_MSG_ERR_FIELD_VALUE_CALLBACK_NOT_FOUND)
    \<and> (\<exists>self'. setFieldValueCallback self i c
        = Some (if i \<noteq> 0 then COMP_MSG_ERR_OK else COMP_MSG_ERR_FIELD_VALUE_CALLBACK_NOT_FOUND, self')
      \<and> registered self' ((if i \<noteq> 0 then e\<lparr>callback := c\<rparr> else e) # es))"
proof (cases "i = 0")
  case True
  have "find_idx (\<lambda>_. False) k xs = None" for k and xs :: "callbackInfo list"
    by (simp add: find_idx_None_iff)
  then show ?thesis
    using True assms
    by (simp add: getFieldValueCallback_def setFieldValueCallback_def scan_registered [OF assms])
next
  case False
  from registered_cells [OF assms] obtain r where r: "infos self = Def e # map Def es @ r" by auto
  have "fieldValueCallbackInfos self \<noteq> None" using r by (auto simp: infos_def split: option.splits)
  with False r assms show ?thesis
    by (simp add: getFieldValueCallback_def setFieldValueCallback_def scan_registered [OF assms] registered_def)
qed

lemma callback_lookup_ignores_id_witness:
  "\<exists>self. registered self [\<lparr>callbackId = 3, callback = 77\<rparr>, \<lparr>callbackId = 4, callback = 88\<rparr>]
     \<and> getFieldValueCallback self 4 = Some (Inr 77)"
proof -
  let ?s = "\<lparr>numFieldValueCallbackInfos = 2, maxFieldValueCallbackInfos = 2, fieldValueCallbackInfos
      = Some [Def \<lparr>callbackId = 3, callback = 77\<rparr>, Def \<lparr>callbackId = 4, callback = 88\<rparr>]\<rparr>"
  have "registered ?s [\<lparr>callbackId = 3, callback = 77\<rparr>, \<lparr>callbackId = 4, callback = 88\<rparr>]"
    by (simp add: registered_def infos_def)
  with callback_lookup_ignores_id [OF this, of 4] show ?thesis by auto
qed

end
