(* ===== verification/CompMsgDataView.thy ===== *)
theory CompMsgDataView
  imports DataView TypesAndNames
begin

text \<open>
  \<^verbatim>\<open>app/compMsg/compMsgDataView.c\<close>: the fields of a message in its buffer.  Random and sequence
  numbers, fillers, the two checksums, and the typed access to a field by its description.

  The static counters \<open>sequenceNum\<close> and \<open>compMsgDataViewId\<close> are passed in and out.  \<open>rnd k\<close> is the
  \<open>k\<close>-th value of \<open>rand() & RAND_MAX\<close>.  The arguments of debug output are not modelled.
\<close>

subsection \<open>State\<close>

record compMsgField =
  f_fieldNameId :: u8
  f_fieldTypeId :: u8
  f_fieldFlags :: u8
  f_fieldKeyTypeId :: u8
  f_fieldLgth :: u16
  f_fieldKey :: u16
  f_fieldOffset :: size_t
  f_fieldSizeCallback :: callback

record compMsgDataView =
  dataView :: dataView
  cdv_id :: u8

subsection \<open>Random and sequence numbers\<close>

definition getRandomNum :: "dataView \<Rightarrow> compMsgField \<Rightarrow> (errcode + u32) ub" where
  "getRandomNum dv field = getUint32 dv (f_fieldOffset field)"

definition setRandomNum :: "(nat \<Rightarrow> u32) \<Rightarrow> dataView \<Rightarrow> compMsgField \<Rightarrow> (errcode \<times> dataView) ub" where
  "setRandomNum rnd dv field = setUint32 dv (f_fieldOffset field) (rnd 0)"

definition getSequenceNum :: "dataView \<Rightarrow> compMsgField \<Rightarrow> (errcode + u32) ub" where
  "getSequenceNum dv field = getUint32 dv (f_fieldOffset field)"

text \<open>
  \<open>getClientSequenceNum\<close> of \<^verbatim>\<open>compMsgWifiData\<close> is called through a pointer and is the argument
  \<open>saved\<close>; on success it stores its number in the static counter.
\<close>

definition setSavedSequenceNum ::
  "errcode + i32 \<Rightarrow> i32 \<Rightarrow> dataView \<Rightarrow> compMsgField \<Rightarrow> (errcode \<times> i32 \<times> dataView) ub" where
  "setSavedSequenceNum saved sequenceNum dv field =
    (case saved of
       Inl rc \<Rightarrow> Some (rc, sequenceNum, dv)
     | Inr n \<Rightarrow> do { (rc, dv') \<leftarrow> setUint32 dv (f_fieldOffset field) n; Some (rc, n, dv') })"

definition setSequenceNum :: "i32 \<Rightarrow> dataView \<Rightarrow> compMsgField \<Rightarrow> (errcode \<times> i32 \<times> dataView) ub" where
  "setSequenceNum sequenceNum dv field =
    (if sint sequenceNum = 2 ^ 31 - 1 then None
     else do { (rc, dv') \<leftarrow> setUint32 dv (f_fieldOffset field) sequenceNum;
               Some (rc, sequenceNum + 1, dv') })"

subsection \<open>Fillers\<close>

text \<open>
  \<open>getFiller\<close> copies into the caller's block \<open>*value\<close> and falls off its end: the code it returns on
  that path is indeterminate, modelled as the argument \<open>garbage\<close>.
\<close>

definition getFiller :: "errcode \<Rightarrow> dataView \<Rightarrow> compMsgField \<Rightarrow> mem \<Rightarrow> (errcode \<times> mem) ub" where
  "getFiller garbage dv field value =
    (if f_fieldOffset field + ucast (f_fieldLgth field) > lgth dv
     then Some (DATA_VIEW_ERR_OUT_OF_RANGE, value)
     else do { bs \<leftarrow> rd_block (data dv) (f_fieldOffset field) (unat (f_fieldLgth field));
               value' \<leftarrow> wr_block value 0 bs;
               Some (garbage, value') })"

text \<open>The three loops of \<open>setFiller\<close>: words, then a half word, then a byte; \<open>k\<close> counts the calls of \<open>rand\<close>.\<close>

function setFiller_loop :: "(nat \<Rightarrow> u32) \<Rightarrow> nat \<Rightarrow> dataView \<Rightarrow> size_t \<Rightarrow> nat \<Rightarrow> (errcode \<times> dataView) ub" where
  "setFiller_loop rnd k dv offset n =
    (if n \<ge> 4 then
       checkErrOK (setUint32 dv offset (rnd k)) (\<lambda>dv'. setFiller_loop rnd (Suc k) dv' (offset + 4) (n - 4))
     else if n \<ge> 2 then
       checkErrOK (setUint16 dv offset (ucast (rnd k AND 0xFFFF))) (\<lambda>dv'. setFiller_loop rnd (Suc k) dv' (offset + 2) (n - 2))
     else if n \<ge> 1 then
       checkErrOK (setUint8 dv offset (ucast (rnd k AND 0xFF))) (\<lambda>dv'. setFiller_loop rnd (Suc k) dv' (offset + 1) (n - 1))
     else Some (DATA_VIEW_ERR_OK, dv))"
  by pat_completeness auto
termination by (relation "measure (\<lambda>(rnd, k, dv, offset, n). n)") auto

declare setFiller_loop.simps [simp del]

definition setFiller :: "(nat \<Rightarrow> u32) \<Rightarrow> dataView \<Rightarrow> compMsgField \<Rightarrow> (errcode \<times> dataView) ub" where
  "setFiller rnd dv field = setFiller_loop rnd 0 dv (f_fieldOffset field) (unat (f_fieldLgth field))"

primrec setZeroFiller_loop :: "dataView \<Rightarrow> size_t \<Rightarrow> nat \<Rightarrow> (errcode \<times> dataView) ub" where
  "setZeroFiller_loop dv offset 0 = Some (DATA_VIEW_ERR_OK, dv)"
| "setZeroFiller_loop dv offset (Suc n) =
    checkErrOK (setUint8 dv offset 0) (\<lambda>dv'. setZeroFiller_loop dv' (offset + 1) n)"

definition setZeroFiller :: "dataView \<Rightarrow> compMsgField \<Rightarrow> (errcode \<times> dataView) ub" where
  "setZeroFiller dv field = setZeroFiller_loop dv (f_fieldOffset field) (unat (f_fieldLgth field))"

subsection \<open>Checksums\<close>

text \<open>The loop \<open>while (idx < lgth) crc += data[idx++]\<close>, with \<open>k\<close> rounds left, in 16 bits.\<close>

primrec crc_loop :: "mem \<Rightarrow> nat \<Rightarrow> nat \<Rightarrow> u16 \<Rightarrow> u16 ub" where
  "crc_loop m idx 0 crc = Some crc"
| "crc_loop m idx (Suc k) crc =
    (if idx < length m then crc_loop m (Suc idx) k (crc + ucast (m ! idx)) else None)"

text \<open>The comparison and the store of a checksum, which the two pairs of functions share.\<close>

definition checkCrc :: "dataView \<Rightarrow> compMsgField \<Rightarrow> u16 \<Rightarrow> errcode ub" where
  "checkCrc dv field crcVal =
    (if f_fieldLgth field = 1 then
       do { r \<leftarrow> getUint8 dv (f_fieldOffset field);
            Some (case r of Inl rc \<Rightarrow> rc
              | Inr uint8_crc \<Rightarrow> if crcVal AND 0xFF \<noteq> ucast uint8_crc then COMP_MSG_ERR_BAD_CRC_VALUE else DATA_VIEW_ERR_OK) }
     else
       do { r \<leftarrow> getUint16 dv (f_fieldOffset field);
            Some (case r of Inl rc \<Rightarrow> rc
              | Inr crc \<Rightarrow> if crcVal \<noteq> crc then COMP_MSG_ERR_BAD_CRC_VALUE else DATA_VIEW_ERR_OK) })"

definition storeCrc :: "dataView \<Rightarrow> compMsgField \<Rightarrow> u16 \<Rightarrow> (errcode \<times> dataView) ub" where
  "storeCrc dv field crc =
    do { (_, dv') \<leftarrow> (if f_fieldLgth field = 1
           then setUint8 dv (f_fieldOffset field) (ucast (crc AND 0xFF))
           else setUint16 dv (f_fieldOffset field) crc);
         Some (DATA_VIEW_ERR_OK, dv') }"

definition getCrc :: "dataView \<Rightarrow> compMsgField \<Rightarrow> size_t \<Rightarrow> size_t \<Rightarrow> errcode ub" where
  "getCrc dv field startOffset n =
    do { crcVal \<leftarrow> crc_loop (data dv) (unat startOffset) (unat n - unat startOffset) 0;
         checkCrc dv field (NOT crcVal) }"

definition setCrc :: "dataView \<Rightarrow> compMsgField \<Rightarrow> size_t \<Rightarrow> size_t \<Rightarrow> (errcode \<times> dataView) ub" where
  "setCrc dv field startOffset n =
    do { crc \<leftarrow> crc_loop (data dv) (unat startOffset) (unat n - unat startOffset) 0;
         storeCrc dv field (NOT crc) }"

definition getTotalCrc :: "dataView \<Rightarrow> compMsgField \<Rightarrow> errcode ub" where
  "getTotalCrc dv field =
    do { crcVal \<leftarrow> crc_loop (data dv) 0 (unat (f_fieldOffset field)) 0;
         checkCrc dv field (NOT crcVal) }"

definition setTotalCrc :: "dataView \<Rightarrow> compMsgField \<Rightarrow> (errcode \<times> dataView) ub" where
  "setTotalCrc dv field =
    do { crc \<leftarrow> crc_loop (data dv) 0 (unat (f_fieldOffset field)) 0;
         storeCrc dv field (NOT crc) }"

subsection \<open>Typed access to a field\<close>

text \<open>The block \<open>os_zalloc(n + 1)\<close> with the bytes of a vector field; the test after it tests another pointer.\<close>

definition vectorCopy :: "bool \<Rightarrow> dataView \<Rightarrow> u32 \<Rightarrow> u16 \<Rightarrow> mem ub" where
  "vectorCopy ok dv offset n =
    (if \<not> ok then None
     else do { bs \<leftarrow> rd_block (data dv) offset (unat n); Some (bs @ [0]) })"

definition getFieldValue ::
  "bool \<Rightarrow> dataView \<Rightarrow> compMsgField \<Rightarrow> i32 \<Rightarrow> (errcode + i32 \<times> mem option) ub" where
  "getFieldValue ok dv field fieldIdx =
    (let t = f_fieldTypeId field; off = f_fieldOffset field; n = f_fieldLgth field in
     if t = DATA_VIEW_FIELD_INT8_T then checkGet (getInt8 dv off) (\<lambda>v. Some (Inr (scast v, None)))
     else if t = DATA_VIEW_FIELD_UINT8_T then checkGet (getUint8 dv off) (\<lambda>v. Some (Inr (ucast v, None)))
     else if t = DATA_VIEW_FIELD_INT16_T then checkGet (getInt16 dv off) (\<lambda>v. Some (Inr (scast v, None)))
     else if t = DATA_VIEW_FIELD_UINT16_T then checkGet (getUint16 dv off) (\<lambda>v. Some (Inr (ucast v, None)))
     else if t = DATA_VIEW_FIELD_INT32_T then checkGet (getInt32 dv off) (\<lambda>v. Some (Inr (v, None)))
     else if t = DATA_VIEW_FIELD_UINT32_T then checkGet (getUint32 dv off) (\<lambda>v. Some (Inr (v, None)))
     else if t = DATA_VIEW_FIELD_INT8_VECTOR then do { s \<leftarrow> vectorCopy ok dv off n; Some (Inr (ucast n, Some s)) }
     else if t = DATA_VIEW_FIELD_UINT8_VECTOR then do { s \<leftarrow> vectorCopy ok dv off n; Some (Inr (0, Some s)) }
     else if t = DATA_VIEW_FIELD_INT16_VECTOR
       then checkGet (getInt16 dv (off + fieldIdx * 2)) (\<lambda>v. Some (Inr (scast v, None)))
     else if t = DATA_VIEW_FIELD_UINT16_VECTOR
       then checkGet (getUint16 dv (off + fieldIdx * 2)) (\<lambda>v. Some (Inr (ucast v, None)))
     else Some (Inl COMP_MSG_ERR_BAD_FIELD_TYPE))"

text \<open>
  The \<open>switch\<close> of \<open>setFieldValue\<close> and of \<open>setIdFieldValue\<close>, which have the same text, on the type,
  offset and length of the field: \<open>numeric c s\<close> is a case that wants a number in the range \<open>c\<close>,
  \<open>bytes\<close> one that wants a string.
\<close>

definition setTypedValue ::
  "dataView \<Rightarrow> u8 \<Rightarrow> u32 \<Rightarrow> u16 \<Rightarrow> i32 \<Rightarrow> mem option \<Rightarrow> i32 \<Rightarrow> (errcode \<times> dataView) ub" where
  "setTypedValue dv t off n numericValue stringValue fieldIdx =
    (let v = sint numericValue;
         numeric = (\<lambda>c s. if stringValue \<noteq> None then Some (COMP_MSG_ERR_BAD_VALUE, dv)
                          else if c then s else Some (COMP_MSG_ERR_VALUE_TOO_BIG, dv));
         bytes = (case stringValue of
                    None \<Rightarrow> Some (COMP_MSG_ERR_BAD_VALUE, dv)
                  | Some s \<Rightarrow>
                      if off + ucast n > lgth dv then Some (COMP_MSG_ERR_VALUE_TOO_BIG, dv)
                      else do { bs \<leftarrow> rd_block s 0 (unat n);
                                m \<leftarrow> wr_block (data dv) (off + fieldIdx) bs;
                                Some (DATA_VIEW_ERR_OK, dv\<lparr>data := m\<rparr>) }) in
     if t = DATA_VIEW_FIELD_INT8_T then
       numeric (v > -128 \<and> v < 128) (setInt8 dv (off + fieldIdx) (ucast numericValue))
     else if t = DATA_VIEW_FIELD_UINT8_T then
       numeric True (if v \<ge> 0 \<and> v \<le> 256 then setUint8 dv (off + fieldIdx) (ucast numericValue)
                     else Some (DATA_VIEW_ERR_OK, dv))
     else if t = DATA_VIEW_FIELD_INT16_T then
       numeric (v > -32767 \<and> v < 32767) (setInt16 dv (off + fieldIdx) (ucast numericValue))
     else if t = DATA_VIEW_FIELD_UINT16_T then
       numeric (v \<ge> 0 \<and> v \<le> 65535) (setUint16 dv (off + fieldIdx) (ucast numericValue))
     else if t = DATA_VIEW_FIELD_INT32_T then
       numeric (v > -0x7FFFFFFF \<and> v \<le> 0x7FFFFFFF) (setInt32 dv (off + fieldIdx) numericValue)
     else if t = DATA_VIEW_FIELD_UINT32_T then
       numeric (v > -0x7FFFFFFF \<and> v \<le> 0x7FFFFFFF) (setUint32 dv (off + fieldIdx) numericValue)
     else if t = DATA_VIEW_FIELD_INT8_VECTOR then bytes
     else if t = DATA_VIEW_FIELD_UINT8_VECTOR then bytes
     else if t = DATA_VIEW_FIELD_INT16_VECTOR then
       numeric True (setInt16 dv (off + fieldIdx * 2) (ucast numericValue))
     else if t = DATA_VIEW_FIELD_UINT16_VECTOR then
       numeric True (setUint16 dv (off + fieldIdx * 2) (ucast numericValue))
     else Some (COMP_MSG_ERR_BAD_FIELD_TYPE, dv))"

definition setFieldValue ::
  "dataView \<Rightarrow> compMsgField \<Rightarrow> i32 \<Rightarrow> mem option \<Rightarrow> i32 \<Rightarrow> (errcode \<times> dataView) ub" where
  "setFieldValue dv field numericValue stringValue fieldIdx =
    setTypedValue dv (f_fieldTypeId field) (f_fieldOffset field) (f_fieldLgth field)
      numericValue stringValue fieldIdx"

text \<open>
  Access by field number: the description is taken out of the array of \<open>typesAndNames\<close> without a
  test of the index.
\<close>

definition getIdFieldValue ::
  "bool \<Rightarrow> typesAndNames \<Rightarrow> dataView \<Rightarrow> u8 \<Rightarrow> dataValue \<Rightarrow> (errcode \<times> dataValue) ub" where
  "getIdFieldValue ok tn dv fieldId dataValue =
    do { p \<leftarrow> rd_cell (fieldDescInfos tn) (unat fieldId);
         case p of
           None \<Rightarrow> Some (COMP_MSG_ERR_FIELD_NOT_FOUND, dataValue)
         | Some info \<Rightarrow>
             let t = fieldTypeId info; off = ucast (fieldOffset info) :: u32;
                 dataValue = dataValue\<lparr>dvFieldTypeId := fieldTypeId info, dvFieldLgth := fieldLgth info\<rparr>;
                 got = (\<lambda>r. case r of Inl rc \<Rightarrow> Some (rc, dataValue)
                                    | Inr v \<Rightarrow> Some (DATA_VIEW_ERR_OK, dataValue\<lparr>dvValue := v\<rparr>)) in
             if t = DATA_VIEW_FIELD_INT8_T then getInt8 dv off \<bind> (\<lambda>r. got (map_sum id I8 r))
             else if t = DATA_VIEW_FIELD_UINT8_T then getUint8 dv off \<bind> (\<lambda>r. got (map_sum id U8 r))
             else if t = DATA_VIEW_FIELD_INT16_T then getInt16 dv off \<bind> (\<lambda>r. got (map_sum id I16 r))
             else if t = DATA_VIEW_FIELD_UINT16_T then getUint16 dv off \<bind> (\<lambda>r. got (map_sum id U16 r))
             else if t = DATA_VIEW_FIELD_INT32_T then getInt32 dv off \<bind> (\<lambda>r. got (map_sum id I32 r))
             else if t = DATA_VIEW_FIELD_UINT32_T then getUint32 dv off \<bind> (\<lambda>r. got (map_sum id U32 r))
             else if t = DATA_VIEW_FIELD_INT8_VECTOR \<or> t = DATA_VIEW_FIELD_UINT8_VECTOR then
               if \<not> ok then Some (DATA_VIEW_ERR_OUT_OF_MEMORY, dataValue\<lparr>dvValue := StringValue None\<rparr>)
               else do { s \<leftarrow> vectorCopy ok dv off (fieldLgth info);
                         Some (DATA_VIEW_ERR_OK, dataValue\<lparr>dvValue := StringValue (Some s)\<rparr>) }
             else Some (COMP_MSG_ERR_BAD_FIELD_TYPE, dataValue) }"

definition setIdFieldValue ::
  "typesAndNames \<Rightarrow> dataView \<Rightarrow> u8 \<Rightarrow> i32 \<Rightarrow> mem option \<Rightarrow> i32 \<Rightarrow> (errcode \<times> dataView) ub" where
  "setIdFieldValue tn dv fieldId numericValue stringValue fieldIdx =
    do { p \<leftarrow> rd_cell (fieldDescInfos tn) (unat fieldId);
         case p of
           None \<Rightarrow> Some (COMP_MSG_ERR_FIELD_NOT_FOUND, dv)
         | Some info \<Rightarrow>
             setTypedValue dv (fieldTypeId info) (ucast (fieldOffset info)) (fieldLgth info)
               numericValue stringValue fieldIdx }"

text \<open>The two static counters are \<open>dataViewId\<close> and \<open>compMsgDataViewId\<close>.\<close>

definition newCompMsgDataView ::
  "allocs \<Rightarrow> u8 \<Rightarrow> u8 \<Rightarrow> mem \<Rightarrow> size_t \<Rightarrow> u8 \<times> u8 \<times> compMsgDataView option" where
  "newCompMsgDataView ok dataViewId compMsgDataViewId d n =
    (if \<not> ok 0 then (dataViewId, compMsgDataViewId, None)
     else case newDataView (ok 1) dataViewId d n of
       (dataViewId', None) \<Rightarrow> (dataViewId', compMsgDataViewId, None)
     | (dataViewId', Some dv) \<Rightarrow>
         (dataViewId', compMsgDataViewId + 1,
          Some \<lparr>dataView = dv, cdv_id = compMsgDataViewId + 1\<rparr>))"

subsection \<open>Sums of bytes\<close>

definition byte_sum :: "mem \<Rightarrow> u16" where
  "byte_sum bs = sum_list (map ucast bs)"

lemma crc_loop_sum:
  "idx + k \<le> length m \<Longrightarrow> crc_loop m idx k c = Some (c + byte_sum (take k (drop idx m)))"
proof (induction k arbitrary: idx c)
  case (Suc k)
  then have "drop idx m = m ! idx # drop (Suc idx) m" by (simp add: Cons_nth_drop_Suc)
  with Suc show ?case by (simp add: byte_sum_def add.assoc)
qed (simp add: byte_sum_def)

lemma byte_sum_update:
  "j < length bs \<Longrightarrow> byte_sum (bs[j := b]) = byte_sum bs - ucast (bs ! j) + ucast b"
proof (induction bs arbitrary: j)
  case (Cons a bs)
  then show ?case by (cases j) (simp_all add: byte_sum_def)
qed simp

lemma low_byte_add: "(ucast (a + b :: u16) :: u8) = ucast a + ucast b"
  by (simp add: word_unat_eq_iff unsigned_ucast_eq unat_word_ariths take_bit_eq_mod mod_mod_cancel mod_add_eq)

lemma low_byte_diff: "(ucast (a - b :: u16) :: u8) = ucast a - ucast b"
proof -
  have "(ucast (a - b + b) :: u8) = ucast (a - b) + ucast b" by (rule low_byte_add)
  then show ?thesis by simp
qed

lemma low_byte_not: "(ucast (NOT a AND 0xFF :: u16) :: u8) = NOT (ucast a)"
  by (rule bit_word_eqI) (auto simp: and_255 bit_simps)

lemma low_byte_eq: "(c AND 0xFF = (ucast b :: u16)) = (b = ucast (c AND 0xFF))" for b :: u8
proof
  assume "b = ucast (c AND 0xFF)"
  then show "c AND 0xFF = ucast b"
    by (auto intro!: bit_word_eqI simp: and_255 bit_simps)
next
  assume "c AND 0xFF = ucast b"
  then have "ucast (c AND 0xFF) = (ucast (ucast b :: u16) :: u8)" by simp
  then show "b = ucast (c AND 0xFF)" by simp
qed

lemma be16_from_be16: "length bs = 2 \<Longrightarrow> be16 (from_be16 bs) = bs"
proof -
  assume "length bs = 2"
  then obtain a b where bs: "bs = [a, b]" by (auto simp: length_Suc_conv numeral_2_eq_2)
  have hi: "\<not> bit x n" if "\<not> n < 8" for x :: u8 and n
    using that by (auto dest: bit_imp_le_length)
  have t: "take_bit 8 (ucast x :: u16) = ucast x" for x :: u8
    by (rule bit_word_eqI) (auto simp: bit_simps dest: bit_imp_le_length)
  have "from_be16 bs = push_bit 8 (ucast a) + (ucast b :: u16)"
    by (simp add: bs from_be16_def and_255 t)
  also have "\<dots> = push_bit 8 (ucast a) OR ucast b"
    by (subst disjunctive_add) (auto simp: bit_simps dest: bit_imp_le_length)
  finally have "from_be16 bs = push_bit 8 (ucast a) OR ucast b" .
  then have "drop_bit 8 (from_be16 bs) AND 0xFF = ucast a" "from_be16 bs AND 0xFF = ucast b"
    unfolding and_255 by (auto intro!: bit_word_eqI simp: bit_simps hi) (use hi in blast)+
  then show ?thesis by (simp add: be16_def bs)
qed

lemma be16_inj [simp]: "be16 a = be16 b \<longleftrightarrow> a = b"
  by (metis from_be16_be16)

subsection \<open>Checksums\<close>

text \<open>The bytes a checksum is stored as, and the well-formed position of its field beside the region it covers.\<close>

definition crcWidth :: "compMsgField \<Rightarrow> nat" where
  "crcWidth field = (if f_fieldLgth field = 1 then 1 else 2)"

definition crcBytes :: "compMsgField \<Rightarrow> u16 \<Rightarrow> mem" where
  "crcBytes field crc = (if f_fieldLgth field = 1 then [ucast (crc AND 0xFF)] else be16 crc)"

definition crc_covers :: "dataView \<Rightarrow> compMsgField \<Rightarrow> size_t \<Rightarrow> size_t \<Rightarrow> bool" where
  "crc_covers dv field startOffset n \<longleftrightarrow>
    fits dv (f_fieldOffset field) (crcWidth field)
    \<and> unat startOffset \<le> unat n \<and> unat n \<le> unat (lgth dv)
    \<and> (unat n \<le> unat (f_fieldOffset field) \<or> unat (f_fieldOffset field) + crcWidth field \<le> unat startOffset)"

definition covered :: "dataView \<Rightarrow> size_t \<Rightarrow> size_t \<Rightarrow> mem" where
  "covered dv startOffset n = take (unat n - unat startOffset) (drop (unat startOffset) (data dv))"

lemma length_crcBytes [simp]: "length (crcBytes field c) = crcWidth field"
  by (simp add: crcBytes_def crcWidth_def)

lemma checkCrc_fits:
  assumes "fits dv (f_fieldOffset field) (crcWidth field)"
  shows "checkCrc dv field c = Some (if take (crcWidth field) (drop (unat (f_fieldOffset field)) (data dv)) = crcBytes field c
      then DATA_VIEW_ERR_OK else COMP_MSG_ERR_BAD_CRC_VALUE)"
proof (cases "f_fieldLgth field = 1")
  case True
  have "unat (f_fieldOffset field) < length (data dv)"
    using assms True by (simp add: fits_def wf_view_def crcWidth_def)
  then have "take 1 (drop (unat (f_fieldOffset field)) (data dv)) = [data dv ! unat (f_fieldOffset field)]"
    by (simp add: take_Suc_conv_app_nth take_Suc hd_drop_conv_nth)
  with True assms show ?thesis
    by (simp add: checkCrc_def crcWidth_def crcBytes_def get8_fits low_byte_eq)
next
  case False
  let ?bs = "take 2 (drop (unat (f_fieldOffset field)) (data dv))"
  have "unat (f_fieldOffset field) + 2 \<le> length (data dv)"
    using assms False by (simp add: fits_def wf_view_def crcWidth_def)
  then have "length ?bs = 2" by simp
  then have "c = from_be16 ?bs \<longleftrightarrow> ?bs = be16 c"
    by (metis be16_from_be16 from_be16_be16)
  with False assms show ?thesis
    by (simp add: checkCrc_def crcWidth_def crcBytes_def get16_fits)
qed

lemma storeCrc_fits:
  assumes "fits dv (f_fieldOffset field) (crcWidth field)"
  shows "storeCrc dv field c
    = Some (DATA_VIEW_ERR_OK, dv\<lparr>data := put (data dv) (unat (f_fieldOffset field)) (crcBytes field c)\<rparr>)"
  using assms by (simp add: storeCrc_def crcWidth_def crcBytes_def set8_fits set16_fits split: if_splits)

lemma crc_loop_covered:
  assumes "crc_covers dv field s n"
  shows "crc_loop (data dv) (unat s) (unat n - unat s) 0 = Some (byte_sum (covered dv s n))"
  using assms by (subst crc_loop_sum) (simp_all add: crc_covers_def fits_def wf_view_def covered_def)

lemma getCrc_covered:
  assumes "crc_covers dv field s n"
  shows "getCrc dv field s n = Some
    (if take (crcWidth field) (drop (unat (f_fieldOffset field)) (data dv)) = crcBytes field (NOT (byte_sum (covered dv s n)))
     then DATA_VIEW_ERR_OK else COMP_MSG_ERR_BAD_CRC_VALUE)"
  using assms checkCrc_fits [of dv field]
  by (simp add: getCrc_def crc_loop_covered [OF assms] crc_covers_def)

lemma setCrc_covered:
  assumes "crc_covers dv field s n"
  shows "setCrc dv field s n = Some (DATA_VIEW_ERR_OK, dv\<lparr>data := put (data dv) (unat (f_fieldOffset field))
     (crcBytes field (NOT (byte_sum (covered dv s n))))\<rparr>)"
  using assms by (simp add: setCrc_def crc_loop_covered [OF assms] storeCrc_fits crc_covers_def)

lemma crc_covers_data:
  "length m = length (data dv) \<Longrightarrow> crc_covers (dv\<lparr>data := m\<rparr>) field s n = crc_covers dv field s n"
  by (simp add: crc_covers_def fits_def wf_view_def)

lemma covered_put_field:
  assumes "crc_covers dv field s n" "length bs = crcWidth field"
  shows "covered (dv\<lparr>data := put (data dv) (unat (f_fieldOffset field)) bs\<rparr>) s n = covered dv s n"
  using assms unfolding covered_def
  by (simp, intro take_drop_put_disjoint) (auto simp: crc_covers_def fits_def wf_view_def)

lemma crcBytes_inj:
  assumes "crcBytes field (NOT (c - ucast a + ucast b)) = crcBytes field (NOT c)"
  shows "a = (b :: u8)"
proof (cases "f_fieldLgth field = 1")
  case True
  then have "NOT (ucast (c - ucast a + ucast b) :: u8) = NOT (ucast c)"
    using assms by (simp add: crcBytes_def low_byte_not)
  then have "ucast (c - ucast a + ucast b) = (ucast c :: u8)"
    by (metis bit.double_compl)
  then show ?thesis by (simp add: low_byte_add low_byte_diff)
next
  case False
  then have "c - ucast a + ucast b = c"
    using assms by (simp add: crcBytes_def)
  then have "(ucast a :: u16) = ucast b" by (simp add: algebra_simps)
  then have "(ucast (ucast a :: u16) :: u8) = ucast (ucast b :: u16)" by simp
  then show ?thesis by simp
qed

lemma getCrc_put:
  assumes c: "crc_covers dv field s n"
  shows "getCrc (dv\<lparr>data := put (data dv) (unat (f_fieldOffset field)) (crcBytes field (NOT (byte_sum (covered dv s n))))\<rparr>) field s n
    = Some DATA_VIEW_ERR_OK"
proof -
  let ?bs = "crcBytes field (NOT (byte_sum (covered dv s n)))"
  let ?dv = "dv\<lparr>data := put (data dv) (unat (f_fieldOffset field)) ?bs\<rparr>"
  have cov: "covered ?dv s n = covered dv s n" by (rule covered_put_field [OF c]) simp
  have "crc_covers ?dv field s n" using c by (simp add: crc_covers_data)
  moreover have "take (crcWidth field) (drop (unat (f_fieldOffset field)) (data ?dv)) = ?bs"
    using take_drop_put_same [of "unat (f_fieldOffset field)" ?bs "data dv"] c by (simp add: crc_covers_def fits_def wf_view_def)
  ultimately show ?thesis by (simp add: getCrc_covered cov)
qed

lemma total_is_crc:
  "getTotalCrc dv field = getCrc dv field 0 (f_fieldOffset field)"
  "setTotalCrc dv field = setCrc dv field 0 (f_fieldOffset field)"
  by (simp_all add: getTotalCrc_def getCrc_def setTotalCrc_def setCrc_def)

subsection \<open>Fillers\<close>

lemma zero_fill:
  assumes "fits dv off n"
  shows "setZeroFiller_loop dv off n = Some (DATA_VIEW_ERR_OK, dv\<lparr>data := put (data dv) (unat off) (replicate n 0)\<rparr>)"
  using assms
proof (induction n arbitrary: dv off)
  case (Suc n)
  let ?dv = "dv\<lparr>data := put (data dv) (unat off) [0]\<rparr>"
  have f: "fits dv off 1" using Suc.prems by (simp add: fits_def)
  show ?case
  proof (cases "n = 0")
    case False
    have o1: "unat (off + 1) = unat off + 1" using fits_offsets(1) [OF Suc.prems] False by simp
    then have "fits ?dv (off + 1) n" using Suc.prems by (simp add: fits_def wf_view_def)
    from Suc.IH [OF this] show ?thesis
      using set8_fits [OF f, of 0] by (simp add: o1)
  qed (simp add: set8_fits [OF f])
qed simp

text \<open>Writing a first part and a rest behind it, the step of every loop over a growing offset.\<close>

lemma fill_step:
  assumes "fits dv off (length bs + n)" "0 < length bs"
  shows "0 < n \<Longrightarrow> unat (off + word_of_nat (length bs)) = unat off + length bs"
    and "put (put (data dv) (unat off) bs) (unat off + length bs) cs = put (data dv) (unat off) (bs @ cs)
      \<or> \<not> length cs \<le> n"
proof -
  have l: "unat off + length bs + n \<le> unat (lgth dv)" using assms by (simp add: fits_def)
  then have "unat off + length bs < 2 ^ 32" if "0 < n" using that unat_u32_less [of "lgth dv"] by simp
  then show "0 < n \<Longrightarrow> unat (off + word_of_nat (length bs)) = unat off + length bs"
    by (simp add: unat_word_ariths unat_of_nat take_bit_nat_eq_self_iff)
  show "put (put (data dv) (unat off) bs) (unat off + length bs) cs = put (data dv) (unat off) (bs @ cs)
      \<or> \<not> length cs \<le> n"
    using put_put_adjacent [of "unat off" bs cs "data dv"] assms(1) by (auto simp: fits_def wf_view_def)
qed

lemma random_fill_step:
  assumes "fits dv off n" "n \<noteq> 0"
  shows "\<exists>e. 0 < length e \<and> length e \<le> n \<and> setFiller_loop rnd k dv off n
    = setFiller_loop rnd (Suc k) (dv\<lparr>data := put (data dv) (unat off) e\<rparr>) (off + word_of_nat (length e)) (n - length e)"
proof -
  have f: "fits dv off m" if "m \<le> n" for m using assms that by (auto simp: fits_def)
  consider "4 \<le> n" | "2 \<le> n" "\<not> 4 \<le> n" | "n = 1" using assms(2) by linarith
  then show ?thesis
  proof cases
    case 1
    then show ?thesis
      using f [of 4] by (intro exI [of _ "be32 (rnd k)"], subst setFiller_loop.simps) (simp add: set32_fits)
  next
    case 2
    then show ?thesis
      using f [of 2]
      by (intro exI [of _ "be16 (ucast (rnd k AND 0xFFFF))"], subst setFiller_loop.simps) (simp add: set16_fits)
  next
    case 3
    then show ?thesis
      using f [of 1]
      by (intro exI [of _ "[ucast (rnd k AND 0xFF)]"], subst setFiller_loop.simps) (simp add: set8_fits)
  qed
qed

lemma random_fill:
  "fits dv off n \<Longrightarrow> \<exists>bs. length bs = n \<and>
    setFiller_loop rnd k dv off n = Some (DATA_VIEW_ERR_OK, dv\<lparr>data := put (data dv) (unat off) bs\<rparr>)"
proof (induction n arbitrary: k dv off rule: less_induct)
  case (less n)
  show ?case
  proof (cases "n = 0")
    case True
    then show ?thesis by (subst setFiller_loop.simps) simp
  next
    case False
    obtain e where e: "0 < length e" "length e \<le> n" and step: "setFiller_loop rnd k dv off n
      = setFiller_loop rnd (Suc k) (dv\<lparr>data := put (data dv) (unat off) e\<rparr>) (off + word_of_nat (length e)) (n - length e)"
      using random_fill_step [OF less.prems False] by blast
    let ?dv = "dv\<lparr>data := put (data dv) (unat off) e\<rparr>" and ?m = "n - length e"
    have fit: "fits dv off (length e + ?m)" using less.prems e by simp
    show ?thesis
    proof (cases "?m = 0")
      case True
      then have "setFiller_loop rnd k dv off n = Some (0, ?dv)"
        unfolding step by (subst setFiller_loop.simps) simp
      moreover have "length e = n" using True e by simp
      ultimately show ?thesis by blast
    next
      case rest: False
      have o: "unat (off + word_of_nat (length e)) = unat off + length e"
        using fill_step(1) [OF fit e(1)] rest by simp
      have "fits ?dv (off + word_of_nat (length e)) ?m"
        using fit by (simp add: fits_def wf_view_def o)
      moreover have "?m < n" using e(1) False by (intro diff_less) simp_all
      ultimately obtain bs where bs: "length bs = ?m"
        "setFiller_loop rnd (Suc k) ?dv (off + word_of_nat (length e)) ?m
          = Some (0, ?dv\<lparr>data := put (data ?dv) (unat (off + word_of_nat (length e))) bs\<rparr>)"
        using less.IH by blast
      have "put (put (data dv) (unat off) e) (unat off + length e) bs = put (data dv) (unat off) (e @ bs)"
        using fill_step(2) [OF fit e(1), of bs] bs(1) by simp
      then have "setFiller_loop rnd k dv off n = Some (0, dv\<lparr>data := put (data dv) (unat off) (e @ bs)\<rparr>)"
        unfolding step bs(2) o by simp
      moreover have "length (e @ bs) = n" using bs(1) e by simp
      ultimately show ?thesis by blast
    qed
  qed
qed

subsection \<open>Field values\<close>

definition fieldWidth :: "u8 \<Rightarrow> nat" where
  "fieldWidth t = (if t = DATA_VIEW_FIELD_INT8_T \<or> t = DATA_VIEW_FIELD_UINT8_T then 1
     else if t = DATA_VIEW_FIELD_INT16_T \<or> t = DATA_VIEW_FIELD_UINT16_T then 2 else 4)"

text \<open>The numbers \<open>setFieldValue\<close> stores unchanged, by scalar type.\<close>

definition representable :: "u8 \<Rightarrow> int \<Rightarrow> bool" where
  "representable t v \<longleftrightarrow>
    t = DATA_VIEW_FIELD_INT8_T \<and> -128 < v \<and> v < 128
    \<or> t = DATA_VIEW_FIELD_UINT8_T \<and> 0 \<le> v \<and> v \<le> 255
    \<or> t = DATA_VIEW_FIELD_INT16_T \<and> -32767 < v \<and> v < 32767
    \<or> t = DATA_VIEW_FIELD_UINT16_T \<and> 0 \<le> v \<and> v \<le> 65535
    \<or> (t = DATA_VIEW_FIELD_INT32_T \<or> t = DATA_VIEW_FIELD_UINT32_T) \<and> -0x7FFFFFFF < v \<and> v \<le> 0x7FFFFFFF"

text \<open>The bits of a number in a field of its width.\<close>

definition holds :: "dataView \<Rightarrow> u8 \<Rightarrow> u32 \<Rightarrow> i32 \<Rightarrow> bool" where
  "holds dv t off v \<longleftrightarrow>
    (if fieldWidth t = 1 then getUint8 dv off = Some (Inr (ucast v))
     else if fieldWidth t = 2 then getUint16 dv off = Some (Inr (ucast v))
     else getUint32 dv off = Some (Inr v))"

lemma representable_cases:
  assumes "representable t x"
  obtains "t = DATA_VIEW_FIELD_INT8_T" "-128 < x" "x < 128"
    | "t = DATA_VIEW_FIELD_UINT8_T" "0 \<le> x" "x \<le> 255"
    | "t = DATA_VIEW_FIELD_INT16_T" "-32767 < x" "x < 32767"
    | "t = DATA_VIEW_FIELD_UINT16_T" "0 \<le> x" "x \<le> 65535"
    | "t = DATA_VIEW_FIELD_INT32_T" "-0x7FFFFFFF < x" "x \<le> 0x7FFFFFFF"
    | "t = DATA_VIEW_FIELD_UINT32_T" "-0x7FFFFFFF < x" "x \<le> 0x7FFFFFFF"
  using assms by (auto simp: representable_def)

lemma set_scalar:
  assumes "representable t (sint v)" and "fits dv off (fieldWidth t)"
  shows "\<exists>dv'. setTypedValue dv t off n v None 0 = Some (DATA_VIEW_ERR_OK, dv') \<and> holds dv' t off v"
  using assms(1)
proof (cases rule: representable_cases)
  case 1
  then show ?thesis using acc_u8.get_set_same [of dv off "ucast v"] assms(2)
    by (auto simp: setTypedValue_def holds_def fieldWidth_def setInt_eq)
next
  case 2
  then show ?thesis using acc_u8.get_set_same [of dv off "ucast v"] assms(2)
    by (auto simp: setTypedValue_def holds_def fieldWidth_def)
next
  case 3
  then show ?thesis using acc_u16.get_set_same [of dv off "ucast v"] assms(2)
    by (auto simp: setTypedValue_def holds_def fieldWidth_def setInt_eq)
next
  case 4
  then show ?thesis using acc_u16.get_set_same [of dv off "ucast v"] assms(2)
    by (auto simp: setTypedValue_def holds_def fieldWidth_def)
next
  case 5
  then show ?thesis using acc_u32.get_set_same [of dv off v] assms(2)
    by (auto simp: setTypedValue_def holds_def fieldWidth_def setInt_eq)
next
  case 6
  then show ?thesis using acc_u32.get_set_same [of dv off v] assms(2)
    by (auto simp: setTypedValue_def holds_def fieldWidth_def)
qed

lemma get_scalar:
  assumes "representable (f_fieldTypeId field) (sint v)"
    and "holds dv (f_fieldTypeId field) (f_fieldOffset field) v"
  shows "getFieldValue ok dv field idx = Some (Inr (v, None))"
  using assms(1)
  by (cases rule: representable_cases; use assms(2) in
    \<open>simp add: getFieldValue_def holds_def fieldWidth_def getInt_eq narrow_widen\<close>)

subsection \<open>Properties\<close>

text \<open>
  Claim C7.  A checksum that was set is accepted: with the checksum field inside the view and
  outside the covered bytes, \<open>setCrc\<close> succeeds, changes only the field, and \<open>getCrc\<close> then returns OK,
  for one and two byte fields; the same holds for the pair \<open>setTotalCrc\<close>, \<open>getTotalCrc\<close>, which
  covers everything before the field.
\<close>

theorem crc_accepts:
  assumes "crc_covers dv field s n"
  shows "(\<exists>dv'. setCrc dv field s n = Some (DATA_VIEW_ERR_OK, dv') \<and> getCrc dv' field s n = Some DATA_VIEW_ERR_OK
      \<and> covered dv' s n = covered dv s n
      \<and> take (unat (f_fieldOffset field)) (data dv') = take (unat (f_fieldOffset field)) (data dv)
      \<and> drop (unat (f_fieldOffset field) + crcWidth field) (data dv') = drop (unat (f_fieldOffset field) + crcWidth field) (data dv))
    \<and> (\<exists>dv'. setTotalCrc dv field = Some (DATA_VIEW_ERR_OK, dv') \<and> getTotalCrc dv' field = Some DATA_VIEW_ERR_OK)"
proof -
  have fit: "unat (f_fieldOffset field) + crcWidth field \<le> length (data dv)"
    using assms by (simp add: crc_covers_def fits_def wf_view_def)
  have main: "\<exists>dv'. setCrc dv field s n = Some (DATA_VIEW_ERR_OK, dv') \<and> getCrc dv' field s n = Some DATA_VIEW_ERR_OK
      \<and> covered dv' s n = covered dv s n
      \<and> dv' = dv\<lparr>data := put (data dv) (unat (f_fieldOffset field)) (crcBytes field (NOT (byte_sum (covered dv s n))))\<rparr>"
    if c: "crc_covers dv field s n" for s n
    using setCrc_covered [OF c] getCrc_put [OF c] covered_put_field [OF c, of "crcBytes field (NOT (byte_sum (covered dv s n)))"] by simp
  have "crc_covers dv field 0 (f_fieldOffset field)"
    using assms by (auto simp: crc_covers_def fits_def)
  then have "\<exists>dv'. setTotalCrc dv field = Some (DATA_VIEW_ERR_OK, dv') \<and> getTotalCrc dv' field = Some DATA_VIEW_ERR_OK"
    unfolding total_is_crc using main by blast
  moreover have "drop (unat (f_fieldOffset field) + crcWidth field) (put (data dv) (unat (f_fieldOffset field)) (crcBytes field c))
      = drop (unat (f_fieldOffset field) + crcWidth field) (data dv)" for c
    by (rule nth_equalityI) (use fit in \<open>auto simp: nth_put\<close>)
  ultimately show ?thesis
    using main [OF assms] fit by (auto simp: take_put)
qed

definition view4 :: dataView where
  "view4 = \<lparr>data = [1, 2, 3, 0, 0], lgth = 5, dv_id = 1\<rparr>"

definition crcField4 :: compMsgField where
  "crcField4 = \<lparr>f_fieldNameId = 11, f_fieldTypeId = 3, f_fieldFlags = 0, f_fieldKeyTypeId = 0,
    f_fieldLgth = 2, f_fieldKey = 0, f_fieldOffset = 3, f_fieldSizeCallback = 0\<rparr>"

lemma crc_covers4: "crc_covers view4 crcField4 0 3"
  by (simp add: crc_covers_def fits_def wf_view_def view4_def crcField4_def crcWidth_def)

theorem crc_accepts_witness:
  "\<exists>dv'. setCrc view4 crcField4 0 3 = Some (DATA_VIEW_ERR_OK, dv') \<and> getCrc dv' crcField4 0 3 = Some DATA_VIEW_ERR_OK"
  using crc_accepts [OF crc_covers4] by auto

text \<open>
  Claim C8.  The checksum detects every change of a single covered byte: after \<open>setCrc\<close>, replacing
  one byte of the covered region by a different one makes \<open>getCrc\<close> return \<open>BAD_CRC_VALUE\<close>, for one
  and two byte fields.
\<close>

theorem crc_detects_byte_change:
  assumes "crc_covers dv field s n" and "setCrc dv field s n = Some (rc, dv')"
    and "unat s \<le> j" and "j < unat n" and "b \<noteq> data dv' ! j"
  shows "getCrc (dv'\<lparr>data := (data dv')[j := b]\<rparr>) field s n = Some COMP_MSG_ERR_BAD_CRC_VALUE"
proof -
  let ?off = "unat (f_fieldOffset field)" and ?w = "crcWidth field"
  let ?bs = "crcBytes field (NOT (byte_sum (covered dv s n)))"
  let ?bad = "dv'\<lparr>data := (data dv')[j := b]\<rparr>"
  have dv': "dv' = dv\<lparr>data := put (data dv) ?off ?bs\<rparr>"
    using assms(1,2) by (simp add: setCrc_covered)
  have fit: "?off + ?w \<le> length (data dv)" and out: "j < ?off \<or> ?off + ?w \<le> j" and jl: "j < length (data dv)"
    using assms(1,3,4) by (auto simp: crc_covers_def fits_def wf_view_def)
  have cov': "covered dv' s n = covered dv s n"
    unfolding dv' by (rule covered_put_field [OF assms(1)]) simp
  have "covered ?bad s n = (covered dv' s n)[j - unat s := b]"
    using assms(3) by (simp add: covered_def drop_update_swap take_update_swap)
  moreover have "covered dv' s n ! (j - unat s) = data dv' ! j" and "j - unat s < length (covered dv' s n)"
    using assms(1,3,4) jl
    by (simp_all add: covered_def dv' crc_covers_def fits_def wf_view_def less_diff_iff diff_less_mono)
  ultimately have sum: "byte_sum (covered ?bad s n) = byte_sum (covered dv s n) - ucast (data dv' ! j) + ucast b"
    by (simp add: byte_sum_update cov')
  have "take ?w (drop ?off (data ?bad)) = take ?w (drop ?off (data dv'))"
    using out by (auto simp: drop_update_swap take_update_cancel drop_update_cancel)
  also have "\<dots> = ?bs"
    using take_drop_put_same [of ?off ?bs "data dv"] fit by (simp add: dv')
  finally have "take ?w (drop ?off (data ?bad)) \<noteq> crcBytes field (NOT (byte_sum (covered ?bad s n)))"
    using crcBytes_inj [of field "byte_sum (covered dv s n)" "data dv' ! j" b] assms(5) unfolding sum by metis
  moreover have "crc_covers ?bad field s n"
    using assms(1) by (simp add: dv' crc_covers_def fits_def wf_view_def)
  ultimately show ?thesis by (simp add: getCrc_covered)
qed

theorem crc_detects_byte_change_witness:
  "\<exists>dv'. setCrc view4 crcField4 0 3 = Some (0, dv')
     \<and> getCrc (dv'\<lparr>data := (data dv')[1 := data dv' ! 1 + 1]\<rparr>) crcField4 0 3 = Some COMP_MSG_ERR_BAD_CRC_VALUE"
proof -
  obtain dv' where s: "setCrc view4 crcField4 0 3 = Some (0, dv')"
    using setCrc_covered [OF crc_covers4] by auto
  have "data dv' ! 1 + 1 \<noteq> data dv' ! 1" by simp
  then show ?thesis
    using s crc_detects_byte_change [OF crc_covers4 s, of 1 "data dv' ! 1 + 1"] by auto
qed

text \<open>
  Both fillers return OK on a field inside the view and change its bytes only:
  \<open>setZeroFiller\<close> makes all of them zero, \<open>setFiller\<close> writes the field in words, half words and a byte
  without leaving it.
\<close>

lemma fillers_stay_inside:
  assumes "fits dv (f_fieldOffset field) (unat (f_fieldLgth field))"
  shows "setZeroFiller dv field = Some (DATA_VIEW_ERR_OK,
      dv\<lparr>data := put (data dv) (unat (f_fieldOffset field)) (replicate (unat (f_fieldLgth field)) 0)\<rparr>)
    \<and> (\<exists>bs. length bs = unat (f_fieldLgth field) \<and> setFiller rnd dv field
      = Some (DATA_VIEW_ERR_OK, dv\<lparr>data := put (data dv) (unat (f_fieldOffset field)) bs\<rparr>))"
  using assms zero_fill random_fill unfolding setZeroFiller_def setFiller_def by blast

lemma fillers_stay_inside_witness:
  "setZeroFiller view4 (crcField4\<lparr>f_fieldOffset := 1\<rparr>)
     = Some (DATA_VIEW_ERR_OK, view4\<lparr>data := [1, 0, 0, 0, 0]\<rparr>)"
proof -
  have "replicate 2 (0 :: u8) = [0, 0]" by (simp add: numeral_2_eq_2)
  then show ?thesis
    using fillers_stay_inside [of view4 "crcField4\<lparr>f_fieldOffset := 1\<rparr>"]
    by (simp add: fits_def wf_view_def view4_def crcField4_def)
qed

text \<open>
  A number stored in a scalar field is read back unchanged, for all six scalar types:
  \<open>setFieldValue\<close> accepts every number of the type's accepted range, and \<open>getFieldValue\<close> then returns
  the same \<open>int\<close>, the sign included.
\<close>

lemma field_value_roundtrip:
  assumes "representable (f_fieldTypeId field) (sint v)"
    and "fits dv (f_fieldOffset field) (fieldWidth (f_fieldTypeId field))"
  shows "\<exists>dv'. setFieldValue dv field v None 0 = Some (DATA_VIEW_ERR_OK, dv')
    \<and> getFieldValue ok dv' field idx = Some (Inr (v, None))"
  using set_scalar [OF assms, of "f_fieldLgth field"] get_scalar [OF assms(1)]
  unfolding setFieldValue_def by blast

lemma field_value_roundtrip_witness:
  "\<exists>dv'. setFieldValue view4 (crcField4\<lparr>f_fieldTypeId := 4, f_fieldOffset := 1\<rparr>) (-2) None 0 = Some (DATA_VIEW_ERR_OK, dv')
    \<and> getFieldValue True dv' (crcField4\<lparr>f_fieldTypeId := 4, f_fieldOffset := 1\<rparr>) 0 = Some (Inr (-2, None))"
  using field_value_roundtrip [of "crcField4\<lparr>f_fieldTypeId := 4, f_fieldOffset := 1\<rparr>" "-2" view4 True 0]
  by (simp add: representable_def fieldWidth_def fits_def wf_view_def view4_def crcField4_def)

text \<open>
  The ends of the ranges: an unsigned 8 bit field takes the number 256 and stores 0, and
  every other number outside 0 to 256 is dropped while OK is returned; the smallest 8, 16 and 32 bit
  numbers and the largest 16 bit one are refused with \<open>VALUE_TOO_BIG\<close> and leave the view unchanged.
\<close>

lemma field_value_range_ends:
  assumes "fits dv (f_fieldOffset field) 1" and "sint v < 0 \<or> 256 < sint v"
  shows "setFieldValue dv (field\<lparr>f_fieldTypeId := DATA_VIEW_FIELD_UINT8_T\<rparr>) 256 None 0
      = Some (DATA_VIEW_ERR_OK, dv\<lparr>data := put (data dv) (unat (f_fieldOffset field)) [0]\<rparr>)
    \<and> setFieldValue dv (field\<lparr>f_fieldTypeId := DATA_VIEW_FIELD_UINT8_T\<rparr>) v None 0 = Some (DATA_VIEW_ERR_OK, dv)
    \<and> setFieldValue dv (field\<lparr>f_fieldTypeId := DATA_VIEW_FIELD_INT8_T\<rparr>) (-128) None 0 = Some (COMP_MSG_ERR_VALUE_TOO_BIG, dv)
    \<and> setFieldValue dv (field\<lparr>f_fieldTypeId := DATA_VIEW_FIELD_INT16_T\<rparr>) (-32768) None 0 = Some (COMP_MSG_ERR_VALUE_TOO_BIG, dv)
    \<and> setFieldValue dv (field\<lparr>f_fieldTypeId := DATA_VIEW_FIELD_INT16_T\<rparr>) 32767 None 0 = Some (COMP_MSG_ERR_VALUE_TOO_BIG, dv)
    \<and> setFieldValue dv (field\<lparr>f_fieldTypeId := DATA_VIEW_FIELD_INT32_T\<rparr>) 0x80000000 None 0 = Some (COMP_MSG_ERR_VALUE_TOO_BIG, dv)"
proof -
  have z: "(256 :: u8) = 0" by simp
  show ?thesis
    using assms by (auto simp: setFieldValue_def setTypedValue_def set8_fits Let_def z)
qed

lemma field_value_range_ends_witness:
  "setFieldValue view4 (crcField4\<lparr>f_fieldTypeId := DATA_VIEW_FIELD_UINT8_T\<rparr>) 300 None 0 = Some (DATA_VIEW_ERR_OK, view4)"
  using field_value_range_ends [of view4 crcField4 300]
  by (simp add: fits_def wf_view_def view4_def crcField4_def)

text \<open>
  The elements of a 16 bit vector field are independent: storing element \<open>i\<close> and reading
  it back gives the low 16 bits of the number, and every other element inside the view keeps its value.
\<close>

lemma vector16_elements:
  assumes "f_fieldTypeId field = DATA_VIEW_FIELD_UINT16_VECTOR"
    and "fits dv (f_fieldOffset field + i * 2) 2" and "fits dv (f_fieldOffset field + j * 2) 2"
    and "unat (f_fieldOffset field + j * 2) + 2 \<le> unat (f_fieldOffset field + i * 2)
      \<or> unat (f_fieldOffset field + i * 2) + 2 \<le> unat (f_fieldOffset field + j * 2)"
  shows "\<exists>dv'. setFieldValue dv field v None i = Some (DATA_VIEW_ERR_OK, dv')
    \<and> getFieldValue ok dv' field i = Some (Inr (ucast (ucast v :: u16), None))
    \<and> getFieldValue ok dv' field j = getFieldValue ok dv field j"
proof -
  obtain dv' where s: "setUint16 dv (f_fieldOffset field + i * 2) (ucast v) = Some (DATA_VIEW_ERR_OK, dv')"
    and g: "getUint16 dv' (f_fieldOffset field + i * 2) = Some (Inr (ucast v))"
    using acc_u16.get_set_same [OF assms(2)] by blast
  have "getUint16 dv' (f_fieldOffset field + j * 2) = getUint16 dv (f_fieldOffset field + j * 2)"
    using acc_u16.get_set_disjoint [OF assms(2,3,4) s] .
  with s g show ?thesis
    using assms(1) by (simp add: setFieldValue_def setTypedValue_def getFieldValue_def)
qed

lemma vector16_elements_witness:
  "\<exists>dv'. setFieldValue view4 (crcField4\<lparr>f_fieldTypeId := 9, f_fieldOffset := 1\<rparr>) 0x10203 None 1 = Some (DATA_VIEW_ERR_OK, dv')
    \<and> getFieldValue True dv' (crcField4\<lparr>f_fieldTypeId := 9, f_fieldOffset := 1\<rparr>) 1 = Some (Inr (0x203, None))
    \<and> getFieldValue True dv' (crcField4\<lparr>f_fieldTypeId := 9, f_fieldOffset := 1\<rparr>) 0
      = getFieldValue True view4 (crcField4\<lparr>f_fieldTypeId := 9, f_fieldOffset := 1\<rparr>) 0"
  using vector16_elements [of "crcField4\<lparr>f_fieldTypeId := 9, f_fieldOffset := 1\<rparr>" view4 1 0 "0x10203" True]
  by (simp add: fits_def wf_view_def view4_def crcField4_def)

end
