(* ===== verification/CompMsgDataValue.thy ===== *)
theory CompMsgDataValue
  imports TypesAndNames
begin

text \<open>
  \<^verbatim>\<open>app/compMsg/compMsgDataValue.c\<close>: the values kept per message (\<open>cmdKey\<close>) and field.

  A \<open>msgFieldValue_t *\<close> handed out is the index of the entry.  \<open>addDataValue\<close>, \<open>setDataVal\<close> and
  \<open>getDataVal\<close> are what is left of them when the code under \<open>NOTDEF\<close> is not compiled.  The loops of
  \<open>setFieldValueInfo\<close> need not end; they are partial functions, for which \<open>None\<close> also stands for an
  execution that does not return.  The dump function is output only.
\<close>

abbreviation (input) "COMP_MSG_FIELD_IS_STRING \<equiv> (1 :: u32)"
abbreviation (input) "COMP_MSG_FIELD_IS_NUMERIC \<equiv> (2 :: u32)"
abbreviation (input) "COMP_MSG_FIELD_HAS_CALLBACK \<equiv> (4 :: u32)"

subsection \<open>Names of values\<close>

definition dataValueStr2ValueIds :: "(string \<times> u8) list" where
  "dataValueStr2ValueIds =
    [(''@provisioningSsid'', 1),
     (''@provisioningPort'', 2),
     (''@provisioningIPAddr'', 3),
     (''@SSDPIPAddr'', 4),
     (''@SSDPPort'', 5),
     (''@SSDPReceivedCallback'', 6),
     (''@SSDPToSendCallback'', 7),
     (''@clientIPAddr'', 8),
     (''@clientPort'', 9),
     (''@clientSequenceNum'', 10),
     (''@clientSsid'', 11),
     (''@clientPasswd'', 12),
     (''@clientStatus'', 13),
     (''@binaryCallback'', 14),
     (''@textCallback'', 15),
     (''@NetReceivedCallback'', 16),
     (''@NetToSendCallback'', 17),
     (''@NetSecureConnect'', 18),
     (''@cloudPort'', 19),
     (''@operatingMode'', 20),
     (''Reserve1'', 50),
     (''Reserve2'', 51),
     (''Reserve3'', 52),
     (''Reserve4'', 53),
     (''Reserve5'', 54),
     (''Reserve6'', 55),
     (''Reserve7'', 56),
     (''Reserve8'', 57),
     (''cryptKey'', 58),
     (''cryptIvKey'', 59)]"

definition dataValueStr2ValueId :: "string \<Rightarrow> (errcode + u8) ub" where
  "dataValueStr2ValueId valueStr =
    do { r \<leftarrow> search_str (terminated dataValueStr2ValueIds) valueStr;
         Some (case r of Some i \<Rightarrow> Inr i | None \<Rightarrow> Inl COMP_MSG_ERR_FIELD_NOT_FOUND) }"

definition dataValueId2ValueStr :: "u8 \<Rightarrow> (errcode + string) ub" where
  "dataValueId2ValueStr valueId =
    do { r \<leftarrow> search_id (terminated dataValueStr2ValueIds) valueId;
         Some (case r of Some s \<Rightarrow> Inr s | None \<Rightarrow> Inl COMP_MSG_ERR_FIELD_NOT_FOUND) }"

interpretation value_tab: str2id_table dataValueStr2ValueIds
  by unfold_locales (code_simp, code_simp)

subsection \<open>State\<close>

record fieldValue =
  fieldValueFlags :: u32
  fv_fieldNameId :: u8
  fv_callbackId :: u8
  fv_dataValue :: dataValue
  fv_callback :: callback

record msgFieldValue =
  cmdKey :: u16
  numFieldValues :: u16
  fieldValues :: "fieldValue cell list"

record compMsgDataValue =
  numDataValues :: i32
  maxDataValues :: i32
  numMsgFieldValues :: u16
  maxMsgFieldValues :: u16
  msgFieldValues :: "msgFieldValue cell list"

definition zeroFieldValue :: fieldValue where
  "zeroFieldValue = \<lparr>fieldValueFlags = 0, fv_fieldNameId = 0, fv_callbackId = 0,
     fv_dataValue = zeroDataValue, fv_callback = 0\<rparr>"

definition zeroMsgFieldValue :: msgFieldValue where
  "zeroMsgFieldValue = \<lparr>cmdKey = 0, numFieldValues = 0, fieldValues = []\<rparr>"

subsection \<open>Functions without their body\<close>

definition addDataValue :: "compMsgDataValue \<Rightarrow> dataValue \<Rightarrow> (errcode \<times> compMsgDataValue) ub" where
  "addDataValue self dv = None"

definition setDataVal :: "compMsgDataValue \<Rightarrow> dataValue \<Rightarrow> errcode \<times> compMsgDataValue" where
  "setDataVal self dv = (COMP_MSG_ERR_DATA_VALUE_FIELD_NOT_FOUND, self)"

definition getDataVal :: "compMsgDataValue \<Rightarrow> dataValue \<Rightarrow> errcode \<times> dataValue" where
  "getDataVal self dv = (COMP_MSG_ERR_DATA_VALUE_FIELD_NOT_FOUND, dv)"

subsection \<open>Entries of a message\<close>

text \<open>
  \<open>newMsgFieldValueInfos\<close> finds the entry of a message or adds one, with \<open>numEntries\<close> zeroed values
  (allocation 2, whose result is not tested: a null array).
\<close>

definition growMsgFieldValues :: "allocs \<Rightarrow> compMsgDataValue \<Rightarrow> errcode \<times> compMsgDataValue" where
  "growMsgFieldValues ok self =
    (if numMsgFieldValues self \<ge> maxMsgFieldValues self then
       if maxMsgFieldValues self = 0 then
         let self = self\<lparr>maxMsgFieldValues := 5\<rparr> in
         if ok 0 then (COMP_MSG_ERR_OK, self\<lparr>msgFieldValues := zalloc_cells 5 zeroMsgFieldValue\<rparr>)
         else (DATA_VIEW_ERR_OUT_OF_MEMORY, self\<lparr>msgFieldValues := []\<rparr>)
       else
         let self = self\<lparr>maxMsgFieldValues := maxMsgFieldValues self + 2\<rparr> in
         if ok 1 then (COMP_MSG_ERR_OK,
           self\<lparr>msgFieldValues := realloc_cells (unat (maxMsgFieldValues self)) (msgFieldValues self)\<rparr>)
         else (DATA_VIEW_ERR_OUT_OF_MEMORY, self\<lparr>msgFieldValues := []\<rparr>)
     else (COMP_MSG_ERR_OK, self))"

definition newMsgFieldValueInfos ::
  "allocs \<Rightarrow> compMsgDataValue \<Rightarrow> u16 \<Rightarrow> i32 \<Rightarrow> ((errcode + nat) \<times> compMsgDataValue) ub" where
  "newMsgFieldValueInfos ok self key numEntries =
    do { m \<leftarrow> scan (msgFieldValues self) (\<lambda>e. cmdKey e = key) 0 (unat (numMsgFieldValues self));
         case m of
           Some (cmdKeyIdx, _) \<Rightarrow> Some (Inr cmdKeyIdx, self)
         | None \<Rightarrow>
             let (rc, self) = growMsgFieldValues ok self in
             if rc \<noteq> COMP_MSG_ERR_OK then Some (Inl rc, self)
             else
               let idx = unat (numMsgFieldValues self) in
               do { es \<leftarrow> wr_cell (msgFieldValues self) idx
                      \<lparr>cmdKey = key, numFieldValues = ucast numEntries,
                       fieldValues = (if ok 2 then zalloc_cells (unat numEntries) zeroFieldValue else [])\<rparr>;
                    Some (Inr idx, self\<lparr>numMsgFieldValues := numMsgFieldValues self + 1, msgFieldValues := es\<rparr>) } }"

definition getMsgFieldValueInfo :: "compMsgDataValue \<Rightarrow> u16 \<Rightarrow> (errcode + nat) ub" where
  "getMsgFieldValueInfo self key =
    do { m \<leftarrow> scan (msgFieldValues self) (\<lambda>e. cmdKey e = key) 0 (unat (numMsgFieldValues self));
         Some (case m of Some (cmdKeyIdx, _) \<Rightarrow> Inr cmdKeyIdx
                       | None \<Rightarrow> Inl COMP_MSG_ERR_FIELD_VALUE_INFO_NOT_FOUND) }"

subsection \<open>Values of an entry\<close>

text \<open>
  The search of \<open>setMsgFieldValueInfo\<close>, with \<open>k\<close> rounds left: \<open>None\<close> when the field has a value
  already, otherwise the first unused one (field number 0).
\<close>

primrec freeLoop :: "fieldValue cell list \<Rightarrow> u8 \<Rightarrow> nat option \<Rightarrow> nat \<Rightarrow> nat \<Rightarrow> nat option option ub" where
  "freeLoop fvs nameId free idx 0 = Some (Some free)"
| "freeLoop fvs nameId free idx (Suc k) =
    do { e \<leftarrow> rd_cell fvs idx;
         if fv_fieldNameId e = 0 then freeLoop fvs nameId (if free = None then Some idx else free) (Suc idx) k
         else if fv_fieldNameId e = nameId then Some None
         else freeLoop fvs nameId free (Suc idx) k }"

definition copyFieldValue :: "fieldValue \<Rightarrow> fieldValue \<Rightarrow> fieldValue" where
  "copyFieldValue my fv =
    my\<lparr>fv_fieldNameId := fv_fieldNameId fv, fieldValueFlags := fieldValueFlags fv,
       fv_dataValue := (fv_dataValue my)\<lparr>dvValue := dvValue (fv_dataValue fv)\<rparr>,
       fv_callbackId := fv_callbackId fv, fv_callback := fv_callback fv\<rparr>"

definition setMsgFieldValueInfo ::
  "typesAndNames \<Rightarrow> msgFieldValue \<Rightarrow> fieldValue \<Rightarrow> (errcode \<times> msgFieldValue) ub" where
  "setMsgFieldValueInfo tn mfv fv =
    do { r \<leftarrow> freeLoop (fieldValues mfv) (fv_fieldNameId fv) None 0 (unat (numFieldValues mfv));
         case r of
           None \<Rightarrow> Some (COMP_MSG_ERR_DUPLICATE_FIELD_VALUE_ENTRY, mfv)
         | Some None \<Rightarrow> Some (COMP_MSG_ERR_TOO_MANY_FIELD_VALUE_ENTRIES, mfv)
         | Some (Some idx) \<Rightarrow>
             do { n \<leftarrow> getFieldNameStrFromId tn (fv_fieldNameId fv);
                  case n of
                    Inl rc \<Rightarrow> Some (rc, mfv)
                  | Inr _ \<Rightarrow>
                      do { my \<leftarrow> rd_cell (fieldValues mfv) idx;
                           fvs \<leftarrow> wr_cell (fieldValues mfv) idx (copyFieldValue my fv);
                           Some (COMP_MSG_ERR_OK, mfv\<lparr>fieldValues := fvs\<rparr>) } } }"

text \<open>The entry of a field: the index of its message and of the value in it.\<close>

primrec getLoop :: "msgFieldValue cell list \<Rightarrow> u16 \<Rightarrow> u16 \<Rightarrow> nat \<Rightarrow> nat \<Rightarrow> (errcode + nat \<times> nat) ub" where
  "getLoop es key nameId cmdKeyIdx 0 = Some (Inl COMP_MSG_ERR_DATA_VALUE_FIELD_NOT_FOUND)"
| "getLoop es key nameId cmdKeyIdx (Suc k) =
    do { mfv \<leftarrow> rd_cell es cmdKeyIdx;
         if cmdKey mfv = key then
           do { m \<leftarrow> scan (fieldValues mfv) (\<lambda>e. ucast (fv_fieldNameId e) = nameId) 0 (unat (numFieldValues mfv));
                case m of
                  Some (idx, _) \<Rightarrow> Some (Inr (cmdKeyIdx, idx))
                | None \<Rightarrow> getLoop es key nameId (Suc cmdKeyIdx) k }
         else getLoop es key nameId (Suc cmdKeyIdx) k }"

definition getFieldValueInfo :: "compMsgDataValue \<Rightarrow> u16 \<Rightarrow> u16 \<Rightarrow> (errcode + nat \<times> nat) ub" where
  "getFieldValueInfo self key nameId =
    getLoop (msgFieldValues self) key nameId 0 (unat (numMsgFieldValues self))"

subsection \<open>Changing a value\<close>

text \<open>A C string in a block: the bytes before the first zero; without one, reading on is undefined.\<close>

definition c_string :: "mem \<Rightarrow> mem ub" where
  "c_string s = (if 0 \<in> set s then Some (takeWhile (\<lambda>b. b \<noteq> 0) s) else None)"

text \<open>The members of the union read as the number and as the pointer; a value stored through a
  narrower member, or a pointer read as a number, has no determined value.\<close>

definition as_numeric :: "dvValue \<Rightarrow> i32 ub" where
  "as_numeric v = (case v of NumericValue n \<Rightarrow> Some n | U32 n \<Rightarrow> Some n | I32 n \<Rightarrow> Some n | _ \<Rightarrow> None)"

definition as_string :: "dvValue \<Rightarrow> mem option ub" where
  "as_string v = (case v of StringValue p \<Rightarrow> Some p | NumericValue n \<Rightarrow> if n = 0 then Some None else None | _ \<Rightarrow> None)"

definition replaceFieldValue :: "bool \<Rightarrow> fieldValue \<Rightarrow> fieldValue \<Rightarrow> fieldValue ub" where
  "replaceFieldValue ok my fv =
    do { _ \<leftarrow> (if fieldValueFlags my AND COMP_MSG_FIELD_IS_STRING \<noteq> 0 then as_string (dvValue (fv_dataValue my)) else Some None);
         (flags, v) \<leftarrow>
           (if fieldValueFlags fv AND COMP_MSG_FIELD_IS_NUMERIC \<noteq> 0
            then do { n \<leftarrow> as_numeric (dvValue (fv_dataValue fv)); Some (fieldValueFlags fv, NumericValue n) }
            else do { p \<leftarrow> as_string (dvValue (fv_dataValue fv));
                      b \<leftarrow> p;
                      s \<leftarrow> c_string b;
                      if ok then Some (fieldValueFlags fv OR COMP_MSG_FIELD_IS_STRING, StringValue (Some (s @ [0])))
                      else None });
         Some (my\<lparr>fieldValueFlags := (if fv_callback fv \<noteq> 0 then flags OR COMP_MSG_FIELD_HAS_CALLBACK else flags),
                  fv_dataValue := (fv_dataValue my)\<lparr>dvValue := v\<rparr>,
                  fv_callbackId := fv_callbackId fv,
                  fv_callback := (if fv_callback fv \<noteq> 0 then fv_callback fv else fv_callback my)\<rparr>) }"

text \<open>
  The loops of \<open>setFieldValueInfo\<close>.  The inner loop increments \<open>idx\<close> and not \<open>fieldIdx\<close>, the outer
  one does not increment at all.  \<open>Inl\<close>: the function returns; \<open>Inr\<close>: the inner loop ended.
\<close>

partial_function (option) innerLoop ::
  "bool \<Rightarrow> msgFieldValue \<Rightarrow> u16 \<Rightarrow> fieldValue \<Rightarrow> nat \<Rightarrow> nat \<Rightarrow> (msgFieldValue + nat) option" where
  "innerLoop ok mfv nameId fv fieldIdx idx =
    (if fieldIdx < unat (numFieldValues mfv) then
       do { my \<leftarrow> rd_cell (fieldValues mfv) fieldIdx;
            if ucast (fv_fieldNameId my) = nameId then
              do { my' \<leftarrow> replaceFieldValue ok my fv;
                   fvs \<leftarrow> wr_cell (fieldValues mfv) fieldIdx my';
                   Some (Inl (mfv\<lparr>fieldValues := fvs\<rparr>)) }
            else innerLoop ok mfv nameId fv fieldIdx (idx + 1) }
     else Some (Inr idx))"

partial_function (option) outerLoop ::
  "bool \<Rightarrow> compMsgDataValue \<Rightarrow> u16 \<Rightarrow> u16 \<Rightarrow> fieldValue \<Rightarrow> nat \<Rightarrow> (errcode \<times> compMsgDataValue) option" where
  "outerLoop ok self key nameId fv idx =
    (if idx < unat (numMsgFieldValues self) then
       do { mfv \<leftarrow> rd_cell (msgFieldValues self) idx;
            if cmdKey mfv = key then
              do { r \<leftarrow> innerLoop ok mfv nameId fv 0 idx;
                   case r of
                     Inl mfv' \<Rightarrow> do { es \<leftarrow> wr_cell (msgFieldValues self) idx mfv';
                                      Some (COMP_MSG_ERR_OK, self\<lparr>msgFieldValues := es\<rparr>) }
                   | Inr idx' \<Rightarrow> outerLoop ok self key nameId fv idx' }
            else outerLoop ok self key nameId fv idx }
     else Some (COMP_MSG_ERR_DATA_VALUE_FIELD_NOT_FOUND, self))"

definition setFieldValueInfo ::
  "bool \<Rightarrow> compMsgDataValue \<Rightarrow> u16 \<Rightarrow> u16 \<Rightarrow> fieldValue \<Rightarrow> (errcode \<times> compMsgDataValue) ub" where
  "setFieldValueInfo ok self key nameId fv = outerLoop ok self key nameId fv 0"

definition compareDataValues :: "fieldDescInfo \<Rightarrow> dataValue \<Rightarrow> dataValue \<Rightarrow> errcode" where
  "compareDataValues info dataValue1 dataValue2 =
    (if fieldTypeId info = DATA_VIEW_FIELD_UINT8_T then COMP_MSG_ERR_DIFFERENT_FIELD_VALUE
     else COMP_MSG_ERR_BAD_FIELD_TYPE)"

definition newCompMsgDataValue :: "bool \<Rightarrow> compMsgDataValue option" where
  "newCompMsgDataValue ok =
    (if ok then Some \<lparr>numDataValues = 0, maxDataValues = 0, numMsgFieldValues = 0, maxMsgFieldValues = 0,
                      msgFieldValues = []\<rparr>
     else None)"

subsection \<open>The table of messages\<close>

text \<open>The messages of the table, in order, and the invariant of the array.\<close>

definition messages :: "compMsgDataValue \<Rightarrow> msgFieldValue list \<Rightarrow> bool" where
  "messages self es \<longleftrightarrow>
    unat (numMsgFieldValues self) = length es
    \<and> length (msgFieldValues self) = unat (maxMsgFieldValues self) \<and> length es \<le> length (msgFieldValues self)
    \<and> take (length es) (msgFieldValues self) = map Def es \<and> distinct (map cmdKey es)"

lemma messages_cells:
  "messages self es \<Longrightarrow> msgFieldValues self = map Def es @ drop (length es) (msgFieldValues self)"
  by (metis append_take_drop_id messages_def)

lemma scan_messages:
  assumes "messages self es"
  shows "scan (msgFieldValues self) P 0 (unat (numMsgFieldValues self)) = Some (find_idx P 0 es)"
  using scan_defined [of es "drop (length es) (msgFieldValues self)" P] messages_cells [OF assms] assms
  by (simp add: messages_def)

lemma grow_messages:
  assumes "messages self es" and "length es < 65000" and "\<And>k. ok k"
  shows "\<exists>self' rest. growMsgFieldValues ok self = (COMP_MSG_ERR_OK, self')
    \<and> msgFieldValues self' = map Def es @ rest \<and> rest \<noteq> []
    \<and> length (msgFieldValues self') = unat (maxMsgFieldValues self')
    \<and> numMsgFieldValues self' = numMsgFieldValues self"
proof -
  let ?n = "numMsgFieldValues self" and ?m = "maxMsgFieldValues self"
  note c = messages_cells [OF assms(1)]
  have n: "unat ?n = length es" and l: "length (msgFieldValues self) = unat ?m" and le: "length es \<le> unat ?m"
    using assms(1) by (simp_all add: messages_def)
  show ?thesis
  proof (cases "?n \<ge> ?m")
    case False
    then have "length es < length (msgFieldValues self)" using n l by (simp add: not_le word_less_nat_alt)
    then have "drop (length es) (msgFieldValues self) \<noteq> []" by simp
    with False c l show ?thesis by (auto simp: growMsgFieldValues_def)
  next
    case True
    then have full: "unat ?m = length es" using n le by (simp add: word_le_nat_alt)
    show ?thesis
    proof (cases "?m = 0")
      case zero: True
      then have "es = []" using full by simp
      with True zero show ?thesis by (auto simp: growMsgFieldValues_def assms(3) zalloc_cells_def)
    next
      case False
      have "unat (?m + 2) = length es + 2" using full assms(2) by (simp add: unat_word_ariths)
      moreover have "realloc_cells (length es + 2) (msgFieldValues self) = map Def es @ [Undef, Undef]"
        using c l full by (simp add: realloc_cells_def numeral_2_eq_2)
      ultimately show ?thesis using True False by (simp add: growMsgFieldValues_def assms(3) Let_def)
    qed
  qed
qed

lemma new_message:
  assumes "messages self es" "length es < 65000" "\<And>k. ok k" "key \<notin> cmdKey ` set es"
  shows "\<exists>self'. newMsgFieldValueInfos ok self key num = Some (Inr (length es), self')
    \<and> messages self' (es @ [\<lparr>cmdKey = key, numFieldValues = ucast num,
         fieldValues = zalloc_cells (unat num) zeroFieldValue\<rparr>])"
proof -
  have n: "unat (numMsgFieldValues self) = length es" and d: "distinct (map cmdKey es)"
    using assms(1) by (simp_all add: messages_def)
  have "find_idx (\<lambda>e. cmdKey e = key) 0 es = None" using assms(4) by (auto simp: find_idx_None_iff)
  moreover obtain self1 rest where g: "growMsgFieldValues ok self = (COMP_MSG_ERR_OK, self1)"
    "msgFieldValues self1 = map Def es @ rest" "rest \<noteq> []"
    "length (msgFieldValues self1) = unat (maxMsgFieldValues self1)"
    "numMsgFieldValues self1 = numMsgFieldValues self"
    using grow_messages [of self es ok, OF assms(1,2,3)] by blast
  moreover have "unat (numMsgFieldValues self + 1) = length es + 1"
    using n assms(2) by (simp add: unat_word_ariths)
  moreover obtain c cs where "rest = c # cs" using g(3) by (cases rest) auto
  ultimately show ?thesis
    using assms(4) n d
    by (simp add: newMsgFieldValueInfos_def scan_messages [OF assms(1), unfolded n] assms(3)
        messages_def list_update_append)
qed

subsection \<open>The values of a message\<close>

lemma freeLoop_offset:
  "freeLoop (map Def pre @ map Def fvs @ rest) nameId free (length pre) (length fvs) = Some
    (if \<exists>e \<in> set fvs. fv_fieldNameId e = nameId \<and> nameId \<noteq> 0 then None
     else Some (case free of Some i \<Rightarrow> Some i
       | None \<Rightarrow> map_option fst (find_idx (\<lambda>e. fv_fieldNameId e = 0) (length pre) fvs)))"
proof (induction fvs arbitrary: pre free)
  case Nil
  then show ?case by (cases free) simp_all
next
  case (Cons e fvs)
  from Cons.IH [of "pre @ [e]"] show ?case
    by (cases free) auto
qed

lemma freeLoop_start:
  "freeLoop (map Def fvs) nameId None 0 (length fvs) = Some
    (if \<exists>e \<in> set fvs. fv_fieldNameId e = nameId \<and> nameId \<noteq> 0 then None
     else Some (map_option fst (find_idx (\<lambda>e. fv_fieldNameId e = 0) 0 fvs)))"
  using freeLoop_offset [of "[]" fvs "[]" nameId None] by simp

lemma name_error: "getFieldNameStrFromId tn i = Some (Inl rc) \<Longrightarrow> rc \<noteq> 0"
  by (auto simp: getFieldNameStrFromId_def split: bind_splits option.splits)

text \<open>A message whose values are all allocated.\<close>

definition wf_message :: "msgFieldValue \<Rightarrow> fieldValue list \<Rightarrow> bool" where
  "wf_message mfv fvs \<longleftrightarrow> fieldValues mfv = map Def fvs \<and> unat (numFieldValues mfv) = length fvs"

lemma setMsgFieldValueInfo_ok:
  assumes wf: "wf_message mfv fvs" and ok: "setMsgFieldValueInfo tn mfv fv = Some (COMP_MSG_ERR_OK, mfv')"
    and nz: "fv_fieldNameId fv \<noteq> 0"
  shows "\<exists>j < length fvs. mfv' = mfv\<lparr>fieldValues := map Def (fvs[j := copyFieldValue (fvs ! j) fv])\<rparr>
    \<and> fv_fieldNameId (fvs ! j) = 0 \<and> (\<forall>e \<in> set fvs. fv_fieldNameId e \<noteq> fv_fieldNameId fv)"
proof -
  note l = freeLoop_start [of fvs "fv_fieldNameId fv"]
  have e: "setMsgFieldValueInfo tn mfv fv = (case (if \<exists>e \<in> set fvs. fv_fieldNameId e = fv_fieldNameId fv then None
       else Some (map_option fst (find_idx (\<lambda>e. fv_fieldNameId e = 0) 0 fvs))) of
           None \<Rightarrow> Some (COMP_MSG_ERR_DUPLICATE_FIELD_VALUE_ENTRY, mfv)
         | Some None \<Rightarrow> Some (COMP_MSG_ERR_TOO_MANY_FIELD_VALUE_ENTRIES, mfv)
         | Some (Some idx) \<Rightarrow>
             do { n \<leftarrow> getFieldNameStrFromId tn (fv_fieldNameId fv);
                  case n of
                    Inl rc \<Rightarrow> Some (rc, mfv)
                  | Inr _ \<Rightarrow>
                      do { my \<leftarrow> rd_cell (fieldValues mfv) idx;
                           fvs \<leftarrow> wr_cell (fieldValues mfv) idx (copyFieldValue my fv);
                           Some (COMP_MSG_ERR_OK, mfv\<lparr>fieldValues := fvs\<rparr>) } })"
    using wf nz l by (simp add: setMsgFieldValueInfo_def wf_message_def)
  have nd: "\<forall>e \<in> set fvs. fv_fieldNameId e \<noteq> fv_fieldNameId fv"
    using ok e by (auto split: if_splits)
  obtain j x where f: "find_idx (\<lambda>e. fv_fieldNameId e = 0) 0 fvs = Some (j, x)"
    using ok e nd by (cases "find_idx (\<lambda>e. fv_fieldNameId e = 0) 0 fvs") auto
  have j: "j < length fvs" "fv_fieldNameId (fvs ! j) = 0"
    using find_idx_SomeD [OF f] by auto
  have "mfv' = mfv\<lparr>fieldValues := map Def (fvs[j := copyFieldValue (fvs ! j) fv])\<rparr>"
    using ok e nd f j wf name_error [of tn "fv_fieldNameId fv"]
    by (auto simp: wf_message_def rd_cell_def map_update split: bind_splits sum.splits if_splits)
  then show ?thesis using j nd by auto
qed

lemma getLoop_offset:
  assumes "\<forall>m \<in> set pre. cmdKey m \<noteq> key" "cmdKey mfv = key" "wf_message mfv fvs"
    and "find_idx (\<lambda>e. ucast (fv_fieldNameId e) = nameId) 0 fvs = Some (j, x)"
  shows "getLoop (map Def pre0 @ map Def (pre @ mfv # post) @ rest) key nameId (length pre0) (length (pre @ mfv # post))
    = Some (Inr (length pre0 + length pre, j))"
  using assms(1)
proof (induction pre arbitrary: pre0)
  case Nil
  have "scan (fieldValues mfv) (\<lambda>e. ucast (fv_fieldNameId e) = nameId) 0 (length fvs) = Some (Some (j, x))"
    using scan_defined [of fvs "[]"] assms(3,4) by (simp add: wf_message_def)
  then show ?case using assms(2,3) by (simp add: wf_message_def)
next
  case (Cons m pre)
  from Cons.IH [of "pre0 @ [m]"] Cons.prems show ?case by simp
qed

text \<open>
  The inner loop returns only with its first value, or at once when there is none; the outer loop
  only when its message has the wanted key.
\<close>

definition first_value_is :: "msgFieldValue \<Rightarrow> u16 \<Rightarrow> bool" where
  "first_value_is mfv nameId \<longleftrightarrow> 0 < unat (numFieldValues mfv)
    \<and> (\<exists>my. rd_cell (fieldValues mfv) 0 = Some my \<and> ucast (fv_fieldNameId my) = nameId)"

lemma innerLoop_returns:
  assumes "innerLoop ok mfv nameId fv i idx = Some r"
  shows "i = 0 \<longrightarrow> first_value_is mfv nameId \<and> (\<exists>m. r = Inl m) \<or> numFieldValues mfv = 0 \<and> r = Inr idx"
proof (rule innerLoop.raw_induct [OF _ assms, where P = "\<lambda>ok mfv nameId fv i idx r. i = 0 \<longrightarrow>
    first_value_is mfv nameId \<and> (\<exists>m. r = Inl m) \<or> numFieldValues mfv = 0 \<and> r = Inr idx"])
  fix loop ok mfv nameId fv i idx r
  assume "\<And>ok mfv nameId fv i idx r. loop ok mfv nameId fv i idx = Some r \<Longrightarrow>
      i = 0 \<longrightarrow> first_value_is mfv nameId \<and> (\<exists>m. r = Inl m) \<or> numFieldValues mfv = 0 \<and> r = Inr idx"
    and "(if i < unat (numFieldValues mfv) then
       do { my \<leftarrow> rd_cell (fieldValues mfv) i;
            if ucast (fv_fieldNameId my) = nameId then
              do { my' \<leftarrow> replaceFieldValue ok my fv;
                   fvs \<leftarrow> wr_cell (fieldValues mfv) i my';
                   Some (Inl (mfv\<lparr>fieldValues := fvs\<rparr>)) }
            else loop ok mfv nameId fv i (idx + 1) }
     else Some (Inr idx)) = Some (r :: msgFieldValue + nat)"
  then show "i = 0 \<longrightarrow> first_value_is mfv nameId \<and> (\<exists>m. r = Inl m) \<or> numFieldValues mfv = 0 \<and> r = Inr idx"
    by (fastforce simp: first_value_is_def unat_gt_0 split: if_splits bind_splits)
qed

lemma outerLoop_returns:
  assumes "outerLoop ok self key nameId fv idx = Some r"
  shows "idx < unat (numMsgFieldValues self) \<longrightarrow> (\<exists>mfv. rd_cell (msgFieldValues self) idx = Some mfv
    \<and> cmdKey mfv = key \<and> first_value_is mfv nameId)"
proof (rule outerLoop.raw_induct [OF _ assms, where P = "\<lambda>ok self key nameId fv idx r.
    idx < unat (numMsgFieldValues self) \<longrightarrow> (\<exists>mfv. rd_cell (msgFieldValues self) idx = Some mfv
    \<and> cmdKey mfv = key \<and> first_value_is mfv nameId)"])
  fix loop ok self key nameId fv idx r
  assume "\<And>ok self key nameId fv idx r. loop ok self key nameId fv idx = Some r \<Longrightarrow>
      idx < unat (numMsgFieldValues self) \<longrightarrow> (\<exists>mfv. rd_cell (msgFieldValues self) idx = Some mfv
      \<and> cmdKey mfv = key \<and> first_value_is mfv nameId)"
    and "(if idx < unat (numMsgFieldValues self) then
       do { mfv \<leftarrow> rd_cell (msgFieldValues self) idx;
            if cmdKey mfv = key then
              do { r \<leftarrow> innerLoop ok mfv nameId fv 0 idx;
                   case r of
                     Inl mfv' \<Rightarrow> do { es \<leftarrow> wr_cell (msgFieldValues self) idx mfv';
                                      Some (COMP_MSG_ERR_OK, self\<lparr>msgFieldValues := es\<rparr>) }
                   | Inr idx' \<Rightarrow> loop ok self key nameId fv idx' }
            else loop ok self key nameId fv idx }
     else Some (COMP_MSG_ERR_DATA_VALUE_FIELD_NOT_FOUND, self)) = Some (r :: errcode \<times> compMsgDataValue)"
  note IH = this(1) and body = this(2)
  show "idx < unat (numMsgFieldValues self) \<longrightarrow> (\<exists>mfv. rd_cell (msgFieldValues self) idx = Some mfv
      \<and> cmdKey mfv = key \<and> first_value_is mfv nameId)"
  proof
    assume lt: "idx < unat (numMsgFieldValues self)"
    then obtain mfv where mfv: "rd_cell (msgFieldValues self) idx = Some mfv"
      using body by (auto split: bind_splits)
    show "\<exists>mfv. rd_cell (msgFieldValues self) idx = Some mfv \<and> cmdKey mfv = key \<and> first_value_is mfv nameId"
    proof (cases "cmdKey mfv = key")
      case False
      then have "loop ok self key nameId fv idx = Some r" using body lt mfv by simp
      from IH [OF this] lt show ?thesis by blast
    next
      case True
      then obtain q where q: "innerLoop ok mfv nameId fv 0 idx = Some q"
        using body lt mfv by (auto split: bind_splits)
      show ?thesis
      proof (cases "first_value_is mfv nameId")
        case False
        then have "q = Inr idx" using innerLoop_returns [OF q] by simp
        then have "loop ok self key nameId fv idx = Some r" using body lt mfv True q by simp
        from IH [OF this] lt show ?thesis by blast
      qed (use mfv True in blast)
    qed
  qed
qed

subsection \<open>Properties\<close>

text \<open>
  Entries are found after they were made: \<open>newMsgFieldValueInfos\<close> returns the entry of a
  message that has one and changes nothing, appends one with zeroed values otherwise, and from then
  on \<open>getMsgFieldValueInfo\<close> returns the same entry; a message without an entry is reported.
\<close>

lemma message_entry_found:
  assumes "messages self es" and "length es < 65000" and "\<forall>k. ok k"
  shows "\<exists>self' i es'. newMsgFieldValueInfos ok self key num = Some (Inr i, self') \<and> messages self' es'
      \<and> getMsgFieldValueInfo self' key = Some (Inr i) \<and> i < length es' \<and> cmdKey (es' ! i) = key
      \<and> (es' = es \<and> self' = self \<or> key \<notin> cmdKey ` set es \<and> es' = es @ [\<lparr>cmdKey = key, numFieldValues = ucast num,
           fieldValues = zalloc_cells (unat num) zeroFieldValue\<rparr>])
      \<and> (key \<notin> cmdKey ` set es \<longrightarrow> getMsgFieldValueInfo self key = Some (Inl COMP_MSG_ERR_FIELD_VALUE_INFO_NOT_FOUND))"
proof (cases "key \<in> cmdKey ` set es")
  case True
  then obtain i where i: "i < length es" "cmdKey (es ! i) = key" by (auto simp: in_set_conv_nth)
  moreover have "distinct (map cmdKey es)" using assms(1) by (simp add: messages_def)
  ultimately have "find_idx (\<lambda>e. cmdKey e = key) 0 es = Some (0 + i, es ! i)"
    by (intro find_idx_unique) (auto simp: nth_eq_iff_index_eq [of "map cmdKey es", simplified] distinct_conv_nth)
  then show ?thesis
    using i assms(1) True
    by (auto simp: newMsgFieldValueInfos_def getMsgFieldValueInfo_def scan_messages [OF assms(1)])
next
  case False
  let ?e = "\<lparr>cmdKey = key, numFieldValues = ucast num, fieldValues = zalloc_cells (unat num) zeroFieldValue\<rparr>"
  obtain self' where s: "newMsgFieldValueInfos ok self key num = Some (Inr (length es), self')"
    "messages self' (es @ [?e])"
    using new_message [OF assms(1,2) _ False] assms(3) by blast
  have "find_idx (\<lambda>e. cmdKey e = key) 0 (es @ [?e]) = Some (0 + length es, (es @ [?e]) ! length es)"
  proof (rule find_idx_unique)
    fix m assume m: "m < length (es @ [?e])" "cmdKey ((es @ [?e]) ! m) = key"
    show "m = length es"
    proof (rule ccontr)
      assume "m \<noteq> length es"
      then have "m < length es" "cmdKey (es ! m) = key" using m by (simp_all add: nth_append)
      then show False using False nth_mem by blast
    qed
  qed simp_all
  then have "getMsgFieldValueInfo self' key = Some (Inr (length es))"
    by (simp add: getMsgFieldValueInfo_def scan_messages [OF s(2)])
  moreover have "find_idx (\<lambda>e. cmdKey e = key) 0 es = None" using False by (auto simp: find_idx_None_iff)
  then have "getMsgFieldValueInfo self key = Some (Inl COMP_MSG_ERR_FIELD_VALUE_INFO_NOT_FOUND)"
    by (simp add: getMsgFieldValueInfo_def scan_messages [OF assms(1)])
  ultimately show ?thesis
    using s False by (intro exI [of _ self'] exI [of _ "length es"] exI [of _ "es @ [?e]"]) simp
qed

definition values0 :: compMsgDataValue where
  "values0 = \<lparr>numDataValues = 0, maxDataValues = 0, numMsgFieldValues = 0, maxMsgFieldValues = 0, msgFieldValues = []\<rparr>"

lemma messages_values0: "messages values0 []"
  by (simp add: messages_def values0_def)

lemma message_entry_found_witness:
  "\<exists>self' i. newMsgFieldValueInfos (\<lambda>_. True) values0 0x4141 3 = Some (Inr i, self')
      \<and> getMsgFieldValueInfo self' 0x4141 = Some (Inr i)"
  using message_entry_found [OF messages_values0, of "\<lambda>_. True" "0x4141" 3] by auto

text \<open>
  A value stored in the entry of a message is found by message and field: when
  \<open>setMsgFieldValueInfo\<close> returns OK, the field had no value yet, one unused value was filled, and
  \<open>getFieldValueInfo\<close> on the table returns that value with the stored number or string, flags and
  callback.
\<close>

lemma stored_value_found:
  assumes "messages self es" and "i < length es" and "wf_message (es ! i) fvs"
    and "setMsgFieldValueInfo tn (es ! i) fv = Some (COMP_MSG_ERR_OK, mfv')" and "fv_fieldNameId fv \<noteq> 0"
  shows "\<exists>j v. getFieldValueInfo (self\<lparr>msgFieldValues := (msgFieldValues self)[i := Def mfv']\<rparr>)
        (cmdKey (es ! i)) (ucast (fv_fieldNameId fv)) = Some (Inr (i, j))
      \<and> rd_cell (fieldValues mfv') j = Some v \<and> fv_fieldNameId v = fv_fieldNameId fv
      \<and> dvValue (fv_dataValue v) = dvValue (fv_dataValue fv) \<and> fieldValueFlags v = fieldValueFlags fv
      \<and> fv_callback v = fv_callback fv \<and> (\<forall>e \<in> set fvs. fv_fieldNameId e \<noteq> fv_fieldNameId fv)"
proof -
  let ?key = "cmdKey (es ! i)" and ?name = "ucast (fv_fieldNameId fv) :: u16"
  obtain j where j: "j < length fvs" "mfv' = (es ! i)\<lparr>fieldValues := map Def (fvs[j := copyFieldValue (fvs ! j) fv])\<rparr>"
    "\<forall>e \<in> set fvs. fv_fieldNameId e \<noteq> fv_fieldNameId fv"
    using setMsgFieldValueInfo_ok [OF assms(3,4,5)] by auto
  let ?fvs = "fvs[j := copyFieldValue (fvs ! j) fv]"
  have inj: "(ucast a :: u16) = ucast b \<longleftrightarrow> a = b" for a b :: u8
    by (metis unat_ucast_8_16 word_unat_eq_iff)
  have wf': "wf_message mfv' ?fvs" using assms(3) j by (simp add: wf_message_def)
  have "find_idx (\<lambda>e. (ucast (fv_fieldNameId e) :: u16) = ?name) 0 ?fvs = Some (0 + j, ?fvs ! j)"
    using j by (intro find_idx_unique) (auto simp: inj nth_list_update copyFieldValue_def split: if_splits)
  note found = this
  have cells: "(msgFieldValues self)[i := Def mfv'] = map Def [] @ map Def (take i es @ mfv' # drop (Suc i) es)
      @ drop (length es) (msgFieldValues self)"
  proof -
    have "(msgFieldValues self)[i := Def mfv'] = map Def (es[i := mfv']) @ drop (length es) (msgFieldValues self)"
      using assms(2) by (subst messages_cells [OF assms(1)]) (simp add: list_update_append map_update)
    then show ?thesis using assms(2) by (simp add: upd_conv_take_nth_drop)
  qed
  have pre: "\<forall>m \<in> set (take i es). cmdKey m \<noteq> ?key"
  proof -
    have "distinct (map cmdKey es)" using assms(1) by (simp add: messages_def)
    then show ?thesis using assms(2) by (auto simp: in_set_conv_nth distinct_conv_nth)
  qed
  have num: "unat (numMsgFieldValues self) = length (take i es @ mfv' # drop (Suc i) es)"
    using assms(1,2) by (simp add: messages_def)
  have "cmdKey mfv' = ?key" by (simp add: j(2))
  from getLoop_offset [OF pre this wf' found, of "[]" "drop (Suc i) es" "drop (length es) (msgFieldValues self)"]
  have "getLoop ((msgFieldValues self)[i := Def mfv']) ?key ?name 0 (unat (numMsgFieldValues self)) = Some (Inr (i, 0 + j))"
    unfolding cells num using assms(2) by simp
  then have "getFieldValueInfo (self\<lparr>msgFieldValues := (msgFieldValues self)[i := Def mfv']\<rparr>) ?key ?name
      = Some (Inr (i, j))"
    by (simp add: getFieldValueInfo_def)
  moreover have "rd_cell (fieldValues mfv') j = Some (copyFieldValue (fvs ! j) fv)"
    using wf' j(1) by (simp add: wf_message_def rd_cell_def)
  ultimately show ?thesis using j(3) by (auto simp: copyFieldValue_def)
qed

definition mfv1 :: msgFieldValue where
  "mfv1 = \<lparr>cmdKey = 0x4141, numFieldValues = 1, fieldValues = [Def zeroFieldValue]\<rparr>"

definition values1 :: compMsgDataValue where
  "values1 = values0\<lparr>numMsgFieldValues := 1, maxMsgFieldValues := 1, msgFieldValues := [Def mfv1]\<rparr>"

definition fv1 :: fieldValue where
  "fv1 = zeroFieldValue\<lparr>fv_fieldNameId := 3, fieldValueFlags := 2,
     fv_dataValue := zeroDataValue\<lparr>dvValue := NumericValue 42\<rparr>\<rparr>"

lemma messages_values1: "messages values1 [mfv1]" "wf_message mfv1 [zeroFieldValue]"
  by (simp_all add: messages_def values1_def values0_def wf_message_def mfv1_def)

lemma set_fv1: "setMsgFieldValueInfo tn0 mfv1 fv1 = Some (COMP_MSG_ERR_OK, mfv1\<lparr>fieldValues := [Def (copyFieldValue zeroFieldValue fv1)]\<rparr>)"
proof -
  have "search_id (terminated specialFieldNames) 3 = Some (Some ''@dst'')"
    by (simp add: terminated_def specialFieldNames_def)
  then show ?thesis
    by (simp add: setMsgFieldValueInfo_def mfv1_def fv1_def zeroFieldValue_def getFieldNameStrFromId_def rd_cell_def)
qed

lemma stored_value_found_witness:
  "\<exists>j v. getFieldValueInfo (values1\<lparr>msgFieldValues := [Def (mfv1\<lparr>fieldValues := [Def (copyFieldValue zeroFieldValue fv1)]\<rparr>)]\<rparr>)
        0x4141 3 = Some (Inr (0, j))
      \<and> rd_cell [Def (copyFieldValue zeroFieldValue fv1)] j = Some v \<and> dvValue (fv_dataValue v) = NumericValue 42"
  using stored_value_found [OF messages_values1(1), of 0 "[zeroFieldValue]" tn0 fv1] messages_values1(2) set_fv1
  by (auto simp: values1_def values0_def mfv1_def fv1_def)

text \<open>
  Claim C40.  \<open>setFieldValueInfo\<close> does not return unless the value is the first one of the first
  message (or there is no message at all): for a table whose first message has another key, or whose
  first value belongs to another field, no call ever yields a result.
\<close>

theorem setFieldValueInfo_first_only:
  assumes "messages self (e # es)" and "cmdKey e \<noteq> key \<or> \<not> first_value_is e nameId"
  shows "setFieldValueInfo ok self key nameId fv = None"
proof (rule ccontr)
  assume "setFieldValueInfo ok self key nameId fv \<noteq> None"
  then obtain r where "outerLoop ok self key nameId fv 0 = Some r" by (auto simp: setFieldValueInfo_def)
  from outerLoop_returns [OF this]
  have "0 < unat (numMsgFieldValues self) \<longrightarrow> (\<exists>mfv. rd_cell (msgFieldValues self) 0 = Some mfv
    \<and> cmdKey mfv = key \<and> first_value_is mfv nameId)" .
  moreover have "0 < unat (numMsgFieldValues self)" using assms(1) by (simp add: messages_def)
  moreover have "rd_cell (msgFieldValues self) 0 = Some e"
    by (subst messages_cells [OF assms(1)]) (simp only: rd_cell_append, simp)
  ultimately show False using assms(2) by auto
qed

theorem setFieldValueInfo_first_only_witness:
  "setFieldValueInfo True values1 0x4242 3 fv1 = None"
  using setFieldValueInfo_first_only [OF messages_values1(1), of "0x4242" 3 True fv1] by (simp add: mfv1_def)

end
