(* ===== verification/CompMsgHandles.thy ===== *)
theory CompMsgHandles
  imports ErrorCodes
begin

text \<open>
  The two tables of handles: \<open>compMsgHandles\<close> of \<^verbatim>\<open>compMsgData.c\<close> (handle to message) and
  \<open>compMsgDispatcherHandles\<close> of \<^verbatim>\<open>compMsgDispatcher.c\<close> (handle to dispatcher).  Both are arrays
  whose slots are reused: a slot with a null handle is free.  A pointer to a message or a dispatcher
  is a number, \<open>0\<close> the null pointer; a handle is the text its pointer points to, which the owner does
  not change while the handle is registered.  \<open>numHandles\<close> counts entries that are in memory, so the
  \<open>int\<close> does not overflow.

  The interface \<open>handle_table\<close> states what both tables promise: they implement a finite map from
  handles to pointers.
\<close>

subsection \<open>State\<close>

record handleEntry =
  he_handle :: "string option"
  he_ptr :: nat

record handleTable =
  handles :: "handleEntry cell list option"
  numHandles :: nat

definition noHandles :: handleTable where
  "noHandles = \<lparr>handles = None, numHandles = 0\<rparr>"

definition zeroHandleEntry :: handleEntry where
  "zeroHandleEntry = \<lparr>he_handle = None, he_ptr = 0\<rparr>"

abbreviation entry :: "string \<Rightarrow> nat \<Rightarrow> handleEntry" where
  "entry h p \<equiv> \<lparr>he_handle = Some h, he_ptr = p\<rparr>"

subsection \<open>The table of the messages\<close>

definition addMsgHandle :: "bool \<Rightarrow> handleTable \<Rightarrow> string \<Rightarrow> nat \<Rightarrow> (errcode \<times> handleTable) ub" where
  "addMsgHandle ok t h p =
    (case handles t of
       None \<Rightarrow>
         if \<not> ok then Some (COMP_MSG_ERR_OUT_OF_MEMORY, t)
         else do { xs \<leftarrow> wr_cell (zalloc_cells 1 zeroHandleEntry) (numHandles t) (entry h p);
                   Some (COMP_MSG_ERR_OK, t\<lparr>handles := Some xs, numHandles := numHandles t + 1\<rparr>) }
     | Some xs \<Rightarrow>
         do { r \<leftarrow> scan xs (\<lambda>e. he_handle e = None) 0 (numHandles t);
              case r of
                Some (idx, _) \<Rightarrow>
                  do { xs' \<leftarrow> wr_cell xs idx (entry h p);
                       Some (COMP_MSG_ERR_OK, t\<lparr>handles := Some xs'\<rparr>) }
              | None \<Rightarrow>
                  if \<not> ok then Some (DATA_VIEW_ERR_OUT_OF_MEMORY, t\<lparr>handles := None\<rparr>)
                  else do { xs' \<leftarrow> wr_cell (realloc_cells (numHandles t + 1) xs) (numHandles t) (entry h p);
                            Some (COMP_MSG_ERR_OK, t\<lparr>handles := Some xs', numHandles := numHandles t + 1\<rparr>) } })"

text \<open>The loop of both \<open>deleteHandle\<close>: clears every slot with the handle, counts these and the others in use.\<close>

primrec deleteLoop :: "string \<Rightarrow> handleEntry cell list \<Rightarrow> nat \<Rightarrow> nat \<Rightarrow> nat \<Rightarrow> nat
    \<Rightarrow> (handleEntry cell list \<times> nat \<times> nat) ub" where
  "deleteLoop h xs idx found numUsed 0 = Some (xs, found, numUsed)"
| "deleteLoop h xs idx found numUsed (Suc k) =
    do { e \<leftarrow> rd_cell xs idx;
         if he_handle e = Some h
         then do { xs' \<leftarrow> wr_cell xs idx (e\<lparr>he_handle := None\<rparr>);
                   deleteLoop h xs' (Suc idx) (found + 1) numUsed k }
         else deleteLoop h xs (Suc idx) found (if he_handle e \<noteq> None then numUsed + 1 else numUsed) k }"

definition deleteMsgHandle :: "handleTable \<Rightarrow> string \<Rightarrow> (errcode \<times> handleTable) ub" where
  "deleteMsgHandle t h =
    (case handles t of
       None \<Rightarrow> Some (COMP_MSG_ERR_HANDLE_NOT_FOUND, t)
     | Some xs \<Rightarrow>
         if numHandles t = 0 then Some (COMP_MSG_ERR_OK, t)
         else do { (xs', found, numUsed) \<leftarrow> deleteLoop h xs 0 0 0 (numHandles t);
                   Some (if found \<noteq> 0 then COMP_MSG_ERR_OK else COMP_MSG_ERR_HANDLE_NOT_FOUND,
                         t\<lparr>handles := Some xs'\<rparr>) })"

definition checkMsgHandle :: "handleTable \<Rightarrow> string \<Rightarrow> (errcode + nat) ub" where
  "checkMsgHandle t h =
    (case handles t of
       None \<Rightarrow> Some (Inl COMP_MSG_ERR_HANDLE_NOT_FOUND)
     | Some xs \<Rightarrow>
         do { r \<leftarrow> scan xs (\<lambda>e. he_handle e = Some h) 0 (numHandles t);
              Some (case r of Some (_, e) \<Rightarrow> Inr (he_ptr e) | None \<Rightarrow> Inl COMP_MSG_ERR_HANDLE_NOT_FOUND) })"

definition compMsgGetPtrFromHandle :: "handleTable \<Rightarrow> string \<Rightarrow> (errcode + nat) ub" where
  "compMsgGetPtrFromHandle t h =
    do { r \<leftarrow> checkMsgHandle t h;
         Some (case r of Inl _ \<Rightarrow> Inl COMP_MSG_ERR_HANDLE_NOT_FOUND | Inr p \<Rightarrow> Inr p) }"

subsection \<open>The table of the dispatchers\<close>

definition addDispatcherHandle :: "bool \<Rightarrow> handleTable \<Rightarrow> string \<Rightarrow> nat \<Rightarrow> (errcode \<times> handleTable) ub" where
  "addDispatcherHandle ok t h p =
    (case handles t of
       None \<Rightarrow>
         if \<not> ok then Some (COMP_MSG_ERR_OUT_OF_MEMORY, t)
         else do { xs \<leftarrow> wr_cell (zalloc_cells 1 zeroHandleEntry) (numHandles t) (entry h p);
                   Some (COMP_MSG_ERR_OK, t\<lparr>handles := Some xs, numHandles := numHandles t + 1\<rparr>) }
     | Some xs \<Rightarrow>
         do { r \<leftarrow> scan xs (\<lambda>e. he_handle e = None) 0 (numHandles t);
              case r of
                Some (idx, _) \<Rightarrow>
                  do { xs' \<leftarrow> wr_cell xs idx (entry h p);
                       Some (COMP_MSG_ERR_OK, t\<lparr>handles := Some xs'\<rparr>) }
              | None \<Rightarrow>
                  if \<not> ok then Some (DATA_VIEW_ERR_OUT_OF_MEMORY, t\<lparr>handles := None\<rparr>)
                  else do { xs' \<leftarrow> wr_cell (realloc_cells (numHandles t + 1) xs) (numHandles t) (entry h p);
                            Some (COMP_MSG_ERR_OK, t\<lparr>handles := Some xs', numHandles := numHandles t + 1\<rparr>) } })"

text \<open>Here the array is freed when no handle is left in use; \<open>numHandles\<close> keeps its value.\<close>

definition deleteDispatcherHandle :: "handleTable \<Rightarrow> string \<Rightarrow> (errcode \<times> handleTable) ub" where
  "deleteDispatcherHandle t h =
    (case handles t of
       None \<Rightarrow> Some (COMP_MSG_ERR_HANDLE_NOT_FOUND, t)
     | Some xs \<Rightarrow>
         if numHandles t = 0 then Some (COMP_MSG_ERR_OK, t)
         else do { (xs', found, numUsed) \<leftarrow> deleteLoop h xs 0 0 0 (numHandles t);
                   Some (if found \<noteq> 0 then COMP_MSG_ERR_OK else COMP_MSG_ERR_HANDLE_NOT_FOUND,
                         t\<lparr>handles := if numUsed = 0 then None else Some xs'\<rparr>) })"

definition checkDispatcherHandle :: "handleTable \<Rightarrow> string \<Rightarrow> (errcode + nat) ub" where
  "checkDispatcherHandle t h =
    (case handles t of
       None \<Rightarrow> Some (Inl COMP_MSG_ERR_HANDLE_NOT_FOUND)
     | Some xs \<Rightarrow>
         do { r \<leftarrow> scan xs (\<lambda>e. he_handle e = Some h) 0 (numHandles t);
              Some (case r of Some (_, e) \<Rightarrow> Inr (he_ptr e) | None \<Rightarrow> Inl COMP_MSG_ERR_HANDLE_NOT_FOUND) })"

definition compMsgDispatcherGetPtrFromHandle :: "handleTable \<Rightarrow> string \<Rightarrow> (errcode + nat) ub" where
  "compMsgDispatcherGetPtrFromHandle t h =
    do { r \<leftarrow> checkDispatcherHandle t h;
         Some (case r of Inl _ \<Rightarrow> Inl COMP_MSG_ERR_HANDLE_NOT_FOUND | Inr p \<Rightarrow> Inr p) }"

text \<open>\<open>createDispatcher\<close>: the handle is the address of the object as text, the argument \<open>h\<close>.\<close>

definition createDispatcher :: "bool \<Rightarrow> handleTable \<Rightarrow> string \<Rightarrow> nat \<Rightarrow> ((errcode + string) \<times> handleTable) ub" where
  "createDispatcher ok t h self =
    do { (result, t) \<leftarrow> addDispatcherHandle ok t h self;
         if result \<noteq> COMP_MSG_ERR_OK
         then do { (_, t) \<leftarrow> deleteDispatcherHandle t h; Some (Inl result, t) }
         else Some (Inr h, t) }"

subsection \<open>What a table stands for\<close>

text \<open>The array has exactly \<open>numHandles\<close> slots, all initialised; \<open>look\<close> is the map it implements.\<close>

definition slots :: "handleTable \<Rightarrow> handleEntry list \<Rightarrow> bool" where
  "slots t es \<longleftrightarrow> numHandles t = length es \<and> handles t = (if es = [] then None else Some (map Def es))"

definition wf_handles :: "handleTable \<Rightarrow> bool" where
  "wf_handles t \<longleftrightarrow> (\<exists>es. slots t es)"

definition entries :: "handleTable \<Rightarrow> handleEntry list" where
  "entries t = (case handles t of None \<Rightarrow> []
     | Some xs \<Rightarrow> map (\<lambda>c. case c of Def e \<Rightarrow> e | Undef \<Rightarrow> zeroHandleEntry) xs)"

definition look :: "handleTable \<Rightarrow> string \<Rightarrow> nat option" where
  "look t h = map_option (he_ptr \<circ> snd) (find_idx (\<lambda>e. he_handle e = Some h) 0 (entries t))"

text \<open>What a user of a table of handles relies on; \<open>deletable\<close> says which deletions keep the table usable.\<close>

locale handle_table =
  fixes add :: "bool \<Rightarrow> handleTable \<Rightarrow> string \<Rightarrow> nat \<Rightarrow> (errcode \<times> handleTable) ub"
    and del :: "handleTable \<Rightarrow> string \<Rightarrow> (errcode \<times> handleTable) ub"
    and get :: "handleTable \<Rightarrow> string \<Rightarrow> (errcode + nat) ub"
    and deletable :: "handleTable \<Rightarrow> string \<Rightarrow> bool"
  assumes add_law: "wf_handles t \<Longrightarrow> look t h = None \<Longrightarrow>
      \<exists>t'. add True t h p = Some (COMP_MSG_ERR_OK, t') \<and> wf_handles t' \<and> look t' = (look t)(h \<mapsto> p)"
    and del_law: "wf_handles t \<Longrightarrow> deletable t h \<Longrightarrow>
      \<exists>t'. del t h = Some (if look t h = None then COMP_MSG_ERR_HANDLE_NOT_FOUND else COMP_MSG_ERR_OK, t')
        \<and> wf_handles t' \<and> look t' = (look t)(h := None)"
    and get_law: "wf_handles t \<Longrightarrow>
      get t h = Some (case look t h of None \<Rightarrow> Inl COMP_MSG_ERR_HANDLE_NOT_FOUND | Some p \<Rightarrow> Inr p)"
begin

lemma get_add:
  assumes "wf_handles t" and "look t h = None"
  shows "\<exists>t'. add True t h p = Some (COMP_MSG_ERR_OK, t') \<and> wf_handles t' \<and> get t' h = Some (Inr p)
    \<and> (\<forall>h'. h' \<noteq> h \<longrightarrow> get t' h' = get t h')"
proof -
  obtain t' where "add True t h p = Some (0, t')" "wf_handles t'" "look t' = (look t)(h \<mapsto> p)"
    using add_law [OF assms] by auto
  then show ?thesis by (simp add: get_law assms(1))
qed

lemma get_del:
  assumes "wf_handles t" and "deletable t h"
  shows "\<exists>rc t'. del t h = Some (rc, t') \<and> wf_handles t' \<and> get t' h = Some (Inl COMP_MSG_ERR_HANDLE_NOT_FOUND)
    \<and> (\<forall>h'. h' \<noteq> h \<longrightarrow> get t' h' = get t h') \<and> (rc = COMP_MSG_ERR_OK \<longleftrightarrow> look t h \<noteq> None)"
proof -
  obtain t' where "del t h = Some (if look t h = None then COMP_MSG_ERR_HANDLE_NOT_FOUND else 0, t')"
    "wf_handles t'" "look t' = (look t)(h := None)"
    using del_law [OF assms] by auto
  then show ?thesis by (simp add: get_law assms(1))
qed

lemma add_del:
  assumes "wf_handles t" and "look t h = None" and "\<And>t'. deletable t' h"
  shows "\<exists>t1 t2. add True t h p = Some (COMP_MSG_ERR_OK, t1) \<and> del t1 h = Some (COMP_MSG_ERR_OK, t2)
    \<and> look t2 = look t"
proof -
  obtain t1 where 1: "add True t h p = Some (0, t1)" "wf_handles t1" "look t1 = (look t)(h \<mapsto> p)"
    using add_law [OF assms(1,2)] by auto
  obtain t2 where "del t1 h = Some (if look t1 h = None then COMP_MSG_ERR_HANDLE_NOT_FOUND else 0, t2)"
    "look t2 = (look t1)(h := None)"
    using del_law [OF 1(2) assms(3)] by auto
  then show ?thesis using 1 assms(2) by (simp add: fun_upd_idem)
qed

end

subsection \<open>Both tables keep the interface\<close>

lemma entries_slots: "slots t es \<Longrightarrow> entries t = es"
  by (auto simp: slots_def entries_def comp_def)

lemma look_slots: "slots t es \<Longrightarrow> look t h = map_option (he_ptr \<circ> snd) (find_idx (\<lambda>e. he_handle e = Some h) 0 es)"
  by (simp add: look_def entries_slots)

lemma find_idx_find: "map_option snd (find_idx P i xs) = List.find P xs"
  by (induction xs arbitrary: i) auto

lemma find_append: "List.find P (xs @ ys) = (case List.find P xs of None \<Rightarrow> List.find P ys | Some x \<Rightarrow> Some x)"
  by (induction xs) auto

text \<open>\<open>look\<close> on the list of slots.\<close>

definition lookl :: "handleEntry list \<Rightarrow> string \<Rightarrow> nat option" where
  "lookl es h = map_option he_ptr (List.find (\<lambda>e. he_handle e = Some h) es)"

lemma look_lookl: "slots t es \<Longrightarrow> look t = lookl es"
  by (simp add: fun_eq_iff look_slots lookl_def find_idx_find [symmetric, of _ _ 0] option.map_comp)

lemma lookl_append: "lookl (xs @ ys) h = (case lookl xs h of None \<Rightarrow> lookl ys h | Some p \<Rightarrow> Some p)"
  by (auto simp: lookl_def find_append split: option.splits)

lemma lookl_Cons: "lookl (e # es) h = (if he_handle e = Some h then Some (he_ptr e) else lookl es h)"
  by (simp add: lookl_def)

lemma lookl_Nil [simp]: "lookl [] h = None"
  by (simp add: lookl_def)

lemma lookl_None_iff: "lookl es h = None \<longleftrightarrow> (\<forall>e \<in> set es. he_handle e \<noteq> Some h)"
  by (auto simp: lookl_def find_None_iff)

lemma lookl_fill:
  assumes "i < length es" "he_handle (es ! i) = None" "lookl es h = None"
  shows "lookl (es[i := entry h p]) = (lookl es)(h \<mapsto> p)"
proof
  fix h'
  have es: "es = take i es @ es ! i # drop (Suc i) es" by (simp add: assms(1) id_take_nth_drop [symmetric])
  have upd: "es[i := entry h p] = take i es @ entry h p # drop (Suc i) es" by (simp add: assms(1) upd_conv_take_nth_drop)
  have "lookl (take i es) h = None" using assms(3) by (auto simp: lookl_None_iff dest: in_set_takeD)
  moreover have "lookl es h' = (case lookl (take i es) h' of None \<Rightarrow> lookl (drop (Suc i) es) h' | Some p \<Rightarrow> Some p)"
    using arg_cong [OF es, of "\<lambda>l. lookl l h'"] by (auto simp: lookl_append lookl_Cons assms(2) simp del: append_take_drop_id split: option.splits)
  ultimately show "lookl (es[i := entry h p]) h' = ((lookl es)(h \<mapsto> p)) h'"
    by (auto simp: upd lookl_append lookl_Cons split: option.splits)
qed

lemma add_slots:
  assumes "slots t es" "lookl es h = None"
  shows "\<exists>t' es'. addMsgHandle True t h p = Some (COMP_MSG_ERR_OK, t') \<and> slots t' es' \<and> lookl es' = (lookl es)(h \<mapsto> p)"
proof (cases "es = []")
  case True
  then show ?thesis using assms(1)
    by (intro exI [of _ "t\<lparr>handles := Some [Def (entry h p)], numHandles := 1\<rparr>"] exI [of _ "[entry h p]"])
       (auto simp: addMsgHandle_def slots_def zalloc_cells_def lookl_Cons fun_eq_iff)
next
  case False
  then have t: "handles t = Some (map Def es)" "numHandles t = length es" using assms(1) by (simp_all add: slots_def)
  have s: "scan (map Def es) P 0 (length es) = Some (find_idx P 0 es)" for P
    using scan_defined [of es "[]" P] by simp
  show ?thesis
  proof (cases "find_idx (\<lambda>e. he_handle e = None) 0 es")
    case None
    have "realloc_cells (length es + 1) (map Def es) = map Def es @ [Undef]" by (simp add: realloc_cells_def)
    moreover have "lookl (es @ [entry h p]) = (lookl es)(h \<mapsto> p)"
      using assms(2) by (auto simp: lookl_append lookl_Cons fun_eq_iff split: option.splits)
    ultimately show ?thesis using None t
      by (intro exI [of _ "t\<lparr>handles := Some (map Def (es @ [entry h p])), numHandles := length es + 1\<rparr>"]
            exI [of _ "es @ [entry h p]"])
         (simp add: addMsgHandle_def s slots_def list_update_append)
  next
    case (Some r)
    obtain i e where r: "r = (i, e)" by (cases r)
    have i: "i < length es" "he_handle (es ! i) = None" using find_idx_SomeD [OF Some [unfolded r]] by auto
    show ?thesis using Some r t i False lookl_fill [OF i assms(2)]
      by (intro exI [of _ "t\<lparr>handles := Some (map Def (es[i := entry h p]))\<rparr>"] exI [of _ "es[i := entry h p]"])
         (simp add: addMsgHandle_def s slots_def map_update)
  qed
qed

text \<open>The loop of \<open>deleteHandle\<close>.\<close>

definition clear :: "string \<Rightarrow> handleEntry \<Rightarrow> handleEntry" where
  "clear h e = (if he_handle e = Some h then e\<lparr>he_handle := None\<rparr> else e)"

definition others :: "string \<Rightarrow> handleEntry list \<Rightarrow> handleEntry list" where
  "others h es = filter (\<lambda>e. he_handle e \<noteq> None \<and> he_handle e \<noteq> Some h) es"

lemma deleteLoop_slots:
  "deleteLoop h (map Def pre @ map Def es) (length pre) f u (length es)
    = Some (map Def pre @ map Def (map (clear h) es),
        f + length (filter (\<lambda>e. he_handle e = Some h) es), u + length (others h es))"
proof (induction es arbitrary: pre f u)
  case (Cons e es)
  have rd: "rd_cell (map Def pre @ Def e # map Def es) (length pre) = Some e"
    using rd_cell_append [of "pre @ [e]" "map Def es" "length pre"] by (simp add: nth_append)
  show ?case
    using Cons.IH [of "pre @ [clear h e]"]
    by (auto simp: rd clear_def others_def list_update_append)
qed (simp add: others_def)

lemma lookl_clear: "lookl (map (clear h) es) = (lookl es)(h := None)"
proof
  fix h'
  show "lookl (map (clear h) es) h' = ((lookl es)(h := None)) h'"
    by (induction es) (auto simp: lookl_Cons clear_def)
qed

lemma found_iff: "filter (\<lambda>e. he_handle e = Some h) es \<noteq> [] \<longleftrightarrow> lookl es h \<noteq> None"
  by (auto simp: lookl_None_iff filter_empty_conv)

lemma delete_slots:
  assumes "slots t es" "es \<noteq> []"
  shows "deleteMsgHandle t h = Some (if lookl es h = None then COMP_MSG_ERR_HANDLE_NOT_FOUND else COMP_MSG_ERR_OK,
      t\<lparr>handles := Some (map Def (map (clear h) es))\<rparr>)"
    and "deleteDispatcherHandle t h = Some (if lookl es h = None then COMP_MSG_ERR_HANDLE_NOT_FOUND else COMP_MSG_ERR_OK,
      t\<lparr>handles := if others h es = [] then None else Some (map Def (map (clear h) es))\<rparr>)"
proof -
  have t: "handles t = Some (map Def es)" "numHandles t = length es" using assms by (simp_all add: slots_def)
  note loop = deleteLoop_slots [of h "[]" es 0 0, simplified]
  show "deleteMsgHandle t h = Some (if lookl es h = None then COMP_MSG_ERR_HANDLE_NOT_FOUND else COMP_MSG_ERR_OK,
      t\<lparr>handles := Some (map Def (map (clear h) es))\<rparr>)"
    using assms(2) found_iff [of h es] by (auto simp: deleteMsgHandle_def t loop)
  show "deleteDispatcherHandle t h = Some (if lookl es h = None then COMP_MSG_ERR_HANDLE_NOT_FOUND else COMP_MSG_ERR_OK,
      t\<lparr>handles := if others h es = [] then None else Some (map Def (map (clear h) es))\<rparr>)"
    using assms(2) found_iff [of h es] by (auto simp: deleteDispatcherHandle_def t loop)
qed

lemma check_slots:
  assumes "slots t es"
  shows "checkMsgHandle t h = Some (case lookl es h of None \<Rightarrow> Inl COMP_MSG_ERR_HANDLE_NOT_FOUND | Some p \<Rightarrow> Inr p)"
proof (cases "es = []")
  case True
  then show ?thesis using assms by (simp add: slots_def checkMsgHandle_def)
next
  case False
  then show ?thesis using assms scan_defined [of es "[]" "\<lambda>e. he_handle e = Some h"]
    by (auto simp: slots_def checkMsgHandle_def lookl_def find_idx_find [symmetric, of _ _ 0] split: option.splits)
qed

lemma dispatcher_same:
  "addDispatcherHandle = addMsgHandle" "checkDispatcherHandle = checkMsgHandle"
  by (simp_all add: fun_eq_iff addDispatcherHandle_def addMsgHandle_def checkDispatcherHandle_def checkMsgHandle_def)

lemma slots_clear: "slots t es \<Longrightarrow> es \<noteq> [] \<Longrightarrow> slots (t\<lparr>handles := Some (map Def (map (clear h) es))\<rparr>) (map (clear h) es)"
  by (simp add: slots_def)

lemma add_law_msg:
  assumes "wf_handles t" "look t h = None"
  shows "\<exists>t'. addMsgHandle True t h p = Some (COMP_MSG_ERR_OK, t') \<and> wf_handles t' \<and> look t' = (look t)(h \<mapsto> p)"
proof -
  obtain es where es: "slots t es" using assms(1) by (auto simp: wf_handles_def)
  then have "lookl es h = None" using assms(2) by (simp add: look_lookl)
  from add_slots [OF es this] show ?thesis by (metis es look_lookl wf_handles_def)
qed

lemma get_law_msg:
  assumes "wf_handles t"
  shows "compMsgGetPtrFromHandle t h = Some (case look t h of None \<Rightarrow> Inl COMP_MSG_ERR_HANDLE_NOT_FOUND | Some p \<Rightarrow> Inr p)"
proof -
  obtain es where "slots t es" using assms by (auto simp: wf_handles_def)
  then show ?thesis by (auto simp: compMsgGetPtrFromHandle_def check_slots look_lookl split: option.splits)
qed

text \<open>A deletion of a dispatcher's handle keeps the table usable when another handle stays in use.\<close>

definition other_in_use :: "handleTable \<Rightarrow> string \<Rightarrow> bool" where
  "other_in_use t h \<longleftrightarrow> (\<exists>h'. h' \<noteq> h \<and> look t h' \<noteq> None)"

lemma other_in_use_slots: "slots t es \<Longrightarrow> other_in_use t h \<longleftrightarrow> others h es \<noteq> []"
  by (auto simp: other_in_use_def look_lookl lookl_None_iff others_def filter_empty_conv)

lemma dispatcher_get_same: "compMsgDispatcherGetPtrFromHandle = compMsgGetPtrFromHandle"
  by (simp add: fun_eq_iff compMsgDispatcherGetPtrFromHandle_def compMsgGetPtrFromHandle_def dispatcher_same)

interpretation msg_handles: handle_table addMsgHandle deleteMsgHandle compMsgGetPtrFromHandle "\<lambda>t h. True"
proof
  fix t h assume "wf_handles t"
  then obtain es where es: "slots t es" by (auto simp: wf_handles_def)
  show "\<exists>t'. deleteMsgHandle t h = Some (if look t h = None then COMP_MSG_ERR_HANDLE_NOT_FOUND else COMP_MSG_ERR_OK, t')
      \<and> wf_handles t' \<and> look t' = (look t)(h := None)"
  proof (cases "es = []")
    case True
    then have "look t = (\<lambda>_. None)" using es by (simp add: look_lookl fun_eq_iff)
    then show ?thesis using es True by (auto simp: deleteMsgHandle_def slots_def wf_handles_def fun_eq_iff)
  next
    case False
    then show ?thesis
      using slots_clear [OF es False, of h] delete_slots(1) [OF es False, of h] lookl_clear [of h es]
      by (auto simp: look_lookl [OF es] look_lookl [OF slots_clear [OF es False]] wf_handles_def simp del: map_map)
  qed
qed (rule add_law_msg get_law_msg; assumption)+

interpretation dispatcher_handles: handle_table addDispatcherHandle deleteDispatcherHandle
  compMsgDispatcherGetPtrFromHandle other_in_use
proof
  fix t h assume "wf_handles t" and use: "other_in_use t h"
  then obtain es where es: "slots t es" by (auto simp: wf_handles_def)
  have ne: "others h es \<noteq> []" using other_in_use_slots [OF es] use by simp
  then have False': "es \<noteq> []" by (auto simp: others_def)
  show "\<exists>t'. deleteDispatcherHandle t h = Some (if look t h = None then COMP_MSG_ERR_HANDLE_NOT_FOUND else COMP_MSG_ERR_OK, t')
      \<and> wf_handles t' \<and> look t' = (look t)(h := None)"
    using ne slots_clear [OF es False', of h] delete_slots(2) [OF es False', of h] lookl_clear [of h es]
    by (auto simp: look_lookl [OF es] look_lookl [OF slots_clear [OF es False']] wf_handles_def simp del: map_map)
qed (simp_all only: dispatcher_same dispatcher_get_same, (rule add_law_msg get_law_msg; assumption)+)

subsection \<open>Properties\<close>

text \<open>
  Claim C38.  The table of message handles works as a map: in a well-formed table a new handle can be
  registered, is then found with its pointer, and every other handle is found as before; deleting it
  gives \<open>OK\<close>, makes it unknown again and changes no other handle.
\<close>

theorem msg_handle_lifecycle:
  assumes "wf_handles t" and "look t h = None"
  shows "\<exists>t1 t2. addMsgHandle True t h p = Some (COMP_MSG_ERR_OK, t1)
    \<and> compMsgGetPtrFromHandle t1 h = Some (Inr p)
    \<and> deleteMsgHandle t1 h = Some (COMP_MSG_ERR_OK, t2)
    \<and> compMsgGetPtrFromHandle t2 h = Some (Inl COMP_MSG_ERR_HANDLE_NOT_FOUND)
    \<and> wf_handles t1 \<and> wf_handles t2
    \<and> (\<forall>h'. h' \<noteq> h \<longrightarrow> compMsgGetPtrFromHandle t1 h' = compMsgGetPtrFromHandle t h'
                   \<and> compMsgGetPtrFromHandle t2 h' = compMsgGetPtrFromHandle t h')"
proof -
  obtain t1 where t1: "addMsgHandle True t h p = Some (0, t1)" "wf_handles t1" "look t1 = (look t)(h \<mapsto> p)"
    using msg_handles.add_law [OF assms] by auto
  obtain t2 where "deleteMsgHandle t1 h = Some (0, t2)" "wf_handles t2" "look t2 = (look t1)(h := None)"
    using msg_handles.del_law [OF t1(2), of h] t1(3) by auto
  then show ?thesis using t1 assms(1) by (simp add: msg_handles.get_law)
qed

definition handles1 :: handleTable where
  "handles1 = \<lparr>handles = Some [Def (entry ''a'' 7)], numHandles = 1\<rparr>"

lemma slots1: "slots handles1 [entry ''a'' 7]"
  by (simp add: slots_def handles1_def)

theorem msg_handle_lifecycle_witness:
  "\<exists>t1. addMsgHandle True handles1 ''b'' 8 = Some (COMP_MSG_ERR_OK, t1)
     \<and> compMsgGetPtrFromHandle t1 ''b'' = Some (Inr 8) \<and> compMsgGetPtrFromHandle t1 ''a'' = Some (Inr 7)"
proof -
  have "wf_handles handles1" "look handles1 = lookl [entry ''a'' 7]"
    using slots1 by (auto simp: wf_handles_def look_lookl)
  moreover from this have "compMsgGetPtrFromHandle handles1 ''a'' = Some (Inr 7)"
    by (simp add: get_law_msg lookl_Cons)
  ultimately show ?thesis using msg_handle_lifecycle [of handles1 "''b''" 8] by (auto simp: lookl_Cons)
qed

text \<open>
  Claim C39.  Deleting the handle of a dispatcher is safe as long as another one is registered, and
  then only that handle disappears.  When it was the only one in use, the array is freed but the count
  of its slots is not reset: every later registration writes past the end of the new array of one slot.
\<close>

theorem dispatcher_handle_deletion:
  assumes "wf_handles t" and "look t h \<noteq> None"
  shows "\<exists>t'. deleteDispatcherHandle t h = Some (COMP_MSG_ERR_OK, t')
    \<and> (if other_in_use t h
       then wf_handles t' \<and> compMsgDispatcherGetPtrFromHandle t' h = Some (Inl COMP_MSG_ERR_HANDLE_NOT_FOUND)
          \<and> (\<forall>h'. h' \<noteq> h \<longrightarrow> compMsgDispatcherGetPtrFromHandle t' h' = compMsgDispatcherGetPtrFromHandle t h')
       else \<forall>h' p. addDispatcherHandle True t' h' p = None)"
proof (cases "other_in_use t h")
  case True
  then show ?thesis using dispatcher_handles.get_del [OF assms(1) True] assms(2) by auto
next
  case False
  obtain es where es: "slots t es" using assms(1) by (auto simp: wf_handles_def)
  have ne: "es \<noteq> []" "lookl es h \<noteq> None" "others h es = []"
    using assms(2) False by (auto simp: look_lookl [OF es] other_in_use_slots [OF es])
  have "deleteDispatcherHandle t h = Some (0, t\<lparr>handles := None\<rparr>)"
    using delete_slots(2) [OF es ne(1)] ne by simp
  moreover have "addDispatcherHandle True (t\<lparr>handles := None\<rparr>) h' p = None" for h' p
    using es ne(1) by (simp add: addDispatcherHandle_def slots_def wr_cell_def)
  ultimately show ?thesis using False by auto
qed

theorem dispatcher_handle_deletion_witness:
  "\<exists>t'. deleteDispatcherHandle handles1 ''a'' = Some (COMP_MSG_ERR_OK, t')
     \<and> addDispatcherHandle True t' ''b'' 8 = None"
proof -
  have "wf_handles handles1" "look handles1 = lookl [entry ''a'' 7]"
    using slots1 by (auto simp: wf_handles_def look_lookl)
  moreover from this have "\<not> other_in_use handles1 ''a''" by (auto simp: other_in_use_def lookl_Cons)
  ultimately show ?thesis using dispatcher_handle_deletion [of handles1 "''a''"] by (auto simp: lookl_Cons)
qed

end
