(* ===== verification/CompMsgData.thy ===== *)
theory CompMsgData
  imports CompMsgDataView CompMsgHandles
begin

text \<open>
  \<^verbatim>\<open>src/app/compMsg/compMsgData.c\<close>: one message, from its list of fields to its bytes.  \<open>createMsg\<close>
  allocates the fields, \<open>initMsg\<close> lays them out (offset and length of every field, length of the
  message, filler up to a block of 16 bytes) and creates the view of the bytes, \<open>setDataValue\<close> and
  \<open>getDataValue\<close> write and read a field by name, \<open>prepareMsg\<close> fills in numbers, fillers and checksum,
  \<open>getMsgData\<close> hands out the bytes.

  The bytes live in the view; \<open>cd_receivedData\<close> and \<open>cd_toSendData\<close> only tell whether the pointer is
  not null, since no function of the file reads through them.  \<open>cd_currHdr\<close> is the encryption letter
  of the header the pointer points to.  The table of names, the handles, the static counters
  (\<open>sequenceNum\<close>, the ids of the views) and the flags of \<^verbatim>\<open>compMsgWifiData\<close> are passed in and out.  The
  code under \<^verbatim>\<open>#ifdef OLD\<close> is not compiled.
\<close>

subsection \<open>State\<close>

record compMsgData =
  cd_view :: "compMsgDataView option"
  cd_dispatcher :: nat
  cd_handle :: string
  cd_fields :: "compMsgField cell list"
  cd_keyValueFields :: "compMsgField cell list"
  cd_flags :: u16
  cd_numFields :: size_t
  cd_maxFields :: size_t
  cd_fieldOffset :: size_t
  cd_totalLgth :: size_t
  cd_cmdLgth :: size_t
  cd_headerLgth :: size_t
  cd_receivedData :: bool
  cd_toSendData :: bool
  cd_direction :: u8
  cd_receivedView :: "compMsgDataView option"
  cd_prepareValuesCbName :: "string option"
  cd_currHdr :: "u8 option"

text \<open>Flags; \<open>COMP_MSG_HAS_CRC\<close> and \<open>COMP_MSG_HAS_TOTAL_CRC\<close> are those of \<^verbatim>\<open>compMsgMsgDesc.h\<close>.\<close>

abbreviation (input) "COMP_MSG_HAS_CRC \<equiv> (2 :: u16)"
abbreviation (input) "COMP_MSG_HAS_TOTAL_CRC \<equiv> (4 :: u16)"
abbreviation (input) "COMP_MSG_UINT8_CRC \<equiv> (2 :: u16)"
abbreviation (input) "COMP_MSG_IS_INITTED \<equiv> (32 :: u16)"
abbreviation (input) "COMP_MSG_IS_PREPARED \<equiv> (64 :: u16)"
abbreviation (input) "COMP_MSG_CRC_USE_HEADER_LGTH \<equiv> (128 :: u16)"
abbreviation (input) "COMP_MSG_UINT8_TOTAL_CRC \<equiv> (512 :: u16)"
abbreviation (input) "COMP_MSG_FIELD_IS_SET \<equiv> (1 :: u8)"
abbreviation (input) "COMP_MSG_TO_SEND_DATA \<equiv> (1 :: u8)"
abbreviation (input) "WIFI_USE_SAVED_SEQUENCE_NUM \<equiv> (1 :: u16)"

definition zeroField :: compMsgField where
  "zeroField = \<lparr>f_fieldNameId = 0, f_fieldTypeId = 0, f_fieldFlags = 0, f_fieldKeyTypeId = 0,
     f_fieldLgth = 0, f_fieldKey = 0, f_fieldOffset = 0, f_fieldSizeCallback = 0\<rparr>"

text \<open>\<open>int numEntries = compMsgData->numFields\<close>, the number of rounds of the loops over the fields.\<close>

definition numEntries :: "compMsgData \<Rightarrow> nat" where
  "numEntries self = nat (sint (cd_numFields self))"

text \<open>The view after a change of its bytes; without a view the access is through a null pointer.\<close>

definition onView :: "compMsgData \<Rightarrow> (dataView \<Rightarrow> (errcode \<times> dataView) ub) \<Rightarrow> (errcode \<times> compMsgData) ub" where
  "onView self f =
    do { v \<leftarrow> cd_view self;
         (rc, dv) \<leftarrow> f (dataView v);
         Some (rc, self\<lparr>cd_view := Some (v\<lparr>dataView := dv\<rparr>)\<rparr>) }"

definition markSet :: "compMsgField \<Rightarrow> compMsgField" where
  "markSet f = f\<lparr>f_fieldFlags := f_fieldFlags f OR COMP_MSG_FIELD_IS_SET\<rparr>"

subsection \<open>Creating a message\<close>

definition newCompMsgData :: "bool \<Rightarrow> compMsgData option" where
  "newCompMsgData ok =
    (if \<not> ok then None
     else Some \<lparr>cd_view = None, cd_dispatcher = 0, cd_handle = '''', cd_fields = [], cd_keyValueFields = [],
       cd_flags = 0, cd_numFields = 0, cd_maxFields = 0, cd_fieldOffset = 0, cd_totalLgth = 0,
       cd_cmdLgth = 0, cd_headerLgth = 0, cd_receivedData = False, cd_toSendData = False,
       cd_direction = 0, cd_receivedView = None, cd_prepareValuesCbName = None, cd_currHdr = None\<rparr>)"

definition setDispatcher :: "compMsgData \<Rightarrow> nat \<Rightarrow> errcode \<times> compMsgData" where
  "setDispatcher self dispatcher = (COMP_MSG_ERR_OK, self\<lparr>cd_dispatcher := dispatcher\<rparr>)"

definition createMsg :: "bool \<Rightarrow> compMsgData \<Rightarrow> i32 \<Rightarrow> errcode \<times> compMsgData" where
  "createMsg ok self numFields =
    (if \<not> ok then (COMP_MSG_ERR_OUT_OF_MEMORY, self\<lparr>cd_fields := []\<rparr>)
     else (COMP_MSG_ERR_OK,
       self\<lparr>cd_fields := zalloc_cells (unat numFields) zeroField, cd_flags := 0, cd_numFields := 0,
            cd_maxFields := numFields, cd_fieldOffset := 0, cd_totalLgth := 0, cd_cmdLgth := 0,
            cd_headerLgth := 0\<rparr>))"

subsection \<open>Reading and writing a field by name\<close>

definition getDataValue ::
  "bool \<Rightarrow> typesAndNames \<Rightarrow> compMsgData \<Rightarrow> string
    \<Rightarrow> ((errcode + (i32 \<times> mem option) option) \<times> typesAndNames) ub" where
  "getDataValue ok tn self name =
    (if cd_flags self AND COMP_MSG_IS_INITTED = 0 then Some (Inl COMP_MSG_ERR_NOT_YET_INITTED, tn)
     else do {
       v \<leftarrow> cd_view self;
       (r, tn) \<leftarrow> getFieldNameIdFromStr (\<lambda>_. ok) tn name COMP_MSG_NO_INCR;
       case r of
         Inl rc \<Rightarrow> Some (Inl rc, tn)
       | Inr i \<Rightarrow>
           do { found \<leftarrow> scan (cd_fields self) (\<lambda>f. f_fieldNameId f = i) 0 (numEntries self);
                case found of
                  None \<Rightarrow> Some (Inr None, tn)
                | Some (idx, f) \<Rightarrow>
                    let offset = (if take 5 name = ''#key_'' then 8 else 0 :: nat) in
                    do { g \<leftarrow> getFieldValue ok (dataView v)
                            (f\<lparr>f_fieldOffset := f_fieldOffset f + word_of_nat offset,
                               f_fieldLgth := f_fieldLgth f - word_of_nat offset\<rparr>) 0;
                         Some (map_sum id Some g, tn) } } })"

text \<open>A field whose name starts with \<open>#\<close>: key, type of the key, value 8 bytes into the field.\<close>

definition setKeyValue :: "dataView \<Rightarrow> compMsgField \<Rightarrow> i32 \<Rightarrow> mem option \<Rightarrow> (errcode \<times> dataView) ub" where
  "setKeyValue dv f numericValue stringValue =
    checkErrOK (setUint16 dv (f_fieldOffset f) (f_fieldKey f)) (\<lambda>dv.
    checkErrOK (setUint8 dv (f_fieldOffset f + 3) (f_fieldKeyTypeId f)) (\<lambda>dv.
    setFieldValue dv f numericValue stringValue 8))"

definition cannotBeSet :: "u8 \<Rightarrow> bool" where
  "cannotBeSet i \<longleftrightarrow> i = COMP_MSG_SPEC_FIELD_TOTAL_LGTH \<or> i = COMP_MSG_SPEC_FIELD_CMD_LGTH
    \<or> i = COMP_MSG_SPEC_FIELD_FILLER \<or> i = COMP_MSG_SPEC_FIELD_CRC
    \<or> i = COMP_MSG_SPEC_FIELD_RANDOM_NUM \<or> i = COMP_MSG_SPEC_FIELD_SEQUENCE_NUM"

definition setDataValue ::
  "typesAndNames \<Rightarrow> compMsgData \<Rightarrow> string \<Rightarrow> i32 \<Rightarrow> mem option
    \<Rightarrow> (errcode \<times> compMsgData \<times> typesAndNames) ub" where
  "setDataValue tn self name numericValue stringValue =
    (if cd_flags self AND COMP_MSG_IS_INITTED = 0 then Some (COMP_MSG_ERR_NOT_YET_INITTED, self, tn)
     else do {
       _ \<leftarrow> cd_view self;
       (r, tn) \<leftarrow> getFieldNameIdFromStr (\<lambda>_. True) tn name COMP_MSG_NO_INCR;
       case r of
         Inl rc \<Rightarrow> Some (rc, self, tn)
       | Inr i \<Rightarrow>
           if cannotBeSet i then Some (COMP_MSG_ERR_FIELD_CANNOT_BE_SET, self, tn)
           else do {
             found \<leftarrow> scan (cd_fields self) (\<lambda>f. f_fieldNameId f = i) 0 (numEntries self);
             case found of
               None \<Rightarrow> Some (DATA_VIEW_ERR_OK, self, tn)
             | Some (idx, f) \<Rightarrow>
                 do { (rc, self) \<leftarrow> onView self (\<lambda>dv.
                        if take 1 name = ''#'' then setKeyValue dv f numericValue stringValue
                        else setFieldValue dv f numericValue stringValue 0);
                      if rc \<noteq> 0 then Some (rc, self, tn)
                      else do { fs \<leftarrow> wr_cell (cd_fields self) idx (markSet f);
                                Some (DATA_VIEW_ERR_OK, self\<lparr>cd_fields := fs\<rparr>, tn) } } } })"

subsection \<open>Preparing a message\<close>

record prepState =
  ps_sequenceNum :: i32
  ps_wifiFlags :: u16
  ps_data :: compMsgData

text \<open>
  The bytes the checksum covers, from \<open>headerLgth\<close> (a \<open>uint8_t\<close>) up to \<open>lgth\<close>; \<open>hdrLgth\<close> is
  \<open>msgHeaderInfos.headerLgth\<close> of the dispatcher, \<open>encryption\<close> the letter of the current header.
\<close>

definition crcRange :: "u8 \<Rightarrow> u8 \<Rightarrow> compMsgData \<Rightarrow> compMsgField \<Rightarrow> u8 \<times> size_t" where
  "crcRange hdrLgth encryption self f =
    (let headerLgth = (if encryption = 69 then hdrLgth else 0);
         lgth = cd_headerLgth self + cd_cmdLgth self - ucast (f_fieldLgth f);
         (headerLgth, lgth) = (if cd_flags self AND COMP_MSG_CRC_USE_HEADER_LGTH \<noteq> 0
           then (ucast (cd_headerLgth self), lgth - ucast (ucast (cd_headerLgth self) :: u8))
           else (headerLgth, lgth));
         lgth = (if cd_flags self AND COMP_MSG_HAS_TOTAL_CRC \<noteq> 0
           then (if cd_flags self AND COMP_MSG_UINT8_TOTAL_CRC \<noteq> 0 then lgth - 1 else lgth - 2)
           else lgth) in
     (headerLgth, lgth))"

text \<open>
  The \<open>switch\<close> of the loop: \<open>None\<close> for a field it does not handle.  \<open>saved\<close> is the outcome of
  \<open>getClientSequenceNum\<close>, \<open>rnd\<close> the random numbers the call draws.
\<close>

definition prepareCall ::
  "u8 \<Rightarrow> errcode + i32 \<Rightarrow> (nat \<Rightarrow> u32) \<Rightarrow> compMsgField \<Rightarrow> prepState \<Rightarrow> (errcode \<times> prepState) ub option" where
  "prepareCall hdrLgth saved rnd f st =
    (let self = ps_data st; i = f_fieldNameId f;
         call = (\<lambda>g. do { (rc, self) \<leftarrow> onView self g; Some (rc, st\<lparr>ps_data := self\<rparr>) }) in
     if i = COMP_MSG_SPEC_FIELD_RANDOM_NUM then Some (call (\<lambda>dv. setRandomNum rnd dv f))
     else if i = COMP_MSG_SPEC_FIELD_SEQUENCE_NUM then Some (
       do { v \<leftarrow> cd_view self;
            (rc, n, dv) \<leftarrow>
              (if ps_wifiFlags st AND WIFI_USE_SAVED_SEQUENCE_NUM \<noteq> 0
               then setSavedSequenceNum saved (ps_sequenceNum st) (dataView v) f
               else setSequenceNum (ps_sequenceNum st) (dataView v) f);
            Some (rc, st\<lparr>ps_sequenceNum := n,
                         ps_wifiFlags := (if ps_wifiFlags st AND WIFI_USE_SAVED_SEQUENCE_NUM \<noteq> 0
                           then ps_wifiFlags st AND NOT WIFI_USE_SAVED_SEQUENCE_NUM else ps_wifiFlags st),
                         ps_data := self\<lparr>cd_view := Some (v\<lparr>dataView := dv\<rparr>)\<rparr>\<rparr>) })
     else if i = COMP_MSG_SPEC_FIELD_HDR_FILLER then Some (call (\<lambda>dv. setZeroFiller dv f))
     else if i = COMP_MSG_SPEC_FIELD_FILLER then Some (call (\<lambda>dv. setFiller rnd dv f))
     else if i = COMP_MSG_SPEC_FIELD_CRC then Some (
       do { encryption \<leftarrow> cd_currHdr self;
            let (headerLgth, lgth) = crcRange hdrLgth encryption self f in
              call (\<lambda>dv. setCrc dv f (ucast headerLgth) lgth) })
     else None)"

primrec prepareLoop ::
  "u8 \<Rightarrow> errcode + i32 \<Rightarrow> (nat \<Rightarrow> nat \<Rightarrow> u32) \<Rightarrow> prepState \<Rightarrow> nat \<Rightarrow> nat \<Rightarrow> (errcode \<times> prepState) ub" where
  "prepareLoop hdrLgth saved rnd st idx 0 = Some (COMP_MSG_ERR_OK, st)"
| "prepareLoop hdrLgth saved rnd st idx (Suc k) =
    do { f \<leftarrow> rd_cell (cd_fields (ps_data st)) idx;
         case prepareCall hdrLgth saved (rnd idx) f st of
           None \<Rightarrow> prepareLoop hdrLgth saved rnd st (Suc idx) k
         | Some call \<Rightarrow>
             checkErrOK call (\<lambda>st.
               do { fs \<leftarrow> wr_cell (cd_fields (ps_data st)) idx (markSet f);
                    prepareLoop hdrLgth saved rnd (st\<lparr>ps_data := (ps_data st)\<lparr>cd_fields := fs\<rparr>\<rparr>) (Suc idx) k }) }"

definition prepareMsg ::
  "u8 \<Rightarrow> errcode + i32 \<Rightarrow> (nat \<Rightarrow> nat \<Rightarrow> u32) \<Rightarrow> prepState \<Rightarrow> (errcode \<times> prepState) ub" where
  "prepareMsg hdrLgth saved rnd st =
    (if cd_flags (ps_data st) AND COMP_MSG_IS_INITTED = 0 then Some (COMP_MSG_ERR_NOT_YET_INITTED, st)
     else checkErrOK (prepareLoop hdrLgth saved rnd st 0 (numEntries (ps_data st))) (\<lambda>st.
       Some (COMP_MSG_ERR_OK,
         st\<lparr>ps_data := (ps_data st)\<lparr>cd_flags := cd_flags (ps_data st) OR COMP_MSG_IS_PREPARED\<rparr>\<rparr>)))"

subsection \<open>Laying out a message\<close>

definition isHeaderField :: "u8 \<Rightarrow> bool" where
  "isHeaderField i \<longleftrightarrow> i = COMP_MSG_SPEC_FIELD_SRC \<or> i = COMP_MSG_SPEC_FIELD_DST
    \<or> i = COMP_MSG_SPEC_FIELD_TOTAL_LGTH \<or> i = COMP_MSG_SPEC_FIELD_GUID
    \<or> i = COMP_MSG_SPEC_FIELD_SRC_ID \<or> i = COMP_MSG_SPEC_FIELD_HDR_FILLER"

text \<open>\<open>while ((myLgth % 16) != 0) { myLgth++; fillerLgth++; }\<close>\<close>

function fillerLoop :: "size_t \<Rightarrow> size_t \<Rightarrow> size_t" where
  "fillerLoop myLgth fillerLgth =
    (if myLgth mod 16 \<noteq> 0 then fillerLoop (myLgth + 1) (fillerLgth + 1) else fillerLgth)"
  by pat_completeness auto

definition crcLgth :: "compMsgData \<Rightarrow> size_t" where
  "crcLgth self =
    (if cd_flags self AND COMP_MSG_HAS_CRC \<noteq> 0
     then (if cd_flags self AND COMP_MSG_UINT8_CRC \<noteq> 0 then 1 else 2) else 0)"

lemma mod16_nat: "unat (w mod 16) = unat w mod 16" for w :: u32
  by (simp add: unat_mod)

lemma unat_Suc_mod16: "unat (m + 1) mod 16 = (unat m + 1) mod 16" for m :: u32
proof -
  have "unat (m + 1) = (unat m + 1) mod 2 ^ 32" by (simp add: unat_word_ariths)
  moreover have "(16 :: nat) dvd 2 ^ 32" by simp
  ultimately show ?thesis by (simp only: mod_mod_cancel)
qed

termination fillerLoop
proof (relation "measure (\<lambda>(m, f). (16 - unat m mod 16) mod 16)")
  fix m f :: u32
  assume "m mod 16 \<noteq> 0"
  then have "unat m mod 16 \<noteq> 0" by (metis mod16_nat unsigned_0 word_unat_eq_iff)
  moreover have "unat (m + 1) mod 16 = (unat m + 1) mod 16" by (rule unat_Suc_mod16)
  ultimately have "(16 - unat (m + 1) mod 16) mod 16 < (16 - unat m mod 16) mod 16"
    by (cases "unat m mod 16 = 15") (simp_all add: mod_Suc)
  then show "((m + 1, f + 1), m, f) \<in> measure (\<lambda>(m, f). (16 - unat m mod 16) mod 16)" by simp
qed simp

declare fillerLoop.simps [simp del]

text \<open>The case \<open>COMP_MSG_SPEC_FIELD_FILLER\<close> of both layout loops.\<close>

definition layoutFiller :: "compMsgData \<Rightarrow> compMsgField \<Rightarrow> compMsgData \<times> compMsgField" where
  "layoutFiller self f =
    (let fillerLgth = fillerLoop (cd_fieldOffset self + crcLgth self - cd_headerLgth self) 0;
         total = cd_fieldOffset self + fillerLgth + crcLgth self in
     (self\<lparr>cd_totalLgth := total, cd_cmdLgth := total - cd_headerLgth self\<rparr>,
      f\<lparr>f_fieldLgth := ucast fillerLgth\<rparr>))"

definition layoutHeader :: "compMsgData \<Rightarrow> compMsgField \<Rightarrow> compMsgData \<times> compMsgField" where
  "layoutHeader self f =
    (self\<lparr>cd_headerLgth := cd_headerLgth self + ucast (f_fieldLgth f),
          cd_totalLgth := cd_fieldOffset self + ucast (f_fieldLgth f)\<rparr>, f)"

text \<open>One round of the loop of \<open>initMsg\<close>, and of that of \<open>initReceivedMsg\<close>, up to the advance of the offset.\<close>

definition initField :: "compMsgData \<Rightarrow> compMsgField \<Rightarrow> compMsgData \<times> compMsgField" where
  "initField self f =
    (let f = f\<lparr>f_fieldOffset := cd_fieldOffset self\<rparr> in
     if isHeaderField (f_fieldNameId f) then layoutHeader self f
     else if f_fieldNameId f = COMP_MSG_SPEC_FIELD_FILLER then layoutFiller self f
     else let total = cd_fieldOffset self + ucast (f_fieldLgth f) in
       (self\<lparr>cd_totalLgth := total, cd_cmdLgth := total - cd_headerLgth self\<rparr>, f))"

definition initReceivedField :: "compMsgData \<Rightarrow> compMsgField \<Rightarrow> compMsgData \<times> compMsgField" where
  "initReceivedField self f =
    (let f = markSet (f\<lparr>f_fieldOffset := cd_fieldOffset self\<rparr>) in
     if isHeaderField (f_fieldNameId f) then layoutHeader self f
     else if f_fieldNameId f = COMP_MSG_SPEC_FIELD_FILLER then layoutFiller self f
     else (self, f))"

text \<open>The loop over the fields, with \<open>k\<close> rounds left.\<close>

primrec layoutLoop ::
  "(compMsgData \<Rightarrow> compMsgField \<Rightarrow> compMsgData \<times> compMsgField) \<Rightarrow> compMsgData \<Rightarrow> nat \<Rightarrow> nat \<Rightarrow> compMsgData ub" where
  "layoutLoop body self idx 0 = Some self"
| "layoutLoop body self idx (Suc k) =
    do { f \<leftarrow> rd_cell (cd_fields self) idx;
         let (self, f) = body self f;
         fs \<leftarrow> wr_cell (cd_fields self) idx f;
         layoutLoop body
           (self\<lparr>cd_fields := fs, cd_fieldOffset := cd_fieldOffset self + ucast (f_fieldLgth f)\<rparr>) (Suc idx) k }"

text \<open>The last loop of \<open>initMsg\<close>: the values of the length fields.\<close>

primrec lengthLoop :: "compMsgData \<Rightarrow> nat \<Rightarrow> nat \<Rightarrow> (errcode \<times> compMsgData) ub" where
  "lengthLoop self idx 0 = Some (COMP_MSG_ERR_OK, self)"
| "lengthLoop self idx (Suc k) =
    do { f \<leftarrow> rd_cell (cd_fields self) idx;
         let put_lgth = (\<lambda>n. checkErrOK (onView self (\<lambda>dv. setFieldValue dv f n None 0)) (\<lambda>self.
               do { fs \<leftarrow> wr_cell (cd_fields self) idx (markSet f);
                    lengthLoop (self\<lparr>cd_fields := fs\<rparr>) (Suc idx) k }));
         if f_fieldNameId f = COMP_MSG_SPEC_FIELD_TOTAL_LGTH then put_lgth (cd_totalLgth self)
         else if f_fieldNameId f = COMP_MSG_SPEC_FIELD_CMD_LGTH then put_lgth (cd_cmdLgth self)
         else lengthLoop self (Suc idx) k }"

text \<open>
  The allocation of the bytes and of their view; \<open>ids\<close> are the static counters of
  \<open>newDataView\<close> and \<open>newCompMsgDataView\<close>.
\<close>

definition allocMsg :: "allocs \<Rightarrow> u8 \<times> u8 \<Rightarrow> compMsgData \<Rightarrow> errcode \<times> (u8 \<times> u8) \<times> compMsgData" where
  "allocMsg ok ids self =
    (let self = (if cd_direction self = COMP_MSG_TO_SEND_DATA then self\<lparr>cd_toSendData := ok 0\<rparr>
                 else self\<lparr>cd_receivedData := ok 0\<rparr>) in
     if \<not> ok 0 then (DATA_VIEW_ERR_OUT_OF_MEMORY, ids, self)
     else case newCompMsgDataView (\<lambda>k. ok (k + 1)) (fst ids) (snd ids)
                 (replicate (unat (cd_totalLgth self)) 0) (cd_totalLgth self) of
       (a, b, view) \<Rightarrow>
         (if view = None then DATA_VIEW_ERR_OUT_OF_MEMORY else COMP_MSG_ERR_OK, (a, b), self\<lparr>cd_view := view\<rparr>))"

definition initMsg :: "allocs \<Rightarrow> u8 \<times> u8 \<Rightarrow> compMsgData \<Rightarrow> (errcode \<times> (u8 \<times> u8) \<times> compMsgData) ub" where
  "initMsg ok ids self =
    (if cd_flags self AND COMP_MSG_IS_INITTED \<noteq> 0 then Some (COMP_MSG_ERR_ALREADY_INITTED, ids, self)
     else do {
       self \<leftarrow> layoutLoop initField (self\<lparr>cd_fieldOffset := 0, cd_headerLgth := 0\<rparr>) 0 (numEntries self);
       if cd_totalLgth self = 0 then Some (COMP_MSG_ERR_FIELD_TOTAL_LGTH_MISSING, ids, self)
       else
         let self = self\<lparr>cd_flags := cd_flags self OR COMP_MSG_IS_INITTED\<rparr>;
             (rc, ids, self) = allocMsg ok ids self in
         if rc \<noteq> COMP_MSG_ERR_OK then Some (rc, ids, self)
         else do { (rc, self) \<leftarrow> lengthLoop self 0 (numEntries self); Some (rc, ids, self) } })"

definition initReceivedMsg :: "compMsgData \<Rightarrow> (errcode \<times> compMsgData) ub" where
  "initReceivedMsg self =
    do { _ \<leftarrow> cd_view self;
         if cd_flags self AND COMP_MSG_IS_INITTED \<noteq> 0 then Some (COMP_MSG_ERR_ALREADY_INITTED, self)
         else do {
           self \<leftarrow> layoutLoop initReceivedField (self\<lparr>cd_fieldOffset := 0, cd_headerLgth := 0\<rparr>) 0 (numEntries self);
           if cd_totalLgth self = 0 then Some (COMP_MSG_ERR_FIELD_TOTAL_LGTH_MISSING, self)
           else Some (COMP_MSG_ERR_OK, self\<lparr>cd_flags := cd_flags self OR COMP_MSG_IS_INITTED\<rparr>) } }"

subsection \<open>Handing out and releasing a message\<close>

definition getMsgData :: "compMsgData \<Rightarrow> (errcode + mem \<times> size_t) ub" where
  "getMsgData self =
    (if cd_flags self AND COMP_MSG_IS_INITTED = 0 then Some (Inl COMP_MSG_ERR_NOT_YET_INITTED)
     else if cd_flags self AND COMP_MSG_IS_PREPARED = 0 then Some (Inl COMP_MSG_ERR_NOT_YET_PREPARED)
     else do { v \<leftarrow> cd_view self;
               case getDataViewData (dataView v) of (rc, d, n) \<Rightarrow>
                 Some (if rc \<noteq> 0 then Inl rc else Inr (d, n)) })"

definition freeCompMsgData ::
  "typesAndNames option \<Rightarrow> handleTable \<Rightarrow> compMsgData
    \<Rightarrow> (errcode \<times> typesAndNames option \<times> handleTable \<times> compMsgData) ub" where
  "freeCompMsgData tn t self =
    do { (rc, tn) \<leftarrow> (case tn of None \<Rightarrow> Some (COMP_MSG_ERR_OK, None)
           | Some n \<Rightarrow> do { (rc, n) \<leftarrow> freeCompMsgTypesAndNames n; Some (rc, Some n) });
         if rc \<noteq> 0 then Some (rc, tn, t, self)
         else
           let self = self\<lparr>cd_fields := [], cd_keyValueFields := [], cd_receivedData := False,
                 cd_toSendData := False, cd_view := None, cd_receivedView := None,
                 cd_prepareValuesCbName := None\<rparr> in
           if length (cd_handle self) > 0
           then do { (_, t) \<leftarrow> deleteMsgHandle t (cd_handle self);
                     Some (COMP_MSG_ERR_OK, tn, t, self\<lparr>cd_handle := ''''\<rparr>) }
           else Some (COMP_MSG_ERR_OK, tn, t, self) }"

definition deleteMsg ::
  "typesAndNames option \<Rightarrow> handleTable \<Rightarrow> compMsgData
    \<Rightarrow> (errcode \<times> typesAndNames option \<times> handleTable \<times> compMsgData) ub" where
  "deleteMsg tn t self =
    do { (result, s) \<leftarrow> freeCompMsgData tn t self;
         if result \<noteq> 0 then Some (result, s) else Some (COMP_MSG_ERR_OK, s) }"

text \<open>\<open>getFieldType\<close> of \<^verbatim>\<open>compMsgDispatcher.c\<close>; there the index is compared with the \<open>size_t\<close> itself.\<close>

definition getFieldType :: "compMsgData \<Rightarrow> u8 \<Rightarrow> (errcode + u8) ub" where
  "getFieldType self i =
    do { r \<leftarrow> scan (cd_fields self) (\<lambda>f. f_fieldNameId f = i) 0 (unat (cd_numFields self));
         Some (case r of Some (_, f) \<Rightarrow> Inr (f_fieldTypeId f) | None \<Rightarrow> Inl COMP_MSG_ERR_FIELD_NOT_FOUND) }"

end
