(* ===== verification/CompMsgLayout.thy ===== *)
theory CompMsgLayout
  imports CompMsgData
begin

text \<open>
  What \<open>initMsg\<close> computes: the layout of a message as a function of the list of its fields
  (\<open>layoutSpec\<close>), the proof that the loop over the array of fields implements it, that the fields lie
  one behind the other inside the bytes of the message, and that the length fields hold the lengths.
\<close>

subsection \<open>Filler\<close>

definition pad :: "size_t \<Rightarrow> nat" where
  "pad m = (16 - unat m mod 16) mod 16"

lemma pad_less: "pad m < 16"
  by (simp add: pad_def)

lemma pad_0: "m mod 16 = 0 \<Longrightarrow> pad m = 0"
  by (metis mod16_nat pad_def unsigned_0 diff_zero mod_self)

lemma pad_Suc: "m mod 16 \<noteq> 0 \<Longrightarrow> pad m = Suc (pad (m + 1))"
proof -
  assume "m mod 16 \<noteq> 0"
  then have "unat m mod 16 \<noteq> 0" by (metis mod16_nat unsigned_0 word_unat_eq_iff)
  then show ?thesis unfolding pad_def unat_Suc_mod16
    by (cases "unat m mod 16 = 15") (simp_all add: mod_Suc)
qed

lemma fillerLoop_pad: "fillerLoop m f = f + word_of_nat (pad m)"
proof (induction m f rule: fillerLoop.induct)
  case (1 m f)
  show ?case
  proof (cases "m mod 16 = 0")
    case True
    then show ?thesis by (subst fillerLoop.simps) (simp add: pad_0)
  next
    case False
    then show ?thesis using 1 by (subst fillerLoop.simps) (simp add: pad_Suc)
  qed
qed

lemma pad_complete: "(m + word_of_nat (pad m)) mod 16 = 0"
proof -
  have "unat (m + word_of_nat (pad m)) = (unat m + pad m) mod 2 ^ 32"
    using pad_less [of m] by (simp add: unat_word_ariths unat_of_nat)
  moreover have "(16 :: nat) dvd 2 ^ 32" by simp
  ultimately have "unat (m + word_of_nat (pad m)) mod 16 = (unat m + pad m) mod 16"
    by (simp only: mod_mod_cancel)
  also have "\<dots> = (unat m mod 16 + pad m) mod 16" by (simp add: mod_add_left_eq)
  also have "\<dots> = 0" by (cases "unat m mod 16 = 0") (simp_all add: pad_def)
  finally show ?thesis by (metis mod16_nat unsigned_0 word_unat_eq_iff)
qed

subsection \<open>The layout as a function\<close>

primrec layoutSpec :: "size_t \<Rightarrow> size_t \<Rightarrow> size_t \<Rightarrow> compMsgField list \<Rightarrow> compMsgField list" where
  "layoutSpec crc hdr off [] = []"
| "layoutSpec crc hdr off (f # fs) =
    (let n = (if f_fieldNameId f = COMP_MSG_SPEC_FIELD_FILLER then word_of_nat (pad (off + crc - hdr))
              else f_fieldLgth f) in
     f\<lparr>f_fieldOffset := off, f_fieldLgth := n\<rparr>
       # layoutSpec crc (if isHeaderField (f_fieldNameId f) then hdr + ucast n else hdr) (off + ucast n) fs)"

definition lgths :: "compMsgField list \<Rightarrow> size_t" where
  "lgths fs = sum_list (map (\<lambda>f. ucast (f_fieldLgth f)) fs)"

definition hdrLgths :: "compMsgField list \<Rightarrow> size_t" where
  "hdrLgths fs = lgths (filter (\<lambda>f. isHeaderField (f_fieldNameId f)) fs)"

definition isFiller :: "compMsgField \<Rightarrow> bool" where
  "isFiller f \<longleftrightarrow> f_fieldNameId f = COMP_MSG_SPEC_FIELD_FILLER"

lemma lgths_simps [simp]:
  "lgths [] = 0" "lgths (f # fs) = ucast (f_fieldLgth f) + lgths fs"
  "hdrLgths [] = 0"
  "hdrLgths (f # fs) = (if isHeaderField (f_fieldNameId f) then ucast (f_fieldLgth f) + hdrLgths fs else hdrLgths fs)"
  by (simp_all add: lgths_def hdrLgths_def)

lemma length_layoutSpec [simp]: "length (layoutSpec crc hdr off fs) = length fs"
  by (induction fs arbitrary: hdr off) (simp_all add: Let_def)

lemma ucast_pad: "ucast (word_of_nat (pad m) :: u16) = (word_of_nat (pad m) :: u32)"
  using pad_less [of m] by (simp add: word_unat_eq_iff unat_of_nat)

lemma ucast_pad': "ucast (word_of_nat (pad m) :: u32) = (word_of_nat (pad m) :: u16)"
  using pad_less [of m] by (simp add: word_unat_eq_iff unat_of_nat unsigned_ucast_eq take_bit_eq_mod)

lemma filler_not_header: "\<not> isHeaderField COMP_MSG_SPEC_FIELD_FILLER"
  by (simp add: isHeaderField_def)

text \<open>One round of the loop.\<close>

lemma initField_spec:
  fixes f :: compMsgField
  defines "n self \<equiv> (if isFiller f then word_of_nat (pad (cd_fieldOffset self + crcLgth self - cd_headerLgth self))
             else f_fieldLgth f)"
  shows "\<exists>cmd. initField self f =
     (self\<lparr>cd_headerLgth := (if isHeaderField (f_fieldNameId f) then cd_headerLgth self + ucast (n self) else cd_headerLgth self),
           cd_totalLgth := cd_fieldOffset self + ucast (n self) + (if isFiller f then crcLgth self else 0),
           cd_cmdLgth := cmd\<rparr>,
      f\<lparr>f_fieldOffset := cd_fieldOffset self, f_fieldLgth := n self\<rparr>)
    \<and> (\<not> isHeaderField (f_fieldNameId f) \<longrightarrow>
        cmd = cd_fieldOffset self + ucast (n self) + (if isFiller f then crcLgth self else 0) - cd_headerLgth self)"
proof -
  consider "isHeaderField (f_fieldNameId f)" "\<not> isFiller f" | "isFiller f" "\<not> isHeaderField (f_fieldNameId f)"
    | "\<not> isHeaderField (f_fieldNameId f)" "\<not> isFiller f"
    using filler_not_header by (auto simp: isFiller_def)
  then show ?thesis
  proof cases
    case 1
    then show ?thesis
      by (intro exI [of _ "cd_cmdLgth self"]) (simp add: initField_def layoutHeader_def n_def)
  next
    case 2
    then show ?thesis
      by (simp add: initField_def layoutFiller_def n_def isFiller_def fillerLoop_pad ucast_pad ucast_pad' Let_def)
  next
    case 3
    then show ?thesis by (simp add: initField_def n_def isFiller_def Let_def)
  qed
qed

text \<open>The whole loop: it implements \<open>layoutSpec\<close>.\<close>

lemma layoutLoop_spec:
  assumes "cd_fields self = map Def pre @ map Def fs @ rest"
    and "fs' = layoutSpec (crcLgth self) (cd_headerLgth self) (cd_fieldOffset self) fs"
  shows "\<exists>total cmd. layoutLoop initField self (length pre) (length fs) = Some (self\<lparr>
        cd_fields := map Def pre @ map Def fs' @ rest, cd_fieldOffset := cd_fieldOffset self + lgths fs',
        cd_headerLgth := cd_headerLgth self + hdrLgths fs', cd_totalLgth := total, cd_cmdLgth := cmd\<rparr>)
    \<and> total = (if fs = [] then cd_totalLgth self
               else cd_fieldOffset self + lgths fs' + (if isFiller (last fs) then crcLgth self else 0))
    \<and> (fs \<noteq> [] \<longrightarrow> \<not> isHeaderField (f_fieldNameId (last fs)) \<longrightarrow> cmd = total - (cd_headerLgth self + hdrLgths fs'))"
  using assms
proof (induction fs arbitrary: self pre fs')
  case Nil
  show ?case by (intro exI [of _ "cd_totalLgth self"] exI [of _ "cd_cmdLgth self"]) (use Nil in simp)
next
  case (Cons f fs)
  define n where "n = (if isFiller f then word_of_nat (pad (cd_fieldOffset self + crcLgth self - cd_headerLgth self))
             else f_fieldLgth f)"
  define hdr where "hdr = (if isHeaderField (f_fieldNameId f) then cd_headerLgth self + ucast n else cd_headerLgth self)"
  define g where "g = f\<lparr>f_fieldOffset := cd_fieldOffset self, f_fieldLgth := n\<rparr>"
  define total1 where "total1 = cd_fieldOffset self + ucast n + (if isFiller f then crcLgth self else 0)"
  obtain cmd1 where body: "initField self f = (self\<lparr>cd_headerLgth := hdr, cd_totalLgth := total1, cd_cmdLgth := cmd1\<rparr>, g)"
    and cmd1: "\<not> isHeaderField (f_fieldNameId f) \<longrightarrow> cmd1 = total1 - cd_headerLgth self"
    using initField_spec [of self f] unfolding n_def hdr_def g_def total1_def by blast
  define self1 where "self1 = self\<lparr>cd_headerLgth := hdr, cd_totalLgth := total1, cd_cmdLgth := cmd1,
    cd_fields := map Def (pre @ [g]) @ map Def fs @ rest, cd_fieldOffset := cd_fieldOffset self + ucast n\<rparr>"
  have cells: "rd_cell (cd_fields self) (length pre) = Some f"
    "wr_cell (cd_fields self) (length pre) g = Some (map Def (pre @ [g]) @ map Def fs @ rest)"
    using rd_cell_append [of "pre @ [f]" "map Def fs @ rest" "length pre"] Cons.prems(1)
    by (simp_all add: nth_append list_update_append)
  have step: "layoutLoop initField self (length pre) (length (f # fs)) = layoutLoop initField self1 (length (pre @ [g])) (length fs)"
    using cells by (simp add: body self1_def g_def)
  have fields1: "cd_fields self1 = map Def (pre @ [g]) @ map Def fs @ rest" by (simp add: self1_def)
  have crc1: "crcLgth self1 = crcLgth self" by (simp add: self1_def crcLgth_def)
  define fs1 where "fs1 = layoutSpec (crcLgth self) hdr (cd_fieldOffset self + ucast n) fs"
  have fs': "fs' = g # fs1"
    by (simp add: Cons.prems(2) fs1_def g_def hdr_def n_def isFiller_def Let_def)
  have hdr': "cd_headerLgth self + hdrLgths fs' = hdr + hdrLgths fs1" "cd_fieldOffset self + lgths fs' = cd_fieldOffset self + ucast n + lgths fs1"
    by (simp_all add: fs' g_def hdr_def add.assoc)
  obtain total cmd where IH: "layoutLoop initField self1 (length (pre @ [g])) (length fs) = Some (self1\<lparr>
        cd_fields := map Def (pre @ [g]) @ map Def fs1 @ rest, cd_fieldOffset := cd_fieldOffset self + ucast n + lgths fs1,
        cd_headerLgth := hdr + hdrLgths fs1, cd_totalLgth := total, cd_cmdLgth := cmd\<rparr>)"
    and total: "total = (if fs = [] then total1 else cd_fieldOffset self + ucast n + lgths fs1 + (if isFiller (last fs) then crcLgth self else 0))"
    and cmd: "fs \<noteq> [] \<longrightarrow> \<not> isHeaderField (f_fieldNameId (last fs)) \<longrightarrow> cmd = total - (hdr + hdrLgths fs1)"
    and cmd0: "fs = [] \<longrightarrow> cmd = cmd1"
    using Cons.IH [OF fields1 refl] unfolding crc1 fs1_def by (cases fs) (auto simp: self1_def)
  have "self1\<lparr>cd_fields := map Def (pre @ [g]) @ map Def fs1 @ rest, cd_fieldOffset := cd_fieldOffset self + ucast n + lgths fs1,
        cd_headerLgth := hdr + hdrLgths fs1, cd_totalLgth := total, cd_cmdLgth := cmd\<rparr>
      = self\<lparr>cd_fields := map Def pre @ map Def fs' @ rest, cd_fieldOffset := cd_fieldOffset self + lgths fs',
        cd_headerLgth := cd_headerLgth self + hdrLgths fs', cd_totalLgth := total, cd_cmdLgth := cmd\<rparr>"
    unfolding hdr' by (simp add: self1_def fs')
  note result = step [unfolded IH this]
  have total': "total = cd_fieldOffset self + lgths fs' + (if isFiller (last (f # fs)) then crcLgth self else 0)"
    unfolding hdr' using total by (cases "fs = []") (simp_all add: total1_def fs1_def)
  have cmd': "\<not> isHeaderField (f_fieldNameId (last (f # fs))) \<longrightarrow> cmd = total - (cd_headerLgth self + hdrLgths fs')"
    unfolding hdr' using total cmd cmd0 cmd1 by (cases "fs = []") (simp_all add: hdr_def fs1_def)
  show ?case
    by (rule exI [of _ total], rule exI [of _ cmd]) (use result total' cmd' in \<open>simp only: list.distinct simp_thms if_False\<close>)
qed

subsection \<open>Consecutive fields\<close>

primrec placed :: "size_t \<Rightarrow> compMsgField list \<Rightarrow> bool" where
  "placed off [] = True"
| "placed off (f # fs) = (f_fieldOffset f = off \<and> placed (off + ucast (f_fieldLgth f)) fs)"

definition msgSize :: "compMsgField list \<Rightarrow> nat" where
  "msgSize fs = sum_list (map (\<lambda>f. unat (f_fieldLgth f)) fs)"

lemma msgSize_simps [simp]:
  "msgSize [] = 0" "msgSize (f # fs) = unat (f_fieldLgth f) + msgSize fs" "msgSize (xs @ ys) = msgSize xs + msgSize ys"
  by (simp_all add: msgSize_def)

lemma layoutSpec_placed: "placed off (layoutSpec crc hdr off fs)"
  by (induction fs arbitrary: hdr off) (simp_all add: Let_def)

lemma advance: "unat off + unat (f_fieldLgth f) < 2 ^ 32 \<Longrightarrow> unat (off + ucast (f_fieldLgth f)) = unat off + unat (f_fieldLgth f)" for off :: size_t
  using unat_plus_small [of off "ucast (f_fieldLgth f)"] by simp

lemma unat_lgths: "msgSize fs < 2 ^ 32 \<Longrightarrow> unat (lgths fs) = msgSize fs"
proof (induction fs)
  case (Cons f fs)
  then show ?case using unat_plus_small [of "ucast (f_fieldLgth f)" "lgths fs"] by simp
qed simp

lemma placed_offset:
  "placed off fs \<Longrightarrow> unat off + msgSize fs < 2 ^ 32 \<Longrightarrow> i < length fs
    \<Longrightarrow> unat (f_fieldOffset (fs ! i)) = unat off + msgSize (take i fs)"
proof (induction fs arbitrary: off i)
  case (Cons f fs)
  show ?case
  proof (cases i)
    case 0
    then show ?thesis using Cons.prems by simp
  next
    case (Suc j)
    have "unat (off + ucast (f_fieldLgth f)) = unat off + unat (f_fieldLgth f)" using Cons.prems(2) by (intro advance) simp
    then show ?thesis using Cons.IH [of "off + ucast (f_fieldLgth f)" j] Cons.prems Suc by simp
  qed
qed simp

lemma msgSize_take: "i < length fs \<Longrightarrow> msgSize (take i fs) + unat (f_fieldLgth (fs ! i)) \<le> msgSize fs"
proof -
  assume "i < length fs"
  then have "fs = take i fs @ fs ! i # drop (Suc i) fs" by (simp add: id_take_nth_drop)
  then have "msgSize fs = msgSize (take i fs @ fs ! i # drop (Suc i) fs)" by simp
  then show ?thesis by simp
qed

subsection \<open>The length fields\<close>

definition lengthField :: "compMsgField \<Rightarrow> bool" where
  "lengthField f \<longleftrightarrow> f_fieldNameId f = COMP_MSG_SPEC_FIELD_TOTAL_LGTH \<or> f_fieldNameId f = COMP_MSG_SPEC_FIELD_CMD_LGTH"

text \<open>A length field has 16 bits.\<close>

definition lengthFieldOk :: "compMsgField \<Rightarrow> bool" where
  "lengthFieldOk f \<longleftrightarrow> (lengthField f \<longrightarrow> f_fieldTypeId f = DATA_VIEW_FIELD_UINT16_T \<and> f_fieldLgth f = 2)"

definition markLength :: "compMsgField \<Rightarrow> compMsgField" where
  "markLength f = (if lengthField f then markSet f else f)"

definition lengthValue :: "size_t \<Rightarrow> size_t \<Rightarrow> compMsgField \<Rightarrow> size_t" where
  "lengthValue totalLgth cmdLgth f = (if f_fieldNameId f = COMP_MSG_SPEC_FIELD_TOTAL_LGTH then totalLgth else cmdLgth)"

lemma sint_small:
  fixes n :: u32
  assumes "unat n < 65536"
  shows "sint n = uint n" "uint n \<le> 65535"
proof -
  have "int (unat n) < 65536" using assms by linarith
  then show le: "uint n \<le> 65535" by simp
  have "signed_take_bit 31 (uint n) = uint n"
  proof (rule signed_take_bit_int_eq_self)
    show "- (2 ^ 31) \<le> uint n" by (rule order_trans [of _ 0]) simp_all
    show "uint n < 2 ^ 31" using le by simp
  qed
  then show "sint n = uint n" by (simp add: sint_uint)
qed

lemma markLength_if [simp]:
  "lengthField f \<Longrightarrow> markLength f = markSet f" "\<not> lengthField f \<Longrightarrow> markLength f = f"
  by (simp_all add: markLength_def)

lemma set_length:
  assumes "fits dv (f_fieldOffset f) 2" "f_fieldTypeId f = DATA_VIEW_FIELD_UINT16_T" "unat n < 65536"
  shows "setFieldValue dv f n None 0 = Some (0, dv\<lparr>data := put (data dv) (unat (f_fieldOffset f)) (be16 (ucast n))\<rparr>)"
  using assms sint_small [OF assms(3)] by (simp add: setFieldValue_def setTypedValue_def Let_def set16_fits)

lemma cells_mid:
  assumes "xs = map Def pre @ map Def (f # fs) @ rest"
  shows "rd_cell xs (length pre) = Some f"
    and "wr_cell xs (length pre) g = Some (map Def (pre @ [g]) @ map Def fs @ rest)"
    and "xs = map Def (pre @ [f]) @ map Def fs @ rest"
  using rd_cell_append [of "pre @ [f]" "map Def fs @ rest" "length pre"] assms
  by (simp_all add: nth_append list_update_append)

lemma take_2_of_prefix:
  assumes "take (a + n) m = take (a + n) m'"
  shows "take n (drop a m) = take n (drop a m')"
  using assms by (metis add.commute take_drop)

lemma unat_two: "unat (2 :: u16) = 2"
  by simp

lemma lengthLoop_spec:
  assumes "cd_fields self = map Def pre @ map Def fs @ rest" and "cd_view self = Some v" and "wf_view (dataView v)"
    and "placed off fs" and "unat off + msgSize fs \<le> unat (lgth (dataView v))" and "\<forall>f \<in> set fs. lengthFieldOk f"
    and "unat (cd_totalLgth self) < 65536" and "unat (cd_cmdLgth self) < 65536"
  shows "\<exists>m. lengthLoop self (length pre) (length fs) = Some (COMP_MSG_ERR_OK, self\<lparr>
        cd_fields := map Def pre @ map Def (map markLength fs) @ rest,
        cd_view := Some (v\<lparr>dataView := (dataView v)\<lparr>data := m\<rparr>\<rparr>)\<rparr>)
    \<and> length m = length (data (dataView v)) \<and> take (unat off) m = take (unat off) (data (dataView v))
    \<and> (\<forall>f \<in> set fs. lengthField f \<longrightarrow>
        take 2 (drop (unat (f_fieldOffset f)) m) = be16 (ucast (lengthValue (cd_totalLgth self) (cd_cmdLgth self) f)))"
  using assms
proof (induction fs arbitrary: self pre off v)
  case Nil
  then show ?case by (intro exI [of _ "data (dataView v)"]) simp
next
  case (Cons f fs)
  let ?off = "off + ucast (f_fieldLgth f)"
  have off: "unat ?off = unat off + unat (f_fieldLgth f)" "f_fieldOffset f = off"
    using Cons.prems(4,5) unat_u32_less [of "lgth (dataView v)"] by (simp_all add: advance)
  note cells = cells_mid [OF Cons.prems(1)]
  show ?case
  proof (cases "lengthField f")
    case False
    then have step: "lengthLoop self (length pre) (length (f # fs)) = lengthLoop self (length (pre @ [f])) (length fs)"
      using cells(1) by (simp add: lengthField_def)
    obtain m where IH: "lengthLoop self (length (pre @ [f])) (length fs) = Some (COMP_MSG_ERR_OK, self\<lparr>
        cd_fields := map Def (pre @ [f]) @ map Def (map markLength fs) @ rest,
        cd_view := Some (v\<lparr>dataView := (dataView v)\<lparr>data := m\<rparr>\<rparr>)\<rparr>)"
      and m: "length m = length (data (dataView v))" "take (unat ?off) m = take (unat ?off) (data (dataView v))"
        "\<forall>f \<in> set fs. lengthField f \<longrightarrow>
          take 2 (drop (unat (f_fieldOffset f)) m) = be16 (ucast (lengthValue (cd_totalLgth self) (cd_cmdLgth self) f))"
      using Cons.IH [OF cells(3) Cons.prems(2,3), of ?off] Cons.prems(4-8) off by auto
    have "take (unat off) m = take (unat off) (data (dataView v))"
      using arg_cong [OF m(2), of "take (unat off)"] by (simp add: off(1) min_def)
    moreover note res = step [unfolded IH]
    ultimately show ?thesis using False m by (intro exI [of _ m] conjI) (subst res, simp_all)
  next
    case True
    let ?n = "lengthValue (cd_totalLgth self) (cd_cmdLgth self) f"
    let ?m = "put (data (dataView v)) (unat off) (be16 (ucast ?n))"
    let ?v = "v\<lparr>dataView := (dataView v)\<lparr>data := ?m\<rparr>\<rparr>"
    let ?self = "self\<lparr>cd_view := Some ?v, cd_fields := map Def (pre @ [markSet f]) @ map Def fs @ rest\<rparr>"
    have f: "f_fieldTypeId f = DATA_VIEW_FIELD_UINT16_T" "f_fieldLgth f = 2"
      using Cons.prems(6) True by (simp_all add: lengthFieldOk_def)
    have fit: "fits (dataView v) off 2" using Cons.prems(3,5) f(2) by (simp add: fits_def)
    have "unat ?n < 65536" using Cons.prems(7,8) by (simp add: lengthValue_def)
    then have "setFieldValue (dataView v) f ?n None 0 = Some (0, (dataView v)\<lparr>data := ?m\<rparr>)"
      using set_length [of "dataView v" f ?n] fit f off(2) by simp
    then have "onView self (\<lambda>dv. setFieldValue dv f ?n None 0) = Some (0, self\<lparr>cd_view := Some ?v\<rparr>)"
      by (simp add: onView_def Cons.prems(2))
    then have step: "lengthLoop self (length pre) (length (f # fs)) = lengthLoop ?self (length (pre @ [markSet f])) (length fs)"
      using cells True by (auto simp: lengthField_def lengthValue_def Let_def split: if_splits)
    obtain m where IH: "lengthLoop ?self (length (pre @ [markSet f])) (length fs) = Some (COMP_MSG_ERR_OK, ?self\<lparr>
        cd_fields := map Def (pre @ [markSet f]) @ map Def (map markLength fs) @ rest,
        cd_view := Some (v\<lparr>dataView := (dataView v)\<lparr>data := m\<rparr>\<rparr>)\<rparr>)"
      and m: "length m = length ?m" "take (unat ?off) m = take (unat ?off) ?m"
        "\<forall>f \<in> set fs. lengthField f \<longrightarrow>
          take 2 (drop (unat (f_fieldOffset f)) m) = be16 (ucast (lengthValue (cd_totalLgth self) (cd_cmdLgth self) f))"
      using Cons.IH [of ?self "pre @ [markSet f]" ?v ?off] Cons.prems(3-8) off by (auto simp: wf_view_def)
    have len: "unat off + length (be16 (ucast ?n)) \<le> length (data (dataView v))"
      using fit by (simp add: fits_def wf_view_def)
    have "take (unat off) m = take (unat off) (data (dataView v))"
      using arg_cong [OF m(2), of "take (unat off)"] take_put [OF _ len, of "unat off"] by (simp add: off(1) min_def)
    moreover have "take 2 (drop (unat (f_fieldOffset f)) m) = be16 (ucast ?n)"
      using take_2_of_prefix [OF m(2) [unfolded off(1), unfolded f(2) unat_two]] take_drop_put_same [OF len] by (simp add: off(2))
    moreover note res = step [unfolded IH]
    ultimately show ?thesis using True m by (intro exI [of _ m] conjI) (subst res, simp_all)
  qed
qed

subsection \<open>The whole of initMsg\<close>

text \<open>
  A message ready for \<open>initMsg\<close>: its first \<open>numFields\<close> fields are \<open>fs\<close>, the last one does not belong
  to the header, the length fields have 16 bits, and the message with its filler is not empty and
  not longer than 64 KB.
\<close>

definition fieldsOf :: "compMsgData \<Rightarrow> compMsgField list \<Rightarrow> bool" where
  "fieldsOf self fs \<longleftrightarrow> length fs < 65536 \<and> cd_numFields self = word_of_nat (length fs)
    \<and> take (length fs) (cd_fields self) = map Def fs \<and> length fs \<le> length (cd_fields self)"

definition layoutOf :: "compMsgData \<Rightarrow> compMsgField list \<Rightarrow> compMsgField list" where
  "layoutOf self fs = layoutSpec (crcLgth self) 0 0 fs"

definition sizeOf :: "compMsgData \<Rightarrow> compMsgField list \<Rightarrow> nat" where
  "sizeOf self fs = msgSize (layoutOf self fs) + (if isFiller (last fs) then unat (crcLgth self) else 0)"

definition initable :: "compMsgData \<Rightarrow> compMsgField list \<Rightarrow> bool" where
  "initable self fs \<longleftrightarrow> cd_flags self AND COMP_MSG_IS_INITTED = 0 \<and> fieldsOf self fs \<and> fs \<noteq> []
    \<and> \<not> isHeaderField (f_fieldNameId (last fs)) \<and> list_all lengthFieldOk fs
    \<and> 0 < sizeOf self fs \<and> sizeOf self fs < 65536"

lemma fieldsOf_cells: "fieldsOf self fs \<Longrightarrow> cd_fields self = map Def fs @ drop (length fs) (cd_fields self)"
  by (metis append_take_drop_id fieldsOf_def)

lemma numEntries_fieldsOf: "fieldsOf self fs \<Longrightarrow> numEntries self = length fs"
proof -
  assume a: "fieldsOf self fs"
  then have u: "unat (cd_numFields self) = length fs" by (simp add: fieldsOf_def unat_of_nat_u32)
  then have "unat (cd_numFields self) < 65536" using a by (simp add: fieldsOf_def)
  from sint_small(1) [OF this] show ?thesis using u by (simp add: numEntries_def)
qed

lemma hdrLgths_le: "msgSize fs < 2 ^ 32 \<Longrightarrow> unat (hdrLgths fs) \<le> msgSize fs"
proof -
  have le: "msgSize (filter P fs) \<le> msgSize fs" for P by (induction fs) auto
  moreover assume "msgSize fs < 2 ^ 32"
  ultimately have "unat (hdrLgths fs) = msgSize (filter (\<lambda>f. isHeaderField (f_fieldNameId f)) fs)"
    unfolding hdrLgths_def by (intro unat_lgths) (rule le_less_trans)
  then show ?thesis using le by simp
qed

lemma layoutSpec_lengthFieldOk: "list_all lengthFieldOk fs \<Longrightarrow> list_all lengthFieldOk (layoutSpec crc hdr off fs)"
  by (induction fs arbitrary: hdr off) (auto simp: Let_def lengthFieldOk_def lengthField_def)

lemma crcLgth_value: "crcLgth self = (if cd_flags self AND COMP_MSG_HAS_CRC \<noteq> 0 then 1 else 0)"
  by (simp add: crcLgth_def)

lemma initMsg_ok:
  assumes "initable self fs"
  shows "\<exists>ids' self' v. initMsg (\<lambda>_. True) ids self = Some (COMP_MSG_ERR_OK, ids', self')
    \<and> cd_flags self' = cd_flags self OR COMP_MSG_IS_INITTED \<and> fieldsOf self' (map markLength (layoutOf self fs))
    \<and> cd_view self' = Some v \<and> wf_view (dataView v) \<and> unat (lgth (dataView v)) = sizeOf self fs
    \<and> cd_totalLgth self' = lgth (dataView v) \<and> cd_headerLgth self' = hdrLgths (layoutOf self fs)
    \<and> cd_cmdLgth self' = lgth (dataView v) - hdrLgths (layoutOf self fs) \<and> cd_currHdr self' = cd_currHdr self
    \<and> (\<forall>f \<in> set (layoutOf self fs). lengthField f \<longrightarrow> take 2 (drop (unat (f_fieldOffset f)) (data (dataView v)))
         = be16 (ucast (lengthValue (cd_totalLgth self') (cd_cmdLgth self') f)))"
proof -
  let ?self = "self\<lparr>cd_fieldOffset := 0, cd_headerLgth := 0\<rparr>" and ?rest = "drop (length fs) (cd_fields self)"
  let ?fs = "layoutOf self fs"
  have i: "cd_flags self AND COMP_MSG_IS_INITTED = 0" "fieldsOf self fs" "fs \<noteq> []"
    "\<not> isHeaderField (f_fieldNameId (last fs))" "0 < sizeOf self fs" "sizeOf self fs < 65536"
    and lok: "list_all lengthFieldOk fs"
    using assms by (simp_all add: initable_def)
  have crc: "crcLgth ?self = crcLgth self" by (simp add: crcLgth_def)
  define total' where "total' = lgths ?fs + (if isFiller (last fs) then crcLgth self else 0)"
  have size: "msgSize ?fs < 65536" using i(6) by (simp add: sizeOf_def)
  have total: "unat total' = sizeOf self fs"
    unfolding total'_def sizeOf_def using unat_lgths [of ?fs] size i(6)
    by (simp add: unat_word_ariths crcLgth_value)
  obtain cmd where loop: "layoutLoop initField ?self 0 (length fs) = Some (?self\<lparr>
        cd_fields := map Def ?fs @ ?rest, cd_fieldOffset := lgths ?fs,
        cd_headerLgth := hdrLgths ?fs, cd_totalLgth := total', cd_cmdLgth := cmd\<rparr>)"
    and cmd: "cmd = total' - hdrLgths ?fs"
    using layoutLoop_spec [of ?self "[]" fs ?rest ?fs] fieldsOf_cells [OF i(2)] i(3,4)
    unfolding crc by (auto simp: layoutOf_def total'_def)
  define self1 where "self1 = self\<lparr>cd_fields := map Def ?fs @ ?rest, cd_fieldOffset := lgths ?fs,
        cd_headerLgth := hdrLgths ?fs, cd_totalLgth := total', cd_cmdLgth := cmd,
        cd_flags := cd_flags self OR COMP_MSG_IS_INITTED\<rparr>"
  define dv where "dv = \<lparr>data = replicate (unat total') (0 :: u8), lgth = total', dv_id = fst ids + 1\<rparr>"
  define v where "v = \<lparr>dataView = dv, cdv_id = snd ids + 1\<rparr>"
  define self2 where "self2 = (if cd_direction self = COMP_MSG_TO_SEND_DATA then self1\<lparr>cd_toSendData := True\<rparr>
      else self1\<lparr>cd_receivedData := True\<rparr>)\<lparr>cd_view := Some v\<rparr>"
  have alloc: "allocMsg (\<lambda>_. True) ids self1 = (0, (fst ids + 1, snd ids + 1), self2)"
    by (simp add: allocMsg_def newCompMsgDataView_def newDataView_def self2_def self1_def v_def dv_def Let_def)
  have n0: "total' \<noteq> 0" using total i(5) by auto
  have fields2: "cd_fields self2 = map Def [] @ map Def ?fs @ ?rest" "cd_view self2 = Some v"
    "cd_totalLgth self2 = total'" "cd_cmdLgth self2 = cmd" "cd_numFields self2 = cd_numFields self"
    by (auto simp: self2_def self1_def)
  have entries2: "numEntries self2 = length ?fs"
    using numEntries_fieldsOf [OF i(2)] by (simp add: numEntries_def fields2(5) layoutOf_def)
  have "unat cmd \<le> unat total'"
    using hdrLgths_le [of ?fs] size total unfolding cmd
    by (subst unat_sub) (simp_all add: word_le_nat_alt sizeOf_def)
  then have small: "unat (cd_totalLgth self2) < 65536" "unat (cd_cmdLgth self2) < 65536"
    using total i(6) by (simp_all add: fields2)
  have wf: "wf_view (dataView v)" by (simp add: wf_view_def v_def dv_def)
  have room: "unat (0 :: u32) + msgSize ?fs \<le> unat (lgth (dataView v))"
    using total by (simp add: v_def dv_def sizeOf_def)
  have ok': "\<forall>f \<in> set ?fs. lengthFieldOk f"
    using layoutSpec_lengthFieldOk [OF lok] by (simp add: layoutOf_def list_all_iff)
  obtain m where final: "lengthLoop self2 0 (length ?fs) = Some (0, self2\<lparr>
        cd_fields := map Def (map markLength ?fs) @ ?rest, cd_view := Some (v\<lparr>dataView := dv\<lparr>data := m\<rparr>\<rparr>)\<rparr>)"
    and m: "length m = length (data dv)"
      "\<forall>f \<in> set ?fs. lengthField f \<longrightarrow> take 2 (drop (unat (f_fieldOffset f)) m) = be16 (ucast (lengthValue total' cmd f))"
    using lengthLoop_spec [OF fields2(1,2) wf _ room ok' small] layoutSpec_placed [of 0 "crcLgth self" 0 fs]
    by (auto simp: layoutOf_def fields2(3,4) v_def)
  define self3 where "self3 = self2\<lparr>cd_fields := map Def (map markLength ?fs) @ ?rest,
    cd_view := Some (v\<lparr>dataView := dv\<lparr>data := m\<rparr>\<rparr>)\<rparr>"
  have s1: "self1 = ?self\<lparr>cd_fields := map Def ?fs @ ?rest, cd_fieldOffset := lgths ?fs,
      cd_headerLgth := hdrLgths ?fs, cd_totalLgth := total', cd_cmdLgth := cmd,
      cd_flags := cd_flags self OR COMP_MSG_IS_INITTED\<rparr>"
    by (simp add: self1_def)
  have run: "initMsg (\<lambda>_. True) ids self = Some (0, (fst ids + 1, snd ids + 1), self3)"
    unfolding initMsg_def numEntries_fieldsOf [OF i(2)] loop
    using i(1) n0 alloc entries2 final [folded self3_def] by (simp add: s1)
  have "fieldsOf self3 (map markLength ?fs)"
    using i(2) by (simp add: fieldsOf_def self3_def fields2(5) layoutOf_def)
  moreover have "cd_flags self3 = cd_flags self OR COMP_MSG_IS_INITTED" "cd_headerLgth self3 = hdrLgths ?fs"
    "cd_view self3 = Some (v\<lparr>dataView := dv\<lparr>data := m\<rparr>\<rparr>)" "cd_totalLgth self3 = total'" "cd_cmdLgth self3 = cmd"
    "cd_currHdr self3 = cd_currHdr self"
    by (auto simp: self3_def self2_def self1_def)
  ultimately show ?thesis
    unfolding run using total m cmd
    by (intro exI [of _ "(fst ids + 1, snd ids + 1)"] exI [of _ self3] exI [of _ "v\<lparr>dataView := dv\<lparr>data := m\<rparr>\<rparr>"])
       (simp add: dv_def wf_view_def)
qed

lemma layoutSpec_filler:
  assumes "i < length fs" and "isFiller (fs ! i)"
  shows "unat (f_fieldLgth (layoutSpec crc hdr off fs ! i)) < 16
    \<and> (f_fieldOffset (layoutSpec crc hdr off fs ! i) + ucast (f_fieldLgth (layoutSpec crc hdr off fs ! i)) + crc
         - (hdr + hdrLgths (take i (layoutSpec crc hdr off fs)))) mod 16 = 0"
  using assms
proof (induction fs arbitrary: i hdr off)
  case (Cons f fs)
  show ?case
  proof (cases i)
    case 0
    let ?p = "pad (off + crc - hdr)"
    show ?thesis using 0 Cons.prems pad_less [of "off + crc - hdr"] pad_complete [of "off + crc - hdr"]
      by (simp add: isFiller_def ucast_pad unat_of_nat_u16 Let_def algebra_simps)
  next
    case (Suc j)
    define n where "n = (if isFiller f then word_of_nat (pad (off + crc - hdr)) else f_fieldLgth f)"
    show ?thesis
      using Cons.IH [of j "if isHeaderField (f_fieldNameId f) then hdr + ucast n else hdr" "off + ucast n"] Cons.prems Suc
      by (cases "isHeaderField (f_fieldNameId f)"; cases "isFiller f"; simp add: Let_def n_def isFiller_def add.assoc)
  qed
qed simp

lemma layoutSpec_name: "i < length fs \<Longrightarrow> f_fieldNameId (layoutSpec crc hdr off fs ! i) = f_fieldNameId (fs ! i)
    \<and> f_fieldTypeId (layoutSpec crc hdr off fs ! i) = f_fieldTypeId (fs ! i)"
proof (induction fs arbitrary: i hdr off)
  case (Cons f fs)
  then show ?case by (cases i) (simp_all add: Let_def)
qed simp

lemma markSet_keeps [simp]:
  "f_fieldNameId (markSet f) = f_fieldNameId f" "f_fieldTypeId (markSet f) = f_fieldTypeId f"
  "f_fieldOffset (markSet f) = f_fieldOffset f" "f_fieldLgth (markSet f) = f_fieldLgth f"
  by (simp_all add: markSet_def)

lemma markLength_keeps [simp]:
  "f_fieldNameId (markLength f) = f_fieldNameId f" "f_fieldTypeId (markLength f) = f_fieldTypeId f"
  "f_fieldOffset (markLength f) = f_fieldOffset f" "f_fieldLgth (markLength f) = f_fieldLgth f"
  by (simp_all add: markLength_def markSet_def)

lemma fieldsOf_rd: "fieldsOf self fs \<Longrightarrow> i < length fs \<Longrightarrow> rd_cell (cd_fields self) i = Some (fs ! i)"
  by (subst fieldsOf_cells) (assumption, simp)

lemma fieldsOf_scan: "fieldsOf self fs \<Longrightarrow> scan (cd_fields self) P 0 (numEntries self) = Some (find_idx P 0 fs)"
  by (subst fieldsOf_cells) (assumption, simp add: numEntries_fieldsOf scan_defined)

lemma layout_inside:
  assumes "initable self fs" and "i < length fs"
  shows "unat (f_fieldOffset (layoutOf self fs ! i)) = msgSize (take i (layoutOf self fs))"
    and "unat (f_fieldOffset (layoutOf self fs ! i)) + unat (f_fieldLgth (layoutOf self fs ! i)) \<le> sizeOf self fs"
proof -
  have size: "msgSize (layoutOf self fs) \<le> sizeOf self fs" "sizeOf self fs < 65536"
    using assms(1) by (simp_all add: initable_def sizeOf_def)
  then show off: "unat (f_fieldOffset (layoutOf self fs ! i)) = msgSize (take i (layoutOf self fs))"
    using placed_offset [of 0 "layoutOf self fs" i] layoutSpec_placed [of 0] assms(2) by (simp add: layoutOf_def)
  show "unat (f_fieldOffset (layoutOf self fs ! i)) + unat (f_fieldLgth (layoutOf self fs ! i)) \<le> sizeOf self fs"
    unfolding off using msgSize_take [of i "layoutOf self fs"] assms(2) size(1) by (simp add: layoutOf_def)
qed

text \<open>The state \<open>initMsg\<close> leaves, and what reading a length field gives there.\<close>

definition laidOut :: "compMsgData \<Rightarrow> compMsgField list \<Rightarrow> compMsgData \<Rightarrow> compMsgDataView \<Rightarrow> bool" where
  "laidOut self fs self' v \<longleftrightarrow> cd_flags self' = cd_flags self OR COMP_MSG_IS_INITTED
    \<and> fieldsOf self' (map markLength (layoutOf self fs)) \<and> cd_view self' = Some v \<and> wf_view (dataView v)
    \<and> unat (lgth (dataView v)) = sizeOf self fs
    \<and> unat (cd_totalLgth self') < 65536 \<and> unat (cd_cmdLgth self') < 65536
    \<and> (\<forall>f \<in> set (layoutOf self fs). lengthField f \<longrightarrow> take 2 (drop (unat (f_fieldOffset f)) (data (dataView v)))
         = be16 (ucast (lengthValue (cd_totalLgth self') (cd_cmdLgth self') f)))"

lemma initMsg_laidOut:
  assumes "initable self fs"
  shows "\<exists>ids' self' v. initMsg (\<lambda>_. True) ids self = Some (COMP_MSG_ERR_OK, ids', self') \<and> laidOut self fs self' v
    \<and> unat (lgth (dataView v)) = sizeOf self fs \<and> cd_totalLgth self' = lgth (dataView v)
    \<and> cd_cmdLgth self' = lgth (dataView v) - cd_headerLgth self'"
proof -
  obtain ids' self' v where r: "initMsg (\<lambda>_. True) ids self = Some (COMP_MSG_ERR_OK, ids', self')"
    "cd_flags self' = cd_flags self OR COMP_MSG_IS_INITTED" "fieldsOf self' (map markLength (layoutOf self fs))"
    "cd_view self' = Some v" "wf_view (dataView v)" "unat (lgth (dataView v)) = sizeOf self fs"
    "cd_totalLgth self' = lgth (dataView v)" "cd_headerLgth self' = hdrLgths (layoutOf self fs)"
    "cd_cmdLgth self' = lgth (dataView v) - hdrLgths (layoutOf self fs)"
    "\<forall>f \<in> set (layoutOf self fs). lengthField f \<longrightarrow> take 2 (drop (unat (f_fieldOffset f)) (data (dataView v)))
         = be16 (ucast (lengthValue (cd_totalLgth self') (cd_cmdLgth self') f))"
    using initMsg_ok [OF assms] by blast
  have size: "msgSize (layoutOf self fs) \<le> sizeOf self fs" "sizeOf self fs < 65536"
    using assms by (simp_all add: initable_def sizeOf_def)
  then have "unat (hdrLgths (layoutOf self fs)) \<le> unat (lgth (dataView v))"
    using hdrLgths_le [of "layoutOf self fs"] r(6) by simp
  then have "unat (cd_cmdLgth self') \<le> unat (lgth (dataView v))"
    unfolding r(9) by (subst unat_sub) (simp_all add: word_le_nat_alt)
  then show ?thesis using r size by (auto simp: laidOut_def)
qed

lemma special_lookup:
  "(s, i) \<in> set specialFieldNames \<Longrightarrow> is_special s \<Longrightarrow> getFieldNameIdFromStr ok tn s incr = Some (Inr i, tn)"
  using special_tab.search_str_iff [of s i] by (simp add: getFieldNameIdFromStr_def)

lemma ucast_u16_back: "unat n < 65536 \<Longrightarrow> ucast (ucast n :: u16) = n" for n :: u32
  by (simp add: word_unat_eq_iff unsigned_ucast_eq take_bit_eq_mod unat_mod)

lemma find_first:
  assumes "\<exists>x \<in> set xs. P x"
  obtains j x where "find_idx P 0 xs = Some (j, x)" "x \<in> set xs" "P x" "j < length xs" "xs ! j = x"
proof (cases "find_idx P 0 xs")
  case None
  then show ?thesis using assms by (auto simp: find_idx_None_iff)
next
  case (Some r)
  obtain j x where r: "r = (j, x)" by (cases r)
  have f: "j < length xs" "xs ! j = x" "P x" using find_idx_SomeD [OF Some [unfolded r]] by auto
  show ?thesis by (rule that [OF Some [unfolded r] nth_mem [OF f(1), unfolded f(2)] f(3) f(1) f(2)])
qed

lemma or32: "(x OR 32) AND 32 \<noteq> 0" for x :: u16
  by (simp only: word_ao_absorbs) simp

lemma read_length:
  assumes "initable self fs" and "laidOut self fs self' v" and "\<exists>f \<in> set fs. f_fieldNameId f = i"
    and "(s, i) \<in> set specialFieldNames" and "is_special s" and "take 5 s \<noteq> ''#key_''"
    and "i = COMP_MSG_SPEC_FIELD_TOTAL_LGTH \<or> i = COMP_MSG_SPEC_FIELD_CMD_LGTH"
  shows "getDataValue ok tn self' s
    = Some (Inr (Some (if i = COMP_MSG_SPEC_FIELD_TOTAL_LGTH then cd_totalLgth self' else cd_cmdLgth self', None)), tn)"
proof -
  let ?fs = "layoutOf self fs"
  have len: "length ?fs = length fs" by (simp add: layoutOf_def)
  have names: "f_fieldNameId (?fs ! j) = f_fieldNameId (fs ! j)" if "j < length fs" for j
    using layoutSpec_name [OF that, of "crcLgth self" 0 0] by (simp add: layoutOf_def)
  from assms(3) obtain k where "k < length fs" "f_fieldNameId (fs ! k) = i" by (auto simp: in_set_conv_nth)
  then have "f_fieldNameId (map markLength ?fs ! k) = i" "k < length (map markLength ?fs)" using names len by simp_all
  then have "\<exists>f \<in> set (map markLength ?fs). f_fieldNameId f = i" using nth_mem by blast
  then obtain j f where f: "find_idx (\<lambda>f. f_fieldNameId f = i) 0 (map markLength ?fs) = Some (j, f)"
    "j < length fs" "markLength (?fs ! j) = f" "f_fieldNameId f = i"
    using len by (elim find_first) auto
  have g: "?fs ! j \<in> set ?fs" "lengthField (?fs ! j)" "f_fieldOffset f = f_fieldOffset (?fs ! j)"
    using f len assms(7) by (auto simp: lengthField_def)
  have "list_all lengthFieldOk ?fs"
    using layoutSpec_lengthFieldOk assms(1) by (simp add: layoutOf_def initable_def)
  then have t: "f_fieldTypeId f = DATA_VIEW_FIELD_UINT16_T" "f_fieldLgth (?fs ! j) = 2"
    using g f(3) by (auto simp: list_all_iff lengthFieldOk_def)
  let ?n = "if i = COMP_MSG_SPEC_FIELD_TOTAL_LGTH then cd_totalLgth self' else cd_cmdLgth self'"
  have bytes: "take 2 (drop (unat (f_fieldOffset f)) (data (dataView v))) = be16 (ucast ?n)"
    using assms(2) g f(3,4) by (auto simp: laidOut_def lengthValue_def)
  have fit: "fits (dataView v) (f_fieldOffset f) 2"
    using layout_inside(2) [OF assms(1) f(2)] assms(2) g(3) t(2) by (simp add: fits_def laidOut_def)
  have "getFieldValue ok (dataView v) f 0 = Some (Inr (?n, None))"
    using get16_fits [OF fit] assms(2) by (simp add: getFieldValue_def t(1) bytes laidOut_def ucast_u16_back)
  moreover have "f\<lparr>f_fieldOffset := f_fieldOffset f, f_fieldLgth := f_fieldLgth f\<rparr> = f" by simp
  ultimately show ?thesis
    using assms(2,6) fieldsOf_scan [of self' "map markLength ?fs" "\<lambda>f. f_fieldNameId f = i"] f(1)
    by (simp add: getDataValue_def laidOut_def or32 special_lookup [OF assms(4,5)])
qed

subsection \<open>Properties\<close>

text \<open>
  Claim C1.  \<open>initMsg\<close> implements the layout function: on a well described message it returns \<open>OK\<close>,
  creates a view with exactly the bytes of the message, and every field keeps its name and type, starts
  where the one before it ends and lies inside the view.
\<close>

theorem init_layout:
  assumes "initable self fs"
  shows "\<exists>ids' self' v. initMsg (\<lambda>_. True) ids self = Some (COMP_MSG_ERR_OK, ids', self')
    \<and> cd_view self' = Some v \<and> unat (lgth (dataView v)) = sizeOf self fs
    \<and> (\<forall>i < length fs. \<exists>f. rd_cell (cd_fields self') i = Some f
          \<and> f_fieldNameId f = f_fieldNameId (fs ! i) \<and> f_fieldTypeId f = f_fieldTypeId (fs ! i)
          \<and> unat (f_fieldOffset f) = msgSize (take i (layoutOf self fs))
          \<and> f_fieldLgth f = f_fieldLgth (layoutOf self fs ! i)
          \<and> fits (dataView v) (f_fieldOffset f) (unat (f_fieldLgth f)))"
proof -
  obtain ids' self' v where r: "initMsg (\<lambda>_. True) ids self = Some (COMP_MSG_ERR_OK, ids', self')"
    "fieldsOf self' (map markLength (layoutOf self fs))" "cd_view self' = Some v" "wf_view (dataView v)"
    "unat (lgth (dataView v)) = sizeOf self fs"
    using initMsg_ok [OF assms] by blast
  have len: "length (layoutOf self fs) = length fs" by (simp add: layoutOf_def)
  have "rd_cell (cd_fields self') i = Some (markLength (layoutOf self fs ! i))" if "i < length fs" for i
    using fieldsOf_rd [OF r(2), of i] that len by simp
  then show ?thesis
    using r layout_inside [OF assms] layoutSpec_name [of _ fs "crcLgth self" 0 0]
    by (intro exI [of _ ids'] exI [of _ self'] exI [of _ v]) (simp add: fits_def layoutOf_def)
qed

text \<open>The message of the examples: total length, command, command length, a byte, filler and checksum.\<close>

definition field :: "u8 \<Rightarrow> u8 \<Rightarrow> u16 \<Rightarrow> compMsgField" where
  "field i t n = zeroField\<lparr>f_fieldNameId := i, f_fieldTypeId := t, f_fieldLgth := n\<rparr>"

definition fields6 :: "compMsgField list" where
  "fields6 = [field 3 3 2, field 4 3 2, field 6 3 2, field 7 3 2, field 10 7 0, field 11 1 1]"

definition msg6 :: compMsgData where
  "msg6 = the (newCompMsgData True)\<lparr>cd_fields := map Def fields6, cd_flags := 2, cd_numFields := 6,
     cd_maxFields := 6, cd_direction := 1, cd_currHdr := Some 69\<rparr>"

lemmas msg6_simps = msg6_def fields6_def field_def zeroField_def newCompMsgData_def

lemma layout6: "layoutOf msg6 fields6 =
   [(field 3 3 2), (field 4 3 2)\<lparr>f_fieldOffset := 2\<rparr>, (field 6 3 2)\<lparr>f_fieldOffset := 4\<rparr>,
    (field 7 3 2)\<lparr>f_fieldOffset := 6\<rparr>, (field 10 7 11)\<lparr>f_fieldOffset := 8\<rparr>, (field 11 1 1)\<lparr>f_fieldOffset := 19\<rparr>]"
  by (simp add: layoutOf_def msg6_simps isHeaderField_def crcLgth_def pad_def)

lemma size6: "sizeOf msg6 fields6 = 20"
  unfolding sizeOf_def layout6 by (simp add: msg6_simps isFiller_def)

lemma initable6: "initable msg6 fields6"
  unfolding initable_def size6 by (simp add: fieldsOf_def msg6_simps isHeaderField_def lengthFieldOk_def lengthField_def)

theorem init_layout_witness:
  "\<exists>ids' self' v f. initMsg (\<lambda>_. True) (0, 0) msg6 = Some (COMP_MSG_ERR_OK, ids', self')
    \<and> cd_view self' = Some v \<and> lgth (dataView v) = 20 \<and> rd_cell (cd_fields self') 4 = Some f
    \<and> unat (f_fieldOffset f) = 8 \<and> f_fieldLgth f = 11"
proof -
  have l: "length fields6 = 6" by (simp add: fields6_def)
  obtain ids' self' v where r: "initMsg (\<lambda>_. True) (0, 0) msg6 = Some (COMP_MSG_ERR_OK, ids', self')"
    "cd_view self' = Some v" "unat (lgth (dataView v)) = 20"
    "\<forall>i < 6. \<exists>f. rd_cell (cd_fields self') i = Some f
      \<and> unat (f_fieldOffset f) = msgSize (take i (layoutOf msg6 fields6)) \<and> f_fieldLgth f = f_fieldLgth (layoutOf msg6 fields6 ! i)"
    using init_layout [OF initable6, of "(0, 0)"] unfolding size6 l by blast
  have "lgth (dataView v) = 20" using r(3) by (simp add: word_unat_eq_iff)
  then show ?thesis using r(1,2) r(4) [rule_format, of 4] unfolding layout6 by (auto simp: field_def zeroField_def)
qed

text \<open>
  Claim C3.  After \<open>initMsg\<close> the field \<open>@totalLgth\<close>, read by name, holds the number of bytes of the
  message, and \<open>@cmdLgth\<close> that number less the bytes of the header fields.
\<close>

theorem lengths_readable:
  assumes "initable self fs"
    and "\<exists>f \<in> set fs. f_fieldNameId f = COMP_MSG_SPEC_FIELD_TOTAL_LGTH"
    and "\<exists>f \<in> set fs. f_fieldNameId f = COMP_MSG_SPEC_FIELD_CMD_LGTH"
  shows "\<exists>ids' self' n. initMsg (\<lambda>_. True) ids self = Some (COMP_MSG_ERR_OK, ids', self')
    \<and> unat n = sizeOf self fs
    \<and> getDataValue ok tn self' ''@totalLgth'' = Some (Inr (Some (n, None)), tn)
    \<and> getDataValue ok tn self' ''@cmdLgth'' = Some (Inr (Some (n - cd_headerLgth self', None)), tn)"
proof -
  obtain ids' self' v where r: "initMsg (\<lambda>_. True) ids self = Some (COMP_MSG_ERR_OK, ids', self')"
    "laidOut self fs self' v" "unat (lgth (dataView v)) = sizeOf self fs"
    "cd_totalLgth self' = lgth (dataView v)" "cd_cmdLgth self' = lgth (dataView v) - cd_headerLgth self'"
    using initMsg_laidOut [OF assms(1)] by blast
  have "(''@totalLgth'', COMP_MSG_SPEC_FIELD_TOTAL_LGTH) \<in> set specialFieldNames"
    "(''@cmdLgth'', COMP_MSG_SPEC_FIELD_CMD_LGTH) \<in> set specialFieldNames"
    by (simp_all add: specialFieldNames_def)
  then show ?thesis
    using r read_length [OF assms(1) r(2) assms(2), of "''@totalLgth''" ok tn]
      read_length [OF assms(1) r(2) assms(3), of "''@cmdLgth''" ok tn]
    by (intro exI [of _ ids'] exI [of _ self'] exI [of _ "lgth (dataView v)"]) simp
qed

theorem lengths_readable_witness:
  "\<exists>ids' self' n. initMsg (\<lambda>_. True) (0, 0) msg6 = Some (COMP_MSG_ERR_OK, ids', self')
    \<and> getDataValue True tn0 self' ''@totalLgth'' = Some (Inr (Some (20, None)), tn0)"
proof -
  have "\<exists>f \<in> set fields6. f_fieldNameId f = COMP_MSG_SPEC_FIELD_TOTAL_LGTH"
    "\<exists>f \<in> set fields6. f_fieldNameId f = COMP_MSG_SPEC_FIELD_CMD_LGTH"
    by (simp_all add: fields6_def field_def)
  from lengths_readable [OF initable6 this, of "(0, 0)" True tn0]
  obtain ids' self' n where r: "initMsg (\<lambda>_. True) (0, 0) msg6 = Some (COMP_MSG_ERR_OK, ids', self')"
    "unat n = 20" "getDataValue True tn0 self' ''@totalLgth'' = Some (Inr (Some (n, None)), tn0)"
    unfolding size6 by blast
  have "n = 20" using r(2) by (simp add: word_unat_eq_iff)
  then show ?thesis using r(1,3) by blast
qed

end
