(* ===== verification/CompMsgLifecycle.thy ===== *)
theory CompMsgLifecycle
  imports CompMsgLayout
begin

text \<open>
  The life of a message: the step relation of the operations of \<^verbatim>\<open>compMsgData.c\<close>, its reachable
  states and their invariant, what every operation answers outside its phase, the agreement of
  \<open>setDataValue\<close> and \<open>getDataValue\<close>, and for which checksums the filler completes the blocks.
\<close>

subsection \<open>Flags\<close>

definition inited :: "compMsgData \<Rightarrow> bool" where
  "inited self \<longleftrightarrow> cd_flags self AND COMP_MSG_IS_INITTED \<noteq> 0"

definition prepared :: "compMsgData \<Rightarrow> bool" where
  "prepared self \<longleftrightarrow> cd_flags self AND COMP_MSG_IS_PREPARED \<noteq> 0"

lemma flag_bits:
  "(x OR 64) AND 32 = x AND 32" "(x OR 32) AND 64 = x AND 64" "(x OR 32) AND 32 \<noteq> 0" for x :: u16
  using or32 [of x] by (simp_all only: bit.conj_disj_distrib2, simp_all)

subsection \<open>Steps\<close>

text \<open>
  One call of an operation; any allocation may fail.  \<open>describe\<close> stands for the callers that write the
  descriptions of the fields, the direction and the header into a message that is not yet initialised.  The flag
  \<open>lost\<close> records the history: since it was created the message was deleted, or its initialisation ran out of memory.
\<close>

inductive msgStep :: "bool \<times> compMsgData \<Rightarrow> bool \<times> compMsgData \<Rightarrow> bool" where
  create: "createMsg ok self n = (rc, self') \<Longrightarrow> msgStep (lost, self) (lost \<and> rc \<noteq> COMP_MSG_ERR_OK, self')"
| describe: "\<not> inited self \<Longrightarrow>
    msgStep (lost, self) (lost, self\<lparr>cd_fields := fs, cd_numFields := n, cd_direction := d, cd_currHdr := h\<rparr>)"
| init: "initMsg ok ids self = Some (rc, ids', self') \<Longrightarrow>
    msgStep (lost, self) (inited self \<and> lost \<or> rc = DATA_VIEW_ERR_OUT_OF_MEMORY, self')"
| initReceived: "initReceivedMsg self = Some (rc, self') \<Longrightarrow> msgStep (lost, self) (lost, self')"
| set: "setDataValue tn self name num str = Some (rc, self', tn') \<Longrightarrow> msgStep (lost, self) (lost, self')"
| prepare: "prepareMsg hdrLgth saved rnd \<lparr>ps_sequenceNum = s, ps_wifiFlags = w, ps_data = self\<rparr> = Some (rc, st)
    \<Longrightarrow> msgStep (lost, self) (lost, ps_data st)"
| delete: "deleteMsg tn t self = Some (rc, tn', t', self') \<Longrightarrow> msgStep (lost, self) (True, self')"

inductive msgReach :: "bool \<times> compMsgData \<Rightarrow> bool" where
  new: "newCompMsgData ok = Some self \<Longrightarrow> msgReach (False, self)"
| step: "msgReach s \<Longrightarrow> msgStep s s' \<Longrightarrow> msgReach s'"

inductive_cases msgStepE: "msgStep s s'"

definition msgInv :: "bool \<times> compMsgData \<Rightarrow> bool" where
  "msgInv s \<longleftrightarrow> (case s of (lost, self) \<Rightarrow>
     (prepared self \<longrightarrow> inited self) \<and> (inited self \<and> cd_view self = None \<longrightarrow> lost))"

subsection \<open>What the loops leave alone\<close>

definition keeps :: "compMsgData \<Rightarrow> compMsgData \<Rightarrow> bool" where
  "keeps self self' \<longleftrightarrow> cd_flags self' = cd_flags self \<and> (cd_view self \<noteq> None \<longrightarrow> cd_view self' \<noteq> None)"

lemma keeps_refl [simp]: "keeps self self"
  by (simp add: keeps_def)

lemma keeps_trans: "keeps a b \<Longrightarrow> keeps b c \<Longrightarrow> keeps a c"
  by (simp add: keeps_def)

lemma keeps_fields [simp]:
  "keeps self (self'\<lparr>cd_fields := fs\<rparr>) = keeps self self'" "keeps (self\<lparr>cd_fields := fs\<rparr>) self' = keeps self self'"
  "keeps self (self'\<lparr>cd_fieldOffset := n\<rparr>) = keeps self self'" "keeps (self\<lparr>cd_fieldOffset := n\<rparr>) self' = keeps self self'"
  by (simp_all add: keeps_def)

lemma onView_keeps: "onView self f = Some (rc, self') \<Longrightarrow> keeps self self'"
  by (auto simp: onView_def keeps_def split: bind_splits)

lemma initField_keeps: "initField self f = (self', f') \<Longrightarrow> keeps self self'"
  by (auto simp: initField_def layoutHeader_def layoutFiller_def keeps_def Let_def split: if_splits)

lemma initReceivedField_keeps: "initReceivedField self f = (self', f') \<Longrightarrow> keeps self self'"
  by (auto simp: initReceivedField_def layoutHeader_def layoutFiller_def keeps_def Let_def split: if_splits)

lemma layoutLoop_keeps:
  assumes body: "\<And>self f self' f'. body self f = (self', f') \<Longrightarrow> keeps self self'"
  shows "layoutLoop body self idx k = Some self' \<Longrightarrow> keeps self self'"
proof (induction k arbitrary: self idx)
  case (Suc k)
  then obtain f s g fs where "body self f = (s, g)"
    "layoutLoop body (s\<lparr>cd_fields := fs, cd_fieldOffset := cd_fieldOffset s + ucast (f_fieldLgth g)\<rparr>) (Suc idx) k = Some self'"
    by (auto split: bind_splits prod.splits)
  then show ?case using Suc.IH body keeps_trans by fastforce
qed simp

lemma lengthLoop_keeps: "lengthLoop self idx k = Some (rc, self') \<Longrightarrow> keeps self self'"
proof (induction k arbitrary: self idx)
  case (Suc k)
  obtain f where f: "rd_cell (cd_fields self) idx = Some f" using Suc.prems by (auto split: bind_splits)
  have tail: "keeps self self'"
    if "checkErrOK (onView self (\<lambda>dv. setFieldValue dv f n None 0)) (\<lambda>self.
               do { fs \<leftarrow> wr_cell (cd_fields self) idx (markSet f);
                    lengthLoop (self\<lparr>cd_fields := fs\<rparr>) (Suc idx) k }) = Some (rc, self')" for n
  proof -
    note run = that
    obtain rc1 s where s: "onView self (\<lambda>dv. setFieldValue dv f n None 0) = Some (rc1, s)"
      using run by (auto simp: checkErrOK_def split: option.splits)
    show ?thesis
    proof (cases "rc1 = 0")
      case True
      then obtain fs where "lengthLoop (s\<lparr>cd_fields := fs\<rparr>) (Suc idx) k = Some (rc, self')"
        using run s by (auto split: bind_splits)
      then show ?thesis using Suc.IH onView_keeps [OF s] keeps_trans by fastforce
    next
      case False
      then show ?thesis using run s onView_keeps [OF s] by simp
    qed
  qed
  show ?case using Suc f tail by (auto simp: Let_def split: if_splits)
qed simp

lemma prepareCall_keeps:
  assumes "prepareCall hdrLgth saved rnd f st = Some (Some (rc, st'))"
  shows "keeps (ps_data st) (ps_data st')"
  using assms
  by (auto simp: prepareCall_def Let_def keeps_def split: if_splits bind_splits prod.splits dest!: onView_keeps)

lemma prepareLoop_keeps:
  "prepareLoop hdrLgth saved rnd st idx k = Some (rc, st') \<Longrightarrow> keeps (ps_data st) (ps_data st')"
proof (induction k arbitrary: st idx)
  case (Suc k)
  obtain f where f: "rd_cell (cd_fields (ps_data st)) idx = Some f" using Suc.prems by (auto split: bind_splits)
  show ?case
  proof (cases "prepareCall hdrLgth saved (rnd idx) f st")
    case None
    then show ?thesis using Suc f by simp
  next
    case (Some call)
    then obtain rc1 s where s: "call = Some (rc1, s)"
      using Suc.prems f by (auto simp: checkErrOK_def split: option.splits)
    have k: "keeps (ps_data st) (ps_data s)" using prepareCall_keeps Some s by blast
    show ?thesis
    proof (cases "rc1 = 0")
      case True
      then obtain fs where "prepareLoop hdrLgth saved rnd (s\<lparr>ps_data := (ps_data s)\<lparr>cd_fields := fs\<rparr>\<rparr>) (Suc idx) k = Some (rc, st')"
        using Suc.prems f Some s by (auto split: bind_splits)
      from Suc.IH [OF this] show ?thesis using k keeps_trans by fastforce
    next
      case False
      then show ?thesis using Suc.prems f Some s k by simp
    qed
  qed
qed simp

lemma setDataValue_keeps: "setDataValue tn self name num str = Some (rc, self', tn') \<Longrightarrow> keeps self self'"
  by (auto simp: setDataValue_def split: if_splits bind_splits sum.splits option.splits prod.splits dest!: onView_keeps)

subsection \<open>The invariant\<close>

lemma keeps_inv: "msgInv (lost, self) \<Longrightarrow> keeps self self' \<Longrightarrow> msgInv (lost, self')"
  by (auto simp: msgInv_def keeps_def inited_def prepared_def)

lemma allocMsg_outcome:
  assumes "allocMsg ok ids self = (rc, ids', self')"
  shows "cd_flags self' = cd_flags self" "rc = COMP_MSG_ERR_OK \<and> cd_view self' \<noteq> None \<or> rc = DATA_VIEW_ERR_OUT_OF_MEMORY"
  using assms by (auto simp: allocMsg_def Let_def split: if_splits prod.splits)

lemma initMsg_inv:
  assumes "msgInv (lost, self)" and "initMsg ok ids self = Some (rc, ids', self')"
  shows "msgInv (inited self \<and> lost \<or> rc = DATA_VIEW_ERR_OUT_OF_MEMORY, self')"
proof (cases "inited self")
  case True
  then show ?thesis using assms by (auto simp: initMsg_def inited_def msgInv_def)
next
  case False
  let ?self = "self\<lparr>cd_fieldOffset := 0, cd_headerLgth := 0\<rparr>"
  obtain s1 where s1: "layoutLoop initField ?self 0 (numEntries self) = Some s1"
    using assms(2) False by (auto simp: initMsg_def inited_def split: bind_splits)
  have k: "keeps ?self s1" by (rule layoutLoop_keeps [OF initField_keeps s1])
  then have n1: "\<not> inited s1" "\<not> prepared s1" using assms(1) False by (auto simp: msgInv_def keeps_def inited_def prepared_def)
  show ?thesis
  proof (cases "cd_totalLgth s1 = 0")
    case True
    then show ?thesis using assms(2) False s1 n1 by (auto simp: initMsg_def inited_def msgInv_def)
  next
    case nonzero: False
    obtain rc2 i2 s2 where s2: "allocMsg ok ids (s1\<lparr>cd_flags := cd_flags s1 OR COMP_MSG_IS_INITTED\<rparr>) = (rc2, i2, s2)"
      by (cases "allocMsg ok ids (s1\<lparr>cd_flags := cd_flags s1 OR COMP_MSG_IS_INITTED\<rparr>)")
    have init2: "inited s2" using allocMsg_outcome(1) [OF s2] by (simp add: inited_def flag_bits)
    consider (fails) "rc2 = DATA_VIEW_ERR_OUT_OF_MEMORY" | (works) "rc2 = 0" "cd_view s2 \<noteq> None"
      using allocMsg_outcome(2) [OF s2] by blast
    then show ?thesis
    proof cases
      case fails
      then have "rc = DATA_VIEW_ERR_OUT_OF_MEMORY" "self' = s2"
        using assms(2) False s1 s2 nonzero by (auto simp: initMsg_def inited_def split: bind_splits)
      then show ?thesis using init2 by (simp add: msgInv_def)
    next
      case works
      then have "lengthLoop s2 0 (numEntries s2) = Some (rc, self')"
        using assms(2) False s1 s2 nonzero by (auto simp: initMsg_def inited_def split: bind_splits)
      from lengthLoop_keeps [OF this] show ?thesis
        using init2 works by (auto simp: msgInv_def keeps_def inited_def)
    qed
  qed
qed

lemma initReceivedMsg_inv:
  assumes "msgInv (lost, self)" and "initReceivedMsg self = Some (rc, self')"
  shows "msgInv (lost, self')"
proof (cases "inited self")
  case True
  then show ?thesis using assms by (auto simp: initReceivedMsg_def inited_def split: bind_splits)
next
  case False
  let ?self = "self\<lparr>cd_fieldOffset := 0, cd_headerLgth := 0\<rparr>"
  obtain s1 where v: "cd_view self \<noteq> None" and s1: "layoutLoop initReceivedField ?self 0 (numEntries self) = Some s1"
    using assms(2) False by (auto simp: initReceivedMsg_def inited_def split: bind_splits)
  have k: "keeps ?self s1" by (rule layoutLoop_keeps [OF initReceivedField_keeps s1])
  then show ?thesis using assms False v s1
    by (auto simp: initReceivedMsg_def msgInv_def keeps_def inited_def prepared_def flag_bits split: if_splits bind_splits)
qed

lemma prepareMsg_inv:
  assumes "msgInv (lost, ps_data st)" and "prepareMsg hdrLgth saved rnd st = Some (rc, st')"
  shows "msgInv (lost, ps_data st')"
proof (cases "inited (ps_data st)")
  case False
  then show ?thesis using assms by (simp add: prepareMsg_def inited_def)
next
  case True
  then obtain rc1 s where s: "prepareLoop hdrLgth saved rnd st 0 (numEntries (ps_data st)) = Some (rc1, s)"
    using assms(2) by (auto simp: prepareMsg_def inited_def checkErrOK_def split: option.splits)
  note k = prepareLoop_keeps [OF s]
  show ?thesis
    using assms s True k keeps_inv [OF assms(1) k]
    by (cases "rc1 = 0") (auto simp: prepareMsg_def inited_def msgInv_def keeps_def prepared_def flag_bits)
qed

lemma deleteMsg_flags: "deleteMsg tn t self = Some (rc, tn', t', self') \<Longrightarrow> cd_flags self' = cd_flags self"
  by (auto simp: deleteMsg_def freeCompMsgData_def Let_def split: if_splits bind_splits option.splits)

lemma msgStep_inv: "msgStep s s' \<Longrightarrow> msgInv s \<Longrightarrow> msgInv s'"
proof (induction rule: msgStep.induct)
  case (create ok self n rc self' lost)
  then show ?case by (auto simp: createMsg_def msgInv_def inited_def prepared_def split: if_splits)
next
  case (describe self lost fs n d h)
  then show ?case by (simp add: msgInv_def inited_def prepared_def)
next
  case (init ok ids self rc ids' self' lost)
  then show ?case using initMsg_inv by blast
next
  case (initReceived self rc self' lost)
  then show ?case using initReceivedMsg_inv by blast
next
  case (set tn self name num str rc self' tn' lost)
  then show ?case using setDataValue_keeps keeps_inv by blast
next
  case (prepare hdrLgth saved rnd s w self rc st lost)
  then show ?case using prepareMsg_inv [OF _ prepare.hyps] by simp
next
  case (delete tn t self rc tn' t' self' lost)
  then show ?case using deleteMsg_flags [OF delete.hyps] by (simp add: msgInv_def inited_def prepared_def)
qed

lemma msgReach_inv: "msgReach s \<Longrightarrow> msgInv s"
proof (induction rule: msgReach.induct)
  case (new ok self)
  then show ?case by (auto simp: newCompMsgData_def msgInv_def inited_def prepared_def split: if_splits)
next
  case (step s s')
  then show ?case using msgStep_inv by blast
qed

subsection \<open>Values by name\<close>

text \<open>\<open>0\<close> is representable in exactly the scalar types.\<close>

abbreviation scalarType :: "u8 \<Rightarrow> bool" where
  "scalarType t \<equiv> representable t 0"

lemma set_scalar_put:
  assumes "representable t (sint x)" and "fits dv off (fieldWidth t)"
  shows "\<exists>bs. length bs = fieldWidth t
    \<and> setTypedValue dv t off n x None 0 = Some (DATA_VIEW_ERR_OK, dv\<lparr>data := put (data dv) (unat off) bs\<rparr>)"
  using assms(1)
proof (cases rule: representable_cases)
  case 1
  then show ?thesis using set8_fits [of dv off "ucast x"] assms(2)
    by (intro exI [of _ "[ucast x]"]) (simp add: setTypedValue_def fieldWidth_def setInt_eq)
next
  case 2
  then show ?thesis using set8_fits [of dv off "ucast x"] assms(2)
    by (intro exI [of _ "[ucast x]"]) (simp add: setTypedValue_def fieldWidth_def)
next
  case 3
  then show ?thesis using set16_fits [of dv off "ucast x"] assms(2)
    by (intro exI [of _ "be16 (ucast x)"]) (simp add: setTypedValue_def fieldWidth_def setInt_eq)
next
  case 4
  then show ?thesis using set16_fits [of dv off "ucast x"] assms(2)
    by (intro exI [of _ "be16 (ucast x)"]) (simp add: setTypedValue_def fieldWidth_def)
next
  case 5
  then show ?thesis using set32_fits [of dv off x] assms(2)
    by (intro exI [of _ "be32 x"]) (simp add: setTypedValue_def fieldWidth_def setInt_eq)
next
  case 6
  then show ?thesis using set32_fits [of dv off x] assms(2)
    by (intro exI [of _ "be32 x"]) (simp add: setTypedValue_def fieldWidth_def)
qed

lemma get_scalar_bytes:
  assumes "scalarType (f_fieldTypeId f)" and "fits dv (f_fieldOffset f) (fieldWidth (f_fieldTypeId f))"
    and "length m = length (data dv)"
    and "take (fieldWidth (f_fieldTypeId f)) (drop (unat (f_fieldOffset f)) m)
       = take (fieldWidth (f_fieldTypeId f)) (drop (unat (f_fieldOffset f)) (data dv))"
  shows "getFieldValue ok (dv\<lparr>data := m\<rparr>) f 0 = getFieldValue ok dv f 0"
proof -
  let ?dv = "dv\<lparr>data := m\<rparr>" and ?off = "f_fieldOffset f"
  have fit: "fits ?dv ?off (fieldWidth (f_fieldTypeId f))" using assms(2,3) by (simp add: fits_def wf_view_def)
  have "fieldWidth (f_fieldTypeId f) = 1 \<Longrightarrow> getUint8 ?dv ?off = getUint8 dv ?off"
    "fieldWidth (f_fieldTypeId f) = 2 \<Longrightarrow> getUint16 ?dv ?off = getUint16 dv ?off"
    "fieldWidth (f_fieldTypeId f) = 4 \<Longrightarrow> getUint32 ?dv ?off = getUint32 dv ?off"
    using assms(2,4) fit by (simp_all add: get8_fits get16_fits get32_fits)
  then show ?thesis
    by (cases rule: representable_cases [OF assms(1)]) (simp_all add: getFieldValue_def fieldWidth_def getInt_eq)
qed

text \<open>A message whose field \<open>j\<close>, called \<open>name\<close>, is a scalar inside the view.\<close>

definition scalarField ::
  "typesAndNames \<Rightarrow> compMsgData \<Rightarrow> compMsgField list \<Rightarrow> compMsgDataView \<Rightarrow> string \<Rightarrow> nat \<Rightarrow> bool" where
  "scalarField tn self fs v name j \<longleftrightarrow> inited self \<and> cd_view self = Some v \<and> fieldsOf self fs
    \<and> wf_names tn \<and> \<not> is_special name \<and> take 1 name \<noteq> ''#'' \<and> j < length fs
    \<and> (\<exists>k < length (name_list tn). name = name_list tn ! k \<and> f_fieldNameId (fs ! j) = word_of_nat (k + 56))
    \<and> (\<forall>i < j. f_fieldNameId (fs ! i) \<noteq> f_fieldNameId (fs ! j))
    \<and> scalarType (f_fieldTypeId (fs ! j))
    \<and> fits (dataView v) (f_fieldOffset (fs ! j)) (fieldWidth (f_fieldTypeId (fs ! j)))"

lemma find_idx_at:
  assumes "j < length xs" "P (xs ! j)" "\<forall>i < j. \<not> P (xs ! i)"
  shows "find_idx P 0 xs = Some (j, xs ! j)"
proof (cases "find_idx P 0 xs")
  case None
  then show ?thesis using assms(1,2) by (auto simp: find_idx_None_iff)
next
  case (Some r)
  obtain i x where r: "r = (i, x)" by (cases r)
  have "x = xs ! i" "P x" "\<forall>k < i. \<not> P (xs ! k)" using find_idx_SomeD [OF Some [unfolded r]] by auto
  then have "i = j" using assms(2,3) by (metis linorder_neqE_nat)
  then show ?thesis using Some r \<open>x = xs ! i\<close> by simp
qed

lemma scalarField_lookup:
  assumes "scalarField tn self fs v name j"
  shows "getFieldNameIdFromStr ok tn name COMP_MSG_NO_INCR = Some (Inr (f_fieldNameId (fs ! j)), tn)"
    and "scan (cd_fields self) (\<lambda>f. f_fieldNameId f = f_fieldNameId (fs ! j)) 0 (numEntries self) = Some (Some (j, fs ! j))"
    and "\<not> cannotBeSet (f_fieldNameId (fs ! j))" and "take 5 name \<noteq> ''#key_''"
proof -
  obtain k where k: "k < length (name_list tn)" "name = name_list tn ! k" "f_fieldNameId (fs ! j) = word_of_nat (k + 56)"
    using assms by (auto simp: scalarField_def)
  have wf: "wf_names tn" "\<not> is_special name" "distinct (name_list tn)"
    using assms by (auto simp: scalarField_def wf_names_def)
  have few: "length (name_list tn) \<le> 200" by (rule wf_namesE [OF wf(1)]) (metis length_map)
  have "find_idx (\<lambda>s. s = name) 0 (name_list tn) = Some (k, name)"
    using find_idx_at [of k "name_list tn" "\<lambda>s. s = name"] k(1,2) wf(3) by (simp add: nth_eq_iff_index_eq)
  then show "getFieldNameIdFromStr ok tn name COMP_MSG_NO_INCR = Some (Inr (f_fieldNameId (fs ! j)), tn)"
    using lookup_step [OF wf(1,2), of ok] k(3) by simp
  have fs: "fieldsOf self fs" "j < length fs" "\<forall>i < j. f_fieldNameId (fs ! i) \<noteq> f_fieldNameId (fs ! j)"
    using assms by (simp_all add: scalarField_def)
  show "scan (cd_fields self) (\<lambda>f. f_fieldNameId f = f_fieldNameId (fs ! j)) 0 (numEntries self) = Some (Some (j, fs ! j))"
    unfolding fieldsOf_scan [OF fs(1)] using find_idx_at [OF fs(2), of "\<lambda>f. f_fieldNameId f = f_fieldNameId (fs ! j)"] fs(3) by simp
  have u: "unat (f_fieldNameId (fs ! j)) = k + 56" unfolding k(3) by (rule unat_of_nat_u8) (use k(1) few in simp)
  have "f_fieldNameId (fs ! j) \<noteq> w" if "unat w < 56" for w using u that by auto
  then show "\<not> cannotBeSet (f_fieldNameId (fs ! j))" by (simp add: cannotBeSet_def)
  show "take 5 name \<noteq> ''#key_''" using assms by (cases name) (auto simp: scalarField_def)
qed

lemma scalarField_get:
  assumes "scalarField tn self fs v name j"
  shows "getDataValue ok tn self name = do { g \<leftarrow> getFieldValue ok (dataView v) (fs ! j) 0; Some (map_sum id Some g, tn) }"
proof -
  have "inited self" "cd_view self = Some v" using assms by (simp_all add: scalarField_def)
  then show ?thesis using scalarField_lookup [OF assms]
    by (simp add: getDataValue_def inited_def)
qed

lemma scalarField_set:
  assumes "scalarField tn self fs v name j" and "representable (f_fieldTypeId (fs ! j)) (sint x)"
  shows "\<exists>bs self'. length bs = fieldWidth (f_fieldTypeId (fs ! j))
    \<and> setFieldValue (dataView v) (fs ! j) x None 0
        = Some (DATA_VIEW_ERR_OK, (dataView v)\<lparr>data := put (data (dataView v)) (unat (f_fieldOffset (fs ! j))) bs\<rparr>)
    \<and> setDataValue tn self name x None = Some (DATA_VIEW_ERR_OK, self', tn)
    \<and> inited self' \<and> fieldsOf self' (fs[j := markSet (fs ! j)])
    \<and> cd_view self' = Some (v\<lparr>dataView := (dataView v)\<lparr>data := put (data (dataView v)) (unat (f_fieldOffset (fs ! j))) bs\<rparr>\<rparr>)"
proof -
  have a: "inited self" "cd_view self = Some v" "fieldsOf self fs" "j < length fs" "take 1 name \<noteq> ''#''"
    "fits (dataView v) (f_fieldOffset (fs ! j)) (fieldWidth (f_fieldTypeId (fs ! j)))"
    using assms(1) by (simp_all add: scalarField_def)
  obtain bs where bs: "length bs = fieldWidth (f_fieldTypeId (fs ! j))"
    "setFieldValue (dataView v) (fs ! j) x None 0
      = Some (DATA_VIEW_ERR_OK, (dataView v)\<lparr>data := put (data (dataView v)) (unat (f_fieldOffset (fs ! j))) bs\<rparr>)"
    using set_scalar_put [OF assms(2) a(6), of "f_fieldLgth (fs ! j)"] unfolding setFieldValue_def by blast
  let ?v = "v\<lparr>dataView := (dataView v)\<lparr>data := put (data (dataView v)) (unat (f_fieldOffset (fs ! j))) bs\<rparr>\<rparr>"
  let ?self = "self\<lparr>cd_view := Some ?v, cd_fields := (cd_fields self)[j := Def (markSet (fs ! j))]\<rparr>"
  have "j < length (cd_fields self)" using a(3,4) by (simp add: fieldsOf_def)
  then have "setDataValue tn self name x None = Some (DATA_VIEW_ERR_OK, ?self, tn)"
    using scalarField_lookup [OF assms(1)] a(1,2,5) bs(2)
    by (simp add: setDataValue_def inited_def onView_def)
  moreover have "fieldsOf ?self (fs[j := markSet (fs ! j)])"
    using a(3,4) by (simp add: fieldsOf_def take_update_swap map_update)
  moreover have "inited ?self" using a(1) by (simp add: inited_def)
  ultimately show ?thesis using bs by (intro exI [of _ bs] exI [of _ ?self]) simp
qed

lemma scalarField_after:
  assumes "scalarField tn self fs v name j" and "inited self'" and "fieldsOf self' (fs[i := markSet (fs ! i)])"
    and "cd_view self' = Some (v\<lparr>dataView := (dataView v)\<lparr>data := put (data (dataView v)) a bs\<rparr>\<rparr>)" and "i < length fs"
  shows "scalarField tn self' (fs[i := markSet (fs ! i)])
    (v\<lparr>dataView := (dataView v)\<lparr>data := put (data (dataView v)) a bs\<rparr>\<rparr>) name j"
proof -
  have same: "f_fieldNameId (fs[i := markSet (fs ! i)] ! k) = f_fieldNameId (fs ! k)"
    "f_fieldTypeId (fs[i := markSet (fs ! i)] ! k) = f_fieldTypeId (fs ! k)"
    "f_fieldOffset (fs[i := markSet (fs ! i)] ! k) = f_fieldOffset (fs ! k)" for k
    using assms(5) by (cases "k = i"; simp)+
  show ?thesis using assms(1-4) by (simp add: scalarField_def same fits_def wf_view_def)
qed

lemma markSet_get:
  "j < length fs \<Longrightarrow> getFieldValue ok dv (fs[i := markSet (fs ! i)] ! j) 0 = getFieldValue ok dv (fs ! j) 0"
  by (cases "i = j") (auto simp: getFieldValue_def)

lemma layoutSpec_lgth:
  "i < length fs \<Longrightarrow> \<not> isFiller (fs ! i) \<Longrightarrow> f_fieldLgth (layoutSpec crc hdr off fs ! i) = f_fieldLgth (fs ! i)"
proof (induction fs arbitrary: i hdr off)
  case (Cons f fs)
  then show ?case by (cases i) (simp_all add: Let_def isFiller_def)
qed simp

text \<open>Multiples of 16 stay multiples of 16 when a word wraps around.\<close>

lemma mod16_add: "a mod 16 = 0 \<Longrightarrow> (a + b) mod 16 = b mod 16" for a b :: u32
proof -
  assume "a mod 16 = 0"
  then have a: "unat a mod 16 = 0" by (metis mod16_nat unsigned_0)
  have "unat (a + b) = (unat a + unat b) mod 2 ^ 32" by (simp add: unat_word_ariths)
  moreover have "(16 :: nat) dvd 2 ^ 32" by simp
  ultimately have "unat (a + b) mod 16 = (unat a + unat b) mod 16" by (simp only: mod_mod_cancel)
  also have "\<dots> = unat b mod 16" using a by (metis mod_add_left_eq add_0)
  finally show ?thesis by (metis mod16_nat word_unat_eq_iff)
qed

lemma failed_init:
  assumes "initable self fs" and "cd_view self = None"
  shows "\<exists>self'. initMsg (\<lambda>_. False) ids self = Some (DATA_VIEW_ERR_OUT_OF_MEMORY, ids, self')
    \<and> cd_flags self' = cd_flags self OR COMP_MSG_IS_INITTED \<and> cd_view self' = None"
proof -
  let ?self = "self\<lparr>cd_fieldOffset := 0, cd_headerLgth := 0\<rparr>"
  have i: "cd_flags self AND COMP_MSG_IS_INITTED = 0" "fieldsOf self fs" "fs \<noteq> []" "sizeOf self fs < 65536" "0 < sizeOf self fs"
    using assms(1) by (simp_all add: initable_def)
  have crc: "crcLgth ?self = crcLgth self" by (simp add: crcLgth_def)
  define total' where "total' = lgths (layoutOf self fs) + (if isFiller (last fs) then crcLgth self else 0)"
  obtain s1 where s1: "layoutLoop initField ?self 0 (length fs) = Some s1" "cd_totalLgth s1 = total'"
    "cd_flags s1 = cd_flags self" "cd_view s1 = None"
    using layoutLoop_spec [of ?self "[]" fs "drop (length fs) (cd_fields self)" "layoutOf self fs"] fieldsOf_cells [OF i(2)] i(3) assms(2)
    unfolding crc by (auto simp: layoutOf_def total'_def)
  have "unat total' = sizeOf self fs"
    unfolding total'_def sizeOf_def using unat_lgths [of "layoutOf self fs"] i(4)
    by (simp add: sizeOf_def unat_word_ariths crcLgth_value)
  then have nz: "cd_totalLgth s1 \<noteq> 0" using i(5) s1(2) by auto
  obtain self' where self': "allocMsg (\<lambda>_. False) ids (s1\<lparr>cd_flags := cd_flags s1 OR COMP_MSG_IS_INITTED\<rparr>)
      = (DATA_VIEW_ERR_OUT_OF_MEMORY, ids, self')" "cd_flags self' = cd_flags self OR COMP_MSG_IS_INITTED" "cd_view self' = None"
    using s1(3,4) by (simp add: allocMsg_def Let_def)
  have "initMsg (\<lambda>_. False) ids self = Some (DATA_VIEW_ERR_OUT_OF_MEMORY, ids, self')"
    using i(1) s1(1) nz self'(1) by (simp add: initMsg_def numEntries_fieldsOf [OF i(2)])
  then show ?thesis using self'(2,3) by blast
qed

subsection \<open>Properties\<close>

text \<open>
  Claim C4.  In every state of a message that its operations can reach, failing allocations and deletion included, a
  prepared message is initialised, and \<open>getMsgData\<close> reports the phase that is missing or hands out the bytes of the view.  An
  initialised message without a view, for which \<open>getMsgData\<close> goes through a null pointer once it is prepared, exists only after
  the message was deleted or its initialisation ran out of memory.
\<close>

theorem lifecycle_safe:
  assumes "msgReach (lost, self)"
  shows "(prepared self \<longrightarrow> inited self)
    \<and> (\<not> inited self \<longrightarrow> getMsgData self = Some (Inl COMP_MSG_ERR_NOT_YET_INITTED))
    \<and> (inited self \<and> \<not> prepared self \<longrightarrow> getMsgData self = Some (Inl COMP_MSG_ERR_NOT_YET_PREPARED))
    \<and> (prepared self \<longrightarrow> getMsgData self = (case cd_view self of
          None \<Rightarrow> None | Some v \<Rightarrow> Some (Inr (data (dataView v), lgth (dataView v)))))
    \<and> (inited self \<and> cd_view self = None \<longrightarrow> lost)"
  using msgReach_inv [OF assms]
  by (auto simp: msgInv_def getMsgData_def inited_def prepared_def getDataViewData_def split: option.splits)

definition msg6' :: compMsgData where
  "msg6' = the (newCompMsgData True)\<lparr>cd_fields := map Def fields6, cd_numFields := 6, cd_direction := 1,
     cd_currHdr := Some 69\<rparr>"

lemma layout6': "layoutOf msg6' fields6 =
   [(field 3 3 2), (field 4 3 2)\<lparr>f_fieldOffset := 2\<rparr>, (field 6 3 2)\<lparr>f_fieldOffset := 4\<rparr>,
    (field 7 3 2)\<lparr>f_fieldOffset := 6\<rparr>, (field 10 7 12)\<lparr>f_fieldOffset := 8\<rparr>, (field 11 1 1)\<lparr>f_fieldOffset := 20\<rparr>]"
  by (simp add: layoutOf_def msg6'_def msg6_simps isHeaderField_def crcLgth_def pad_def)

lemma initable6': "initable msg6' fields6"
proof -
  have "sizeOf msg6' fields6 = 21"
    unfolding sizeOf_def layout6' by (simp add: msg6_simps isFiller_def)
  then show ?thesis unfolding initable_def
    by (simp add: fieldsOf_def msg6'_def msg6_simps isHeaderField_def lengthFieldOk_def lengthField_def)
qed

lemma msg6'_reach: "msgReach (False, msg6')"
proof -
  obtain m where m: "newCompMsgData True = Some m" by (simp add: newCompMsgData_def)
  have "\<not> inited m" using m by (auto simp: newCompMsgData_def inited_def)
  from msgReach.step [OF msgReach.new [OF m] msgStep.describe [OF this, where fs = "map Def fields6" and n = 6 and d = 1 and h = "Some 69"]]
  show ?thesis using m by (simp add: msg6'_def)
qed

text \<open>The phases of a message, and a message whose initialisation failed: initialised, without a view, and lost.\<close>

theorem lifecycle_safe_witness:
  "(\<exists>ids self. initMsg (\<lambda>_. True) (0, 0) msg6' = Some (COMP_MSG_ERR_OK, ids, self)
     \<and> getMsgData self = Some (Inl COMP_MSG_ERR_NOT_YET_PREPARED) \<and> cd_view self \<noteq> None)
   \<and> (\<exists>ids self. initMsg (\<lambda>_. False) (0, 0) msg6' = Some (DATA_VIEW_ERR_OUT_OF_MEMORY, ids, self)
     \<and> msgReach (True, self) \<and> getMsgData self = Some (Inl COMP_MSG_ERR_NOT_YET_PREPARED))"
proof -
  obtain ids self v where r: "initMsg (\<lambda>_. True) (0, 0) msg6' = Some (COMP_MSG_ERR_OK, ids, self)" "laidOut msg6' fields6 self v"
    using initMsg_laidOut [OF initable6', of "(0, 0)"] by blast
  have n: "\<not> inited msg6'" by (simp add: inited_def msg6'_def newCompMsgData_def)
  have reach: "msgReach (False, self)" using msgReach.step [OF msg6'_reach msgStep.init [OF r(1)]] n by simp
  have "cd_flags self = 32" using r(2) by (simp add: laidOut_def msg6'_def newCompMsgData_def)
  then have "inited self" "\<not> prepared self" by (simp_all add: inited_def prepared_def)
  then have first: "getMsgData self = Some (Inl COMP_MSG_ERR_NOT_YET_PREPARED) \<and> cd_view self \<noteq> None" using lifecycle_safe [OF reach] by simp
  have "cd_view msg6' = None" by (simp add: msg6'_def newCompMsgData_def)
  then obtain self2 where r2: "initMsg (\<lambda>_. False) (0, 0) msg6' = Some (DATA_VIEW_ERR_OUT_OF_MEMORY, (0, 0), self2)"
    "cd_flags self2 = cd_flags msg6' OR COMP_MSG_IS_INITTED"
    using failed_init [OF initable6', of "(0, 0)"] by blast
  have reach2: "msgReach (True, self2)" using msgReach.step [OF msg6'_reach msgStep.init [OF r2(1)]] n by simp
  have "cd_flags self2 = 32" using r2(2) by (simp add: msg6'_def newCompMsgData_def)
  then have "inited self2" "\<not> prepared self2" by (simp_all add: inited_def prepared_def)
  then show ?thesis using first r(1) r2(1) reach2 lifecycle_safe [OF reach2] by blast
qed

text \<open>
  Outside their phase the operations change nothing and say so: before \<open>initMsg\<close> reading,
  writing, preparing and handing out give \<open>NOT_YET_INITTED\<close>; a second \<open>initMsg\<close> gives
  \<open>ALREADY_INITTED\<close>.
\<close>

lemma phase_errors:
  "(\<not> inited self \<longrightarrow>
      getDataValue ok tn self name = Some (Inl COMP_MSG_ERR_NOT_YET_INITTED, tn)
    \<and> setDataValue tn self name num str = Some (COMP_MSG_ERR_NOT_YET_INITTED, self, tn)
    \<and> prepareMsg hdrLgth saved rnd \<lparr>ps_sequenceNum = s, ps_wifiFlags = w, ps_data = self\<rparr>
        = Some (COMP_MSG_ERR_NOT_YET_INITTED, \<lparr>ps_sequenceNum = s, ps_wifiFlags = w, ps_data = self\<rparr>)
    \<and> getMsgData self = Some (Inl COMP_MSG_ERR_NOT_YET_INITTED))
   \<and> (inited self \<longrightarrow> initMsg allocations ids self = Some (COMP_MSG_ERR_ALREADY_INITTED, ids, self))"
  by (simp add: inited_def getDataValue_def setDataValue_def prepareMsg_def getMsgData_def initMsg_def)

lemma phase_errors_witness:
  "setDataValue tn0 msg6' ''temp'' 1 None = Some (COMP_MSG_ERR_NOT_YET_INITTED, msg6', tn0)"
proof -
  have "\<not> inited msg6'" by (simp add: inited_def msg6'_def newCompMsgData_def)
  then show ?thesis using phase_errors [of msg6' True tn0 "''temp''" 1 None] by blast
qed

definition protectedNames :: "(string \<times> u8) list" where
  "protectedNames = [(''@totalLgth'', 4), (''@cmdLgth'', 7), (''@filler'', 10), (''@crc'', 11), (''@randomNum'', 8), (''@sequenceNum'', 9)]"

lemma protected_names:
  "list_all (\<lambda>(s, i). (s, i) \<in> set specialFieldNames \<and> cannotBeSet i \<and> is_special s) protectedNames"
  by (simp add: protectedNames_def specialFieldNames_def cannotBeSet_def)

text \<open>
  The fields the firmware computes itself, the two lengths, filler, checksum, random and
  sequence number, cannot be written by name: the call is refused and nothing changes.
\<close>

lemma computed_fields_protected:
  assumes "inited self" and "cd_view self \<noteq> None"
    and "name \<in> {''@totalLgth'', ''@cmdLgth'', ''@filler'', ''@crc'', ''@randomNum'', ''@sequenceNum''}"
  shows "setDataValue tn self name num str = Some (COMP_MSG_ERR_FIELD_CANNOT_BE_SET, self, tn)"
proof -
  obtain v where v: "cd_view self = Some v" using assms(2) by blast
  have "name \<in> fst ` set protectedNames" using assms(3) by (auto simp: protectedNames_def)
  then obtain i where "(name, i) \<in> set protectedNames" by force
  then have i: "(name, i) \<in> set specialFieldNames" "cannotBeSet i" "is_special name"
    using protected_names unfolding list_all_iff by blast+
  show ?thesis
    using special_lookup [OF i(1,3), of "\<lambda>_. True" tn COMP_MSG_NO_INCR] v assms(1) i(2)
    by (simp add: setDataValue_def inited_def)
qed

lemma computed_fields_protected_witness:
  "setDataValue tn0 (msg6'\<lparr>cd_flags := 32, cd_view := Some \<lparr>dataView = view4, cdv_id = 1\<rparr>\<rparr>) ''@crc'' 1 None
    = Some (COMP_MSG_ERR_FIELD_CANNOT_BE_SET, msg6'\<lparr>cd_flags := 32, cd_view := Some \<lparr>dataView = view4, cdv_id = 1\<rparr>\<rparr>, tn0)"
  by (rule computed_fields_protected) (simp_all add: inited_def)

text \<open>
  Claim C5.  A number written to a registered scalar field by name is read back by name.
\<close>

theorem set_get_value:
  assumes "scalarField tn self fs v name j" and "representable (f_fieldTypeId (fs ! j)) (sint x)"
  shows "\<exists>self'. setDataValue tn self name x None = Some (DATA_VIEW_ERR_OK, self', tn)
    \<and> getDataValue ok tn self' name = Some (Inr (Some (x, None)), tn)"
proof -
  let ?dv = "\<lambda>bs. (dataView v)\<lparr>data := put (data (dataView v)) (unat (f_fieldOffset (fs ! j))) bs\<rparr>"
  have j: "j < length fs" "fits (dataView v) (f_fieldOffset (fs ! j)) (fieldWidth (f_fieldTypeId (fs ! j)))"
    using assms(1) by (simp_all add: scalarField_def)
  obtain bs self' where r: "setFieldValue (dataView v) (fs ! j) x None 0 = Some (DATA_VIEW_ERR_OK, ?dv bs)"
    "setDataValue tn self name x None = Some (DATA_VIEW_ERR_OK, self', tn)"
    "inited self'" "fieldsOf self' (fs[j := markSet (fs ! j)])" "cd_view self' = Some (v\<lparr>dataView := ?dv bs\<rparr>)"
    using scalarField_set [OF assms] by blast
  have "holds (?dv bs) (f_fieldTypeId (fs ! j)) (f_fieldOffset (fs ! j)) x"
    using set_scalar [OF assms(2) j(2), of "f_fieldLgth (fs ! j)"] r(1) by (auto simp: setFieldValue_def)
  then have "getFieldValue ok (?dv bs) (fs ! j) 0 = Some (Inr (x, None))" by (rule get_scalar [OF assms(2)])
  then show ?thesis
    using r(2) scalarField_get [OF scalarField_after [OF assms(1) r(3-5) j(1)], of ok] markSet_get [OF j(1), of ok _ j]
    by simp
qed

definition temps :: "compMsgField list" where
  "temps = [field 56 3 2]"

definition msgTemp :: compMsgData where
  "msgTemp = msg6'\<lparr>cd_flags := 32, cd_fields := map Def temps, cd_numFields := 1,
     cd_view := Some \<lparr>dataView = view4, cdv_id = 1\<rparr>\<rparr>"

lemma temp_field: "scalarField tn1 msgTemp temps \<lparr>dataView = view4, cdv_id = 1\<rparr> ''temp'' 0"
proof -
  have "inited msgTemp" "fieldsOf msgTemp temps" "cd_view msgTemp = Some \<lparr>dataView = view4, cdv_id = 1\<rparr>"
    by (simp_all add: msgTemp_def inited_def fieldsOf_def temps_def)
  moreover have "fits view4 0 2" by (simp add: fits_def wf_view_def view4_def)
  ultimately show ?thesis 
    by (simp add: wf_tn1 scalarField_def temps_def field_def zeroField_def representable_def fieldWidth_def)
qed

theorem set_get_value_witness:
  "\<exists>self'. setDataValue tn1 msgTemp ''temp'' 40000 None = Some (DATA_VIEW_ERR_OK, self', tn1)
    \<and> getDataValue True tn1 self' ''temp'' = Some (Inr (Some (40000, None)), tn1)"
  using set_get_value [OF temp_field, of 40000 True]
  by (simp add: temps_def field_def representable_def)

text \<open>
  Claim C6.  Writing a scalar field by name changes no other scalar field whose bytes do not
  overlap with its own: reading the other one by name gives what it gave before.
\<close>

theorem set_other_value:
  assumes "scalarField tn self fs v name j" and "representable (f_fieldTypeId (fs ! j)) (sint x)"
    and "scalarField tn self fs v other k"
    and "unat (f_fieldOffset (fs ! k)) + fieldWidth (f_fieldTypeId (fs ! k)) \<le> unat (f_fieldOffset (fs ! j))
       \<or> unat (f_fieldOffset (fs ! j)) + fieldWidth (f_fieldTypeId (fs ! j)) \<le> unat (f_fieldOffset (fs ! k))"
  shows "\<exists>self'. setDataValue tn self name x None = Some (DATA_VIEW_ERR_OK, self', tn)
    \<and> getDataValue ok tn self' other = getDataValue ok tn self other"
proof -
  let ?m = "put (data (dataView v)) (unat (f_fieldOffset (fs ! j)))"
  have jk: "j < length fs" "k < length fs" "scalarType (f_fieldTypeId (fs ! k))"
    "fits (dataView v) (f_fieldOffset (fs ! j)) (fieldWidth (f_fieldTypeId (fs ! j)))"
    "fits (dataView v) (f_fieldOffset (fs ! k)) (fieldWidth (f_fieldTypeId (fs ! k)))"
    using assms(1,3) by (simp_all add: scalarField_def)
  obtain bs self' where r: "length bs = fieldWidth (f_fieldTypeId (fs ! j))"
    "setDataValue tn self name x None = Some (DATA_VIEW_ERR_OK, self', tn)"
    "inited self'" "fieldsOf self' (fs[j := markSet (fs ! j)])"
    "cd_view self' = Some (v\<lparr>dataView := (dataView v)\<lparr>data := ?m bs\<rparr>\<rparr>)"
    using scalarField_set [OF assms(1,2)] by blast
  have "take (fieldWidth (f_fieldTypeId (fs ! k))) (drop (unat (f_fieldOffset (fs ! k))) (?m bs))
      = take (fieldWidth (f_fieldTypeId (fs ! k))) (drop (unat (f_fieldOffset (fs ! k))) (data (dataView v)))"
    using jk(4) assms(4) r(1) by (intro take_drop_put_disjoint) (auto simp: fits_def wf_view_def)
  then have "getFieldValue ok ((dataView v)\<lparr>data := ?m bs\<rparr>) (fs ! k) 0 = getFieldValue ok (dataView v) (fs ! k) 0"
    using jk(3,5) by (intro get_scalar_bytes) simp_all
  then show ?thesis
    using r(2) scalarField_get [OF scalarField_after [OF assms(3) r(3-5) jk(1)], of ok] scalarField_get [OF assms(3), of ok]
      markSet_get [OF jk(2), of ok _ j]
    by simp
qed

definition tn2 :: typesAndNames where
  "tn2 = tn0\<lparr>numNames := 2, maxNames := 4, names := Def \<lparr>fieldName = Some ''temp'', fieldNameId = 1, refCnt = 1\<rparr>
    # Def \<lparr>fieldName = Some ''hum'', fieldNameId = 2, refCnt = 1\<rparr> # replicate 2 (Def zeroFieldName2id)\<rparr>"

definition climate :: "compMsgField list" where
  "climate = [field 56 3 2, (field 57 2 1)\<lparr>f_fieldOffset := 2\<rparr>]"

definition msgClimate :: compMsgData where
  "msgClimate = msg6'\<lparr>cd_flags := 32, cd_fields := map Def climate, cd_numFields := 2,
     cd_view := Some \<lparr>dataView = view4, cdv_id = 1\<rparr>\<rparr>"

lemma climate_fields:
  "scalarField tn2 msgClimate climate \<lparr>dataView = view4, cdv_id = 1\<rparr> ''temp'' 0"
  "scalarField tn2 msgClimate climate \<lparr>dataView = view4, cdv_id = 1\<rparr> ''hum'' 1"
proof -
  have m: "inited msgClimate" "fieldsOf msgClimate climate" "cd_view msgClimate = Some \<lparr>dataView = view4, cdv_id = 1\<rparr>"
    by (simp_all add: msgClimate_def inited_def fieldsOf_def climate_def)
  have n: "wf_names tn2" "name_list tn2 = [''temp'', ''hum'']"
    by (simp_all add: wf_names_def tn2_def tn0_def name_list_def entries_of_def un_Def_def upt_conv_Cons)
  have f: "fits view4 0 2" "fits view4 2 1" by (simp_all add: fits_def wf_view_def view4_def)
  have t: "\<exists>k < length (name_list tn2). ''temp'' = name_list tn2 ! k \<and> (56 :: u8) = word_of_nat (k + 56)"
    by (rule exI [of _ 0]) (simp add: n(2))
  show "scalarField tn2 msgClimate climate \<lparr>dataView = view4, cdv_id = 1\<rparr> ''temp'' 0"
    using m n(1) f t by (simp add: scalarField_def climate_def field_def zeroField_def representable_def fieldWidth_def)
  have "\<exists>k < length (name_list tn2). ''hum'' = name_list tn2 ! k \<and> (57 :: u8) = word_of_nat (k + 56)"
    by (rule exI [of _ 1]) (simp add: n(2))
  then show "scalarField tn2 msgClimate climate \<lparr>dataView = view4, cdv_id = 1\<rparr> ''hum'' 1"
    using m n(1) f by (simp add: scalarField_def climate_def field_def zeroField_def representable_def fieldWidth_def)
qed

theorem set_other_value_witness:
  "\<exists>self'. setDataValue tn2 msgClimate ''hum'' 60 None = Some (DATA_VIEW_ERR_OK, self', tn2)
    \<and> getDataValue True tn2 self' ''temp'' = getDataValue True tn2 msgClimate ''temp''"
  using set_other_value [OF climate_fields(2) _ climate_fields(1), of 60 True]
  by (simp add: climate_def field_def zeroField_def representable_def fieldWidth_def)

text \<open>
  When the allocation of the bytes fails, \<open>initMsg\<close> reports it but leaves the message
  marked as initialised: a later \<open>initMsg\<close> is refused, and, without a view from before, reading,
  writing and preparing a non-empty message go through a null pointer.
\<close>

lemma failed_init_marked:
  assumes "initable self fs" and "cd_view self = None"
  shows "\<exists>self'. initMsg (\<lambda>_. False) ids self = Some (DATA_VIEW_ERR_OUT_OF_MEMORY, ids, self')
    \<and> initMsg ok2 ids self' = Some (COMP_MSG_ERR_ALREADY_INITTED, ids, self')
    \<and> getDataValue ok tn self' name = None \<and> setDataValue tn self' name num str = None"
proof -
  obtain self' where "initMsg (\<lambda>_. False) ids self = Some (DATA_VIEW_ERR_OUT_OF_MEMORY, ids, self')"
    "cd_flags self' = cd_flags self OR COMP_MSG_IS_INITTED" "cd_view self' = None"
    using failed_init [OF assms] by blast
  moreover from this(2) have "cd_flags self' AND COMP_MSG_IS_INITTED \<noteq> 0" using or32 by simp
  ultimately show ?thesis by (auto simp: initMsg_def getDataValue_def setDataValue_def)
qed

lemma failed_init_marked_witness:
  "\<exists>self'. initMsg (\<lambda>_. False) (0, 0) msg6 = Some (DATA_VIEW_ERR_OUT_OF_MEMORY, (0, 0), self')
    \<and> getDataValue True tn0 self' ''@crc'' = None"
proof -
  have "cd_view msg6 = None" by (simp add: msg6_simps)
  from failed_init_marked [OF initable6 this, of "(0, 0)" "\<lambda>_. True" True tn0 "''@crc''" 1 None]
  show ?thesis by blast
qed

text \<open>
  \<open>deleteMsg\<close> releases everything the message owns, empties its dictionary of names and
  unregisters its handle, and only that one; but the message stays marked as initialised, so reading it
  afterwards goes through a null pointer.
\<close>

lemma delete_releases:
  assumes "wf_names tn" and "wf_handles t" and "cd_handle self \<noteq> ''''"
  shows "\<exists>tn' t' self'. deleteMsg (Some tn) t self = Some (COMP_MSG_ERR_OK, Some tn', t', self')
    \<and> numNames tn' = 0 \<and> look t' = (look t)(cd_handle self := None) \<and> wf_handles t'
    \<and> cd_view self' = None \<and> cd_fields self' = [] \<and> cd_handle self' = '''' \<and> \<not> cd_toSendData self' \<and> \<not> cd_receivedData self'
    \<and> (inited self \<longrightarrow> inited self' \<and> getDataValue ok tn' self' name = None)"
proof -
  obtain es rest where "names tn = map Def es @ rest" "unat (numNames tn) = length es"
    using assms(1) by (rule wf_namesE)
  then have "\<exists>tn'. freeCompMsgTypesAndNames tn = Some (0, tn') \<and> numNames tn' = 0"
    by (auto simp: freeCompMsgTypesAndNames_def scan_defined)
  then obtain tn' where tn': "freeCompMsgTypesAndNames tn = Some (0, tn')" "numNames tn' = 0" by blast
  obtain rc t' where t': "deleteMsgHandle t (cd_handle self) = Some (rc, t')" "wf_handles t'"
    "look t' = (look t)(cd_handle self := None)"
    using msg_handles.del_law [OF assms(2), of "cd_handle self"] by blast
  show ?thesis using tn' t' assms(3)
    by (simp add: deleteMsg_def freeCompMsgData_def inited_def getDataValue_def)
qed

lemma delete_releases_witness:
  "\<exists>tn' t' self'. deleteMsg (Some tn1) handles1 (msgTemp\<lparr>cd_handle := ''a''\<rparr>) = Some (COMP_MSG_ERR_OK, Some tn', t', self')
    \<and> look t' ''a'' = None \<and> getDataValue True tn' self' ''temp'' = None"
proof -
  have "wf_handles handles1" using slots1 by (auto simp: wf_handles_def)
  moreover have "inited (msgTemp\<lparr>cd_handle := ''a''\<rparr>)" by (simp add: msgTemp_def inited_def)
  ultimately show ?thesis
    using delete_releases [OF wf_tn1(1), of handles1 "msgTemp\<lparr>cd_handle := ''a''\<rparr>" True "''temp''"] by auto
qed

subsection \<open>Whole blocks\<close>

lemma unat_mod16: "unat (word_of_nat n :: u32) mod 16 = n mod 16"
proof -
  have "(16 :: nat) dvd 4294967296" by simp
  then show ?thesis by (simp add: unat_of_nat mod_mod_cancel)
qed

lemma mod16_pred: "unat (word_of_nat n - 1 :: u32) mod 16 = (n + 15) mod 16"
proof -
  have "(word_of_nat n - 1 :: u32) = word_of_nat (n + 4294967295)" by simp
  then have "unat (word_of_nat n - 1 :: u32) mod 16 = (n + 4294967295) mod 16" by (simp only: unat_mod16)
  also have "\<dots> = (n + 4294967295 mod 16) mod 16" by (rule mod_add_right_eq [symmetric])
  finally show ?thesis by simp
qed

text \<open>
  Claim C2.  The filler has less than 16 bytes.  When the trailer \<open>cs\<close> follows it, the part of the message behind the header is longer
  than whole blocks of 16 bytes by the length of the trailer less the one byte the code counts for the
  checksum of a message with the flag \<open>COMP_MSG_HAS_CRC\<close>, less nothing without the flag.  So the part is whole
  blocks, as the encryption needs it, for a checksum of one byte with the flag, and for no trailer bytes without it; for
  a checksum of two bytes it is one byte longer, whatever the flags say about its width, because \<open>COMP_MSG_HAS_CRC\<close>
  and \<open>COMP_MSG_UINT8_CRC\<close> are the same bit.
\<close>

theorem filler_alignment:
  assumes "initable self (fs @ f # cs)" and "isFiller f" and "cs \<noteq> []"
    and "list_all (\<lambda>c. \<not> isHeaderField (f_fieldNameId c) \<and> \<not> isFiller c) cs"
  shows "\<exists>ids' self' g. initMsg (\<lambda>_. True) ids self = Some (COMP_MSG_ERR_OK, ids', self')
    \<and> rd_cell (cd_fields self') (length fs) = Some g \<and> unat (f_fieldLgth g) < 16
    \<and> unat (cd_cmdLgth self') mod 16
        = (msgSize cs + (if cd_flags self AND COMP_MSG_HAS_CRC \<noteq> 0 then 15 else 0)) mod 16"
proof -
  let ?fs = "fs @ f # cs" and ?i = "length fs"
  let ?L = "layoutOf self ?fs"
  let ?g = "?L ! ?i"
  obtain ids' self' v where r: "initMsg (\<lambda>_. True) ids self = Some (COMP_MSG_ERR_OK, ids', self')"
    "fieldsOf self' (map markLength ?L)" "cd_headerLgth self' = hdrLgths ?L" "unat (lgth (dataView v)) = sizeOf self ?fs"
    "cd_cmdLgth self' = lgth (dataView v) - hdrLgths ?L" "cd_view self' = Some v"
    using initMsg_ok [OF assms(1), of ids] by blast
  have len: "length ?L = length ?fs" by (simp add: layoutOf_def)
  then have cell: "rd_cell (cd_fields self') ?i = Some (markLength ?g)" using fieldsOf_rd [OF r(2), of ?i] by simp
  have tail: "f_fieldNameId (?L ! (Suc ?i + k)) = f_fieldNameId (cs ! k)" "f_fieldLgth (?L ! (Suc ?i + k)) = f_fieldLgth (cs ! k)"
    if "k < length cs" for k
    using layoutSpec_name [of "Suc ?i + k" ?fs "crcLgth self" 0 0] layoutSpec_lgth [of "Suc ?i + k" ?fs "crcLgth self" 0 0] that assms(4)
    by (auto simp: layoutOf_def nth_append list_all_length)
  have size_tail: "msgSize (drop (Suc ?i) ?L) = msgSize cs"
  proof -
    have "map (\<lambda>f. unat (f_fieldLgth f)) (drop (Suc ?i) ?L) = map (\<lambda>f. unat (f_fieldLgth f)) cs"
      using tail(2) len by (intro nth_equalityI) simp_all
    then show ?thesis by (simp only: msgSize_def)
  qed
  have no_hdr: "filter (\<lambda>f. isHeaderField (f_fieldNameId f)) (drop ?i ?L) = []"
  proof (unfold filter_empty_conv, safe)
    fix x assume "x \<in> set (drop ?i ?L)" and h: "isHeaderField (f_fieldNameId x)"
    from this(1) obtain k where k: "k < Suc (length cs)" "x = ?L ! (?i + k)" using len by (auto simp: in_set_conv_nth)
    have "f_fieldNameId ?g = f_fieldNameId f"
      using layoutSpec_name [of ?i ?fs "crcLgth self" 0 0] by (simp add: layoutOf_def nth_append)
    then show False using h k assms(2,4) tail(1) [of "k - 1"] filler_not_header
      by (cases k) (auto simp: isFiller_def list_all_length)
  qed
  have hdr: "hdrLgths ?L = hdrLgths (take ?i ?L)"
  proof -
    have "filter P ?L = filter P (take ?i ?L) @ filter P (drop ?i ?L)" for P by (metis append_take_drop_id filter_append)
    then show ?thesis using no_hdr by (simp add: hdrLgths_def)
  qed
  have fill: "unat (f_fieldLgth ?g) < 16" "(f_fieldOffset ?g + ucast (f_fieldLgth ?g) + crcLgth self - hdrLgths ?L) mod 16 = 0"
    using layoutSpec_filler [of ?i ?fs "crcLgth self" 0 0] assms(2) unfolding hdr by (simp_all add: layoutOf_def nth_append isFiller_def)
  have "last ?fs = last cs" "last cs \<in> set cs" using assms(3) by simp_all
  then have size: "sizeOf self ?fs = msgSize ?L" "msgSize ?L < 65536" using assms(1,4) by (auto simp: sizeOf_def initable_def list_all_iff)
  have "?L = take ?i ?L @ ?g # drop (Suc ?i) ?L" using len by (simp add: id_take_nth_drop [of ?i ?L, symmetric])
  from arg_cong [OF this, of msgSize] have "msgSize ?L = msgSize (take ?i ?L) + unat (f_fieldLgth ?g) + msgSize cs" using size_tail by simp
  moreover have "unat (f_fieldOffset ?g) = msgSize (take ?i ?L)"
    using placed_offset [of 0 ?L ?i] layoutSpec_placed [of 0 "crcLgth self" 0 ?fs] size(2) len by (simp add: layoutOf_def)
  ultimately have "unat (lgth (dataView v)) = unat (f_fieldOffset ?g) + unat (f_fieldLgth ?g) + msgSize cs" "msgSize cs < 65536"
      "unat (f_fieldOffset ?g) + unat (f_fieldLgth ?g) + msgSize cs < 65536"
    using r(4) size by simp_all
  then have end_: "lgth (dataView v) = f_fieldOffset ?g + ucast (f_fieldLgth ?g) + word_of_nat (msgSize cs)"
    by (simp add: word_unat_eq_iff unat_word_ariths unat_of_nat)
  let ?k = "if cd_flags self AND COMP_MSG_HAS_CRC \<noteq> 0 then 1 else (0 :: nat)"
  have crc: "crcLgth self = word_of_nat ?k" using crcLgth_value [of self] by simp
  have "cd_cmdLgth self' = (f_fieldOffset ?g + ucast (f_fieldLgth ?g) + crcLgth self - hdrLgths ?L) + (word_of_nat (msgSize cs) - word_of_nat ?k)"
    unfolding r(5) end_ crc by simp
  then have "cd_cmdLgth self' mod 16 = (word_of_nat (msgSize cs) - word_of_nat ?k) mod 16" using mod16_add [OF fill(2)] by simp
  then have "unat (cd_cmdLgth self') mod 16 = unat (word_of_nat (msgSize cs) - word_of_nat ?k :: u32) mod 16" by (metis mod16_nat)
  then have "unat (cd_cmdLgth self') mod 16 = (msgSize cs + (if cd_flags self AND COMP_MSG_HAS_CRC \<noteq> 0 then 15 else 0)) mod 16"
    using mod16_pred [of "msgSize cs"] unat_mod16 [of "msgSize cs"] by (cases "cd_flags self AND COMP_MSG_HAS_CRC = 0") simp_all
  then show ?thesis using r(1) cell fill(1) by auto
qed

theorem filler_alignment_witness:
  "(\<exists>ids' self'. initMsg (\<lambda>_. True) (0, 0) msg6 = Some (COMP_MSG_ERR_OK, ids', self') \<and> unat (cd_cmdLgth self') mod 16 = 0)
   \<and> (\<exists>ids' self'. initMsg (\<lambda>_. True) (0, 0) (msg6\<lparr>cd_fields := map Def (take 5 fields6 @ [field 11 3 2])\<rparr>) = Some (COMP_MSG_ERR_OK, ids', self')
       \<and> unat (cd_cmdLgth self') mod 16 = 1)"
proof -
  let ?two = "[field 3 3 2, field 4 3 2, field 6 3 2, field 7 3 2] @ field 10 7 0 # [field 11 3 2]"
  let ?msg = "msg6\<lparr>cd_fields := map Def (take 5 fields6 @ [field 11 3 2])\<rparr>"
  have "fields6 = [field 3 3 2, field 4 3 2, field 6 3 2, field 7 3 2] @ field 10 7 0 # [field 11 1 1]" by (simp add: fields6_def)
  from filler_alignment [OF initable6 [unfolded this], of "(0, 0)"]
  have "\<exists>ids' self'. initMsg (\<lambda>_. True) (0, 0) msg6 = Some (COMP_MSG_ERR_OK, ids', self') \<and> unat (cd_cmdLgth self') mod 16 = 0"
    by (auto simp: msg6_simps isFiller_def isHeaderField_def)
  moreover have "initable ?msg ?two"
    by (simp add: initable_def sizeOf_def fieldsOf_def layoutOf_def msg6_simps isHeaderField_def lengthFieldOk_def lengthField_def isFiller_def
        crcLgth_def pad_def)
  from filler_alignment [OF this, of "(0, 0)"]
  have "\<exists>ids' self'. initMsg (\<lambda>_. True) (0, 0) ?msg = Some (COMP_MSG_ERR_OK, ids', self') \<and> unat (cd_cmdLgth self') mod 16 = 1"
    by (auto simp: msg6_simps isFiller_def isHeaderField_def)
  ultimately show ?thesis by blast
qed

end
