(* ===== verification/CompMsgIdentify.thy ===== *)
theory CompMsgIdentify
  imports CompMsgData Crypto
begin

text \<open>
  \<^verbatim>\<open>src/app/compMsg/compMsgIdentify.c\<close>: incoming bytes are collected in \<open>received.buf\<close>; after
  \<open>headerLgth\<close> bytes the header fields are read in the order of \<open>headerSequence\<close> and the first entry of
  the table of headers with the same addresses and length is looked up; after \<open>totalLgth\<close> bytes the
  checksum is tested, the message is decrypted, its command key selects the entry of the table, and
  the message is stored or forwarded.

  \<^item> The state of the component is \<open>identify\<close>: the header infos of \<^verbatim>\<open>dispatcherCommon\<close>, the parts of the
    received message, the message (\<open>compMsgData\<close>; the pointer \<open>received->compMsgDataView\<close> is its
    \<open>cd_receivedView\<close>), and what \<open>deleteMsg\<close> and the views need.
  \<^item> A local variable of C that is read before it is written is undefined: \<open>result\<close> and \<open>u16\<close> of
    \<open>handleReceivedHeader\<close> are options.
  \<^item> The two keys are the static arrays of \<^verbatim>\<open>compMsgModuleData.c\<close> and the block cipher is the
    parameter of \<open>decryptMsg\<close>; what \<open>forwardMsg\<close> hands to \<open>sendMsg\<close> is the component \<open>i_forwarded\<close>.
\<close>

subsection \<open>State\<close>

record headerPart =
  hdrFromPart :: u16
  hdrToPart :: u16
  hdrTotalLgth :: u16
  hdrGUID :: mem
  hdrSrcId :: u16
  hdrReserve :: mem
  hdrFiller :: mem
  hdrU16CmdKey :: u16
  hdrU16CmdLgth :: u16
  hdrU16Crc :: u16
  hdrU16TotalCrc :: u16
  hdrTargetPart :: u8
  hdrU8CmdKey :: u8
  hdrU8CmdLgth :: u8
  hdrU8Crc :: u8
  hdrU8TotalCrc :: u8
  hdrOffset :: u8
  hdrEncryption :: u8
  hdrHandleType :: u8
  hdrLgth :: u8
  hdrFlags :: u32
  fieldSequence :: "u32 list"

record msgHeaderInfos =
  headerFlags :: u32
  headerSequence :: "u16 list"
  hi_headerLgth :: u8
  hi_lgth :: size_t
  headerParts :: "headerPart cell list"
  numHeaderParts :: u8
  maxHeaderParts :: u8
  currPartIdx :: u8
  seqIdx :: u8
  seqIdxAfterHeader :: u8

record msgParts =
  fromPart :: u16
  toPart :: u16
  mp_totalLgth :: u16
  mp_GUID :: mem
  srcId :: u32
  mp_hdrReserve :: u16
  mp_hdrFiller :: mem
  partsFlags :: u16
  mp_u16CmdKey :: u16
  mp_u8CmdLgth :: u8
  mp_u16CmdLgth :: u16
  mp_lgth :: size_t
  encryption :: u8
  realLgth :: u8
  mp_fieldOffset :: size_t
  buf :: mem

record identify =
  i_hdrInfos :: msgHeaderInfos
  i_received :: msgParts
  i_msg :: compMsgData
  i_tn :: "typesAndNames option"
  i_handles :: handleTable
  i_ids :: "u8 \<times> u8"
  i_forwarded :: "mem list"

abbreviation (input) "COMP_DISP_MAX_SEQUENCE \<equiv> (17 :: nat)"

abbreviation (input) "COMP_DISP_U16_DST \<equiv> 0x01"
abbreviation (input) "COMP_DISP_U16_SRC \<equiv> 0x02"
abbreviation (input) "COMP_DISP_U16_TOTAL_LGTH \<equiv> 0x04"
abbreviation (input) "COMP_DISP_U8_VECTOR_GUID \<equiv> 0x08"
abbreviation (input) "COMP_DISP_U16_SRC_ID \<equiv> 0x10"
abbreviation (input) "COMP_DISP_HDR_RESERVE \<equiv> 0x20"
abbreviation (input) "COMP_DISP_U8_VECTOR_HDR_FILLER \<equiv> 0x40"
abbreviation (input) "COMP_DISP_U16_CMD_KEY \<equiv> 0x80"
abbreviation (input) "COMP_DISP_U0_CMD_LGTH \<equiv> 0x100"
abbreviation (input) "COMP_DISP_U16_CMD_LGTH \<equiv> 0x400"
abbreviation (input) "COMP_DISP_U0_CRC \<equiv> 0x800"
abbreviation (input) "COMP_DISP_U8_CRC \<equiv> 0x1000"
abbreviation (input) "COMP_DISP_U16_CRC \<equiv> 0x2000"
abbreviation (input) "COMP_DISP_U0_TOTAL_CRC \<equiv> 0x4000"
abbreviation (input) "COMP_DISP_U8_TOTAL_CRC \<equiv> 0x8000"
abbreviation (input) "COMP_DISP_U16_TOTAL_CRC \<equiv> 0x10000"
abbreviation (input) "COMP_DISP_TOTAL_CRC \<equiv> (0x400 :: u32)"

definition resetHeaderInfos :: "msgHeaderInfos \<Rightarrow> errcode \<times> msgHeaderInfos" where
  "resetHeaderInfos hi = (COMP_MSG_ERR_OK, hi\<lparr>seqIdx := 0, seqIdxAfterHeader := 0, currPartIdx := 0\<rparr>)"

text \<open>\<open>resetMsgInfo\<close> of \<^verbatim>\<open>compMsgDispatcher.c\<close>.\<close>

definition resetMsgInfo :: "msgParts \<Rightarrow> errcode \<times> msgParts" where
  "resetMsgInfo parts =
    (COMP_MSG_ERR_OK,
     parts\<lparr>mp_lgth := 0, mp_fieldOffset := 0, fromPart := 0, toPart := 0, mp_totalLgth := 0,
           mp_GUID := replicate 16 0x20, srcId := 0, mp_u16CmdKey := 0\<rparr>)"

subsection \<open>Looking up the header\<close>

definition fitsEntry :: "msgParts \<Rightarrow> u16 \<Rightarrow> headerPart \<Rightarrow> bool" where
  "fitsEntry rcv cmdKey hdr \<longleftrightarrow>
     hdrToPart hdr = toPart rcv \<and> hdrFromPart hdr = fromPart rcv
     \<and> (hdrTotalLgth hdr = mp_totalLgth rcv \<or> hdrTotalLgth hdr = 0)
     \<and> (cmdKey \<noteq> 0 \<longrightarrow> cmdKey = mp_u16CmdKey rcv)"

definition nextFittingEntry ::
  "msgHeaderInfos \<times> msgParts \<Rightarrow> u16 \<Rightarrow> (errcode \<times> msgHeaderInfos \<times> msgParts) ub" where
  "nextFittingEntry s cmdKey =
    (case s of (hi, rcv) \<Rightarrow>
      let hi = hi\<lparr>seqIdx := seqIdxAfterHeader hi\<rparr> in
      do { r \<leftarrow> scan (headerParts hi) (fitsEntry rcv cmdKey) (unat (currPartIdx hi))
             (unat (numHeaderParts hi) - unat (currPartIdx hi));
           Some (case r of
               None \<Rightarrow> (COMP_MSG_ERR_HEADER_NOT_FOUND, hi, rcv)
             | Some (hdrIdx, hdr) \<Rightarrow>
                 (COMP_MSG_ERR_OK, hi\<lparr>currPartIdx := word_of_nat hdrIdx\<rparr>, rcv\<lparr>encryption := hdrEncryption hdr\<rparr>)) })"

text \<open>One header field: the value read at \<open>fieldOffset\<close> is stored and the offset moves on.\<close>

definition takeField :: "(errcode + 'a) ub \<Rightarrow> size_t \<Rightarrow> ('a \<Rightarrow> msgParts \<Rightarrow> msgParts ub) \<Rightarrow> msgParts \<Rightarrow> (errcode \<times> msgParts) ub"
  where
  "takeField r n upd rcv =
    do { r \<leftarrow> r;
         case r of
           Inl rc \<Rightarrow> Some (rc, rcv)
         | Inr v \<Rightarrow> do { rcv \<leftarrow> upd v rcv;
                        Some (COMP_MSG_ERR_OK, rcv\<lparr>mp_fieldOffset := mp_fieldOffset rcv + n\<rparr>) } }"

definition headerField :: "dataView \<Rightarrow> u8 \<Rightarrow> u16 \<Rightarrow> msgParts \<Rightarrow> (errcode \<times> msgParts) ub" where
  "headerField dv headerLgth seqVal rcv =
    (let off = mp_fieldOffset rcv in
     if seqVal = COMP_DISP_U16_DST then takeField (getUint16 dv off) 2 (\<lambda>v r. Some (r\<lparr>toPart := v\<rparr>)) rcv
     else if seqVal = COMP_DISP_U16_SRC then takeField (getUint16 dv off) 2 (\<lambda>v r. Some (r\<lparr>fromPart := v\<rparr>)) rcv
     else if seqVal = COMP_DISP_U16_TOTAL_LGTH then takeField (getUint16 dv off) 2 (\<lambda>v r. Some (r\<lparr>mp_totalLgth := v\<rparr>)) rcv
     else if seqVal = COMP_DISP_U16_SRC_ID then takeField (getUint32 dv off) 4 (\<lambda>v r. Some (r\<lparr>srcId := v\<rparr>)) rcv
     else if seqVal = COMP_DISP_HDR_RESERVE then takeField (getUint16 dv off) 2 (\<lambda>v r. Some (r\<lparr>mp_hdrReserve := v\<rparr>)) rcv
     else if seqVal = COMP_DISP_U8_VECTOR_GUID then
       takeField (getUint8Vector dv off 16) 16
         (\<lambda>v r. do { g \<leftarrow> wr_block (mp_GUID r) 0 v; Some (r\<lparr>mp_GUID := g\<rparr>) }) rcv
     else if seqVal = COMP_DISP_U8_VECTOR_HDR_FILLER then
       let n = ucast (ucast (ucast headerLgth - off) :: u8) in
       takeField (getUint8Vector dv off n) n
         (\<lambda>v r. do { g \<leftarrow> wr_block (mp_hdrFiller r) 0 v; Some (r\<lparr>mp_hdrFiller := g\<rparr>) }) rcv
     else Some (COMP_MSG_ERR_OK, rcv))"

text \<open>The loop over \<open>headerSequence\<close>, which ends at the first \<open>0\<close>; the array has no element behind its last.\<close>

primrec headerLoop ::
  "dataView \<Rightarrow> u16 list \<Rightarrow> msgHeaderInfos \<times> msgParts \<Rightarrow> (errcode \<times> msgHeaderInfos \<times> msgParts) ub" where
  "headerLoop dv [] s = None"
| "headerLoop dv (seqVal # rest) s =
    (if seqVal = 0 then Some (COMP_MSG_ERR_OK, s)
     else case s of (hi, rcv) \<Rightarrow>
       do { (rc, rcv) \<leftarrow> headerField dv (hi_headerLgth hi) seqVal rcv;
            if rc \<noteq> 0 then Some (rc, hi, rcv)
            else headerLoop dv rest (hi\<lparr>seqIdx := seqIdx hi + 1\<rparr>, rcv) })"

definition getHeaderIndexFromHeaderFields :: "allocs \<Rightarrow> identify \<Rightarrow> (errcode \<times> identify) ub" where
  "getHeaderIndexFromHeaderFields ok st =
    (let hi = i_hdrInfos st; rcv = i_received st in
     case newCompMsgDataView ok (fst (i_ids st)) (snd (i_ids st)) (buf rcv) (mp_lgth rcv) of (a, b, view) \<Rightarrow>
       let st = st\<lparr>i_ids := (a, b), i_msg := (i_msg st)\<lparr>cd_receivedView := view\<rparr>\<rparr> in
       (case view of
         None \<Rightarrow> Some (DATA_VIEW_ERR_OUT_OF_MEMORY, st)
       | Some v \<Rightarrow>
           do { (rc, hi, rcv) \<leftarrow> headerLoop (dataView v) (headerSequence hi)
                  (hi\<lparr>seqIdx := 0\<rparr>, rcv\<lparr>mp_fieldOffset := 0\<rparr>);
                if rc \<noteq> 0 then Some (rc, st\<lparr>i_hdrInfos := hi, i_received := rcv\<rparr>)
                else do {
                  (rc, hi, rcv) \<leftarrow> nextFittingEntry
                    (hi\<lparr>seqIdxAfterHeader := seqIdx hi, currPartIdx := 0\<rparr>, rcv) 0;
                  Some (rc, st\<lparr>i_hdrInfos := hi, i_received := rcv,
                               i_msg := (i_msg st)\<lparr>cd_receivedView := None\<rparr>\<rparr>) } }))"

subsection \<open>The header of a complete message\<close>

text \<open>
  \<open>while (hdr->fieldSequence[idx] != 0)\<close>: is there a total checksum of 8 bits?  (The flag for 16 bits
  is computed too and never read.)
\<close>

primrec hasU8TotalCrc :: "u32 list \<Rightarrow> bool \<Rightarrow> bool ub" where
  "hasU8TotalCrc [] b = None"
| "hasU8TotalCrc (e # es) b =
    (if e = 0 then Some b else hasU8TotalCrc es (b \<or> e = COMP_DISP_U8_TOTAL_CRC))"

text \<open>
  The search for the entry with the command key, from the entry \<open>hdr\<close> on.  Every round moves
  \<open>currPartIdx\<close> up, which ends the search.
\<close>

function cmdKeyLoop ::
  "msgHeaderInfos \<Rightarrow> msgParts \<Rightarrow> headerPart \<Rightarrow> (errcode \<times> msgHeaderInfos \<times> msgParts \<times> headerPart) ub" where
  "cmdKeyLoop hi rcv hdr =
    (if mp_u16CmdKey rcv = hdrU16CmdKey hdr then Some (COMP_MSG_ERR_OK, hi, rcv, hdr)
     else case nextFittingEntry (hi\<lparr>currPartIdx := currPartIdx hi + 1\<rparr>, rcv) (mp_u16CmdKey rcv) of
       None \<Rightarrow> None
     | Some (rc, hi, rcv) \<Rightarrow>
         if rc \<noteq> COMP_MSG_ERR_OK then Some (rc, hi, rcv, hdr)
         else case rd_cell (headerParts hi) (unat (currPartIdx hi)) of
           None \<Rightarrow> None
         | Some hdr \<Rightarrow> cmdKeyLoop hi rcv hdr)"
  by pat_completeness auto

lemma scan_found:
  "scan xs P i n = Some (Some (j, x)) \<Longrightarrow> i \<le> j \<and> j < i + n \<and> rd_cell xs j = Some x \<and> P x"
proof (induction n arbitrary: i)
  case (Suc n)
  then show ?case by (auto simp: bind_eq_Some_conv split: if_splits dest!: Suc.IH)
qed simp

lemma nextFittingEntry_found:
  assumes "nextFittingEntry (hi, rcv) k = Some (COMP_MSG_ERR_OK, hi', rcv')"
  shows "unat (currPartIdx hi) \<le> unat (currPartIdx hi')" "unat (currPartIdx hi') < 255"
proof -
  from assms obtain j h where sc: "scan (headerParts hi) (fitsEntry rcv k) (unat (currPartIdx hi))
      (unat (numHeaderParts hi) - unat (currPartIdx hi)) = Some (Some (j, h))"
    and hi': "currPartIdx hi' = word_of_nat j"
    by (auto simp: nextFittingEntry_def Let_def bind_eq_Some_conv split: option.splits prod.splits)
  have "unat (numHeaderParts hi) < 256" using unsigned_less [of "numHeaderParts hi"] by simp
  with scan_found [OF sc] have "unat (currPartIdx hi) \<le> j" "j < 255" by linarith+
  then show "unat (currPartIdx hi) \<le> unat (currPartIdx hi')" "unat (currPartIdx hi') < 255"
    by (simp_all add: hi' unat_of_nat)
qed

lemma next_index_measure:
  fixes c c' :: u8
  assumes "unat (c + 1) \<le> unat c'" "unat c' < 255"
  shows "256 - unat (c' + 1) < 256 - unat (c + 1)"
proof -
  from assms(2) have "unat (c' + 1) = unat c' + 1" by (simp add: unat_word_ariths)
  with assms show ?thesis by simp
qed

termination cmdKeyLoop
proof (relation "measure (\<lambda>(hi, rcv, hdr). 256 - unat (currPartIdx hi + 1))", goal_cases)
  case (2 hi rcv hdr p rc q hi' rcv' hdr')
  then have "nextFittingEntry (hi\<lparr>currPartIdx := currPartIdx hi + 1\<rparr>, rcv) (mp_u16CmdKey rcv)
      = Some (COMP_MSG_ERR_OK, hi', rcv')" by simp
  from nextFittingEntry_found [OF this] show ?case by (simp add: next_index_measure)
qed simp

declare cmdKeyLoop.simps [simp del]

text \<open>
  The locals of \<open>handleReceivedHeader\<close> that the loop changes; \<open>None\<close> is an indeterminate value.
\<close>

record hdrLocals =
  l_hdr :: headerPart
  l_result :: "errcode option"
  l_u16 :: "u16 option"

definition readU16 :: "dataView \<Rightarrow> size_t \<Rightarrow> hdrLocals \<Rightarrow> hdrLocals ub" where
  "readU16 dv off l =
    do { r \<leftarrow> getUint16 dv off;
         Some (case r of Inl rc \<Rightarrow> l\<lparr>l_result := Some rc\<rparr>
                 | Inr v \<Rightarrow> l\<lparr>l_result := Some COMP_MSG_ERR_OK, l_u16 := Some v\<rparr>) }"

text \<open>The offset of the payload checksum of \<open>n\<close> bytes, in front of a total checksum.\<close>

definition crcOffset :: "msgParts \<Rightarrow> headerPart \<Rightarrow> bool \<Rightarrow> size_t \<Rightarrow> size_t" where
  "crcOffset rcv hdr u8TotalCrc n =
    ucast (mp_totalLgth rcv) - n
      - (if hdrFlags hdr AND COMP_DISP_TOTAL_CRC \<noteq> 0 then (if u8TotalCrc then 1 else 2) else 0)"

text \<open>One entry of \<open>fieldSequence\<close>; the code returned first is that of a \<open>return\<close> inside the switch.\<close>

type_synonym hdrState = "msgHeaderInfos \<times> msgParts \<times> hdrLocals"

definition headerEntry :: "dataView \<Rightarrow> bool \<Rightarrow> u32 \<Rightarrow> hdrState \<Rightarrow> (errcode \<times> hdrState) ub" where
  "headerEntry dv u8TotalCrc e s =
    (case s of (hi, rcv, l) \<Rightarrow>
     let off = ucast (hi_headerLgth hi);
         rcv = rcv\<lparr>mp_fieldOffset := off\<rparr>;
         crc = (\<lambda>n. let pos = crcOffset rcv (l_hdr l) u8TotalCrc (ucast n) in
            do { r \<leftarrow> getCrc dv (zeroField\<lparr>f_fieldLgth := n, f_fieldOffset := pos\<rparr>) off pos;
                 Some (COMP_MSG_ERR_OK, hi, rcv, l\<lparr>l_result := Some r\<rparr>) });
         ok = Some (COMP_MSG_ERR_OK, hi, rcv, l\<lparr>l_result := Some COMP_MSG_ERR_OK\<rparr>) in
     if e = COMP_DISP_U16_CMD_KEY then
       do { l \<leftarrow> readU16 dv off l;
            k \<leftarrow> l_u16 l;
            (rc, hi, rcv, hdr) \<leftarrow> cmdKeyLoop hi
              (rcv\<lparr>mp_u16CmdKey := k, mp_fieldOffset := off + 2,
                   partsFlags := partsFlags rcv OR COMP_DISP_U16_CMD_KEY\<rparr>) (l_hdr l);
            Some (rc, hi, rcv,
              l\<lparr>l_hdr := hdr, l_result := (if k = hdrU16CmdKey (l_hdr l) then l_result l else Some COMP_MSG_ERR_OK)\<rparr>) }
     else if e = COMP_DISP_U0_CMD_LGTH then Some (COMP_MSG_ERR_OK, hi, rcv\<lparr>mp_fieldOffset := off + 2\<rparr>, l)
     else if e = COMP_DISP_U16_CMD_LGTH then
       do { l \<leftarrow> readU16 dv off l;
            k \<leftarrow> l_u16 l;
            Some (COMP_MSG_ERR_OK, hi, rcv\<lparr>mp_u16CmdLgth := k, mp_fieldOffset := off + 2\<rparr>, l) }
     else if e = COMP_DISP_U0_CRC then ok
     else if e = COMP_DISP_U8_CRC then crc 1
     else if e = COMP_DISP_U16_CRC then crc 2
     else if e = COMP_DISP_U0_TOTAL_CRC \<or> e = COMP_DISP_U8_TOTAL_CRC \<or> e = COMP_DISP_U16_TOTAL_CRC then ok
     else Some (COMP_MSG_ERR_OK, hi, rcv, l))"

text \<open>
  The loop over the entries from \<open>seqIdx\<close> on.  A change of the entry of the table sets \<open>seqIdx\<close> back
  behind the header and moves \<open>currPartIdx\<close> up; every other round moves \<open>seqIdx\<close> up.
\<close>

definition rdSequence :: "headerPart \<Rightarrow> nat \<Rightarrow> u32 ub" where
  "rdSequence hdr i =
    (if i < COMP_DISP_MAX_SEQUENCE \<and> i < length (fieldSequence hdr) then Some (fieldSequence hdr ! i) else None)"

lemma cmdKeyLoop_cases:
  assumes "cmdKeyLoop hi rcv hdr = Some (rc, hi', rcv', hdr')"
  obtains (found) "hi' = hi" "rcv' = rcv" "hdr' = hdr" "mp_u16CmdKey rcv = hdrU16CmdKey hdr"
  | (stop) "nextFittingEntry (hi\<lparr>currPartIdx := currPartIdx hi + 1\<rparr>, rcv) (mp_u16CmdKey rcv) = Some (rc, hi', rcv')"
  | (step) hi1 rcv1 hdr1 where "mp_u16CmdKey rcv \<noteq> hdrU16CmdKey hdr"
      "nextFittingEntry (hi\<lparr>currPartIdx := currPartIdx hi + 1\<rparr>, rcv) (mp_u16CmdKey rcv) = Some (COMP_MSG_ERR_OK, hi1, rcv1)"
      "rd_cell (headerParts hi1) (unat (currPartIdx hi1)) = Some hdr1"
      "cmdKeyLoop hi1 rcv1 hdr1 = Some (rc, hi', rcv', hdr')"
  using assms by (subst (asm) cmdKeyLoop.simps) (auto split: option.splits if_splits)

lemma cmdKeyLoop_index:
  "cmdKeyLoop hi rcv hdr = Some (COMP_MSG_ERR_OK, hi', rcv', hdr') \<Longrightarrow>
   hi' = hi \<or> 256 - unat (currPartIdx hi' + 1) < 256 - unat (currPartIdx hi + 1)"
proof (induction hi rcv hdr rule: cmdKeyLoop.induct)
  case (1 hi rcv hdr)
  have next_: "256 - unat (currPartIdx hi1 + 1) < 256 - unat (currPartIdx hi + 1)"
    if "nextFittingEntry (hi\<lparr>currPartIdx := currPartIdx hi + 1\<rparr>, rcv) k = Some (COMP_MSG_ERR_OK, hi1, rcv1)" for k hi1 rcv1
    using nextFittingEntry_found [OF that] by (simp add: next_index_measure)
  from "1.prems" show ?case
  proof (cases rule: cmdKeyLoop_cases)
    case (step hi1 rcv1 hdr1)
    from "1.IH" [OF step(1,2) _ _ _ step(3,4)]
    have "hi' = hi1 \<or> 256 - unat (currPartIdx hi' + 1) < 256 - unat (currPartIdx hi1 + 1)" by simp
    with next_ [OF step(2)] show ?thesis by auto
  qed (simp_all add: next_)
qed

lemma headerEntry_index:
  assumes "headerEntry dv u e (hi, rcv, l) = Some (COMP_MSG_ERR_OK, hi', rcv', l')"
  shows "hi' = hi \<or> 256 - unat (currPartIdx hi' + 1) < 256 - unat (currPartIdx hi + 1)"
  using assms
  by (auto simp: headerEntry_def Let_def bind_eq_Some_conv split: if_splits dest: cmdKeyLoop_index)

function headerEntries :: "dataView \<Rightarrow> bool \<Rightarrow> hdrState \<Rightarrow> (errcode \<times> hdrState) ub" where
  "headerEntries dv u8TotalCrc (hi, rcv, l) =
    (case rdSequence (l_hdr l) (unat (seqIdx hi)) of
       None \<Rightarrow> None
     | Some e \<Rightarrow>
         if e = 0 then Some (COMP_MSG_ERR_OK, hi, rcv, l)
         else case headerEntry dv u8TotalCrc e (hi, rcv, l) of
           None \<Rightarrow> None
         | Some (rc, hi', rcv', l') \<Rightarrow>
             if rc \<noteq> COMP_MSG_ERR_OK then Some (rc, hi', rcv', l')
             else case l_result l' of
               None \<Rightarrow> None
             | Some result \<Rightarrow>
                 if result \<noteq> COMP_MSG_ERR_OK then Some (result, hi', rcv', l')
                 else headerEntries dv u8TotalCrc (hi'\<lparr>seqIdx := seqIdx hi' + 1\<rparr>, rcv', l'))"
  by pat_completeness auto

termination headerEntries
proof (relation "measures [\<lambda>(dv, u, hi, rcv, l). 256 - unat (currPartIdx hi + 1),
                           \<lambda>(dv, u, hi, rcv, l). 256 - unat (seqIdx hi)]", goal_cases)
  case (2 dv u hi rcv l e p rc q hi' r rcv' l' result)
  then have h: "headerEntry dv u e (hi, rcv, l) = Some (COMP_MSG_ERR_OK, hi', rcv', l')"
    and "unat (seqIdx hi) < 17" by (simp_all add: rdSequence_def split: if_splits)
  then have "unat (seqIdx hi + 1) = unat (seqIdx hi) + 1" by (simp add: unat_word_ariths)
  with headerEntry_index [OF h] \<open>unat (seqIdx hi) < 17\<close> show ?case by auto
qed simp

declare headerEntries.simps [simp del]

definition handleReceivedHeader :: "allocs \<Rightarrow> identify \<Rightarrow> (errcode \<times> identify) ub" where
  "handleReceivedHeader ok st =
    (let hi = i_hdrInfos st; rcv = i_received st in
     case newCompMsgDataView ok (fst (i_ids st)) (snd (i_ids st)) (buf rcv) (ucast (mp_totalLgth rcv)) of (a, b, view) \<Rightarrow>
       let st = st\<lparr>i_ids := (a, b), i_msg := (i_msg st)\<lparr>cd_receivedView := view\<rparr>\<rparr> in
       (case view of
         None \<Rightarrow> Some (DATA_VIEW_ERR_OUT_OF_MEMORY, st)
       | Some v \<Rightarrow>
           do { hdr \<leftarrow> rd_cell (headerParts hi) (unat (currPartIdx hi));
                u8TotalCrc \<leftarrow> hasU8TotalCrc (take COMP_DISP_MAX_SEQUENCE (fieldSequence hdr)) False;
                (rc, hi, rcv, _) \<leftarrow> headerEntries (dataView v) u8TotalCrc
                  (hi, rcv\<lparr>mp_lgth := ucast (hi_headerLgth hi)\<rparr>, \<lparr>l_hdr = hdr, l_result = None, l_u16 = None\<rparr>);
                let st = st\<lparr>i_hdrInfos := hi, i_received := rcv\<rparr>;
                if rc \<noteq> 0 then Some (rc, st)
                else do { (_, tn, t, msg) \<leftarrow> deleteMsg (i_tn st) (i_handles st) (i_msg st);
                          Some (COMP_MSG_ERR_OK, st\<lparr>i_tn := tn, i_handles := t, i_msg := msg\<rparr>) } }))"

subsection \<open>Storing and forwarding a message\<close>

text \<open>
  \<open>prepareAnswerMsg\<close> passes its local pointer \<open>msgDescription\<close> to \<open>createMsgFromHeaderPart\<close> and never
  assigns it, as its own comment says; the read of the indeterminate pointer is undefined.
\<close>

definition msgDescription_uninitialised :: "'a ub" where
  "msgDescription_uninitialised = None"

definition prepareAnswerMsg :: "identify \<Rightarrow> (errcode \<times> identify) ub" where
  "prepareAnswerMsg st = do { _ \<leftarrow> msgDescription_uninitialised :: unit ub; Some (COMP_MSG_ERR_OK, st) }"

text \<open>
  The loop over \<open>fieldsToSave\<close> has an empty body, the loop over the action callbacks is not compiled.
\<close>

definition storeReceivedMsg :: "allocs \<Rightarrow> identify \<Rightarrow> (errcode \<times> identify) ub" where
  "storeReceivedMsg ok st =
    checkErrOK (handleReceivedHeader ok st) (\<lambda>st.
      case newCompMsgDataView (\<lambda>k. ok (k + 2)) (fst (i_ids st)) (snd (i_ids st))
             (buf (i_received st)) (ucast (mp_totalLgth (i_received st))) of (a, b, view) \<Rightarrow>
      do { (rc, msg) \<leftarrow> initReceivedMsg ((i_msg st)\<lparr>cd_view := view\<rparr>);
           let st = st\<lparr>i_ids := (a, b), i_msg := msg\<rparr>;
           if rc \<noteq> 0 then Some (rc, st)
           else do {
             (_, tn, t, msg) \<leftarrow> deleteMsg (i_tn st) (i_handles st) (i_msg st);
             checkErrOK (prepareAnswerMsg (st\<lparr>i_tn := tn, i_handles := t, i_msg := msg\<rparr>)) (\<lambda>st.
               case resetMsgInfo (i_received st) of (rc, rcv) \<Rightarrow> Some (rc, st\<lparr>i_received := rcv\<rparr>)) } })"

definition handleReceivedMsg :: "allocs \<Rightarrow> identify \<Rightarrow> (errcode \<times> identify) ub" where
  "handleReceivedMsg ok st =
    do { (_, st) \<leftarrow> handleReceivedHeader ok st;
         checkErrOK (prepareAnswerMsg st) (\<lambda>st.
           case resetMsgInfo (i_received st) of (rc, rcv) \<Rightarrow> Some (rc, st\<lparr>i_received := rcv\<rparr>)) }"

text \<open>
  The test of the total checksum.  A view that exists is pointed at the received bytes for the
  test and restored only when the test succeeds; a new one keeps the bytes it is created on.
\<close>

definition checkTotalCrc :: "allocs \<Rightarrow> bool \<Rightarrow> identify \<Rightarrow> (errcode \<times> identify) ub" where
  "checkTotalCrc ok u8TotalCrc st =
    (let rcv = i_received st;
         n = (if u8TotalCrc then 1 else 2);
         field = zeroField\<lparr>f_fieldLgth := n, f_fieldOffset := ucast (mp_totalLgth rcv) - ucast n\<rparr> in
     case cd_view (i_msg st) of
       Some v \<Rightarrow>
         let dv = (dataView v)\<lparr>data := buf rcv, lgth := ucast (mp_totalLgth rcv)\<rparr> in
         do { rc \<leftarrow> getTotalCrc dv field;
              Some (rc, if rc = 0 then st else st\<lparr>i_msg := (i_msg st)\<lparr>cd_view := Some (v\<lparr>dataView := dv\<rparr>)\<rparr>\<rparr>) }
     | None \<Rightarrow>
         (case newCompMsgDataView ok (fst (i_ids st)) (snd (i_ids st)) (buf rcv) (mp_lgth rcv) of (a, b, view) \<Rightarrow>
          do { v \<leftarrow> view;
               rc \<leftarrow> getTotalCrc (dataView v) field;
               Some (rc, st\<lparr>i_ids := (a, b), i_msg := (i_msg st)\<lparr>cd_view := Some v\<rparr>\<rparr>) }))"

definition decryptReceived ::
  "'c aes_funcs \<Rightarrow> mem \<Rightarrow> mem \<Rightarrow> bool \<Rightarrow> headerPart \<Rightarrow> bool \<Rightarrow> identify \<Rightarrow> (errcode \<times> identify) ub" where
  "decryptReceived aes cryptKey cryptIvKey ok hdr u8TotalCrc st =
    (let rcv = i_received st;
         off = ucast (hi_headerLgth (i_hdrInfos st)) in
     if hdrEncryption hdr \<noteq> 69 then Some (COMP_MSG_ERR_OK, st)
     else do {
       (rc, decrypted, decryptedLgth) \<leftarrow> decryptMsg aes ok (drop (unat off) (buf rcv))
         (crcOffset rcv hdr u8TotalCrc off) cryptKey cryptIvKey 16;
       if rc \<noteq> 0 then Some (rc, st)
       else case decrypted of
         Block d \<Rightarrow> do { bs \<leftarrow> rd_block d 0 (unat decryptedLgth);
                        m \<leftarrow> wr_block (buf rcv) off bs;
                        Some (COMP_MSG_ERR_OK, st\<lparr>i_received := rcv\<lparr>buf := m\<rparr>\<rparr>) }
       | _ \<Rightarrow> None })"

text \<open>\<open>forwardMsg\<close> of \<^verbatim>\<open>compMsgBuildMsg.c\<close>; the result of \<open>sendMsg\<close> is dropped.\<close>

definition forwardMsg :: "identify \<Rightarrow> (errcode \<times> identify) ub" where
  "forwardMsg st =
    do { bs \<leftarrow> rd_block (buf (i_received st)) 0 (unat (mp_totalLgth (i_received st)));
         Some (COMP_MSG_ERR_OK, st\<lparr>i_forwarded := i_forwarded st @ [bs]\<rparr>) }"

subsection \<open>Collecting the bytes\<close>

text \<open>The handle types are the letters \<open>G\<close>, \<open>R\<close>, \<open>D\<close> (71, 82, 68), \<open>U\<close>, \<open>W\<close> (85, 87).\<close>

definition messageComplete ::
  "'c aes_funcs \<Rightarrow> mem \<Rightarrow> mem \<Rightarrow> allocs \<Rightarrow> identify \<Rightarrow> (errcode \<times> identify) ub" where
  "messageComplete aes cryptKey cryptIvKey ok st =
    do { hdr \<leftarrow> rd_cell (headerParts (i_hdrInfos st)) (unat (currPartIdx (i_hdrInfos st)));
         u8TotalCrc \<leftarrow> hasU8TotalCrc (take COMP_DISP_MAX_SEQUENCE (fieldSequence hdr)) False;
         if hdrHandleType hdr \<in> {71, 82, 68} then
           checkErrOK (checkTotalCrc (\<lambda>k. ok (k + 2)) u8TotalCrc st) (\<lambda>st.
           checkErrOK (decryptReceived aes cryptKey cryptIvKey (ok 4) hdr u8TotalCrc st) (\<lambda>st.
           storeReceivedMsg (\<lambda>k. ok (k + 5)) st))
         else if hdrHandleType hdr \<in> {85, 87} then
           forwardMsg (st\<lparr>i_msg := (i_msg st)\<lparr>cd_currHdr := Some (hdrEncryption hdr)\<rparr>\<rparr>)
         else Some (COMP_MSG_ERR_FUNNY_HANDLE_TYPE, st) }"

definition storeByte :: "u8 \<Rightarrow> msgParts \<Rightarrow> msgParts ub" where
  "storeByte b rcv =
    do { m \<leftarrow> wr_byte (buf rcv) (mp_lgth rcv) b;
         Some (rcv\<lparr>buf := m, mp_lgth := mp_lgth rcv + 1, realLgth := realLgth rcv + 1\<rparr>) }"

primrec handleReceivedPart ::
  "'c aes_funcs \<Rightarrow> mem \<Rightarrow> mem \<Rightarrow> allocs \<Rightarrow> identify \<Rightarrow> mem \<Rightarrow> (errcode \<times> identify) ub" where
  "handleReceivedPart aes cryptKey cryptIvKey ok st [] = Some (COMP_MSG_ERR_OK, st)"
| "handleReceivedPart aes cryptKey cryptIvKey ok st (b # bs) =
    do { rcv \<leftarrow> storeByte b (i_received st);
         let st = st\<lparr>i_received := rcv\<rparr>;
         checkErrOK
           (if mp_lgth rcv = ucast (hi_headerLgth (i_hdrInfos st)) then getHeaderIndexFromHeaderFields ok st
            else Some (COMP_MSG_ERR_OK, st))
           (\<lambda>st. if mp_lgth (i_received st) = ucast (mp_totalLgth (i_received st))
                 then messageComplete aes cryptKey cryptIvKey ok st
                 else handleReceivedPart aes cryptKey cryptIvKey ok st bs) }"

end
