(* ===== verification/CompMsgReceive.thy ===== *)
theory CompMsgReceive
  imports CompMsgIdentify
begin

text \<open>
  What \<^verbatim>\<open>compMsgIdentify.c\<close> does with incoming bytes: the header fields a sender encoded are read back
  and select the first fitting entry of the table, the command key selects the entry of the whole
  table, bytes may arrive in any pieces, and the buffer is the only bound on the length.
\<close>

subsection \<open>The header as the sender writes it\<close>

definition headerCodes :: "u16 set" where
  "headerCodes = {COMP_DISP_U16_DST, COMP_DISP_U16_SRC, COMP_DISP_U16_TOTAL_LGTH, COMP_DISP_U8_VECTOR_GUID,
     COMP_DISP_U16_SRC_ID, COMP_DISP_HDR_RESERVE}"

definition fieldBytes :: "msgParts \<Rightarrow> u16 \<Rightarrow> mem" where
  "fieldBytes h c =
    (if c = COMP_DISP_U16_DST then be16 (toPart h)
     else if c = COMP_DISP_U16_SRC then be16 (fromPart h)
     else if c = COMP_DISP_U16_TOTAL_LGTH then be16 (mp_totalLgth h)
     else if c = COMP_DISP_U8_VECTOR_GUID then mp_GUID h
     else if c = COMP_DISP_U16_SRC_ID then be32 (srcId h)
     else if c = COMP_DISP_HDR_RESERVE then be16 (mp_hdrReserve h)
     else [])"

definition encodeHeader :: "u16 list \<Rightarrow> msgParts \<Rightarrow> mem" where
  "encodeHeader cs h = concat (map (fieldBytes h) cs)"

text \<open>The entries of the table of headers, and the first one with a property from entry \<open>i\<close> on.\<close>

definition tableOf :: "msgHeaderInfos \<Rightarrow> headerPart list \<Rightarrow> bool" where
  "tableOf hi hs \<longleftrightarrow> (\<exists>free. headerParts hi = map Def hs @ free) \<and> numHeaderParts hi = word_of_nat (length hs) \<and> length hs < 256"

definition firstFrom :: "(headerPart \<Rightarrow> bool) \<Rightarrow> nat \<Rightarrow> headerPart list \<Rightarrow> (nat \<times> headerPart) option" where
  "firstFrom P i hs = find_idx P i (drop i hs)"

text \<open>The state after bytes were appended to the buffer.\<close>

definition collected :: "mem \<Rightarrow> msgParts \<Rightarrow> msgParts" where
  "collected bs rcv = rcv\<lparr>buf := put (buf rcv) (unat (mp_lgth rcv)) bs, mp_lgth := mp_lgth rcv + word_of_nat (length bs),
     realLgth := realLgth rcv + word_of_nat (length bs)\<rparr>"

subsection \<open>Reading the header\<close>

lemma fieldBytes_other [simp]:
  "fieldBytes (r\<lparr>encryption := e\<rparr>) = fieldBytes r" "fieldBytes (r\<lparr>mp_fieldOffset := n\<rparr>) = fieldBytes r"
  "fieldBytes (r\<lparr>mp_hdrFiller := f\<rparr>) = fieldBytes r"
  by (simp_all add: fieldBytes_def fun_eq_iff)

lemma be_inj [simp]: "be16 x = be16 y \<longleftrightarrow> x = y" "be32 a = be32 b \<longleftrightarrow> a = b"
  by (metis from_be16_be16, metis from_be32_be32)

text \<open>Reads in a block that starts with \<open>pre\<close>.\<close>

lemma read_field:
  assumes d: "data dv = pre @ bs @ post" and o: "unat off = length pre" and l: "length pre + length bs \<le> unat (lgth dv)"
  shows "bs = be16 x \<Longrightarrow> getUint16 dv off = Some (Inr x)"
    and "bs = be32 y \<Longrightarrow> getUint32 dv off = Some (Inr y)"
    and "length bs = n \<Longrightarrow> getUint8Vector dv off (word_of_nat n) = Some (Inr bs)"
proof -
  have s: "unat (off + word_of_nat k) = length pre + k" if "k \<le> length bs" for k
  proof -
    from l that have "length pre + k < 4294967296" using unat_u32_less [of "lgth dv"] by linarith
    then show ?thesis by (simp add: unat_plus_small o unat_of_nat)
  qed
  have r: "rd_byte (data dv) (off + word_of_nat k) = Some (bs ! k)" if "k < length bs" for k
    using that s [of k] by (simp add: rd_byte_def d nth_append)
  have c: "\<not> lgth dv < off + word_of_nat k" if "k \<le> length bs" for k
    using s [OF that] l that by (simp add: word_less_nat_alt)
  show "getUint16 dv off = Some (Inr x)" if "bs = be16 x"
  proof -
    have "getUint16 dv off = Some (Inr (from_be16 bs))"
      using r [of 0] r [of 1] c [of 1] that by (simp add: getUint16_def from_be16_def)
    with that show ?thesis by simp
  qed
  show "getUint32 dv off = Some (Inr y)" if "bs = be32 y"
  proof -
    have "getUint32 dv off = Some (Inr (from_be32 bs))"
      using r [of 0] r [of 1] r [of 2] r [of 3] c [of 3] that by (simp add: getUint32_def from_be32_def)
    with that show ?thesis by simp
  qed
  show "getUint8Vector dv off (word_of_nat n) = Some (Inr bs)" if "length bs = n"
  proof -
    have "n < 4294967296" using l that unat_u32_less [of "lgth dv"] by linarith
    with s [of n] l that show ?thesis
      by (simp add: getUint8Vector_def word_less_nat_alt rd_block_def d o unat_of_nat)
  qed
qed

lemmas header_defs = headerField_def takeField_def fieldBytes_def fun_eq_iff

lemma headerField_reads:
  assumes "c \<in> headerCodes" and d: "data dv = pre @ fieldBytes h c @ post" and o: "unat (mp_fieldOffset rcv) = length pre"
    and l: "length pre + length (fieldBytes h c) \<le> unat (lgth dv)"
    and g: "length (mp_GUID rcv) = 16" "length (mp_GUID h) = 16"
  shows "\<exists>rcv'. headerField dv n c rcv = Some (COMP_MSG_ERR_OK, rcv')
    \<and> unat (mp_fieldOffset rcv') = length pre + length (fieldBytes h c)
    \<and> fieldBytes rcv' = (fieldBytes rcv)(c := fieldBytes h c)
    \<and> length (mp_GUID rcv') = 16 \<and> mp_hdrFiller rcv' = mp_hdrFiller rcv
    \<and> buf rcv' = buf rcv \<and> mp_lgth rcv' = mp_lgth rcv"
proof -
  have step: "unat (mp_fieldOffset rcv + w) = length pre + length (fieldBytes h c)" if "unat w = length (fieldBytes h c)" for w
    using that l o unat_u32_less [of "lgth dv"] by (simp add: unat_plus_small)
  note r = read_field [OF d o l]
  show ?thesis
    using assms(1) unfolding headerCodes_def
  proof (elim insertE, goal_cases)
    case 1
    then show ?case using r(1) [of "toPart h"] step [of 2]
      by (auto simp: header_defs g)
  next
    case 2
    then show ?case using r(1) [of "fromPart h"] step [of 2]
      by (auto simp: header_defs g)
  next
    case 3
    then show ?case using r(1) [of "mp_totalLgth h"] step [of 2]
      by (auto simp: header_defs g)
  next
    case 4
    then show ?case using r(3) [of 16] step [of 16]
      by (auto simp: header_defs g wr_block_def put_whole)
  next
    case 5
    then show ?case using r(2) [of "srcId h"] step [of 4]
      by (auto simp: header_defs g)
  next
    case 6
    then show ?case using r(1) [of "mp_hdrReserve h"] step [of 2]
      by (auto simp: header_defs g)
  qed simp
qed

lemma headerCodes_not_0: "c \<in> headerCodes \<Longrightarrow> c \<noteq> 0 \<and> c \<noteq> COMP_DISP_U8_VECTOR_HDR_FILLER"
  by (auto simp: headerCodes_def)

lemma headerLoop_reads:
  assumes "set cs \<subseteq> headerCodes" and "data dv = pre @ encodeHeader cs h @ post"
    and "unat (mp_fieldOffset rcv) = length pre"
    and "length pre + length (encodeHeader cs h) \<le> unat (lgth dv)"
    and "length (mp_GUID rcv) = 16" "length (mp_GUID h) = 16"
  shows "\<exists>rcv'. headerLoop dv (cs @ vs) (hi, rcv) = headerLoop dv vs (hi\<lparr>seqIdx := seqIdx hi + word_of_nat (length cs)\<rparr>, rcv')
    \<and> unat (mp_fieldOffset rcv') = length pre + length (encodeHeader cs h)
    \<and> (\<forall>c. fieldBytes rcv' c = (if c \<in> set cs then fieldBytes h c else fieldBytes rcv c))
    \<and> mp_hdrFiller rcv' = mp_hdrFiller rcv \<and> buf rcv' = buf rcv \<and> mp_lgth rcv' = mp_lgth rcv"
  using assms
proof (induction cs arbitrary: pre rcv hi)
  case Nil
  then show ?case by (intro exI [of _ rcv]) (auto simp: encodeHeader_def)
next
  case (Cons c cs)
  have e: "encodeHeader (c # cs) h = fieldBytes h c @ encodeHeader cs h" by (simp add: encodeHeader_def)
  have c: "c \<in> headerCodes" using Cons.prems(1) by simp
  obtain r1 where r1: "headerField dv (hi_headerLgth hi) c rcv = Some (COMP_MSG_ERR_OK, r1)"
      "unat (mp_fieldOffset r1) = length pre + length (fieldBytes h c)"
      "fieldBytes r1 = (fieldBytes rcv)(c := fieldBytes h c)" "length (mp_GUID r1) = 16"
      "mp_hdrFiller r1 = mp_hdrFiller rcv" "buf r1 = buf rcv" "mp_lgth r1 = mp_lgth rcv"
    using headerField_reads [OF c, of dv pre h "encodeHeader cs h @ post" rcv "hi_headerLgth hi"] Cons.prems
    by (auto simp: e)
  have "\<exists>rcv'. headerLoop dv (cs @ vs) (hi\<lparr>seqIdx := seqIdx hi + 1\<rparr>, r1)
      = headerLoop dv vs ((hi\<lparr>seqIdx := seqIdx hi + 1\<rparr>)\<lparr>seqIdx := seqIdx (hi\<lparr>seqIdx := seqIdx hi + 1\<rparr>) + word_of_nat (length cs)\<rparr>, rcv')
    \<and> unat (mp_fieldOffset rcv') = length (pre @ fieldBytes h c) + length (encodeHeader cs h)
    \<and> (\<forall>c. fieldBytes rcv' c = (if c \<in> set cs then fieldBytes h c else fieldBytes r1 c))
    \<and> mp_hdrFiller rcv' = mp_hdrFiller r1 \<and> buf rcv' = buf r1 \<and> mp_lgth rcv' = mp_lgth r1"
    by (rule Cons.IH) (use Cons.prems r1 in \<open>auto simp: e\<close>)
  then show ?case using headerCodes_not_0 [OF c]
    by (auto simp: r1 e add.assoc split: if_splits)
qed

lemma headerLoop_filler:
  assumes f: "fl \<in> {[], [COMP_DISP_U8_VECTOR_HDR_FILLER]}"
    and "unat (mp_fieldOffset rcv) \<le> unat (hi_headerLgth hi)" and "unat (hi_headerLgth hi) \<le> unat (lgth dv)"
    and "unat (lgth dv) \<le> length (data dv)"
    and "unat (hi_headerLgth hi) \<le> unat (mp_fieldOffset rcv) + length (mp_hdrFiller rcv)"
  shows "\<exists>rcv'. headerLoop dv (fl @ 0 # rest) (hi, rcv)
      = Some (COMP_MSG_ERR_OK, hi\<lparr>seqIdx := seqIdx hi + word_of_nat (length fl)\<rparr>, rcv')
    \<and> fieldBytes rcv' = fieldBytes rcv \<and> buf rcv' = buf rcv \<and> mp_lgth rcv' = mp_lgth rcv"
proof (cases "fl = []")
  case True
  then show ?thesis by (intro exI [of _ rcv]) simp
next
  case False
  let ?o = "mp_fieldOffset rcv"
  obtain n where n: "unat (hi_headerLgth hi) = unat ?o + n" using assms(2) le_Suc_ex by blast
  have "unat (hi_headerLgth hi) < 256" using unsigned_less [of "hi_headerLgth hi"] by simp
  then have n256: "n < 256" by (simp add: n)
  have "ucast (hi_headerLgth hi) - ?o = word_of_nat n"
    using n n256 by (simp add: word_unat_eq_iff unat_sub_if_size unat_of_nat)
  moreover have "ucast (ucast (word_of_nat n :: size_t) :: u8) = (word_of_nat n :: size_t)"
    using n256 by (simp add: word_unat_eq_iff unsigned_ucast_eq unsigned_take_bit_eq unat_of_nat take_bit_nat_eq_self_iff)
  ultimately have w: "ucast (ucast (ucast (hi_headerLgth hi) - ?o) :: u8) = (word_of_nat n :: size_t)" by simp
  have u: "unat (word_of_nat n :: size_t) = n" using n256 by (simp add: unat_of_nat)
  have on: "unat (?o + word_of_nat n) = unat ?o + n"
    using assms(3) n unat_u32_less [of "lgth dv"] by (simp add: unat_plus_small u)
  have "getUint8Vector dv ?o (word_of_nat n) = Some (Inr (take n (drop (unat ?o) (data dv))))"
    using assms(3,4) n by (simp add: getUint8Vector_def word_less_nat_alt on rd_block_def u)
  moreover have "unat ?o + n \<le> length (data dv)" "n \<le> length (mp_hdrFiller rcv)"
    using assms(3-5) n by auto
  ultimately show ?thesis using f False
    by (auto simp: headerField_def takeField_def Let_def w wr_block_def)
qed

subsection \<open>Looking up the header\<close>

lemma nextFittingEntry_table:
  assumes t: "tableOf hi hs" and i: "unat (currPartIdx hi) \<le> length hs"
  shows "nextFittingEntry (hi, rcv) k = Some
    (case firstFrom (fitsEntry rcv k) (unat (currPartIdx hi)) hs of
       None \<Rightarrow> (COMP_MSG_ERR_HEADER_NOT_FOUND, hi\<lparr>seqIdx := seqIdxAfterHeader hi\<rparr>, rcv)
     | Some (j, h) \<Rightarrow> (COMP_MSG_ERR_OK, hi\<lparr>seqIdx := seqIdxAfterHeader hi, currPartIdx := word_of_nat j\<rparr>,
                       rcv\<lparr>encryption := hdrEncryption h\<rparr>))"
proof -
  let ?i = "unat (currPartIdx hi)"
  from t obtain free where p: "headerParts hi = map Def hs @ free" and n: "unat (numHeaderParts hi) = length hs"
    by (auto simp: tableOf_def unat_of_nat)
  have "headerParts hi = map Def (take ?i hs) @ map Def (drop ?i hs) @ free"
    by (simp add: p flip: map_append append_assoc)
  with scan_offset [of "take ?i hs" "drop ?i hs" free "fitsEntry rcv k"] i
  have "scan (headerParts hi) (fitsEntry rcv k) ?i (unat (numHeaderParts hi) - ?i)
      = Some (firstFrom (fitsEntry rcv k) ?i hs)"
    by (simp add: n min_absorb2 firstFrom_def)
  then show ?thesis by (simp add: nextFittingEntry_def Let_def split: option.split)
qed

lemma header_lookup:
  assumes seq: "headerSequence hi = cs @ fl @ 0 # rest" and cs: "set cs \<subseteq> headerCodes"
    and fl: "fl \<in> {[], [COMP_DISP_U8_VECTOR_HDR_FILLER]}"
    and hi: "i_hdrInfos st = hi" "tableOf hi hs"
    and rcv: "i_received st = rcv" "unat (hi_headerLgth hi) \<le> length (buf rcv)" "mp_lgth rcv = ucast (hi_headerLgth hi)"
      "length (mp_GUID rcv) = 16" "length (mp_hdrFiller rcv) = 40"
    and h: "buf rcv = encodeHeader cs h @ post" "length (mp_GUID h) = 16"
      "length (encodeHeader cs h) \<le> unat (hi_headerLgth hi)" "unat (hi_headerLgth hi) \<le> length (encodeHeader cs h) + 40"
    and ok: "ok 0" "ok 1"
  shows "\<exists>st' r. getHeaderIndexFromHeaderFields ok st = Some
      (case firstFrom (fitsEntry r 0) 0 hs of None \<Rightarrow> COMP_MSG_ERR_HEADER_NOT_FOUND | Some _ \<Rightarrow> COMP_MSG_ERR_OK, st')
    \<and> (\<forall>c. fieldBytes r c = (if c \<in> set cs then fieldBytes h c else fieldBytes rcv c))
    \<and> fieldBytes (i_received st') = fieldBytes r \<and> buf (i_received st') = buf rcv \<and> mp_lgth (i_received st') = mp_lgth rcv
    \<and> (\<forall>j x. firstFrom (fitsEntry r 0) 0 hs = Some (j, x) \<longrightarrow>
         unat (currPartIdx (i_hdrInfos st')) = j \<and> encryption (i_received st') = hdrEncryption x)
    \<and> tableOf (i_hdrInfos st') hs"
proof -
  define dv where "dv = \<lparr>data = buf rcv, lgth = mp_lgth rcv, dv_id = fst (i_ids st) + 1\<rparr>"
  let ?hi = "hi\<lparr>seqIdx := 0\<rparr>" and ?rcv = "rcv\<lparr>mp_fieldOffset := 0\<rparr>"
  have "\<exists>rcv'. headerLoop dv (cs @ fl @ 0 # rest) (?hi, ?rcv) = headerLoop dv (fl @ 0 # rest) (?hi\<lparr>seqIdx := seqIdx ?hi + word_of_nat (length cs)\<rparr>, rcv')
    \<and> unat (mp_fieldOffset rcv') = length ([] :: mem) + length (encodeHeader cs h)
    \<and> (\<forall>c. fieldBytes rcv' c = (if c \<in> set cs then fieldBytes h c else fieldBytes ?rcv c))
    \<and> mp_hdrFiller rcv' = mp_hdrFiller ?rcv \<and> buf rcv' = buf ?rcv \<and> mp_lgth rcv' = mp_lgth ?rcv"
    by (rule headerLoop_reads) (use cs rcv h in \<open>auto simp: dv_def\<close>)
  then obtain r1 where r1: "headerLoop dv (headerSequence hi) (?hi, ?rcv) = headerLoop dv (fl @ 0 # rest) (hi\<lparr>seqIdx := word_of_nat (length cs)\<rparr>, r1)"
      "unat (mp_fieldOffset r1) = length (encodeHeader cs h)" "mp_hdrFiller r1 = mp_hdrFiller rcv" "buf r1 = buf rcv" "mp_lgth r1 = mp_lgth rcv"
      "\<forall>c. fieldBytes r1 c = (if c \<in> set cs then fieldBytes h c else fieldBytes rcv c)"
    by (auto simp: seq fieldBytes_def)
  let ?h1 = "hi\<lparr>seqIdx := word_of_nat (length cs)\<rparr>"
  obtain r2 where r2: "headerLoop dv (fl @ 0 # rest) (?h1, r1) = Some (COMP_MSG_ERR_OK, ?h1\<lparr>seqIdx := seqIdx ?h1 + word_of_nat (length fl)\<rparr>, r2)"
      "fieldBytes r2 = fieldBytes r1" "buf r2 = buf r1" "mp_lgth r2 = mp_lgth r1"
    using headerLoop_filler [OF fl, of r1 ?h1 dv rest] rcv h r1 by (auto simp: dv_def)
  define h3 where "h3 = ?h1\<lparr>seqIdx := word_of_nat (length cs) + word_of_nat (length fl),
      seqIdxAfterHeader := word_of_nat (length cs) + word_of_nat (length fl), currPartIdx := 0\<rparr>"
  have t3: "tableOf h3 hs" "currPartIdx h3 = 0" using hi(2) by (simp_all add: h3_def tableOf_def)
  from nextFittingEntry_table [OF t3(1), of r2 0] t3(2)
  have n: "nextFittingEntry (h3, r2) 0 = Some
    (case firstFrom (fitsEntry r2 0) 0 hs of
       None \<Rightarrow> (COMP_MSG_ERR_HEADER_NOT_FOUND, h3\<lparr>seqIdx := seqIdxAfterHeader h3\<rparr>, r2)
     | Some (j, h) \<Rightarrow> (COMP_MSG_ERR_OK, h3\<lparr>seqIdx := seqIdxAfterHeader h3, currPartIdx := word_of_nat j\<rparr>,
                       r2\<lparr>encryption := hdrEncryption h\<rparr>))" by simp
  have j: "j < 256" if "firstFrom P 0 hs = Some (j, x)" for P j x
    using find_idx_SomeD [OF that [unfolded firstFrom_def]] hi(2) by (simp add: tableOf_def)
  define S where "S = (\<lambda>hi' rcv'. st\<lparr>i_ids := (fst (i_ids st) + 1, snd (i_ids st) + 1), i_hdrInfos := hi', i_received := rcv',
      i_msg := (i_msg st)\<lparr>cd_receivedView := None\<rparr>\<rparr>)"
  have g: "getHeaderIndexFromHeaderFields ok st = do { (rc, hi, rcv) \<leftarrow> nextFittingEntry (h3, r2) 0; Some (rc, S hi rcv) }"
    using r1(1) r2(1) ok
    by (simp add: getHeaderIndexFromHeaderFields_def newCompMsgDataView_def newDataView_def hi(1) rcv(1)
        dv_def [symmetric] h3_def S_def)
  show ?thesis
  proof (cases "firstFrom (fitsEntry r2 0) 0 hs")
    case None
    then show ?thesis using r1 r2 t3
      by (intro exI [of _ "S (h3\<lparr>seqIdx := seqIdxAfterHeader h3\<rparr>) r2"] exI [of _ r2])
        (simp add: g n S_def tableOf_def)
  next
    case (Some p)
    obtain j x where p: "p = (j, x)" by (cases p)
    show ?thesis using r1 r2 t3 j [OF Some [unfolded p]] Some p
      by (intro exI [of _ "S (h3\<lparr>seqIdx := seqIdxAfterHeader h3, currPartIdx := word_of_nat j\<rparr>) (r2\<lparr>encryption := hdrEncryption x\<rparr>)"]
          exI [of _ r2])
        (simp add: g n S_def tableOf_def unat_of_nat)
  qed
qed

subsection \<open>The search for the command key\<close>

lemma fitsEntry_key [simp]: "fitsEntry r (mp_u16CmdKey r) = fitsEntry r 0"
  by (simp add: fitsEntry_def fun_eq_iff)

lemma fitsEntry_encryption [simp]: "fitsEntry (r\<lparr>encryption := e\<rparr>) k = fitsEntry r k"
  by (simp add: fitsEntry_def fun_eq_iff)

lemma firstFrom_SomeD:
  assumes "firstFrom P i hs = Some (j, x)"
  shows "i \<le> j" "j < length hs" "x = hs ! j" "P x" "\<forall>k. i \<le> k \<and> k < j \<longrightarrow> \<not> P (hs ! k)"
proof -
  note f = find_idx_SomeD [OF assms [unfolded firstFrom_def]]
  from f show "i \<le> j" "j < length hs" "x = hs ! j" "P x" by auto
  show "\<forall>k. i \<le> k \<and> k < j \<longrightarrow> \<not> P (hs ! k)"
  proof (intro allI impI, elim conjE)
    fix k assume "i \<le> k" "k < j"
    then have "k - i < j - i" by simp
    with f have "\<not> P (drop i hs ! (k - i))" by blast
    moreover from f have "i \<le> length hs" by auto
    ultimately show "\<not> P (hs ! k)" using \<open>i \<le> k\<close> by simp
  qed
qed

lemma firstFrom_step: "i < length hs \<Longrightarrow> firstFrom P i hs = (if P (hs ! i) then Some (i, hs ! i) else firstFrom P (Suc i) hs)"
  by (simp add: firstFrom_def Cons_nth_drop_Suc [symmetric])

lemma firstFrom_skip:
  "i \<le> j \<Longrightarrow> j \<le> length hs \<Longrightarrow> \<forall>k. i \<le> k \<and> k < j \<longrightarrow> \<not> P (hs ! k) \<Longrightarrow> firstFrom P i hs = firstFrom P j hs"
proof (induction "j - i" arbitrary: i)
  case (Suc d)
  then have "firstFrom P i hs = firstFrom P (Suc i) hs" by (simp add: firstFrom_step)
  also from Suc have "\<dots> = firstFrom P j hs" by (intro Suc.hyps) auto
  finally show ?case .
qed simp

lemma firstFrom_None: "firstFrom P i hs = None \<Longrightarrow> firstFrom (\<lambda>x. P x \<and> Q x) i hs = None"
  by (simp add: firstFrom_def find_idx_None_iff)

lemma cmdKeyLoop_table:
  assumes "tableOf hi hs" and "unat (currPartIdx hi) < length hs" and "hdr = hs ! unat (currPartIdx hi)"
    and "fitsEntry rcv 0 hdr"
  shows "\<exists>rc hi' rcv' hdr'. cmdKeyLoop hi rcv hdr = Some (rc, hi', rcv', hdr') \<and>
    (case firstFrom (\<lambda>x. fitsEntry rcv 0 x \<and> hdrU16CmdKey x = mp_u16CmdKey rcv) (unat (currPartIdx hi)) hs of
       None \<Rightarrow> rc = COMP_MSG_ERR_HEADER_NOT_FOUND
     | Some (j, x) \<Rightarrow> rc = COMP_MSG_ERR_OK \<and> unat (currPartIdx hi') = j \<and> hdr' = x \<and> tableOf hi' hs
         \<and> (hi' = hi \<and> rcv' = rcv \<or> rcv' = rcv\<lparr>encryption := hdrEncryption x\<rparr>))"
  using assms
proof (induction hi rcv hdr rule: cmdKeyLoop.induct)
  case (1 hi rcv hdr)
  let ?i = "unat (currPartIdx hi)" and ?Q = "\<lambda>x. fitsEntry rcv 0 x \<and> hdrU16CmdKey x = mp_u16CmdKey rcv"
  show ?case
  proof (cases "mp_u16CmdKey rcv = hdrU16CmdKey hdr")
    case True
    with "1.prems" show ?thesis by (simp add: cmdKeyLoop.simps firstFrom_step)
  next
    case False
    let ?hi = "hi\<lparr>currPartIdx := currPartIdx hi + 1\<rparr>"
    have len: "length hs < 256" using "1.prems"(1) by (simp add: tableOf_def)
    with "1.prems"(2) have i1: "unat (currPartIdx ?hi) = Suc ?i" by (simp add: unat_word_ariths)
    have t: "tableOf ?hi hs" using "1.prems"(1) by (simp add: tableOf_def)
    have q: "firstFrom ?Q ?i hs = firstFrom ?Q (Suc ?i) hs"
      using "1.prems"(2,3) False by (simp add: firstFrom_step)
    note n = nextFittingEntry_table [OF t, of rcv "mp_u16CmdKey rcv", unfolded i1]
    show ?thesis
    proof (cases "firstFrom (fitsEntry rcv 0) (Suc ?i) hs")
      case None
      then show ?thesis using n "1.prems"(2) False firstFrom_None [OF None]
        by (subst cmdKeyLoop.simps) (simp add: q)
    next
      case (Some p)
      obtain j x where p: "p = (j, x)" by (cases p)
      note f = firstFrom_SomeD [OF Some [unfolded p]]
      define hi1 where "hi1 = ?hi\<lparr>seqIdx := seqIdxAfterHeader hi, currPartIdx := word_of_nat j\<rparr>"
      define rcv1 where "rcv1 = rcv\<lparr>encryption := hdrEncryption x\<rparr>"
      have n1: "nextFittingEntry (?hi, rcv) (mp_u16CmdKey rcv) = Some (COMP_MSG_ERR_OK, hi1, rcv1)"
        using n "1.prems"(2) Some by (simp add: p hi1_def rcv1_def)
      have t1: "tableOf hi1 hs" using t by (simp add: hi1_def tableOf_def)
      have j: "unat (currPartIdx hi1) = j" using f(2) len by (simp add: hi1_def unat_of_nat)
      have r: "rd_cell (headerParts hi1) (unat (currPartIdx hi1)) = Some x"
        using t1 f(2,3) by (auto simp: tableOf_def j)
      have step: "cmdKeyLoop hi rcv hdr = cmdKeyLoop hi1 rcv1 x"
        using False n1 r by (subst cmdKeyLoop.simps) simp
      have "firstFrom ?Q (Suc ?i) hs = firstFrom ?Q j hs"
        by (rule firstFrom_skip) (use f in auto)
      with q have fq: "firstFrom ?Q ?i hs = firstFrom ?Q j hs" by simp
      have r1: "fitsEntry rcv1 0 = fitsEntry rcv 0" "mp_u16CmdKey rcv1 = mp_u16CmdKey rcv" by (simp_all add: rcv1_def)
      have "\<not> COMP_MSG_ERR_OK \<noteq> COMP_MSG_ERR_OK" by simp
      note ih = "1.IH" [OF False n1 refl refl this r t1, unfolded j r1, OF f(2,3,4)]
      obtain rc hi' rcv' hdr' where c: "cmdKeyLoop hi rcv hdr = Some (rc, hi', rcv', hdr')"
        and o: "case firstFrom ?Q j hs of
           None \<Rightarrow> rc = COMP_MSG_ERR_HEADER_NOT_FOUND
         | Some (j, y) \<Rightarrow> rc = COMP_MSG_ERR_OK \<and> unat (currPartIdx hi') = j \<and> hdr' = y \<and> tableOf hi' hs
             \<and> (hi' = hi1 \<and> rcv' = rcv1 \<or> rcv' = rcv1\<lparr>encryption := hdrEncryption y\<rparr>)"
        using ih unfolding step by blast
      show ?thesis
      proof (cases "firstFrom ?Q j hs")
        case None
        with c o show ?thesis by (simp add: fq)
      next
        case (Some p')
        obtain k y where p': "p' = (k, y)" by (cases p')
        have "hi' = hi1 \<Longrightarrow> y = x"
          using o Some firstFrom_SomeD(3) [OF Some [unfolded p']] f(3) by (simp add: p' j)
        with o Some have "rc = COMP_MSG_ERR_OK \<and> unat (currPartIdx hi') = k \<and> hdr' = y \<and> tableOf hi' hs
            \<and> rcv' = rcv\<lparr>encryption := hdrEncryption y\<rparr>"
          by (auto simp: p' rcv1_def)
        with c Some show ?thesis by (simp add: fq p')
      qed
    qed
  qed
qed
subsection \<open>The length of the command\<close>

text \<open>
  \<open>handleReceivedHeader\<close> sets \<open>fieldOffset\<close> back to the end of the header for every entry, so that the
  length of the command is read from the bytes of the command key.
\<close>

lemma nextFittingEntry_keeps:
  assumes "nextFittingEntry (hi, rcv) k = Some (rc, hi', rcv')"
  shows "mp_u16CmdKey rcv' = mp_u16CmdKey rcv \<and> hi_headerLgth hi' = hi_headerLgth hi"
  using assms by (auto simp: nextFittingEntry_def Let_def bind_eq_Some_conv split: option.splits)

lemma cmdKeyLoop_keeps:
  "cmdKeyLoop hi rcv hdr = Some (rc, hi', rcv', hdr') \<Longrightarrow>
   mp_u16CmdKey rcv' = mp_u16CmdKey rcv \<and> hi_headerLgth hi' = hi_headerLgth hi"
proof (induction hi rcv hdr rule: cmdKeyLoop.induct)
  case (1 hi rcv hdr)
  from "1.prems" show ?case
  proof (cases rule: cmdKeyLoop_cases)
    case (step hi1 rcv1 hdr1)
    from "1.IH" [OF step(1,2) _ _ _ step(3,4)] nextFittingEntry_keeps [OF step(2)] show ?thesis by simp
  qed (auto dest: nextFittingEntry_keeps)
qed

lemma readU16_u16:
  "readU16 dv off l = Some l1 \<Longrightarrow>
    \<exists>r. getUint16 dv off = Some r \<and> l_u16 l1 = (case r of Inl _ \<Rightarrow> l_u16 l | Inr v \<Rightarrow> Some v)"
  unfolding readU16_def by (cases "getUint16 dv off") (auto split: sum.splits)

lemma cmd_lgth_reads_cmd_key:
  assumes "headerEntry dv u COMP_DISP_U16_CMD_KEY (hi, rcv, l) = Some (COMP_MSG_ERR_OK, hi', rcv', l')"
    and "headerEntry dv u' COMP_DISP_U16_CMD_LGTH (hi'\<lparr>seqIdx := i\<rparr>, rcv', l') = Some (rc, hi'', rcv'', l'')"
  shows "mp_u16CmdLgth rcv'' = mp_u16CmdKey rcv''"
proof -
  let ?o = "\<lambda>hi. ucast (hi_headerLgth hi) :: size_t"
  let ?r = "\<lambda>k. rcv\<lparr>mp_u16CmdKey := k, mp_fieldOffset := ?o hi + 2,
      partsFlags := partsFlags rcv OR COMP_DISP_U16_CMD_KEY\<rparr>"
  obtain l1 k hdr1 where 1: "readU16 dv (?o hi) l = Some l1" "l_u16 l1 = Some k"
      "cmdKeyLoop hi (?r k) (l_hdr l1) = Some (COMP_MSG_ERR_OK, hi', rcv', hdr1)" "l_u16 l' = l_u16 l1"
    using assms(1) by (auto simp: headerEntry_def Let_def bind_eq_Some_conv)
  obtain l2 k2 where 2: "readU16 dv (?o hi') l' = Some l2" "l_u16 l2 = Some k2"
      "mp_u16CmdLgth rcv'' = k2" "mp_u16CmdKey rcv'' = mp_u16CmdKey rcv'"
    using assms(2) by (auto simp: headerEntry_def Let_def bind_eq_Some_conv)
  from cmdKeyLoop_keeps [OF 1(3)] have k: "mp_u16CmdKey rcv' = k" "?o hi' = ?o hi" by (simp_all add: 1)
  obtain r where r: "getUint16 dv (?o hi) = Some r" using readU16_u16 [OF 1(1)] by blast
  from readU16_u16 [OF 1(1)] readU16_u16 [OF 2(1)] have "l_u16 l2 = l_u16 l1"
    by (cases r) (simp_all add: k(2) r 1(4))
  with 1 2 k show ?thesis by simp
qed
subsection \<open>Collecting bytes\<close>

lemma storeReceivedMsg_never_OK: "storeReceivedMsg ok st \<noteq> Some (COMP_MSG_ERR_OK, st')"
  by (auto simp: storeReceivedMsg_def checkErrOK_def prepareAnswerMsg_def msgDescription_uninitialised_def
      Let_def bind_eq_Some_conv split: option.splits prod.splits if_splits)

lemma messageComplete_OK:
  assumes "messageComplete aes k iv ok st = Some (COMP_MSG_ERR_OK, st')"
  shows "i_received st' = i_received st"
  using assms storeReceivedMsg_never_OK
  by (auto simp: messageComplete_def forwardMsg_def checkErrOK_Some_0 bind_eq_Some_conv split: if_splits)

lemma receive_append:
  assumes "handleReceivedPart aes k iv ok st xs = Some (COMP_MSG_ERR_OK, st')"
    and "mp_lgth (i_received st') \<noteq> ucast (mp_totalLgth (i_received st'))"
  shows "handleReceivedPart aes k iv ok st (xs @ ys) = handleReceivedPart aes k iv ok st' ys"
  using assms
proof (induction xs arbitrary: st)
  case (Cons x xs)
  let ?hdr = "\<lambda>st. if mp_lgth (i_received st) = ucast (hi_headerLgth (i_hdrInfos st))
      then getHeaderIndexFromHeaderFields ok st else Some (COMP_MSG_ERR_OK, st)"
  from Cons.prems(1) obtain rcv st1 where s: "storeByte x (i_received st) = Some rcv"
      and h: "?hdr (st\<lparr>i_received := rcv\<rparr>) = Some (COMP_MSG_ERR_OK, st1)"
      and c: "(if mp_lgth (i_received st1) = ucast (mp_totalLgth (i_received st1))
        then messageComplete aes k iv ok st1 else handleReceivedPart aes k iv ok st1 xs) = Some (COMP_MSG_ERR_OK, st')"
    by (auto simp: Let_def bind_eq_Some_conv checkErrOK_Some_0)
  have n: "mp_lgth (i_received st1) \<noteq> ucast (mp_totalLgth (i_received st1))"
    using c Cons.prems(2) messageComplete_OK [of aes k iv ok st1 st'] by auto
  with c Cons.IH [of st1] Cons.prems(2)
  have "handleReceivedPart aes k iv ok st1 (xs @ ys) = handleReceivedPart aes k iv ok st' ys" by simp
  with s h n show ?case by simp
qed simp

lemma receive_collects:
  assumes "unat (hi_headerLgth (i_hdrInfos st)) \<le> unat (mp_lgth (i_received st))"
    and "unat (mp_lgth (i_received st)) + length bs < unat (mp_totalLgth (i_received st))"
    and "unat (mp_lgth (i_received st)) + length bs \<le> length (buf (i_received st))"
  shows "handleReceivedPart aes k iv ok st bs
    = Some (COMP_MSG_ERR_OK, st\<lparr>i_received := collected bs (i_received st)\<rparr>)"
  using assms
proof (induction bs arbitrary: st)
  case Nil
  then show ?case by (simp add: collected_def)
next
  case (Cons b bs)
  let ?rcv = "i_received st" and ?h = "ucast (hi_headerLgth (i_hdrInfos st)) :: size_t"
  let ?r1 = "?rcv\<lparr>buf := (buf ?rcv)[unat (mp_lgth ?rcv) := b], mp_lgth := mp_lgth ?rcv + 1, realLgth := realLgth ?rcv + 1\<rparr>"
  have "unat (mp_totalLgth ?rcv) < 65536" using unsigned_less [of "mp_totalLgth ?rcv"] by simp
  with Cons.prems(2) have u: "unat (mp_lgth ?rcv + 1) = unat (mp_lgth ?rcv) + 1" by (simp add: unat_plus_numeral)
  have s: "storeByte b ?rcv = Some ?r1" using Cons.prems(3) by (simp add: storeByte_def wr_byte_def)
  have h: "mp_lgth ?rcv + 1 \<noteq> ?h" using u Cons.prems(1) by (auto simp: word_unat_eq_iff)
  have t: "mp_lgth ?rcv + 1 \<noteq> ucast (mp_totalLgth ?rcv)" using u Cons.prems(2) by (auto simp: word_unat_eq_iff)
  have "handleReceivedPart aes k iv ok (st\<lparr>i_received := ?r1\<rparr>) bs
      = Some (COMP_MSG_ERR_OK, (st\<lparr>i_received := ?r1\<rparr>)\<lparr>i_received := collected bs (i_received (st\<lparr>i_received := ?r1\<rparr>))\<rparr>)"
    by (rule Cons.IH) (use Cons.prems u in simp_all)
  moreover have "collected bs ?r1 = collected (b # bs) ?rcv" by (simp add: collected_def u add.assoc)
  ultimately show ?case using h t by (simp add: s)
qed

lemma receive_overflow:
  assumes "unat (hi_headerLgth (i_hdrInfos st)) \<le> unat (mp_lgth (i_received st))"
    and "unat (mp_lgth (i_received st)) \<le> length (buf (i_received st))"
    and "length (buf (i_received st)) < unat (mp_totalLgth (i_received st))"
    and "length (buf (i_received st)) < unat (mp_lgth (i_received st)) + length bs"
  shows "handleReceivedPart aes k iv ok st bs = None"
proof -
  let ?rcv = "i_received st"
  define n where "n = length (buf ?rcv) - unat (mp_lgth ?rcv)"
  define st1 where "st1 = st\<lparr>i_received := collected (take n bs) ?rcv\<rparr>"
  have n: "n < length bs" "unat (mp_lgth ?rcv) + n = length (buf ?rcv)" using assms by (auto simp: n_def)
  then obtain b rest where d: "drop n bs = b # rest" using Cons_nth_drop_Suc by metis
  have "unat (mp_totalLgth ?rcv) < 65536" using unsigned_less [of "mp_totalLgth ?rcv"] by simp
  with assms(3) n have "unat (mp_lgth ?rcv) + n < 65536" by simp
  then have l: "unat (mp_lgth (i_received st1)) = length (buf ?rcv)"
    using n by (simp add: st1_def collected_def unat_plus_small unat_of_nat)
  have "handleReceivedPart aes k iv ok st (take n bs) = Some (COMP_MSG_ERR_OK, st1)"
    unfolding st1_def by (rule receive_collects) (use assms n in auto)
  from receive_append [OF this, of "drop n bs"]
  have "handleReceivedPart aes k iv ok st bs = handleReceivedPart aes k iv ok st1 (b # rest)"
    using l assms(3) by (auto simp: d [symmetric] word_unat_eq_iff st1_def collected_def)
  also have "\<dots> = None" using l by (simp add: storeByte_def wr_byte_def st1_def collected_def)
  finally show ?thesis .
qed
subsection \<open>Properties\<close>

text \<open>
  An example: a table of two entries, and a message from 2 to 1 of the length \<open>n\<close> whose header has
  just been received.
\<close>

definition entry :: "u16 \<Rightarrow> u8 \<Rightarrow> headerPart" where
  "entry key enc = \<lparr>hdrFromPart = 2, hdrToPart = 1, hdrTotalLgth = 0, hdrGUID = replicate 17 0,
     hdrSrcId = 0, hdrReserve = replicate 3 0, hdrFiller = replicate 41 0, hdrU16CmdKey = key, hdrU16CmdLgth = 0,
     hdrU16Crc = 0, hdrU16TotalCrc = 0, hdrTargetPart = 0, hdrU8CmdKey = 0, hdrU8CmdLgth = 0, hdrU8Crc = 0,
     hdrU8TotalCrc = 0, hdrOffset = 0, hdrEncryption = enc, hdrHandleType = 87, hdrLgth = 6, hdrFlags = 0,
     fieldSequence = [COMP_DISP_U16_DST, COMP_DISP_U16_SRC, COMP_DISP_U16_TOTAL_LGTH, COMP_DISP_U16_CMD_KEY, 0]\<rparr>"

definition infos2 :: msgHeaderInfos where
  "infos2 = \<lparr>headerFlags = 0, headerSequence = [COMP_DISP_U16_DST, COMP_DISP_U16_SRC, COMP_DISP_U16_TOTAL_LGTH] @ [] @ 0 # [0],
     hi_headerLgth = 6, hi_lgth = 0, headerParts = map Def [entry 65 78, entry 66 69] @ [], numHeaderParts = 2, maxHeaderParts = 2, currPartIdx = 0, seqIdx = 3,
     seqIdxAfterHeader = 3\<rparr>"

definition parts :: "u16 \<Rightarrow> msgParts" where
  "parts n = \<lparr>fromPart = 2, toPart = 1, mp_totalLgth = n, mp_GUID = replicate 16 0, srcId = 0, mp_hdrReserve = 0,
     mp_hdrFiller = replicate 40 0, partsFlags = 0, mp_u16CmdKey = 66, mp_u8CmdLgth = 0, mp_u16CmdLgth = 0, mp_lgth = 6, encryption = 0,
     realLgth = 6, mp_fieldOffset = 6, buf = be16 1 @ be16 2 @ be16 n @ replicate 1018 0\<rparr>"

definition receiving :: "u16 \<Rightarrow> identify" where
  "receiving n = \<lparr>i_hdrInfos = infos2, i_received = parts n, i_msg = the (newCompMsgData True), i_tn = None,
     i_handles = noHandles, i_ids = (0, 0), i_forwarded = []\<rparr>"

lemma table2: "tableOf infos2 [entry 65 78, entry 66 69]"
  by (simp add: tableOf_def infos2_def)

lemma fits2: "fitsEntry (parts n) 0 (entry key enc)"
  by (simp add: fitsEntry_def parts_def entry_def)

text \<open>
  Claim C9.  A header is identified: when the first \<open>headerLgth\<close> bytes of the buffer are the header
  fields in the order of \<open>headerSequence\<close>, optionally followed by a filler of at most 40 bytes,
  \<open>getHeaderIndexFromHeaderFields\<close> reads back every field and selects the first entry of the table
  with the same addresses and with the same length (or with length \<open>0\<close>, which fits every length);
  it returns \<open>HEADER_NOT_FOUND\<close> exactly when there is none.
\<close>

theorem header_identified:
  assumes "headerSequence (i_hdrInfos st) = cs @ fl @ 0 # rest" and "set cs \<subseteq> headerCodes"
    and "fl \<in> {[], [COMP_DISP_U8_VECTOR_HDR_FILLER]}"
    and "{COMP_DISP_U16_DST, COMP_DISP_U16_SRC, COMP_DISP_U16_TOTAL_LGTH} \<subseteq> set cs"
    and "tableOf (i_hdrInfos st) hs"
    and "unat (hi_headerLgth (i_hdrInfos st)) \<le> length (buf (i_received st))"
    and "mp_lgth (i_received st) = ucast (hi_headerLgth (i_hdrInfos st))"
    and "length (mp_GUID (i_received st)) = 16" and "length (mp_hdrFiller (i_received st)) = 40"
    and "buf (i_received st) = encodeHeader cs h @ post" and "length (mp_GUID h) = 16"
    and "length (encodeHeader cs h) \<le> unat (hi_headerLgth (i_hdrInfos st))"
    and "unat (hi_headerLgth (i_hdrInfos st)) \<le> length (encodeHeader cs h) + 40"
    and "ok 0" and "ok 1"
  shows "\<exists>st'. getHeaderIndexFromHeaderFields ok st = Some
      (case firstFrom (fitsEntry h 0) 0 hs of None \<Rightarrow> COMP_MSG_ERR_HEADER_NOT_FOUND | Some _ \<Rightarrow> COMP_MSG_ERR_OK, st')
    \<and> (\<forall>c \<in> set cs. fieldBytes (i_received st') c = fieldBytes h c)
    \<and> (\<forall>j x. firstFrom (fitsEntry h 0) 0 hs = Some (j, x) \<longrightarrow>
         unat (currPartIdx (i_hdrInfos st')) = j \<and> encryption (i_received st') = hdrEncryption x)"
proof -
  from header_lookup [OF assms(1-3) refl assms(5) refl assms(6-15)]
  obtain st' r where g: "getHeaderIndexFromHeaderFields ok st = Some
      (case firstFrom (fitsEntry r 0) 0 hs of None \<Rightarrow> COMP_MSG_ERR_HEADER_NOT_FOUND | Some _ \<Rightarrow> COMP_MSG_ERR_OK, st')"
    and f: "\<forall>c. fieldBytes r c = (if c \<in> set cs then fieldBytes h c else fieldBytes (i_received st) c)"
    and s: "fieldBytes (i_received st') = fieldBytes r"
      "\<forall>j x. firstFrom (fitsEntry r 0) 0 hs = Some (j, x) \<longrightarrow>
         unat (currPartIdx (i_hdrInfos st')) = j \<and> encryption (i_received st') = hdrEncryption x"
    by blast
  have "fieldBytes r 1 = fieldBytes h 1" "fieldBytes r 2 = fieldBytes h 2" "fieldBytes r 4 = fieldBytes h 4"
    using f assms(4) by auto
  then have "fitsEntry r 0 = fitsEntry h 0" by (simp add: fieldBytes_def fitsEntry_def fun_eq_iff)
  with g f s show ?thesis by auto
qed

theorem header_identified_witness:
  "\<exists>st'. getHeaderIndexFromHeaderFields (\<lambda>_. True) (receiving 12) = Some (COMP_MSG_ERR_OK, st')
    \<and> fieldBytes (i_received st') COMP_DISP_U16_TOTAL_LGTH = be16 12
    \<and> unat (currPartIdx (i_hdrInfos st')) = 0 \<and> encryption (i_received st') = 78"
proof -
  let ?cs = "[COMP_DISP_U16_DST, COMP_DISP_U16_SRC, COMP_DISP_U16_TOTAL_LGTH] :: u16 list"
  have e: "encodeHeader ?cs (parts 12) = be16 1 @ be16 2 @ be16 12"
    by (simp add: encodeHeader_def fieldBytes_def parts_def)
  have f: "firstFrom (fitsEntry (parts 12) 0) 0 [entry 65 78, entry 66 69] = Some (0, entry 65 78)"
    by (simp add: firstFrom_def fits2)
  have r: "i_hdrInfos (receiving 12) = infos2" "i_received (receiving 12) = parts 12" by (simp_all add: receiving_def)
  have "\<exists>st'. getHeaderIndexFromHeaderFields (\<lambda>_. True) (receiving 12) = Some
      (case firstFrom (fitsEntry (parts 12) 0) 0 [entry 65 78, entry 66 69] of
         None \<Rightarrow> COMP_MSG_ERR_HEADER_NOT_FOUND | Some _ \<Rightarrow> COMP_MSG_ERR_OK, st')
    \<and> (\<forall>c \<in> set ?cs. fieldBytes (i_received st') c = fieldBytes (parts 12) c)
    \<and> (\<forall>j x. firstFrom (fitsEntry (parts 12) 0) 0 [entry 65 78, entry 66 69] = Some (j, x) \<longrightarrow>
         unat (currPartIdx (i_hdrInfos st')) = j \<and> encryption (i_received st') = hdrEncryption x)"
    by (rule header_identified [where cs = ?cs and fl = "[]" and rest = "[0]" and post = "replicate 1018 0"])
      (simp_all add: r e table2, simp_all add: infos2_def parts_def headerCodes_def)
  moreover have "fieldBytes (parts 12) COMP_DISP_U16_TOTAL_LGTH = be16 12" "hdrEncryption (entry 65 78) = 78"
    by (simp_all add: fieldBytes_def parts_def entry_def)
  ultimately show ?thesis unfolding f by auto
qed

text \<open>
  Claim C10.  The command key selects the message: started at the first entry that fits the header,
  the search of \<open>handleReceivedHeader\<close> ends, and it ends at the first entry of the whole table with
  the same addresses, a fitting length and the command key of the message; without such an entry
  it returns \<open>HEADER_NOT_FOUND\<close>.
\<close>

theorem message_identified:
  assumes "tableOf hi hs" and "firstFrom (fitsEntry rcv 0) 0 hs = Some (unat (currPartIdx hi), hdr)"
  shows "\<exists>rc hi' rcv' hdr'. cmdKeyLoop hi rcv hdr = Some (rc, hi', rcv', hdr') \<and>
    (case firstFrom (\<lambda>x. fitsEntry rcv 0 x \<and> hdrU16CmdKey x = mp_u16CmdKey rcv) 0 hs of
       None \<Rightarrow> rc = COMP_MSG_ERR_HEADER_NOT_FOUND
     | Some (j, x) \<Rightarrow> rc = COMP_MSG_ERR_OK \<and> unat (currPartIdx hi') = j \<and> hdr' = x)"
proof -
  let ?Q = "\<lambda>x. fitsEntry rcv 0 x \<and> hdrU16CmdKey x = mp_u16CmdKey rcv" and ?i = "unat (currPartIdx hi)"
  note f = firstFrom_SomeD [OF assms(2)]
  have "firstFrom ?Q 0 hs = firstFrom ?Q ?i hs" by (rule firstFrom_skip) (use f in auto)
  with cmdKeyLoop_table [OF assms(1) f(2,3,4)] show ?thesis by (fastforce split: option.splits)
qed

theorem message_identified_witness:
  "\<exists>hi' rcv'. cmdKeyLoop infos2 (parts 12) (entry 65 78) = Some (COMP_MSG_ERR_OK, hi', rcv', entry 66 69)
    \<and> unat (currPartIdx hi') = 1"
proof -
  have "firstFrom (fitsEntry (parts 12) 0) 0 [entry 65 78, entry 66 69] = Some (unat (currPartIdx infos2), entry 65 78)"
    by (simp add: firstFrom_def fits2 infos2_def)
  moreover have "firstFrom (\<lambda>x. fitsEntry (parts 12) 0 x \<and> hdrU16CmdKey x = mp_u16CmdKey (parts 12)) 0 [entry 65 78, entry 66 69]
      = Some (1, entry 66 69)"
    by (simp add: firstFrom_def fits2) (simp add: entry_def parts_def)
  ultimately show ?thesis using message_identified [OF table2, of "parts 12" "entry 65 78"] by auto
qed

text \<open>
  Claim C11.  Bytes may arrive in any pieces: as long as the bytes received so far do not complete a
  message, handing over the rest in a second call gives the same outcome and the same state as
  handing over everything at once.
\<close>

theorem receive_in_pieces:
  assumes "handleReceivedPart aes cryptKey cryptIvKey ok st xs = Some (COMP_MSG_ERR_OK, st')"
    and "mp_lgth (i_received st') \<noteq> ucast (mp_totalLgth (i_received st'))"
  shows "handleReceivedPart aes cryptKey cryptIvKey ok st (xs @ ys)
       = handleReceivedPart aes cryptKey cryptIvKey ok st' ys"
  by (rule receive_append [OF assms])

theorem receive_in_pieces_witness:
  "handleReceivedPart xor_aes [] [] (\<lambda>_. True) (receiving 12) [7, 8, 9]
   = handleReceivedPart xor_aes [] [] (\<lambda>_. True) ((receiving 12)\<lparr>i_received := collected [7, 8] (parts 12)\<rparr>) [9]"
proof -
  have "handleReceivedPart xor_aes [] [] (\<lambda>_. True) (receiving 12) [7, 8]
      = Some (COMP_MSG_ERR_OK, (receiving 12)\<lparr>i_received := collected [7, 8] (i_received (receiving 12))\<rparr>)"
    by (rule receive_collects) (simp_all add: receiving_def parts_def infos2_def)
  then show ?thesis
    using receive_in_pieces [of xor_aes "[]" "[]" "\<lambda>_. True" "receiving 12" "[7, 8]"
        "(receiving 12)\<lparr>i_received := collected [7, 8] (parts 12)\<rparr>" "[9]"]
    by (simp add: receiving_def parts_def collected_def)
qed

text \<open>
  Claim C12.  Bounds of the receive buffer.  Behind the header, bytes that fit the buffer and do not
  yet complete the message are appended and nothing else changes.  The length a header announces
  is not compared with the size of the buffer: when it is larger, the first byte that does not fit
  is written behind the buffer.
\<close>

theorem receive_bounds:
  assumes "unat (hi_headerLgth (i_hdrInfos st)) \<le> unat (mp_lgth (i_received st))"
    and "unat (mp_lgth (i_received st)) \<le> length (buf (i_received st))"
  shows "(unat (mp_lgth (i_received st)) + length bs < unat (mp_totalLgth (i_received st))
      \<and> unat (mp_lgth (i_received st)) + length bs \<le> length (buf (i_received st))
      \<longrightarrow> handleReceivedPart aes cryptKey cryptIvKey ok st bs
          = Some (COMP_MSG_ERR_OK, st\<lparr>i_received := collected bs (i_received st)\<rparr>))
    \<and> (length (buf (i_received st)) < unat (mp_totalLgth (i_received st))
      \<and> length (buf (i_received st)) < unat (mp_lgth (i_received st)) + length bs
      \<longrightarrow> handleReceivedPart aes cryptKey cryptIvKey ok st bs = None)"
  using receive_collects [OF assms(1)] receive_overflow [OF assms] by blast

theorem receive_bounds_witness:
  "handleReceivedPart xor_aes [] [] (\<lambda>_. True) (receiving 12) [7, 8]
     = Some (COMP_MSG_ERR_OK, (receiving 12)\<lparr>i_received := collected [7, 8] (parts 12)\<rparr>)
   \<and> handleReceivedPart xor_aes [] [] (\<lambda>_. True) (receiving 2000) (replicate 1100 7) = None"
  using receive_bounds [of "receiving 12" "[7, 8]" xor_aes "[]" "[]" "\<lambda>_. True"]
    receive_bounds [of "receiving 2000" "replicate 1100 7" xor_aes "[]" "[]" "\<lambda>_. True"]
  by (simp add: receiving_def parts_def infos2_def)

end
