(* ===== verification/CompMsgWebSocket.thy ===== *)
theory CompMsgWebSocket
  imports Prelude ErrorCodes
begin

text \<open>
  The websocket transport of \<open>app/compMsg/compMsgWebSocket.c\<close>: the frame writer
  \<open>webSocketSendData\<close>, the frame reader \<open>webSocketParse\<close>, and the frames of RFC 6455 they are
  compared with.

  \<^item> The receive buffer is a block of bytes \<open>m\<close>; a \<open>char *\<close> into it is an integer index, so that
    \<open>data[k]\<close> is the byte at \<open>base + k\<close> and an access outside the block is \<open>None\<close>.
  \<^item> What a call does to its surroundings is a list of events: the bytes handed to
    \<open>espconn_sent\<close> and the calls of the two receive callbacks.  The callbacks of
    \<open>compMsgWifiData.c\<close> take the length as an \<open>unsigned short\<close> and do not write the buffer; the
    one for binary data copies \<open>len\<close> bytes out of it.
  \<^item> \<open>webSocketParse\<close> calls itself on the rest of the buffer and may do so forever, hence
    \<open>partial_function (option)\<close>: not returning is \<open>None\<close>, like undefined behaviour.
\<close>

subsection \<open>Constants\<close>

abbreviation (input) OPCODE_TEXT :: u8 where "OPCODE_TEXT \<equiv> 1"
abbreviation (input) OPCODE_BINARY :: u8 where "OPCODE_BINARY \<equiv> 2"
abbreviation (input) OPCODE_CLOSE :: u8 where "OPCODE_CLOSE \<equiv> 8"
abbreviation (input) OPCODE_PING :: u8 where "OPCODE_PING \<equiv> 9"
abbreviation (input) OPCODE_PONG :: u8 where "OPCODE_PONG \<equiv> 10"

abbreviation (input) SSL_BUFFER_SIZE :: u32 where "SSL_BUFFER_SIZE \<equiv> 5120"

text \<open>
  The codes of the file are negative; \<open>webSocketSendData\<close> returns them in a \<open>uint8_t\<close>,
  \<open>webSocketParse\<close> in an \<open>int\<close>.
\<close>

abbreviation (input) WEBSOCKET_ERR_OUT_OF_MEMORY :: "'a::len word" where "WEBSOCKET_ERR_OUT_OF_MEMORY \<equiv> - 1"
abbreviation (input) WEBSOCKET_ERR_TOO_MUCH_DATA :: "'a::len word" where "WEBSOCKET_ERR_TOO_MUCH_DATA \<equiv> - 2"
abbreviation (input) WEBSOCKET_ERR_INVALID_FRAME_OPCODE :: "'a::len word" where
  "WEBSOCKET_ERR_INVALID_FRAME_OPCODE \<equiv> - 3"

datatype wsEvent = Sent mem | TextReceived mem | BinaryReceived mem

subsection \<open>Sending\<close>

definition sendHdrBytes :: "i32 \<Rightarrow> i32 \<Rightarrow> mem option" where
  "sendHdrBytes sz opcode =
     (let b0 = 0x80 OR ucast opcode in
      if sint sz < 126 then Some [b0, ucast sz]
      else if sz < SSL_BUFFER_SIZE - 4
      then Some [b0, 126, ucast (signed_drop_bit 8 sz AND 0xFF), ucast (sz AND 0xFF)]
      else None)"

definition webSocketSendData :: "bool \<Rightarrow> mem \<Rightarrow> i32 \<Rightarrow> i32 \<Rightarrow> (errcode \<times> wsEvent list) ub" where
  "webSocketSendData ok payload sz opcode =
     (case sendHdrBytes sz opcode of
        None \<Rightarrow> Some (WEBSOCKET_ERR_TOO_MUCH_DATA, [])
      | Some hdrBytes \<Rightarrow>
          if \<not> ok then Some (WEBSOCKET_ERR_OUT_OF_MEMORY, [])
          else do {
            let hdrLgth = word_of_nat (length hdrBytes);
            let fsize = sz + hdrLgth;
            buff \<leftarrow> wr_block (replicate (unat fsize) 0) 0 hdrBytes;
            bytes \<leftarrow> rd_block payload 0 (unat sz);
            buff \<leftarrow> wr_block buff hdrLgth bytes;
            Some (0, [Sent buff])
          })"

subsection \<open>Receiving\<close>

definition rd_at :: "mem \<Rightarrow> int \<Rightarrow> u8 ub" where
  "rd_at m a = (if 0 \<le> a \<and> nat a < length m then Some (m ! nat a) else None)"

definition wr_at :: "mem \<Rightarrow> int \<Rightarrow> u8 \<Rightarrow> mem ub" where
  "wr_at m a b = (if 0 \<le> a \<and> nat a < length m then Some (m[nat a := b]) else None)"

text \<open>\<open>size |= (uint64_t) b << k\<close> on an \<open>int\<close>: the upper half of the sum is cut off.\<close>

definition orShifted :: "i32 \<Rightarrow> nat \<Rightarrow> u8 \<Rightarrow> i32" where
  "orShifted sz k b = ucast ((scast sz :: 64 word) OR push_bit k (ucast b))"

text \<open>The length of the payload and the offset behind the length bytes.\<close>

definition parseSize :: "mem \<Rightarrow> int \<Rightarrow> u8 \<Rightarrow> (i32 \<times> int) ub" where
  "parseSize m base byte =
     (let sz = byte AND 0x7F in
      if sz = 126 then do {
        b3 \<leftarrow> rd_at m (base + 3);
        b2 \<leftarrow> rd_at m (base + 2);
        Some (orShifted (ucast b3) 8 b2, 4)
      }
      else if sz = 127 then do {
        b2 \<leftarrow> rd_at m (base + 2);
        b3 \<leftarrow> rd_at m (base + 3);
        b4 \<leftarrow> rd_at m (base + 4);
        b5 \<leftarrow> rd_at m (base + 5);
        b6 \<leftarrow> rd_at m (base + 6);
        b7 \<leftarrow> rd_at m (base + 7);
        b8 \<leftarrow> rd_at m (base + 8);
        b9 \<leftarrow> rd_at m (base + 9);
        let s = orShifted 0 56 b2;
        let s = orShifted s 48 b3;
        let s = orShifted s 40 b4;
        let s = orShifted s 32 b5;
        let s = orShifted s 24 b6;
        let s = orShifted s 16 b7;
        let s = orShifted s 8 b8;
        Some (orShifted s 0 b9, 10)
      }
      else Some (ucast sz, 2))"

text \<open>The loop \<open>data[i + offset] ^= mask[i % 4]\<close> from round \<open>i\<close> on, with \<open>n\<close> rounds to go.\<close>

primrec unmaskLoop :: "mem \<Rightarrow> int \<Rightarrow> mem \<Rightarrow> nat \<Rightarrow> nat \<Rightarrow> mem ub" where
  "unmaskLoop m a key i 0 = Some m"
| "unmaskLoop m a key i (Suc n) = do {
     b \<leftarrow> rd_at m (a + int i);
     m' \<leftarrow> wr_at m (a + int i) (b XOR key ! (i mod 4));
     unmaskLoop m' a key (Suc i) n }"

definition unmask :: "mem \<Rightarrow> int \<Rightarrow> u8 \<Rightarrow> i32 \<Rightarrow> int \<Rightarrow> (mem \<times> int) ub" where
  "unmask m base byte sz offset =
     (if byte AND 0x80 \<noteq> 0 then do {
        k0 \<leftarrow> rd_at m (base + offset);
        k1 \<leftarrow> rd_at m (base + (offset + 1));
        k2 \<leftarrow> rd_at m (base + (offset + 2));
        k3 \<leftarrow> rd_at m (base + (offset + 3));
        m' \<leftarrow> unmaskLoop m (base + (offset + 4)) [k0, k1, k2, k3] 0 (unat (scast sz :: 64 word));
        Some (m', offset + 4)
      }
      else Some (m, offset))"

definition receiveCallback :: "mem \<Rightarrow> u8 \<Rightarrow> int \<Rightarrow> i32 \<Rightarrow> wsEvent list ub" where
  "receiveCallback m opcode recv sz =
     (let len = unat (ucast sz :: u16);
          bytes = take len (drop (nat recv) m) in
      if opcode = OPCODE_TEXT then Some [TextReceived bytes]
      else if opcode = OPCODE_BINARY
      then if 0 \<le> recv \<and> nat recv + len \<le> length m then Some [BinaryReceived bytes] else None
      else Some [])"

text \<open>
  \<open>out\<close> holds the two out parameters \<open>*resData\<close> (the index it points to) and \<open>*len\<close>; the result
  is the return code, the buffer, the out parameters and the events.
\<close>

type_synonym wsOut = "int \<times> i32"

partial_function (option) webSocketParse ::
    "bool \<Rightarrow> mem \<Rightarrow> int \<Rightarrow> size_t \<Rightarrow> wsOut \<Rightarrow> (i32 \<times> mem \<times> wsOut \<times> wsEvent list) ub" where
  "webSocketParse ok m base dataLenb out = do {
     byte \<leftarrow> rd_at m base;
     let opcode = byte AND 0x0F;
     if (opcode > 3 \<and> opcode < 8) \<or> opcode > 0x0B
     then Some (WEBSOCKET_ERR_INVALID_FRAME_OPCODE, m, out, [])
     else if opcode = OPCODE_PING then do {
       (_, ev) \<leftarrow> webSocketSendData ok [0x20, 0] 1 (ucast OPCODE_PONG);
       Some (0, m, out, ev)
     }
     else if opcode = OPCODE_PONG then Some (0, m, out, [])
     else do {
       byte \<leftarrow> rd_at m (base + 1);
       (sz, offset) \<leftarrow> parseSize m base byte;
       (m, offset) \<leftarrow> unmask m base byte sz offset;
       ev \<leftarrow> receiveCallback m opcode (base + offset) sz;
       m \<leftarrow> wr_at m (base + offset + sint sz) 0;
       if sz + word_of_int offset < dataLenb then do {
         (_, m, out, ev') \<leftarrow> webSocketParse ok m (base + sint (sz + word_of_int offset))
           (dataLenb - (sz + word_of_int offset)) (base + offset, sz);
         Some (0, m, out, ev @ ev')
       }
       else Some (0, m, (base + offset, sz), ev)
     }
   }"

subsection \<open>The frames of RFC 6455\<close>

text \<open>
  A frame with first byte \<open>b0\<close> (FIN bit and opcode), an optional masking key of four bytes and a
  payload of less than \<open>65536\<close> bytes.  \<open>wsPlain\<close> is the frame after the payload was unmasked in
  place.
\<close>

definition wsHeader :: "u8 \<Rightarrow> bool \<Rightarrow> nat \<Rightarrow> mem" where
  "wsHeader b0 masked n =
     (let mbit = if masked then 0x80 else 0 in
      if n < 126 then [b0, mbit OR word_of_nat n]
      else [b0, mbit OR 126, word_of_nat (n div 256), word_of_nat n])"

definition wsMask :: "mem \<Rightarrow> nat \<Rightarrow> mem \<Rightarrow> mem" where
  "wsMask key i p = map (\<lambda>j. p ! j XOR key ! ((i + j) mod 4)) [0..<length p]"

definition wsPrefix :: "u8 \<Rightarrow> mem option \<Rightarrow> nat \<Rightarrow> mem" where
  "wsPrefix b0 key n = wsHeader b0 (key \<noteq> None) n @ (case key of None \<Rightarrow> [] | Some k \<Rightarrow> k)"

definition wsFrame :: "u8 \<Rightarrow> mem option \<Rightarrow> mem \<Rightarrow> mem" where
  "wsFrame b0 key p =
     wsPrefix b0 key (length p) @ (case key of None \<Rightarrow> p | Some k \<Rightarrow> wsMask k 0 p)"

definition wsDelivered :: "u8 \<Rightarrow> mem \<Rightarrow> wsEvent list" where
  "wsDelivered b0 p =
     (if b0 AND 0x0F = OPCODE_TEXT then [TextReceived p]
      else if b0 AND 0x0F = OPCODE_BINARY then [BinaryReceived p] else [])"

text \<open>The opcodes that the reader takes as a frame with payload, and well-formed keys.\<close>

definition wsDataOpcode :: "u8 \<Rightarrow> bool" where
  "wsDataOpcode b0 \<longleftrightarrow> b0 AND 0x0F \<in> {0, 1, 2, 3, 8, 11}"

definition wsKey :: "mem option \<Rightarrow> bool" where
  "wsKey key \<longleftrightarrow> (case key of None \<Rightarrow> True | Some k \<Rightarrow> length k = 4)"

text \<open>A frame with a 64-bit length whose low 32 bits are \<open>-10\<close>.\<close>

definition loopFrame :: mem where
  "loopFrame = [0, 127, 0, 0, 0, 0, 0xFF, 0xFF, 0xFF, 0xF6]"

subsection \<open>Accesses inside the buffer\<close>

lemma rd_at_append [simp]:
  "rd_at (pre @ x # rest) (int (length pre)) = Some x"
  "rd_at (pre @ x # y # rest) (int (length pre) + 1) = Some y"
  "rd_at (pre @ x # y # z # rest) (int (length pre) + 2) = Some z"
  "rd_at (pre @ x # y # z # u # rest) (int (length pre) + 3) = Some u"
  by (simp_all add: rd_at_def nat_add_distrib nth_append)

lemma rd_at_offset:
  "length hdr = n \<Longrightarrow> i < length xs \<Longrightarrow>
   rd_at (pre @ hdr @ xs) (int (length pre) + (int n + int i)) = Some (xs ! i)"
  by (simp add: rd_at_def nat_add_distrib nth_append add.assoc)

lemma wr_at_append:
  "a = int (length pre) \<Longrightarrow> wr_at (pre @ x # rest) a b = Some (pre @ b # rest)"
  by (simp add: wr_at_def)

lemma length_wsMask [simp]: "length (wsMask key i p) = length p"
  by (simp add: wsMask_def)

lemma wsMask_Cons: "wsMask key i (x # xs) = (x XOR key ! (i mod 4)) # wsMask key (Suc i) xs"
  by (simp add: wsMask_def map_upt_Suc del: upt_Suc)

lemma wsMask_Nil [simp]: "wsMask key i [] = []"
  by (simp add: wsMask_def)

lemma wsMask_wsMask [simp]: "wsMask key i (wsMask key i p) = p"
  by (rule nth_equalityI) (simp_all add: wsMask_def xor.assoc)

lemma unmaskLoop_append:
  "a + int i = int (length pre) \<Longrightarrow>
   unmaskLoop (pre @ xs @ rest) a key i (length xs) = Some (pre @ wsMask key i xs @ rest)"
proof (induction xs arbitrary: pre i)
  case Nil
  then show ?case by (simp add: wsMask_def)
next
  case (Cons x xs)
  from Cons.IH [of "Suc i" "pre @ [x XOR key ! (i mod 4)]"] Cons.prems
  show ?case by (simp add: wsMask_Cons wr_at_append)
qed

subsection \<open>Header bytes\<close>

lemma and_127: "x AND 0x7F = take_bit 7 x" for x :: u8
proof -
  have "(0x7F :: u8) = mask 7" by (simp add: mask_eq_exp_minus_1)
  then show ?thesis by (simp add: take_bit_eq_mask)
qed

lemma mask_bit_facts:
  fixes w :: u8
  assumes "unat w < 128"
  shows "w AND 0x7F = w" and "(0x80 OR w) AND 0x7F = w" and "w AND 0x80 = 0" and "(0x80 OR w) AND 0x80 = 0x80"
proof -
  have t: "take_bit 7 w = w"
    using assms by (simp add: word_unat_eq_iff unsigned_take_bit_eq take_bit_nat_eq_self_iff)
  show 1: "w AND 0x7F = w" by (simp add: and_127 t)
  have "(0x80 :: u8) AND 0x7F = 0" by simp
  then show "(0x80 OR w) AND 0x7F = w" by (simp add: 1 bit.conj_disj_distrib2)
  have "w AND 0x80 = (w AND 0x7F) AND 0x80" by (simp only: 1)
  also have "\<dots> = 0" by (simp add: and.assoc)
  finally show 2: "w AND 0x80 = 0" .
  show "(0x80 OR w) AND 0x80 = 0x80" by (simp add: bit.conj_disj_distrib2 2)
qed

lemma length_wsHeader: "length (wsHeader b0 masked n) = (if n < 126 then 2 else 4)"
  by (simp add: wsHeader_def Let_def)

lemma join_bytes: "n < 65536 \<Longrightarrow> orShifted (ucast (word_of_nat n :: u8)) 8 (word_of_nat (n div 256)) = word_of_nat n"
proof -
  assume n: "n < 65536"
  have d: "n div 256 = drop_bit 8 n" by (simp add: drop_bit_eq_div)
  have b: "\<not> bit n k" if "16 \<le> k" for k
  proof -
    from n have "take_bit 16 n = n" by (simp add: take_bit_nat_eq_self_iff)
    then have "bit n k = bit (take_bit 16 n) k" by simp
    with that show ?thesis by (simp add: bit_take_bit_iff)
  qed
  show ?thesis unfolding orShifted_def d
  proof (rule bit_word_eqI)
    fix k assume "k < LENGTH(32)"
    then show "bit (ucast ((scast (ucast (word_of_nat n :: u8) :: u32) :: 64 word) OR push_bit 8 (ucast (word_of_nat (drop_bit 8 n) :: u8))) :: u32) k
        = bit (word_of_nat n :: u32) k"
      using b [of k] by (cases "k < 8"; cases "k < 16") (auto simp: bit_simps)
  qed
qed

lemma parseSize_header:
  assumes "n < 65536"
  shows "parseSize (pre @ wsHeader b0 masked n @ rest) (int (length pre)) (wsHeader b0 masked n ! 1)
         = Some (word_of_nat n, int (length (wsHeader b0 masked n)))"
proof (cases "n < 126")
  case True
  let ?w = "word_of_nat n :: u8"
  from True have u: "unat ?w = n" by (simp add: unat_of_nat)
  have b: "wsHeader b0 masked n ! 1 AND 0x7F = ?w"
    using mask_bit_facts [of ?w] True u by (simp add: wsHeader_def Let_def)
  from True have "take_bit 8 n = n" by (simp add: take_bit_nat_eq_self_iff)
  moreover have "?w \<noteq> 126" "?w \<noteq> 127" using u True by auto
  ultimately show ?thesis using True b
    by (simp add: parseSize_def Let_def length_wsHeader unsigned_of_nat)
next
  case False
  have b: "wsHeader b0 masked n ! 1 AND 0x7F = 126" by (simp add: wsHeader_def Let_def False)
  have h: "wsHeader b0 masked n = [b0, wsHeader b0 masked n ! 1, word_of_nat (n div 256), word_of_nat n]"
    by (simp add: wsHeader_def Let_def False)
  show ?thesis unfolding parseSize_def Let_def b
    by (subst (1 2) h) (simp add: join_bytes [OF assms] length_wsHeader False)
qed

lemma sint_of_nat_small: "n < 2147483648 \<Longrightarrow> sint (word_of_nat n :: i32) = int n"
  by (simp add: signed_of_nat signed_take_bit_int_eq_self_iff)

lemma header_mask_bit: "wsHeader b0 masked n ! 1 AND 0x80 \<noteq> 0 \<longleftrightarrow> masked"
proof (cases "n < 126")
  case True
  then have "unat (word_of_nat n :: u8) < 128" by (simp add: unat_of_nat)
  from mask_bit_facts [OF this] True show ?thesis by (simp add: wsHeader_def Let_def)
qed (simp add: wsHeader_def Let_def)

subsection \<open>Reading one frame\<close>

lemma unmask_frame:
  assumes "wsKey key" "length p < 65536"
  shows "unmask (pre @ wsFrame b0 key p @ rest) (int (length pre))
           (wsHeader b0 (key \<noteq> None) (length p) ! 1) (word_of_nat (length p))
           (int (length (wsHeader b0 (key \<noteq> None) (length p))))
         = Some (pre @ wsPrefix b0 key (length p) @ p @ rest, int (length (wsPrefix b0 key (length p))))"
proof (cases key)
  case None
  then show ?thesis using header_mask_bit [of b0 False "length p"]
    by (simp add: unmask_def wsFrame_def wsPrefix_def)
next
  case (Some k)
  then obtain k0 k1 k2 k3 where k: "k = [k0, k1, k2, k3]"
    using assms(1) by (auto simp: wsKey_def length_Suc_conv numeral_eq_Suc)
  let ?h = "wsHeader b0 True (length p)"
  let ?m = "pre @ ?h @ [k0, k1, k2, k3] @ wsMask k 0 p @ rest"
  have m: "pre @ wsFrame b0 key p @ rest = ?m" by (simp add: wsFrame_def wsPrefix_def Some k)
  have rd: "rd_at ?m (int (length pre) + (int (length ?h) + int i)) = Some ([k0, k1, k2, k3] ! i)" if "i < 4" for i
  proof -
    have "([k0, k1, k2, k3] @ wsMask k 0 p @ rest) ! i = [k0, k1, k2, k3] ! i"
      using that by (simp only: nth_append) simp
    with rd_at_offset [of ?h "length ?h" i "[k0, k1, k2, k3] @ wsMask k 0 p @ rest" pre] that
    show ?thesis by simp
  qed
  note r = rd [of 0] rd [of 1] rd [of 2] rd [of 3]
  have u: "unat (scast (word_of_nat (length p) :: i32) :: 64 word) = length p"
    using assms(2) by (simp add: scast_eq sint_of_nat_small unat_of_nat)
  have l: "unmaskLoop ?m (int (length pre) + (int (length ?h) + 4)) [k0, k1, k2, k3] 0 (length p)
      = Some (pre @ ?h @ [k0, k1, k2, k3] @ p @ rest)"
    using unmaskLoop_append [of "int (length pre) + (int (length ?h) + 4)" 0 "pre @ ?h @ [k0, k1, k2, k3]" "wsMask k 0 p" rest k]
    by (simp add: k)
  show ?thesis unfolding m unmask_def
    using header_mask_bit [of b0 True "length p"] r l
    by (simp add: Some k u wsPrefix_def)
qed

lemma length_wsFrame: "length (wsFrame b0 key p) = length (wsPrefix b0 key (length p)) + length p"
  by (simp add: wsFrame_def split: option.split)

lemma length_wsPrefix: "wsKey key \<Longrightarrow> length (wsPrefix b0 key n) \<le> 8"
  by (auto simp: wsPrefix_def wsKey_def length_wsHeader split: option.splits)

lemma frame_head:
  obtains r where "wsFrame b0 key p = b0 # wsHeader b0 (key \<noteq> None) (length p) ! 1 # r"
  by (cases "length p < 126") (simp_all add: wsFrame_def wsPrefix_def wsHeader_def Let_def)

lemma parse_frame:
  assumes b0: "wsDataOpcode b0" and key: "wsKey key" and p: "length p < 65536"
  defines "f \<equiv> length (wsFrame b0 key p)"
    and "m' \<equiv> \<lambda>rest. wsPrefix b0 key (length p) @ p @ 0 # rest"
    and "out' \<equiv> \<lambda>base. (int (base + length (wsPrefix b0 key (length p))), word_of_nat (length p))"
  shows "webSocketParse ok (pre @ wsFrame b0 key p @ x # rest) (int (length pre)) L out =
    (if f < unat L then do {
       (_, m, out, ev) \<leftarrow> webSocketParse ok (pre @ m' rest) (int (length pre + f)) (L - word_of_nat f) (out' (length pre));
       Some (0, m, out, wsDelivered b0 p @ ev)
     } else Some (0, pre @ m' rest, out' (length pre), wsDelivered b0 p))"
proof -
  let ?h = "wsHeader b0 (key \<noteq> None) (length p)" and ?w = "word_of_nat (length p) :: i32"
  let ?n = "length (wsPrefix b0 key (length p))" and ?b = "int (length pre)"
  let ?m = "pre @ wsFrame b0 key p @ x # rest"
  define byte where "byte = ?h ! 1"
  obtain r where r: "wsFrame b0 key p = b0 # byte # r" unfolding byte_def by (rule frame_head)
  have rd: "rd_at ?m ?b = Some b0" "rd_at ?m (?b + 1) = Some byte" by (simp_all add: r)
  obtain r' where r': "wsFrame b0 key p = ?h @ r'" by (simp add: wsFrame_def wsPrefix_def)
  have sz: "parseSize ?m ?b byte = Some (?w, int (length ?h))"
    using parseSize_header [OF p, of pre b0 "key \<noteq> None" "r' @ x # rest"] by (simp add: r' byte_def)
  have um: "unmask ?m ?b byte ?w (int (length ?h)) = Some (pre @ wsPrefix b0 key (length p) @ p @ x # rest, int ?n)"
    using unmask_frame [OF key p, of pre b0 "x # rest"] by (simp add: byte_def)
  have n: "?n \<le> 8" by (rule length_wsPrefix [OF key])
  have cb: "receiveCallback (pre @ wsPrefix b0 key (length p) @ p @ x # rest) (b0 AND 0x0F) (?b + int ?n) ?w
      = Some (wsDelivered b0 p)"
  proof -
    have "nat (?b + int ?n) = length pre + ?n" by simp
    moreover have "unat (ucast ?w :: u16) = length p"
      using p by (simp add: unsigned_ucast_eq unat_of_nat take_bit_nat_eq_self_iff)
    ultimately show ?thesis by (simp add: receiveCallback_def wsDelivered_def Let_def)
  qed
  have wr: "wr_at (pre @ wsPrefix b0 key (length p) @ p @ x # rest) (?b + int ?n + sint ?w) 0 = Some (pre @ m' rest)"
    using wr_at_append [of "?b + int ?n + sint ?w" "pre @ wsPrefix b0 key (length p) @ p" x rest 0] p
    by (simp add: sint_of_nat_small m'_def)
  have f: "f = length p + ?n" by (simp add: f_def length_wsFrame)
  have fw: "?w + word_of_int (int ?n) = word_of_nat f" "?w + word_of_nat ?n = word_of_nat f" by (simp_all add: f)
  have fu: "unat (word_of_nat f :: u32) = f" "sint (word_of_nat f :: i32) = int f"
  proof -
    from n p have "f < 2147483648" by (simp add: f)
    then show "unat (word_of_nat f :: u32) = f" "sint (word_of_nat f :: i32) = int f"
      by (simp_all add: unat_of_nat sint_of_nat_small)
  qed
  have lt: "word_of_nat f < L \<longleftrightarrow> f < unat L" by (simp add: word_less_nat_alt fu)
  have op: "(3 < b0 AND 0x0F \<and> b0 AND 0x0F < 8) = False" "\<not> 0x0B < b0 AND 0x0F" "b0 AND 0x0F \<noteq> 9" "b0 AND 0x0F \<noteq> 10"
    using b0 by (auto simp: wsDataOpcode_def)
  show ?thesis
    by (subst webSocketParse.simps)
      (simp add: rd sz um cb wr op fw lt fu out'_def Let_def del: not_None_eq)
qed

subsection \<open>Writing one frame\<close>

lemma sendHdrBytes_small:
  assumes "n < 5116"
  shows "sendHdrBytes (word_of_nat n) (ucast (op :: u8)) = Some (wsHeader (0x80 OR op) False n)"
proof -
  have s: "sint (word_of_nat n :: i32) = int n" and u: "unat (word_of_nat n :: u32) = n"
    using assms by (simp_all add: sint_of_nat_small unat_of_nat)
  have hi: "ucast (signed_drop_bit 8 (word_of_nat n :: u32) AND 0xFF) = (word_of_nat (n div 256) :: u8)"
    unfolding signed_drop_byte(2) [of 8 "word_of_nat n", simplified]
    by (rule bit_word_eqI) (auto simp: bit_simps and_255 drop_bit_eq_div [of 8 n, simplified, symmetric])
  have lo: "ucast ((word_of_nat n :: u32) AND 0xFF) = (word_of_nat n :: u8)" 
      "ucast (word_of_nat n :: u32) = (word_of_nat n :: u8)"
    by (rule bit_word_eqI; auto simp: bit_simps and_255)+
  have op: "ucast (ucast op :: u32) = op" by (rule bit_word_eqI) (simp add: bit_simps)
  have "(word_of_nat n :: u32) < 5120 - 4" using assms by (simp add: word_less_nat_alt u)
  then show ?thesis
    using assms by (simp add: sendHdrBytes_def wsHeader_def Let_def s hi lo op)
qed

lemma send_frame:
  assumes "length p < 5116"
  shows "webSocketSendData True (p @ r) (word_of_nat (length p)) (ucast op)
         = Some (0, [Sent (wsFrame (0x80 OR op) None p)])"
proof -
  let ?h = "wsHeader (0x80 OR op) False (length p)"
  have h: "length ?h \<le> 4" by (simp add: length_wsHeader)
  have u: "unat (word_of_nat (length p) :: u32) = length p" "unat (word_of_nat (length ?h) :: u32) = length ?h"
      "unat ((word_of_nat (length p) :: u32) + word_of_nat (length ?h)) = length p + length ?h"
    using assms h by (simp_all add: unat_of_nat flip: of_nat_add)
  let ?z = "replicate (length p + length ?h) 0"
  have w: "wr_block ?z 0 ?h = Some (put ?z 0 ?h)" by (simp add: wr_block_def)
  have "put (put ?z 0 ?h) (0 + length ?h) p = put ?z 0 (?h @ p)" by (rule put_put_adjacent) simp
  also have "\<dots> = ?h @ p" by (rule put_whole) simp
  finally have w2: "wr_block (put ?z 0 ?h) (word_of_nat (length ?h)) p = Some (?h @ p)"
    by (simp add: wr_block_def u)
  show ?thesis
    by (simp add: webSocketSendData_def sendHdrBytes_small [OF assms] Let_def u w w2 rd_block_def wsFrame_def wsPrefix_def)
qed

subsection \<open>Frames in sequence\<close>

lemma wsFrame_first: "tl (wsFrame b0 key p) = tl (wsFrame b1 key p)" "wsFrame b0 key p = b0 # tl (wsFrame b0 key p)"
  by (cases "length p < 126"; simp add: wsFrame_def wsPrefix_def wsHeader_def Let_def)+

lemma parse_single:
  assumes "wsDataOpcode b0" "wsKey key" "length p < 65536"
  shows "webSocketParse ok (pre @ wsFrame b0 key p @ x # rest) (int (length pre))
           (word_of_nat (length (wsFrame b0 key p))) out
         = Some (0, pre @ wsPrefix b0 key (length p) @ p @ 0 # rest,
             (int (length pre + length (wsPrefix b0 key (length p))), word_of_nat (length p)), wsDelivered b0 p)"
proof -
  have "length (wsFrame b0 key p) < 4294967296"
    using assms(3) length_wsPrefix [OF assms(2), of b0 "length p"] by (simp add: length_wsFrame)
  then show ?thesis by (simp add: parse_frame [OF assms] unat_of_nat)
qed

lemma parse_second:
  fixes b1
  assumes "wsDataOpcode b0" "wsKey k0" "length p < 65536" "wsKey k1" "length q < 65536"
  defines "f \<equiv> length (wsFrame b0 k0 p)" and "g \<equiv> length (wsFrame b1 k1 q)"
  shows "\<exists>m out'. webSocketParse ok (wsFrame b0 k0 p @ wsFrame b1 k1 q @ x # rest) 0 (word_of_nat (f + g)) out
         = Some (0, m, out', wsDelivered b0 p)"
proof -
  have fg: "f < 70000" "g < 70000" "0 < g"
  proof -
    show "f < 70000" "g < 70000"
      using assms(2-5) length_wsPrefix [of k0 b0 "length p"] length_wsPrefix [of k1 b1 "length q"]
      by (simp_all add: f_def g_def length_wsFrame)
    show "0 < g" unfolding g_def by (subst wsFrame_first(2)) simp
  qed
  have u: "f < unat (word_of_nat (f + g) :: u32)" using fg by (simp add: unat_of_nat del: of_nat_add)
  have d: "(word_of_nat (f + g) :: u32) - word_of_nat f = word_of_nat g" by simp
  let ?pre = "wsPrefix b0 k0 (length p) @ p"
  obtain t where first: "wsFrame b1 k1 q = b1 # t" and second: "wsFrame 0 k1 q = 0 # t"
    using wsFrame_first by metis
  have "wsDataOpcode 0" by (simp add: wsDataOpcode_def)
  from parse_single [OF this assms(4,5), of ok ?pre x rest]
  have s: "\<exists>m out'. webSocketParse ok (?pre @ 0 # t @ x # rest) (int (length ?pre)) (word_of_nat g) out
       = Some (0, m, out', [])" for out
    by (simp add: second g_def first wsDelivered_def)
  have f: "length ?pre = f" by (simp add: f_def length_wsFrame)
  from s obtain m out' where "webSocketParse ok (?pre @ 0 # t @ x # rest) (int f) (word_of_nat g)
       (int (length (wsPrefix b0 k0 (length p))), word_of_nat (length p)) = Some (0, m, out', [])"
    unfolding f by blast
  then show ?thesis
    using parse_frame [OF assms(1-3), of ok "[]" b1 "t @ x # rest" "word_of_nat (f + g)" out, folded f_def] u d
    by (simp add: first)
qed

subsection \<open>A frame that is parsed forever\<close>

lemma loopFrame_steps:
  "rd_at loopFrame 0 = Some 0" "rd_at loopFrame 1 = Some 127"
  "parseSize loopFrame 0 127 = Some (- 10, 10)" "unmask loopFrame 0 127 (- 10) 10 = Some (loopFrame, 10)"
  "receiveCallback loopFrame 0 10 (- 10) = Some []" "wr_at loopFrame 0 0 = Some loopFrame"
  by (simp_all add: parseSize_def unmask_def receiveCallback_def loopFrame_def rd_at_def wr_at_def orShifted_def nat_add_distrib Let_def)

lemma parse_diverges: "0 < L \<Longrightarrow> webSocketParse ok loopFrame 0 L out = None"
proof (rule ccontr)
  assume L: "0 < L" and "webSocketParse ok loopFrame 0 L out \<noteq> None"
  then obtain r where ret: "webSocketParse ok loopFrame 0 L out = Some r" by blast
  have "\<not> (loopFrame = loopFrame \<and> (0 :: int) = 0 \<and> 0 < L)"
    by (rule webSocketParse.raw_induct [where P = "\<lambda>ok m base L out r. \<not> (m = loopFrame \<and> base = 0 \<and> 0 < L)", OF _ ret])
      (auto simp: loopFrame_steps Let_def bind_eq_Some_conv)
  with L show False by simp
qed
subsection \<open>Properties\<close>

text \<open>
  Claim C28.  Round trip: \<open>webSocketSendData\<close> accepts every payload of less than
  \<open>SSL_BUFFER_SIZE - 4\<close> bytes when the allocation succeeds, it hands exactly one frame to
  \<open>espconn_sent\<close>, and \<open>webSocketParse\<close> applied to a buffer holding that frame calls the receive
  callback of the opcode exactly once, with exactly the payload.
\<close>

theorem websocket_roundtrip:
  assumes "length p < 5116" and "op \<in> {OPCODE_TEXT, OPCODE_BINARY}"
  shows "\<exists>frame m out'.
    webSocketSendData True (p @ r) (word_of_nat (length p)) (ucast op) = Some (0, [Sent frame])
    \<and> webSocketParse ok (frame @ x # rest) 0 (word_of_nat (length frame)) out
        = Some (0, m, out', [if op = OPCODE_TEXT then TextReceived p else BinaryReceived p])"
proof -
  let ?b = "0x80 OR op"
  have b: "wsDataOpcode ?b" "wsDelivered ?b p = [if op = OPCODE_TEXT then TextReceived p else BinaryReceived p]"
    using assms(2) by (auto simp: wsDataOpcode_def wsDelivered_def)
  from parse_single [OF b(1), of None p ok "[]" x rest out] assms(1)
  show ?thesis by (auto simp: send_frame [OF assms(1)] b(2) wsKey_def)
qed

theorem websocket_roundtrip_witness:
  "\<exists>frame m out'.
    webSocketSendData True [104, 105, 0] 2 1 = Some (0, [Sent frame])
    \<and> webSocketParse True (frame @ [7]) 0 (word_of_nat (length frame)) (0, 0)
        = Some (0, m, out', [TextReceived [104, 105]])"
  using websocket_roundtrip [of "[104, 105]" 1 "[0]" True 7 "[]" "(0, 0)"] by simp

text \<open>The outcome for a frame whose payload was read: it is unmasked in place and ended with \<open>0\<close>.\<close>

definition wsRead :: "mem \<Rightarrow> u8 \<Rightarrow> mem option \<Rightarrow> mem \<Rightarrow> mem \<Rightarrow> wsEvent list \<Rightarrow> (i32 \<times> mem \<times> wsOut \<times> wsEvent list) ub" where
  "wsRead pre b0 key p rest ev = Some (0, pre @ wsPrefix b0 key (length p) @ p @ 0 # rest,
     (int (length pre + length (wsPrefix b0 key (length p))), word_of_nat (length p)), ev)"

text \<open>
  Claim C29.  What \<open>webSocketParse\<close> does with one frame of less than 65536 bytes, masked with any key or not, wherever it stands in the
  buffer, for every first byte.  A text or binary message in one frame is read as RFC 6455 says: the payload is
  unmasked in place, the callback of its opcode gets exactly the payload, the out parameters point to it,
  and only the byte behind it is overwritten, with the terminating \<open>0\<close>.  For the other first bytes the outcome is
  that of the code, which is not the one of the RFC: the FIN bit is not looked at, so that the first fragment of a
  message is delivered as a message and its continuations are dropped; close frames and the reserved opcodes 3 and
  11 are dropped; a ping is answered with a pong that carries a blank instead of the payload; a pong is ignored.  The other
  reserved opcodes are refused.
\<close>

theorem websocket_receive:
  assumes "wsKey key" and "length p < 65536" and "unat L \<le> length (wsFrame b0 key p)"
    and "m = pre @ wsFrame b0 key p @ x # rest" and "parsed = webSocketParse ok m (int (length pre)) L out"
  shows "(b0 AND 0x0F = OPCODE_TEXT \<longrightarrow> parsed = wsRead pre b0 key p rest [TextReceived p])
    \<and> (b0 AND 0x0F = OPCODE_BINARY \<longrightarrow> parsed = wsRead pre b0 key p rest [BinaryReceived p])
    \<and> (b0 AND 0x0F \<in> {0, 3, OPCODE_CLOSE, 11} \<longrightarrow> parsed = wsRead pre b0 key p rest [])
    \<and> (b0 AND 0x0F = OPCODE_PING \<and> ok \<longrightarrow> parsed = Some (0, m, out, [Sent (wsFrame (0x80 OR OPCODE_PONG) None [0x20])]))
    \<and> (b0 AND 0x0F = OPCODE_PONG \<longrightarrow> parsed = Some (0, m, out, []))
    \<and> (b0 AND 0x0F \<in> {4, 5, 6, 7, 12, 13, 14, 15} \<longrightarrow> parsed = Some (WEBSOCKET_ERR_INVALID_FRAME_OPCODE, m, out, []))"
proof -
  have dat: "parsed = wsRead pre b0 key p rest (wsDelivered b0 p)" if "wsDataOpcode b0"
    using assms(3) by (simp add: parse_frame [OF that assms(1,2)] assms(4,5) wsRead_def)
  obtain r where "wsFrame b0 key p = b0 # r" using frame_head by metis
  then have b0: "rd_at m (int (length pre)) = Some b0" by (simp add: assms(4))
  have pong: "webSocketSendData True [0x20, 0] 1 (ucast OPCODE_PONG) = Some (0, [Sent (wsFrame (0x80 OR OPCODE_PONG) None [0x20])])"
    using send_frame [of "[0x20]" "[0]" OPCODE_PONG] by simp
  have deliver: "wsDelivered b0 p = (if b0 AND 0x0F = OPCODE_TEXT then [TextReceived p]
      else if b0 AND 0x0F = OPCODE_BINARY then [BinaryReceived p] else [])" by (simp add: wsDelivered_def)
  have txtFrame: "parsed = wsRead pre b0 key p rest [TextReceived p]" if "b0 AND 0x0F = OPCODE_TEXT"
    using dat that by (simp add: wsDataOpcode_def deliver)
  have binary: "parsed = wsRead pre b0 key p rest [BinaryReceived p]" if "b0 AND 0x0F = OPCODE_BINARY"
    using dat that by (simp add: wsDataOpcode_def deliver)
  have dropped: "parsed = wsRead pre b0 key p rest []" if "b0 AND 0x0F \<in> {0, 3, OPCODE_CLOSE, 11}"
    using dat that by (auto simp: wsDataOpcode_def deliver)
  have control: "b0 AND 0x0F = OPCODE_PING \<and> ok \<longrightarrow>
        parsed = Some (0, m, out, [Sent (wsFrame (0x80 OR OPCODE_PONG) None [0x20])])"
    "b0 AND 0x0F = OPCODE_PONG \<longrightarrow> parsed = Some (0, m, out, [])"
    "b0 AND 0x0F \<in> {4, 5, 6, 7, 12, 13, 14, 15} \<longrightarrow>
        parsed = Some (WEBSOCKET_ERR_INVALID_FRAME_OPCODE, m, out, [])"
    unfolding assms(5) using b0 pong by (subst webSocketParse.simps, auto)+
  show ?thesis using txtFrame binary dropped control by auto
qed

theorem websocket_receive_witness:
  "wsFrame 0x82 (Some [1, 2, 3, 4]) [104, 105, 0] = [0x82, 0x83, 1, 2, 3, 4, 105, 107, 3]
   \<and> webSocketParse True ([9] @ wsFrame 0x82 (Some [1, 2, 3, 4]) [104, 105, 0] @ 7 # [8]) 1 9 (0, 0)
     = Some (0, [9, 0x82, 0x83, 1, 2, 3, 4, 104, 105, 0, 0, 8], (7, 3), [BinaryReceived [104, 105, 0]])
   \<and> webSocketParse True ([9] @ wsFrame 0x89 None [1, 2] @ 7 # [8]) 1 4 (0, 0)
     = Some (0, [9] @ wsFrame 0x89 None [1, 2] @ 7 # [8], (0, 0), [Sent (wsFrame 0x8A None [0x20])])"
proof -
  have f: "wsFrame 0x82 (Some [1, 2, 3, 4]) [104, 105, 0] = [0x82, 0x83, 1, 2, 3, 4, 105, 107, 3]"
    and "wsPrefix 0x82 (Some [1, 2, 3, 4]) (Suc (Suc (Suc 0))) = [0x82, 0x83, 1, 2, 3, 4]"
    and "wsKey (Some [1, 2, 3, 4])" "wsKey None" "length (wsFrame 0x89 None [1, 2]) = 4"
    by (simp_all add: wsFrame_def wsPrefix_def wsHeader_def wsMask_Cons wsKey_def Let_def)
  then show ?thesis
    using websocket_receive [of "Some [1, 2, 3, 4]" "[104, 105, 0]" 9 "0x82" _ "[9]" 7 "[8]" _ True "(0, 0)", OF _ _ _ refl refl]
      websocket_receive [of None "[1, 2]" 4 "0x89" _ "[9]" 7 "[8]" _ True "(0, 0)", OF _ _ _ refl refl]
    by (simp add: wsRead_def)
qed

text \<open>
  Of two frames in one segment only the first is delivered: the terminating \<open>0\<close> written
  behind the first payload overwrites the first byte of the second frame, so that its opcode is
  read as \<open>0\<close> and neither a callback nor a pong follows, whatever the second frame is.
\<close>

lemma websocket_second_frame_lost:
  assumes "wsDataOpcode b0" "wsKey k0" "length p < 65536" "wsKey k1" "length q < 65536"
  shows "\<exists>m out'. webSocketParse ok (wsFrame b0 k0 p @ wsFrame b1 k1 q @ x # rest) 0
      (word_of_nat (length (wsFrame b0 k0 p) + length (wsFrame b1 k1 q))) out
    = Some (0, m, out', wsDelivered b0 p)"
  by (rule parse_second [OF assms])

lemma websocket_second_frame_lost_witness:
  "\<exists>m out'. webSocketParse True (wsFrame 0x82 None [1] @ wsFrame 0x82 None [2] @ 0 # []) 0
      (word_of_nat (length (wsFrame 0x82 None [1]) + length (wsFrame 0x82 None [2]))) (0, 0)
    = Some (0, m, out', [BinaryReceived [1]])"
  using websocket_second_frame_lost [of "0x82" None "[1]" None "[2]" True "0x82" 0 "[]" "(0, 0)"]
  by (simp add: wsDataOpcode_def wsKey_def wsDelivered_def)

end
