(* ===== verification/CompMsgFile.thy ===== *)
theory CompMsgFile
  imports TypesAndNames
begin

text \<open>
  \<^verbatim>\<open>src/app/compMsg/compMsgFile.c\<close>: files are read line by line into a buffer of the caller, a line is
  split into fields at its commas, and a field is read as a number or as a string.

  \<^item> The flash file system (\<^verbatim>\<open>app/platform/flash_fs.h\<close>, which names the SPIFFS library) is the parameter
    \<open>fsOps\<close>; \<open>'f\<close> is its state.  What the code relies on is the predicate \<open>reads_file\<close>.  \<open>BUFSIZ\<close> of
    \<^verbatim>\<open>stdio.h\<close> is the parameter \<open>bufsiz\<close>.
  \<^item> \<open>compMsgFile_t\<close> and the static \<open>fileFd\<close> are two records: \<open>openedFile\<close> is what reading and writing
    change, \<open>lineFields\<close> what splitting a line changes.  The pointers in \<open>lineFields\<close> point into the line
    buffer \<open>buf[100]\<close> of \<open>handleMsgFileInternal\<close>, the only caller, and are offsets into it; \<open>None\<close> is a
    pointer that must not be read (null, or into the buffer of a call that has returned).  \<open>fileId\<close> and
    \<open>fileSize\<close> are never used.
\<close>

subsection \<open>Files\<close>

record 'f fsOps =
  fs_open :: "'f \<Rightarrow> string \<Rightarrow> u32 \<Rightarrow> i32 \<times> 'f"
  fs_close :: "'f \<Rightarrow> i32 \<Rightarrow> 'f"
  fs_read :: "'f \<Rightarrow> i32 \<Rightarrow> nat \<Rightarrow> mem \<times> 'f"
  fs_write :: "'f \<Rightarrow> i32 \<Rightarrow> mem \<Rightarrow> size_t \<times> 'f"
  fs_seek_cur :: "'f \<Rightarrow> i32 \<Rightarrow> i32 \<Rightarrow> 'f"
  fs_flush :: "'f \<Rightarrow> i32 \<Rightarrow> i32 \<times> 'f"

record 'f openedFile =
  fileSystem :: 'f
  fileFd :: i32
  openFileName :: "string option"

abbreviation (input) "FS_OPEN_OK \<equiv> (1 :: i32)"

abbreviation (input) "FS_APPEND \<equiv> (1 :: u32)"
abbreviation (input) "FS_TRUNC \<equiv> (2 :: u32)"
abbreviation (input) "FS_CREAT \<equiv> (4 :: u32)"
abbreviation (input) "FS_RDONLY \<equiv> (8 :: u32)"
abbreviation (input) "FS_WRONLY \<equiv> (16 :: u32)"
abbreviation (input) "FS_RDWR \<equiv> (24 :: u32)"
abbreviation (input) "FS_ENCRYPT \<equiv> (128 :: u32)"

text \<open>\<open>fs_mode2flag\<close> of \<^verbatim>\<open>app/platform/flash_fs.c\<close>; \<open>SPIFFS_USE_ENCRYPT\<close> is defined in \<^verbatim>\<open>user_config.h\<close>.\<close>

definition fs_mode2flag :: "string \<Rightarrow> u32" where
  "fs_mode2flag mode =
    (if length mode = 1 then
       if mode = ''w'' then FS_WRONLY OR FS_CREAT OR FS_TRUNC
       else if mode = ''r'' then FS_RDONLY
       else if mode = ''a'' then FS_WRONLY OR FS_CREAT OR FS_APPEND
       else if mode = ''e'' then FS_RDONLY OR FS_ENCRYPT
       else FS_RDONLY
     else if length mode = 2 then
       if mode = ''r+'' then FS_RDWR
       else if mode = ''w+'' then FS_RDWR OR FS_CREAT OR FS_TRUNC
       else if mode = ''a+'' then FS_RDWR OR FS_CREAT OR FS_APPEND
       else if mode = ''e+'' then FS_RDWR OR FS_CREAT OR FS_ENCRYPT
       else FS_RDONLY
     else if length mode = 3 then
       if mode = ''re+'' then FS_RDWR OR FS_ENCRYPT
       else if mode = ''we+'' then FS_RDWR OR FS_CREAT OR FS_TRUNC OR FS_ENCRYPT
       else if mode = ''ae+'' then FS_RDWR OR FS_CREAT OR FS_APPEND OR FS_ENCRYPT
       else FS_RDONLY
     else FS_RDONLY)"

definition openFile :: "'f fsOps \<Rightarrow> 'f openedFile \<Rightarrow> string \<Rightarrow> string \<Rightarrow> errcode \<times> 'f openedFile" where
  "openFile ops self name mode =
    (case fs_open ops (fileSystem self) name (fs_mode2flag mode) of (fd, fs) \<Rightarrow>
      (if sint fd < sint FS_OPEN_OK then COMP_MSG_ERR_OPEN_FILE else COMP_MSG_ERR_OK,
       self\<lparr>openFileName := Some name, fileFd := fd, fileSystem := fs\<rparr>))"

definition closeFile :: "'f fsOps \<Rightarrow> 'f openedFile \<Rightarrow> errcode \<times> 'f openedFile" where
  "closeFile ops self =
    (if fileFd self \<noteq> FS_OPEN_OK - 1 then
       (COMP_MSG_ERR_OK, self\<lparr>openFileName := None, fileSystem := fs_close ops (fileSystem self) (fileFd self),
                              fileFd := FS_OPEN_OK - 1\<rparr>)
     else (COMP_MSG_ERR_OK, self))"

definition flushFile :: "'f fsOps \<Rightarrow> 'f openedFile \<Rightarrow> errcode \<times> 'f openedFile" where
  "flushFile ops self =
    (if fileFd self = FS_OPEN_OK - 1 then (COMP_MSG_ERR_FILE_NOT_OPENED, self)
     else case fs_flush ops (fileSystem self) (fileFd self) of (r, fs) \<Rightarrow>
       (if r = 0 then COMP_MSG_ERR_OK else COMP_MSG_ERR_FLUSH_FILE, self\<lparr>fileSystem := fs\<rparr>))"

text \<open>
  The loop of \<open>readLine\<close> that copies the bytes read, with the newline, into the buffer of the caller,
  from index \<open>i\<close> on.  The buffer has no bound the function knows of.
\<close>

primrec copyLine :: "u8 cell list \<Rightarrow> nat \<Rightarrow> mem \<Rightarrow> (nat \<times> u8 cell list) ub" where
  "copyLine cp i [] = Some (i, cp)"
| "copyLine cp i (b # bs) =
    do { cp \<leftarrow> wr_cell cp i b;
         if b = 10 then Some (i + 1, cp) else copyLine cp (i + 1) bs }"

definition readLine ::
  "nat \<Rightarrow> 'f fsOps \<Rightarrow> 'f openedFile \<Rightarrow> u8 cell list \<Rightarrow> ((errcode + u8) \<times> 'f openedFile \<times> u8 cell list) ub" where
  "readLine bufsiz ops self buffer =
    (if fileFd self = FS_OPEN_OK - 1 then Some (Inl COMP_MSG_ERR_FILE_NOT_OPENED, self, buffer)
     else case fs_read ops (fileSystem self) (fileFd self) bufsiz of (bs, fs) \<Rightarrow>
       do { (i, cp) \<leftarrow> copyLine buffer 0 bs;
            cp \<leftarrow> wr_cell cp i 0;
            Some (Inr (word_of_nat i),
                  self\<lparr>fileSystem := fs_seek_cur ops fs (fileFd self) (- (word_of_nat (length bs) - word_of_nat i))\<rparr>,
                  cp) })"

definition writeLine :: "'f fsOps \<Rightarrow> 'f openedFile \<Rightarrow> mem \<Rightarrow> u8 \<Rightarrow> (errcode \<times> 'f openedFile) ub" where
  "writeLine ops self buffer lgth =
    (if fileFd self = FS_OPEN_OK - 1 then Some (COMP_MSG_ERR_FILE_NOT_OPENED, self)
     else do { bs \<leftarrow> rd_block buffer 0 (unat lgth);
               case fs_write ops (fileSystem self) (fileFd self) bs of (r, fs) \<Rightarrow>
                 Some (if r = ucast lgth then COMP_MSG_ERR_OK else COMP_MSG_ERR_WRITE_FILE,
                       self\<lparr>fileSystem := fs\<rparr>) })"

subsection \<open>The fields of a line\<close>

record lineFields =
  numLineFields :: nat
  lineFields :: "nat option list"
  lineBuf :: "u8 cell list"

abbreviation (input) "MSG_MAX_LINE_FIELDS \<equiv> (15 :: nat)"

text \<open>The loop of \<open>getLineFields\<close> from \<open>cp\<close> on, with \<open>k\<close> bytes in front of \<open>ep\<close>.\<close>

primrec fieldsLoop :: "lineFields \<Rightarrow> nat \<Rightarrow> nat \<Rightarrow> (errcode \<times> lineFields) ub" where
  "fieldsLoop self cp 0 = Some (COMP_MSG_ERR_OK, self)"
| "fieldsLoop self cp (Suc k) =
    do { c \<leftarrow> rd_cell (lineBuf self) cp;
         if c = of_char CHR '','' then
           do { b \<leftarrow> wr_cell (lineBuf self) cp 0;
                let self = self\<lparr>lineBuf := b, numLineFields := numLineFields self + 1\<rparr>;
                if numLineFields self \<ge> MSG_MAX_LINE_FIELDS then Some (COMP_MSG_ERR_TOO_MANY_LINE_FIELDS, self)
                else fieldsLoop (self\<lparr>lineFields := (lineFields self)[numLineFields self := Some (cp + 1)]\<rparr>) (cp + 1) k }
         else if c = 13 \<or> c = 10 then
           do { b \<leftarrow> wr_cell (lineBuf self) cp 0;
                fieldsLoop (self\<lparr>lineBuf := b\<rparr>) (cp + 1) k }
         else fieldsLoop self (cp + 1) k }"

definition getLineFields :: "lineFields \<Rightarrow> u8 \<Rightarrow> (errcode \<times> lineFields) ub" where
  "getLineFields self lgth =
    do { (rc, self) \<leftarrow> fieldsLoop (self\<lparr>numLineFields := 0, lineFields := (lineFields self)[0 := Some 0]\<rparr>) 0 (unat lgth);
         Some (if rc \<noteq> COMP_MSG_ERR_OK then (rc, self)
               else (COMP_MSG_ERR_OK, self\<lparr>numLineFields := numLineFields self + 1\<rparr>)) }"

text \<open>A C string in a buffer: its bytes before the first zero, and as characters.\<close>

primrec c_bytes :: "u8 cell list \<Rightarrow> mem ub" where
  "c_bytes [] = None"
| "c_bytes (c # cs) =
    (case c of Undef \<Rightarrow> None
     | Def b \<Rightarrow> if b = 0 then Some [] else do { bs \<leftarrow> c_bytes cs; Some (b # bs) })"

definition chars :: "mem \<Rightarrow> string" where
  "chars bs = map (\<lambda>b. char_of (unat b)) bs"

definition lineStr :: "lineFields \<Rightarrow> nat \<Rightarrow> string ub" where
  "lineStr self off = do { bs \<leftarrow> c_bytes (drop off (lineBuf self)); Some (chars bs) }"

text \<open>\<open>compMsgFile->lineFields[i]\<close>, as a pointer and as the string there.\<close>

definition lineField :: "lineFields \<Rightarrow> nat \<Rightarrow> nat ub" where
  "lineField self i = (if i < length (lineFields self) then lineFields self ! i else None)"

definition fieldStr :: "lineFields \<Rightarrow> nat \<Rightarrow> string ub" where
  "fieldStr self i = do { off \<leftarrow> lineField self i; lineStr self off }"

subsection \<open>Numbers\<close>

text \<open>
  \<open>strtoul\<close> of the C library, 32 bits wide: white space, a sign, the prefix of the base, the digits;
  \<open>ULONG_MAX\<close> when the number does not fit.  No caller uses the end pointer.
\<close>

definition isspace_c :: "char \<Rightarrow> bool" where
  "isspace_c c \<longleftrightarrow> c = CHR '' '' \<or> (9 \<le> (of_char c :: nat) \<and> (of_char c :: nat) \<le> 13)"

definition digit_val :: "char \<Rightarrow> nat" where
  "digit_val c =
    (let n = of_char c :: nat in
     if 48 \<le> n \<and> n \<le> 57 then n - 48
     else if 65 \<le> n \<and> n \<le> 90 then n - 55
     else if 97 \<le> n \<and> n \<le> 122 then n - 87
     else 36)"

fun base_prefix :: "nat \<Rightarrow> string \<Rightarrow> nat \<times> string" where
  "base_prefix base (c # d # e # cs) =
    (if (base = 0 \<or> base = 16) \<and> c = CHR ''0'' \<and> (d = CHR ''x'' \<or> d = CHR ''X'') \<and> digit_val e < 16
     then (16, e # cs)
     else (if base = 0 then if c = CHR ''0'' then 8 else 10 else base, c # d # e # cs))"
| "base_prefix base (c # cs) = (if base = 0 then if c = CHR ''0'' then 8 else 10 else base, c # cs)"
| "base_prefix base [] = (if base = 0 then 10 else base, [])"

fun sign_prefix :: "string \<Rightarrow> bool \<times> string" where
  "sign_prefix (c # cs) = (if c = CHR ''-'' then (True, cs) else if c = CHR ''+'' then (False, cs) else (False, c # cs))"
| "sign_prefix [] = (False, [])"

definition digits_value :: "nat \<Rightarrow> string \<Rightarrow> nat" where
  "digits_value base cs = foldl (\<lambda>v c. v * base + digit_val c) 0 (takeWhile (\<lambda>c. digit_val c < base) cs)"

definition strtoul :: "string \<Rightarrow> nat \<Rightarrow> u32" where
  "strtoul cs base =
    (let (neg, cs) = sign_prefix (dropWhile isspace_c cs);
         (base, cs) = base_prefix base cs;
         v = digits_value base cs in
     if v > 0xFFFFFFFF then 0xFFFFFFFF
     else if neg then - word_of_nat v else word_of_nat v)"

definition getIntFieldValue :: "lineFields \<Rightarrow> nat \<Rightarrow> nat \<Rightarrow> i32 ub" where
  "getIntFieldValue self cp base = do { s \<leftarrow> lineStr self cp; Some (strtoul s base) }"

subsection \<open>Strings\<close>

text \<open>
  The loop that cuts off a double quote at the end of the string; there are at most as many rounds as
  the buffer has bytes from \<open>cp1\<close> on, since reading behind it is undefined.
\<close>

primrec stringLoop :: "u8 cell list \<Rightarrow> nat \<Rightarrow> nat \<Rightarrow> u8 cell list ub" where
  "stringLoop b cp1 0 = None"
| "stringLoop b cp1 (Suc k) =
    do { c \<leftarrow> rd_cell b cp1;
         if c = 0 then Some b
         else if c = of_char CHR 0x22 then
           do { d \<leftarrow> rd_cell b (cp1 + 1);
                if d = 0 then wr_cell b cp1 0 else stringLoop b (cp1 + 1) k }
         else stringLoop b (cp1 + 1) k }"

definition getStringFieldValue :: "lineFields \<Rightarrow> nat \<Rightarrow> ((errcode + nat) \<times> lineFields) ub" where
  "getStringFieldValue self cp =
    do { c \<leftarrow> rd_cell (lineBuf self) cp;
         if c \<noteq> of_char CHR 0x22 \<and> c \<noteq> of_char CHR ''@'' then Some (Inl COMP_MSG_ERR_NOT_A_STRING, self)
         else
           let cp1 = (if c \<noteq> of_char CHR ''@'' then cp + 1 else cp) in
           do { b \<leftarrow> stringLoop (lineBuf self) cp1 (Suc (length (lineBuf self) - cp1));
                Some (Inr cp1, self\<lparr>lineBuf := b\<rparr>) } }"

text \<open>\<open>newCompMsgFile\<close>: zeroed memory.\<close>

definition newCompMsgFile :: "bool \<Rightarrow> lineFields option" where
  "newCompMsgFile ok =
    (if ok then Some \<lparr>numLineFields = 0, lineFields = replicate MSG_MAX_LINE_FIELDS None, lineBuf = []\<rparr> else None)"

subsection \<open>Reading a line\<close>

text \<open>
  What the code relies on of the file system: \<open>at f c p\<close> says that in the state \<open>f\<close> the descriptor
  \<open>fd\<close> stands at byte \<open>p\<close> of a file with the bytes \<open>c\<close>; reading returns the bytes from there, as many
  as asked for and as there are, and moves behind them; seeking back moves back.
\<close>

definition reads_file :: "'f fsOps \<Rightarrow> i32 \<Rightarrow> ('f \<Rightarrow> mem \<Rightarrow> nat \<Rightarrow> bool) \<Rightarrow> bool" where
  "reads_file ops fd at \<longleftrightarrow>
    (\<forall>f c p n. at f c p \<longrightarrow> p \<le> length c \<longrightarrow>
       (case fs_read ops f fd n of (bs, f') \<Rightarrow> bs = take n (drop p c) \<and> at f' c (p + length bs)))
    \<and> (\<forall>f c p d. at f c p \<longrightarrow> d \<le> p \<longrightarrow> d < 2 ^ 31 \<longrightarrow> at (fs_seek_cur ops f fd (- word_of_nat d)) c (p - d))"

lemma chars_of_char [simp]: "chars (map of_char s) = s"
  by (simp add: chars_def comp_def)

lemma reads_fileD:
  assumes "reads_file ops fd at" "at f c p"
  shows "p \<le> length c \<Longrightarrow> fst (fs_read ops f fd n) = take n (drop p c)"
    and "p \<le> length c \<Longrightarrow> at (snd (fs_read ops f fd n)) c (p + length (fst (fs_read ops f fd n)))"
    and "d \<le> p \<Longrightarrow> d < 2 ^ 31 \<Longrightarrow> at (fs_seek_cur ops f fd (- word_of_nat d)) c (p - d)"
  using assms unfolding reads_file_def split_beta by blast+

text \<open>The first line of a text, with its newline.\<close>

fun first_line :: "mem \<Rightarrow> mem" where
  "first_line [] = []"
| "first_line (b # bs) = (if b = 10 then [b] else b # first_line bs)"

lemma first_line_take: "first_line (take n bs) = take n (first_line bs)"
  by (induction bs arbitrary: n rule: first_line.induct) (auto simp: take_Cons' )

lemma length_first_line: "length (first_line bs) \<le> length bs"
  by (induction bs rule: first_line.induct) auto

lemma first_line_prefix: "first_line bs = take (length (first_line bs)) bs"
  by (induction bs rule: first_line.induct) auto

lemma first_line_empty [simp]: "first_line bs = [] \<longleftrightarrow> bs = []"
  by (cases bs) auto

lemma copyLine_fits:
  "i + length (first_line bs) \<le> length cp \<Longrightarrow>
   copyLine cp i bs = Some (i + length (first_line bs),
     take i cp @ map Def (first_line bs) @ drop (i + length (first_line bs)) cp)"
proof (induction bs arbitrary: cp i rule: first_line.induct)
  case (2 b bs)
  then have i: "i < length cp" by (auto split: if_splits)
  let ?cp = "take i cp @ Def b # drop (Suc i) cp"
  have "copyLine ?cp (Suc i) bs = Some (Suc i + length (first_line bs),
      take (Suc i) ?cp @ map Def (first_line bs) @ drop (Suc i + length (first_line bs)) ?cp)" if "b \<noteq> 10"
    using 2(1) [of "Suc i" ?cp] 2(2) i that by simp
  moreover have "take (Suc i) ?cp = take i cp @ [Def b]" "drop (Suc i + n) ?cp = drop (Suc (i + n)) cp" for n
    using i by (simp_all add: add.commute)
  ultimately show ?case using i by (simp add: upd_conv_take_nth_drop)
qed simp

lemma copyLine_overruns: "length cp < i + length (first_line bs) \<Longrightarrow> i \<le> length cp \<Longrightarrow> copyLine cp i bs = None"
proof (induction bs arbitrary: cp i rule: first_line.induct)
  case (2 b bs)
  then show ?case by (cases "i < length cp") (auto simp: wr_cell_def)
qed simp

lemma readLine_copies:
  assumes "reads_file ops (fileFd self) at" "at (fileSystem self) c p" "p \<le> length c"
    and "fileFd self \<noteq> 0" "bufsiz < 2 ^ 31"
    and line: "line = first_line (take bufsiz (drop p c))" and fits: "length line < length buffer"
  shows "\<exists>self'. readLine bufsiz ops self buffer
      = Some (Inr (word_of_nat (length line)), self', map Def (line @ [0]) @ drop (length line + 1) buffer)
    \<and> at (fileSystem self') c (p + length line) \<and> fileFd self' = fileFd self"
proof -
  obtain bs fs where r: "fs_read ops (fileSystem self) (fileFd self) bufsiz = (bs, fs)" by fastforce
  have bs: "bs = take bufsiz (drop p c)" and at: "at fs c (p + length bs)"
    using reads_fileD(1,2) [OF assms(1-3), of bufsiz] r by simp_all
  have le: "length line \<le> length bs" using length_first_line [of bs] by (simp add: line bs)
  define d where "d = length bs - length line"
  have d: "d \<le> p + length bs" "d < 2 ^ 31" using assms(5) by (auto simp: d_def bs)
  have diff: "(word_of_nat (length line) - word_of_nat (length bs) :: u32) = - word_of_nat d"
    using le by (simp add: d_def of_nat_diff)
  from reads_fileD(3) [OF assms(1) at d]
  have "at (fs_seek_cur ops fs (fileFd self) (- word_of_nat d)) c (p + length line)"
    using le by (simp add: d_def)
  moreover have "copyLine buffer 0 bs = Some (length line, map Def line @ drop (length line) buffer)"
    using copyLine_fits [of 0 bs buffer] fits by (simp add: line bs)
  moreover have "(map Def line @ drop (length line) buffer)[length line := Def 0]
      = map Def (line @ [0]) @ drop (length line + 1) buffer"
    using fits by (simp add: list_update_append Cons_nth_drop_Suc [symmetric])
  ultimately show ?thesis using fits assms(4)
    by (simp add: readLine_def r diff del: of_nat_diff)
qed

subsection \<open>Splitting a line\<close>

text \<open>The fields of a line, as lists of bytes, and where they start: the offsets behind the commas.\<close>

fun split_commas :: "mem \<Rightarrow> mem list" where
  "split_commas [] = [[]]"
| "split_commas (b # bs) =
    (if b = of_char CHR '','' then [] # split_commas bs
     else (b # hd (split_commas bs)) # tl (split_commas bs))"

fun comma_offsets :: "nat \<Rightarrow> mem \<Rightarrow> nat list" where
  "comma_offsets cp [] = []"
| "comma_offsets cp (b # bs) =
    (if b = of_char CHR '','' then (cp + 1) # comma_offsets (cp + 1) bs else comma_offsets (cp + 1) bs)"

text \<open>What splitting leaves of a byte, and what is left of a field.\<close>

definition zap :: "u8 \<Rightarrow> u8" where
  "zap b = (if b = of_char CHR '','' \<or> b = 13 \<or> b = 10 then 0 else b)"

definition field_text :: "mem \<Rightarrow> string" where
  "field_text f = chars (takeWhile (\<lambda>b. b \<noteq> 13 \<and> b \<noteq> 10) f)"

definition line_shows :: "lineFields \<Rightarrow> string list \<Rightarrow> bool" where
  "line_shows ls fs \<longleftrightarrow> numLineFields ls = length fs \<and> (\<forall>i < length fs. fieldStr ls i = Some (fs ! i))"

lemma split_commas_not_Nil [simp]: "split_commas bs \<noteq> []"
  by (cases bs) auto

lemma length_split_commas: "length (split_commas bs) = Suc (length (comma_offsets cp bs))"
  by (induction bs arbitrary: cp rule: split_commas.induct) auto

lemma comma_offsets_shift: "comma_offsets (Suc cp) bs = map Suc (comma_offsets cp bs)"
  by (induction bs arbitrary: cp) auto

lemma fieldsLoop_char:
  assumes buf: "lineBuf ls = pre @ Def b # rest" "length pre = cp" and b: "b \<noteq> of_char CHR '',''"
  shows "fieldsLoop ls cp (Suc k) = fieldsLoop (ls\<lparr>lineBuf := (pre @ [Def (zap b)]) @ rest\<rparr>) (cp + 1) k"
proof (cases "b = 13 \<or> b = 10")
  case True
  then show ?thesis using assms by (auto simp: rd_cell_def nth_append list_update_append zap_def)
next
  case False
  then have "ls\<lparr>lineBuf := (pre @ [Def (zap b)]) @ rest\<rparr> = ls" using assms by (cases ls) (simp add: zap_def)
  moreover have "fieldsLoop ls cp (Suc k) = fieldsLoop ls (cp + 1) k"
    using assms False by (simp add: rd_cell_def nth_append)
  ultimately show ?thesis by (simp only:)
qed

lemma fieldsLoop_comma:
  assumes "lineBuf ls = pre @ Def (of_char CHR '','') # rest" "length pre = cp"
  shows "fieldsLoop ls cp (Suc k) =
    (let ls = ls\<lparr>lineBuf := (pre @ [Def 0]) @ rest, numLineFields := numLineFields ls + 1\<rparr> in
     if numLineFields ls \<ge> MSG_MAX_LINE_FIELDS then Some (COMP_MSG_ERR_TOO_MANY_LINE_FIELDS, ls)
     else fieldsLoop (ls\<lparr>lineFields := (lineFields ls)[numLineFields ls := Some (cp + 1)]\<rparr>) (cp + 1) k)"
  using assms by (simp add: rd_cell_def nth_append list_update_append Let_def)

lemma fieldsLoop_ok:
  assumes "lineBuf ls = pre @ map Def line @ rest" "length pre = cp" "length (lineFields ls) = 15"
    and "numLineFields ls + length (comma_offsets cp line) < 15"
  shows "fieldsLoop ls cp (length line) = Some (COMP_MSG_ERR_OK,
    ls\<lparr>lineBuf := pre @ map Def (map zap line) @ rest,
       numLineFields := numLineFields ls + length (comma_offsets cp line),
       lineFields := take (numLineFields ls + 1) (lineFields ls) @ map Some (comma_offsets cp line)
         @ drop (numLineFields ls + 1 + length (comma_offsets cp line)) (lineFields ls)\<rparr>)"
  using assms
proof (induction line arbitrary: ls pre cp)
  case (Cons b bs)
  define n where "n = numLineFields ls"
  show ?case
  proof (cases "b = of_char CHR '',''")
    case True
    let ?ls = "ls\<lparr>lineBuf := (pre @ [Def 0]) @ map Def bs @ rest, numLineFields := n + 1,
      lineFields := (lineFields ls)[n + 1 := Some (cp + 1)]\<rparr>"
    have "fieldsLoop ls cp (length (b # bs)) = fieldsLoop ?ls (cp + 1) (length bs)"
      using fieldsLoop_comma [of ls pre "map Def bs @ rest" cp "length bs"] Cons.prems True
      by (simp add: n_def Let_def)
    with Cons.IH [of ?ls "pre @ [Def 0]" "cp + 1"] Cons.prems True show ?thesis
      by (simp add: n_def zap_def take_Suc_conv_app_nth [of "Suc n" for n])
  next
    case False
    let ?ls = "ls\<lparr>lineBuf := (pre @ [Def (zap b)]) @ map Def bs @ rest\<rparr>"
    have "fieldsLoop ls cp (length (b # bs)) = fieldsLoop ?ls (cp + 1) (length bs)"
      using fieldsLoop_char [of ls pre b "map Def bs @ rest" cp "length bs"] Cons.prems False by simp
    with Cons.IH [of ?ls "pre @ [Def (zap b)]" "cp + 1"] Cons.prems False show ?thesis
      by simp
  qed
qed simp

lemma fieldsLoop_many:
  assumes "lineBuf ls = pre @ map Def line @ rest" "length pre = cp"
    and "15 \<le> numLineFields ls + length (comma_offsets cp line)" "numLineFields ls < 15"
  shows "\<exists>ls'. fieldsLoop ls cp (length line) = Some (COMP_MSG_ERR_TOO_MANY_LINE_FIELDS, ls')"
  using assms
proof (induction line arbitrary: ls pre cp)
  case (Cons b bs)
  let ?ls = "ls\<lparr>lineBuf := (pre @ [Def (zap b)]) @ map Def bs @ rest\<rparr>"
  let ?ls' = "?ls\<lparr>numLineFields := numLineFields ls + 1, lineFields := (lineFields ls)[numLineFields ls + 1 := Some (cp + 1)]\<rparr>"
  show ?case
  proof (cases "b = of_char CHR '',''")
    case True
    with Cons.IH [of ?ls' "pre @ [Def (zap b)]" "cp + 1"] Cons.prems
      fieldsLoop_comma [of ls pre "map Def bs @ rest" cp "length bs"]
    show ?thesis by (cases "numLineFields ls = 14") (auto simp: Let_def zap_def)
  next
    case False
    with Cons.IH [of ?ls "pre @ [Def (zap b)]" "cp + 1"] Cons.prems
      fieldsLoop_char [of ls pre b "map Def bs @ rest" cp "length bs"]
    show ?thesis by simp
  qed
qed simp

lemma c_bytes_field:
  "0 \<notin> set line \<Longrightarrow> i < length (split_commas line) \<Longrightarrow>
   c_bytes (drop ((0 # comma_offsets 0 line) ! i) (map Def (map zap line) @ Def 0 # rest))
     = Some (takeWhile (\<lambda>b. b \<noteq> 13 \<and> b \<noteq> 10) (split_commas line ! i))"
proof (induction line arbitrary: i)
  case (Cons b bs)
  have len: "length (split_commas bs) = Suc (length (comma_offsets 0 bs))" by (rule length_split_commas)
  show ?case
  proof (cases i)
    case 0
    with Cons.IH [of 0] Cons.prems show ?thesis
      by (cases "split_commas bs") (auto simp: zap_def)
  next
    case (Suc j)
    define j' where "j' = (if b = of_char CHR '','' then j else i)"
    have j': "j' < length (split_commas bs)" "split_commas (b # bs) ! i = split_commas bs ! j'"
      using Suc Cons.prems(2) by (auto simp: j'_def nth_tl len)
    have "(0 # comma_offsets 0 (b # bs)) ! i = Suc ((0 # comma_offsets 0 bs) ! j')"
      using Suc j'(1) by (cases j) (auto simp: j'_def comma_offsets_shift len)
    with Cons.IH [OF _ j'(1)] Cons.prems(1) j'(2) show ?thesis by simp
  qed
qed (simp add: zap_def)

lemma getLineFields_ok:
  assumes "lineBuf ls = map Def line @ Def 0 # rest" "length (lineFields ls) = 15"
    and "0 \<notin> set line" "length line < 256" "length (split_commas line) \<le> 15"
  shows "\<exists>ls'. getLineFields ls (word_of_nat (length line)) = Some (COMP_MSG_ERR_OK, ls')
    \<and> line_shows ls' (map field_text (split_commas line)) \<and> length (lineFields ls') = 15
    \<and> lineBuf ls' = map Def (map zap line) @ Def 0 # rest"
proof -
  let ?offs = "comma_offsets 0 line"
  let ?ls = "ls\<lparr>numLineFields := 0, lineFields := (lineFields ls)[0 := Some 0]\<rparr>"
  let ?ls' = "?ls\<lparr>lineBuf := map Def (map zap line) @ Def 0 # rest, numLineFields := length (split_commas line),
    lineFields := map Some (0 # ?offs) @ drop (Suc (length ?offs)) (lineFields ls)\<rparr>"
  have len: "length (split_commas line) = Suc (length ?offs)" by (rule length_split_commas)
  have "take 1 ((lineFields ls)[0 := Some 0]) = [Some 0]" using assms(2) by (cases "lineFields ls") auto
  with fieldsLoop_ok [of ?ls "[]" line "Def 0 # rest" 0] assms len
  have "getLineFields ls (word_of_nat (length line)) = Some (COMP_MSG_ERR_OK, ?ls')"
    by (simp add: getLineFields_def unat_of_nat_u8 drop_update_cancel)
  moreover have "fieldStr ?ls' i = Some (map field_text (split_commas line) ! i)" if "i < length (split_commas line)" for i
  proof -
    from that len have "lineField ?ls' i = Some ((0 # ?offs) ! i)"
      by (cases i) (simp_all add: lineField_def nth_append)
    with c_bytes_field [OF assms(3) that, of rest] that show ?thesis
      by (simp add: fieldStr_def lineStr_def field_text_def)
  qed
  ultimately show ?thesis using assms(2,5) len by (auto simp: line_shows_def)
qed

lemma getLineFields_many:
  assumes "lineBuf ls = map Def line @ Def 0 # rest" "length line < 256" "15 < length (split_commas line)"
  shows "\<exists>ls'. getLineFields ls (word_of_nat (length line)) = Some (COMP_MSG_ERR_TOO_MANY_LINE_FIELDS, ls')"
proof -
  let ?ls = "ls\<lparr>numLineFields := 0, lineFields := (lineFields ls)[0 := Some 0]\<rparr>"
  from assms(3) have "15 \<le> length (comma_offsets 0 line)" by (simp add: length_split_commas [of line 0])
  with fieldsLoop_many [of ?ls "[]" line "Def 0 # rest" 0] assms(1,2)
  show ?thesis by (auto simp: getLineFields_def unat_of_nat_u8)
qed

subsection \<open>Quoted strings\<close>

text \<open>What is left of a string in the source of a value: a quote at its end is cut off.\<close>

fun unquote :: "mem \<Rightarrow> mem" where
  "unquote [] = []"
| "unquote [b] = (if b = of_char CHR 0x22 then [] else [b])"
| "unquote (b # c # bs) = b # unquote (c # bs)"

lemma unquote_snoc [simp]: "unquote (s @ [of_char CHR 0x22]) = s"
  by (induction s rule: unquote.induct) auto

lemma stringLoop_unquote:
  assumes "0 \<notin> set s" "length s < k"
  shows "\<exists>rest'. stringLoop (pre @ map Def s @ Def 0 # rest) (length pre) k
    = Some (pre @ map Def (unquote s) @ Def 0 # rest')"
  using assms
proof (induction s arbitrary: pre k rule: unquote.induct)
  case 1
  then show ?case by (cases k) (auto simp: rd_cell_def)
next
  case (2 b)
  then obtain k' where "k = Suc (Suc k')" by (cases k; cases "k - 1") auto
  with 2 show ?case by (auto simp: rd_cell_def nth_append list_update_append)
next
  case (3 b c bs)
  then obtain k' where k: "k = Suc k'" by (cases k) auto
  have "stringLoop (pre @ map Def (b # c # bs) @ Def 0 # rest) (length pre) k
      = stringLoop ((pre @ [Def b]) @ map Def (c # bs) @ Def 0 # rest) (length (pre @ [Def b])) k'"
    using 3(2) by (simp add: k rd_cell_def nth_append)
  with 3(1) [of k' "pre @ [Def b]"] 3(2,3) k show ?case by simp
qed

lemma c_bytes_append: "0 \<notin> set s \<Longrightarrow> c_bytes (map Def s @ Def 0 # rest) = Some s"
  by (induction s) auto

lemma set_unquote: "set (unquote s) \<subseteq> set s"
  by (induction s rule: unquote.induct) auto

text \<open>A field that starts with a quote, and one that starts with \<open>@\<close>.\<close>

lemma quoted_string:
  assumes "lineBuf ls = pre @ Def (of_char CHR 0x22) # map Def s @ Def 0 # rest" "0 \<notin> set s"
  shows "\<exists>ls'. getStringFieldValue ls (length pre) = Some (Inr (length pre + 1), ls')
    \<and> lineStr ls' (length pre + 1) = Some (chars (unquote s))"
proof -
  let ?pre = "pre @ [Def (of_char CHR 0x22)]"
  obtain rest' where loop: "stringLoop (?pre @ map Def s @ Def 0 # rest) (length ?pre) (Suc (length s + Suc (length rest)))
      = Some (?pre @ map Def (unquote s) @ Def 0 # rest')"
    using stringLoop_unquote [OF assms(2), of "Suc (length s + Suc (length rest))" ?pre rest] by force
  have "0 \<notin> set (unquote s)" using assms(2) set_unquote by fast
  with loop assms show ?thesis
    by (simp add: getStringFieldValue_def rd_cell_def nth_append lineStr_def c_bytes_append del: stringLoop.simps)
qed

lemma callback_string:
  assumes "lineBuf ls = pre @ Def (of_char CHR ''@'') # map Def s @ Def 0 # rest" "0 \<notin> set s"
  shows "\<exists>ls'. getStringFieldValue ls (length pre) = Some (Inr (length pre), ls')
    \<and> lineStr ls' (length pre) = Some (chars (unquote (of_char CHR ''@'' # s)))"
proof -
  let ?s = "of_char CHR ''@'' # s"
  from assms(2) have s: "0 \<notin> set ?s" by simp
  obtain rest' where loop: "stringLoop (pre @ map Def ?s @ Def 0 # rest) (length pre) (Suc (Suc (length s + Suc (length rest))))
      = Some (pre @ map Def (unquote ?s) @ Def 0 # rest')"
    using stringLoop_unquote [OF s, of "Suc (Suc (length s + Suc (length rest)))" pre rest] by force
  have "0 \<notin> set (unquote ?s)" using s set_unquote by fast
  with loop assms show ?thesis
    by (simp add: getStringFieldValue_def rd_cell_def nth_append lineStr_def c_bytes_append del: stringLoop.simps)
qed

subsection \<open>Properties\<close>

text \<open>
  Claim C26.  On a file of bytes \<open>readLine\<close> returns exactly the next line, with its newline, terminated
  by a zero, together with its length, and the file then stands at the start of the following line;
  at the end of the file the length is 0.  This holds for every line that is shorter than the buffer
  of the caller; a line that is not is written past the end of the buffer.
\<close>

theorem read_line:
  assumes "reads_file ops (fileFd self) at" "at (fileSystem self) c p" "p \<le> length c"
    and "fileFd self \<noteq> 0" "256 \<le> bufsiz" "bufsiz < 2 ^ 31" "length buffer \<le> 256"
  shows "if length (first_line (drop p c)) < length buffer
    then \<exists>self'. readLine bufsiz ops self buffer
        = Some (Inr (word_of_nat (length (first_line (drop p c)))), self',
                map Def (first_line (drop p c) @ [0]) @ drop (length (first_line (drop p c)) + 1) buffer)
      \<and> at (fileSystem self') c (p + length (first_line (drop p c))) \<and> fileFd self' = fileFd self
    else readLine bufsiz ops self buffer = None"
proof (cases "length (first_line (drop p c)) < length buffer")
  case True
  with assms have "first_line (take bufsiz (drop p c)) = first_line (drop p c)" by (simp add: first_line_take)
  with True readLine_copies [OF assms(1-4,6), of "first_line (drop p c)" buffer] show ?thesis by simp
next
  case False
  let ?bs = "take bufsiz (drop p c)"
  have r: "fst (fs_read ops (fileSystem self) (fileFd self) bufsiz) = ?bs"
    using reads_fileD(1) [OF assms(1-3)] .
  have "length buffer \<le> length (first_line ?bs)" using False assms(5,7) by (simp add: first_line_take)
  then have "copyLine buffer 0 ?bs = None \<or> copyLine buffer 0 ?bs = Some (length buffer, map Def (first_line ?bs))"
    using copyLine_overruns [of buffer 0 ?bs] copyLine_fits [of 0 ?bs buffer] by (cases "length buffer = length (first_line ?bs)") auto
  with False r assms(4) \<open>length buffer \<le> length (first_line ?bs)\<close> show ?thesis
    using copyLine_overruns [of buffer 0 ?bs] copyLine_fits [of 0 ?bs buffer]
    by (cases "length buffer = length (first_line ?bs)") (auto simp: readLine_def wr_cell_def split: prod.splits)
qed

text \<open>A file system with one file in memory: its bytes and the position.\<close>

definition ram_fs :: "(mem \<times> nat) fsOps" where
  "ram_fs = \<lparr>fs_open = (\<lambda>f name flags. (1, fst f, 0)), fs_close = (\<lambda>f fd. f),
     fs_read = (\<lambda>f fd n. (take n (drop (snd f) (fst f)), fst f, snd f + length (take n (drop (snd f) (fst f))))),
     fs_write = (\<lambda>f fd bs. (word_of_nat (length bs), fst f @ bs, snd f)),
     fs_seek_cur = (\<lambda>f fd d. (fst f, nat (int (snd f) + sint d))), fs_flush = (\<lambda>f fd. (0, f))\<rparr>"

definition ram_at :: "mem \<times> nat \<Rightarrow> mem \<Rightarrow> nat \<Rightarrow> bool" where
  "ram_at f c p \<longleftrightarrow> f = (c, p)"

lemma sint_minus_of_nat: "d < 2 ^ 31 \<Longrightarrow> sint (- word_of_nat d :: i32) = - int d"
proof -
  assume "d < 2 ^ 31"
  then have "signed_take_bit 31 (- int d) = - int d" by (intro signed_take_bit_int_eq_self) auto
  then have "sint (word_of_int (- int d) :: i32) = - int d" by (simp only: signed_of_int) simp
  then show ?thesis by simp
qed

lemma ram_reads: "reads_file ram_fs fd ram_at"
  by (auto simp: reads_file_def ram_fs_def ram_at_def sint_minus_of_nat)

theorem read_line_witness:
  "\<exists>self'. readLine 1024 ram_fs \<lparr>fileSystem = (map of_char ''ab'' @ [10, 35], 0), fileFd = 1, openFileName = None\<rparr> (replicate 100 Undef)
     = Some (Inr 3, self', map Def (map of_char ''ab'' @ [10, 0]) @ replicate 96 Undef)
   \<and> ram_at (fileSystem self') (map of_char ''ab'' @ [10, 35]) 3 \<and> fileFd self' = 1"
proof -
  let ?c = "map of_char ''ab'' @ [10, 35] :: mem"
  let ?self = "\<lparr>fileSystem = (?c, 0), fileFd = 1, openFileName = None\<rparr>"
  have "first_line (drop 0 ?c) = map of_char ''ab'' @ [10]" by simp
  with read_line [of ram_fs ?self ram_at ?c 0 1024 "replicate 100 Undef"] ram_reads [of 1]
  show ?thesis by (simp add: ram_at_def numeral_3_eq_3)
qed

text \<open>
  Claim C27.  \<open>getLineFields\<close> splits a line at its commas: for a line without zero bytes and with at most
  15 fields, field \<open>i\<close> of the result is the text between the commas up to a carriage return or newline,
  and there are as many fields as commas plus one; with more fields it returns
  \<open>COMP_MSG_ERR_TOO_MANY_LINE_FIELDS\<close>.
\<close>

theorem line_split:
  assumes "lineBuf ls = map Def line @ Def 0 # rest" "length (lineFields ls) = 15"
    and "0 \<notin> set line" "length line < 256"
  shows "\<exists>rc ls'. getLineFields ls (word_of_nat (length line)) = Some (rc, ls')
    \<and> (if length (split_commas line) \<le> 15 then rc = COMP_MSG_ERR_OK \<and> line_shows ls' (map field_text (split_commas line))
       else rc = COMP_MSG_ERR_TOO_MANY_LINE_FIELDS)"
  using getLineFields_ok [OF assms] getLineFields_many [OF assms(1,4)]
  by (cases "length (split_commas line) \<le> 15") auto

theorem line_split_witness:
  "\<exists>rc ls'. getLineFields \<lparr>numLineFields = 0, lineFields = replicate 15 None,
      lineBuf = map Def (map of_char ''@src,1'' @ [10]) @ Def 0 # []\<rparr> 7 = Some (rc, ls')
    \<and> rc = COMP_MSG_ERR_OK \<and> line_shows ls' [''@src'', ''1'']"
proof -
  let ?line = "map of_char ''@src,1'' @ [10] :: mem"
  have "map field_text (split_commas ?line) = [''@src'', ''1'']" by code_simp
  with line_split [of "\<lparr>numLineFields = 0, lineFields = replicate 15 None, lineBuf = map Def ?line @ Def 0 # []\<rparr>" ?line "[]"]
  show ?thesis by simp
qed

text \<open>
  A quoted string comes back without its quotes: for a field made of a double quote, the text
  and a double quote, \<open>getStringFieldValue\<close> returns a pointer to exactly the text; a missing quote at the
  end is accepted silently.
\<close>

lemma quoted_string_value:
  assumes "0 \<notin> set s" "s = [] \<or> last s \<noteq> of_char CHR 0x22"
    and "lineBuf ls = pre @ Def (of_char CHR 0x22) # map Def (s @ quote) @ Def 0 # rest"
    and "quote = [of_char CHR 0x22] \<or> quote = []"
  shows "\<exists>ls'. getStringFieldValue ls (length pre) = Some (Inr (length pre + 1), ls')
    \<and> lineStr ls' (length pre + 1) = Some (chars s)"
proof -
  have "unquote s = s" if "s = [] \<or> last s \<noteq> of_char CHR 0x22" for s
    using that by (induction s rule: unquote.induct) auto
  with assms(2,4) have "unquote (s @ quote) = s" by (metis append_Nil2 unquote_snoc)
  moreover from assms(1,4) have "0 \<notin> set (s @ quote)" by auto
  ultimately show ?thesis using quoted_string [OF assms(3)] by simp
qed

lemma quoted_string_value_witness:
  "\<exists>ls'. getStringFieldValue \<lparr>numLineFields = 1, lineFields = [Some 0],
      lineBuf = [] @ Def (of_char CHR 0x22) # map Def (map of_char ''Header.txt'' @ [of_char CHR 0x22]) @ Def 0 # []\<rparr> 0
     = Some (Inr 1, ls') \<and> lineStr ls' 1 = Some (chars (map of_char ''Header.txt''))"
  using quoted_string_value [of "map of_char ''Header.txt''" "\<lparr>numLineFields = 1, lineFields = [Some 0],
      lineBuf = [] @ Def (of_char CHR 0x22) # map Def (map of_char ''Header.txt'' @ [of_char CHR 0x22]) @ Def 0 # []\<rparr>"
      "[]" "[of_char CHR 0x22]" "[]"]
  by simp

end
