(* ===== verification/CompMsgCallbacks.thy ===== *)
theory CompMsgCallbacks
  imports TypesAndNames
begin

text \<open>
  The tables of names of \<^verbatim>\<open>src/app/compMsg/compMsgWifiData.c\<close> and \<^verbatim>\<open>compMsgModuleData.c\<close>, with the entries of the
  included files \<^verbatim>\<open>compMsgWifiDataCustom.h\<close> and \<^verbatim>\<open>compMsgModuleDataCustom.h\<close>, and the functions that search them.
  A description file names a callback, whose number is stored with the value of a field; names and
  numbers are looked up in the table of the wifi data first and then in that of the module data.
\<close>

subsection \<open>Tables\<close>

abbreviation (input) "BSS_INFO_BSSID \<equiv> (1 :: u8)"
abbreviation (input) "BSS_INFO_BSSID_STR \<equiv> (2 :: u8)"
abbreviation (input) "BSS_INFO_SSID \<equiv> (3 :: u8)"
abbreviation (input) "BSS_INFO_SSID_LEN \<equiv> (4 :: u8)"
abbreviation (input) "BSS_INFO_CHANNEL \<equiv> (5 :: u8)"
abbreviation (input) "BSS_INFO_RSSI \<equiv> (6 :: u8)"
abbreviation (input) "BSS_INFO_AUTH_MODE \<equiv> (7 :: u8)"
abbreviation (input) "BSS_INFO_IS_HIDDEN \<equiv> (8 :: u8)"
abbreviation (input) "BSS_INFO_FREQ_OFFSET \<equiv> (9 :: u8)"
abbreviation (input) "BSS_INFO_FREQ_CAL_VAL \<equiv> (10 :: u8)"
abbreviation (input) "KEY_VALUE_KEY_SSID \<equiv> (1 :: u8)"
abbreviation (input) "KEY_VALUE_KEY_BSSID \<equiv> (4 :: u8)"
abbreviation (input) "KEY_VALUE_KEY_AUTH_MODE \<equiv> (7 :: u8)"
abbreviation (input) "KEY_VALUE_KEY_CHANNEL \<equiv> (8 :: u8)"
abbreviation (input) "KEY_VALUE_KEY_FREQ_OFFSET \<equiv> (9 :: u8)"
abbreviation (input) "KEY_VALUE_KEY_FREQ_CAL_VAL \<equiv> (10 :: u8)"
abbreviation (input) "KEY_VALUE_KEY_RSSI \<equiv> (11 :: u8)"
abbreviation (input) "KEY_VALUE_KEY_IS_HIDDEN \<equiv> (12 :: u8)"
abbreviation (input) "KEY_VALUE_KEY_CLIENT_SSID \<equiv> (13 :: u8)"
abbreviation (input) "KEY_VALUE_KEY_CLIENT_PASSWD \<equiv> (14 :: u8)"
abbreviation (input) "KEY_VALUE_KEY_CLIENT_IP_ADDR \<equiv> (15 :: u8)"
abbreviation (input) "KEY_VALUE_KEY_CLIENT_PORT \<equiv> (16 :: u8)"
abbreviation (input) "KEY_VALUE_KEY_CLIENT_STATUS \<equiv> (17 :: u8)"
abbreviation (input) "KEY_VALUE_KEY_SEQUENCE_NUM \<equiv> (18 :: u8)"
abbreviation (input) "KEY_VALUE_KEY_MAC_ADDR \<equiv> (19 :: u8)"
abbreviation (input) "KEY_VALUE_KEY_MACHINE_STATE \<equiv> (20 :: u8)"
abbreviation (input) "KEY_VALUE_KEY_FIRMWARE_MAIN_BOARD \<equiv> (21 :: u8)"
abbreviation (input) "KEY_VALUE_KEY_FIRMWARE_DISPLAY_BOARD \<equiv> (22 :: u8)"
abbreviation (input) "KEY_VALUE_KEY_FIRMWARE_WIFI_MODULE \<equiv> (23 :: u8)"
abbreviation (input) "KEY_VALUE_KEY_LAST_ERROR \<equiv> (24 :: u8)"
abbreviation (input) "KEY_VALUE_KEY_CASING_USE_LIST \<equiv> (25 :: u8)"
abbreviation (input) "KEY_VALUE_KEY_CASING_STATISTIC_LIST \<equiv> (26 :: u8)"
abbreviation (input) "KEY_VALUE_KEY_DAT_AND_TIME \<equiv> (27 :: u8)"
abbreviation (input) "COMP_MSG_WIFI_AP_BssidSize \<equiv> (1 :: u8)"
abbreviation (input) "COMP_MSG_WIFI_AP_BssidStrSize \<equiv> (2 :: u8)"
abbreviation (input) "COMP_MSG_WIFI_AP_SsidSize \<equiv> (3 :: u8)"
abbreviation (input) "COMP_MSG_WIFI_AP_Ssid_lenSize \<equiv> (4 :: u8)"
abbreviation (input) "COMP_MSG_WIFI_AP_ChannelSize \<equiv> (5 :: u8)"
abbreviation (input) "COMP_MSG_WIFI_AP_RssiSize \<equiv> (6 :: u8)"
abbreviation (input) "COMP_MSG_WIFI_AP_AuthmodeSize \<equiv> (7 :: u8)"
abbreviation (input) "COMP_MSG_WIFI_AP_Is_hiddenSize \<equiv> (8 :: u8)"
abbreviation (input) "COMP_MSG_WIFI_AP_Freq_offsetSize \<equiv> (9 :: u8)"
abbreviation (input) "COMP_MSG_WIFI_AP_Freqcal_valSize \<equiv> (10 :: u8)"
abbreviation (input) "COMP_MSG_WIFI_AP_Bssids \<equiv> (11 :: u8)"
abbreviation (input) "COMP_MSG_WIFI_AP_BssidStrs \<equiv> (12 :: u8)"
abbreviation (input) "COMP_MSG_WIFI_AP_Ssids \<equiv> (13 :: u8)"
abbreviation (input) "COMP_MSG_WIFI_AP_Ssid_lens \<equiv> (14 :: u8)"
abbreviation (input) "COMP_MSG_WIFI_AP_Channels \<equiv> (15 :: u8)"
abbreviation (input) "COMP_MSG_WIFI_AP_Rssis \<equiv> (16 :: u8)"
abbreviation (input) "COMP_MSG_WIFI_AP_Authmodes \<equiv> (17 :: u8)"
abbreviation (input) "COMP_MSG_WIFI_AP_Is_hiddens \<equiv> (18 :: u8)"
abbreviation (input) "COMP_MSG_WIFI_AP_Freq_offsets \<equiv> (19 :: u8)"
abbreviation (input) "COMP_MSG_WIFI_AP_Freqcal_vals \<equiv> (20 :: u8)"
abbreviation (input) "COMP_MSG_WIFI_ProvisioningSsid \<equiv> (21 :: u8)"
abbreviation (input) "COMP_MSG_WIFI_ProvisioningPort \<equiv> (22 :: u8)"
abbreviation (input) "COMP_MSG_WIFI_ClientSsid \<equiv> (23 :: u8)"
abbreviation (input) "COMP_MSG_WIFI_ClientPasswd \<equiv> (24 :: u8)"
abbreviation (input) "COMP_MSG_WIFI_ClientIPAddr \<equiv> (25 :: u8)"
abbreviation (input) "COMP_MSG_WIFI_ClientPort \<equiv> (26 :: u8)"
abbreviation (input) "COMP_MSG_WIFI_ClientStatus \<equiv> (28 :: u8)"
abbreviation (input) "COMP_MSG_WIFI_ClientSsidSize \<equiv> (29 :: u8)"
abbreviation (input) "COMP_MSG_WIFI_ClientPasswdSize \<equiv> (30 :: u8)"
abbreviation (input) "COMP_MSG_WIFI_ClientIPAddrSize \<equiv> (31 :: u8)"
abbreviation (input) "COMP_MSG_WIFI_ClientPortSize \<equiv> (32 :: u8)"
abbreviation (input) "COMP_MSG_WIFI_ClientStatusSize \<equiv> (33 :: u8)"
abbreviation (input) "COMP_MSG_WIFI_ClientSequenceNumSize \<equiv> (34 :: u8)"
abbreviation (input) "COMP_MSG_WIFI_ClientSequenceNum \<equiv> (35 :: u8)"
abbreviation (input) "COMP_MSG_WIFI_SSDPIPAddr \<equiv> (36 :: u8)"
abbreviation (input) "COMP_MSG_WIFI_SSDPPort \<equiv> (37 :: u8)"
abbreviation (input) "COMP_MSG_WIFI_SSDPStatus \<equiv> (38 :: u8)"
abbreviation (input) "COMP_MSG_WIFI_SSDPReceivedCallback \<equiv> (39 :: u8)"
abbreviation (input) "COMP_MSG_WIFI_SSDPToSendCallback \<equiv> (40 :: u8)"
abbreviation (input) "COMP_MSG_WIFI_NetReceivedCallback \<equiv> (41 :: u8)"
abbreviation (input) "COMP_MSG_WIFI_NetToSendCallback \<equiv> (42 :: u8)"
abbreviation (input) "COMP_MSG_WIFI_WebBinaryReceivedCallback \<equiv> (43 :: u8)"
abbreviation (input) "COMP_MSG_WIFI_WebTextReceivedCallback \<equiv> (44 :: u8)"
abbreviation (input) "COMP_MSG_WIFI_CloudPort \<equiv> (50 :: u8)"
abbreviation (input) "COMP_MSG_WIFI_CloudHost1 \<equiv> (51 :: u8)"
abbreviation (input) "COMP_MSG_WIFI_CloudHost2 \<equiv> (52 :: u8)"
abbreviation (input) "COMP_MSG_WIFI_CloudUrl1Part1 \<equiv> (53 :: u8)"
abbreviation (input) "COMP_MSG_WIFI_CloudUrl1Part2 \<equiv> (54 :: u8)"
abbreviation (input) "COMP_MSG_WIFI_CloudUrlTenantId1 \<equiv> (55 :: u8)"
abbreviation (input) "COMP_MSG_WIFI_Cloudl2Part1 \<equiv> (56 :: u8)"
abbreviation (input) "COMP_MSG_WIFI_Cloudl2Part2 \<equiv> (57 :: u8)"
abbreviation (input) "COMP_MSG_WIFI_CloudlTenantId2 \<equiv> (58 :: u8)"
abbreviation (input) "COMP_MSG_WIFI_CloudNodeToken1 \<equiv> (59 :: u8)"
abbreviation (input) "COMP_MSG_WIFI_CloudNodeToken2 \<equiv> (60 :: u8)"
abbreviation (input) "COMP_MSG_WIFI_ProdTestSsid \<equiv> (61 :: u8)"
abbreviation (input) "COMP_MSG_WIFI_ProdTestPasswd \<equiv> (62 :: u8)"
abbreviation (input) "COMP_MSG_WIFI_ProdTestSecurityType \<equiv> (63 :: u8)"
abbreviation (input) "COMP_MSG_WIFI_ProdTestTargetProtocol \<equiv> (64 :: u8)"
abbreviation (input) "COMP_MSG_WIFI_ProdTestIpAddress \<equiv> (65 :: u8)"
abbreviation (input) "COMP_MSG_WIFI_ProdTestSubnet \<equiv> (66 :: u8)"
abbreviation (input) "COMP_MSG_WIFI_ProdTestGateway \<equiv> (67 :: u8)"
abbreviation (input) "COMP_MSG_WIFI_ProdTestDns \<equiv> (68 :: u8)"
abbreviation (input) "COMP_MSG_WIFI_ProdTestPingAddress \<equiv> (69 :: u8)"
abbreviation (input) "COMP_MSG_WIFI_ProdTestStatus \<equiv> (70 :: u8)"
abbreviation (input) "COMP_MSG_MODULE_MACAddr \<equiv> (80 :: u8)"
abbreviation (input) "COMP_MSG_MODULE_IPAddr \<equiv> (81 :: u8)"
abbreviation (input) "COMP_MSG_MODULE_FirmwareVersion \<equiv> (82 :: u8)"
abbreviation (input) "COMP_MSG_MODULE_RSSI \<equiv> (83 :: u8)"
abbreviation (input) "COMP_MSG_MODULE_RSSIMax \<equiv> (84 :: u8)"
abbreviation (input) "COMP_MSG_MODULE_ConnectionState \<equiv> (85 :: u8)"
abbreviation (input) "COMP_MSG_MODULE_ConnectedUsers \<equiv> (86 :: u8)"
abbreviation (input) "COMP_MSG_MODULE_IPProtocol \<equiv> (87 :: u8)"
abbreviation (input) "COMP_MSG_MODULE_ErrorMain \<equiv> (88 :: u8)"
abbreviation (input) "COMP_MSG_MODULE_ErrorSub \<equiv> (89 :: u8)"
abbreviation (input) "COMP_MSG_MODULE_DateAndTime \<equiv> (90 :: u8)"
abbreviation (input) "COMP_MSG_MODULE_SSIDs \<equiv> (91 :: u8)"
abbreviation (input) "COMP_MSG_MODULE_OperatingMode \<equiv> (92 :: u8)"
abbreviation (input) "COMP_MSG_MODULE_OtaHost \<equiv> (93 :: u8)"
abbreviation (input) "COMP_MSG_MODULE_OtaRomPath \<equiv> (94 :: u8)"
abbreviation (input) "COMP_MSG_MODULE_OtaFsPath \<equiv> (95 :: u8)"
abbreviation (input) "COMP_MSG_MODULE_OtaPort \<equiv> (96 :: u8)"
abbreviation (input) "COMP_MSG_MODULE_CryptKey \<equiv> (97 :: u8)"
abbreviation (input) "COMP_MSG_MODULE_Reserve1 \<equiv> (98 :: u8)"
abbreviation (input) "COMP_MSG_MODULE_Reserve2 \<equiv> (99 :: u8)"
abbreviation (input) "COMP_MSG_MODULE_Reserve3 \<equiv> (100 :: u8)"
abbreviation (input) "COMP_MSG_MODULE_Reserve4 \<equiv> (101 :: u8)"
abbreviation (input) "COMP_MSG_MODULE_Reserve5 \<equiv> (102 :: u8)"
abbreviation (input) "COMP_MSG_MODULE_Reserve6 \<equiv> (103 :: u8)"
abbreviation (input) "COMP_MSG_MODULE_Reserve7 \<equiv> (104 :: u8)"
abbreviation (input) "COMP_MSG_MODULE_Reserve8 \<equiv> (105 :: u8)"
abbreviation (input) "COMP_MSG_MODULE_DATA_PingState \<equiv> (50 :: u8)"
abbreviation (input) "COMP_MSG_MODULE_DATA_DeviceSecurity \<equiv> (51 :: u8)"
abbreviation (input) "COMP_MSG_MODULE_DATA_ProgRunningMode \<equiv> (52 :: u8)"
abbreviation (input) "COMP_MSG_MODULE_DATA_CurrentRunningMode \<equiv> (53 :: u8)"
abbreviation (input) "COMP_MSG_MODULE_DATA_Region \<equiv> (54 :: u8)"
abbreviation (input) "COMP_MSG_MODULE_DATA_SerieNumber \<equiv> (55 :: u8)"
abbreviation (input) "COMP_MSG_MODULE_DATA_HdrReserve \<equiv> (56 :: u8)"
abbreviation (input) "COMP_MSG_MODULE_DATA_PasswdC \<equiv> (57 :: u8)"
abbreviation (input) "COMP_MSG_MODULE_DATA_OperatingMode \<equiv> (58 :: u8)"
abbreviation (input) "COMP_MSG_MODULE_DATA_MyU16Src \<equiv> (59 :: u8)"
abbreviation (input) "COMP_MSG_MODULE_DATA_MyU8Src \<equiv> (60 :: u8)"
abbreviation (input) "COMP_MSG_MODULE_DATA_MyU16SaveUserDataCmdKey \<equiv> (61 :: u8)"
abbreviation (input) "COMP_MSG_MODULE_DATA_MyU8SaveUserDataCmdKey \<equiv> (62 :: u8)"
abbreviation (input) "COMP_MSG_MODULE_DATA_SrcId \<equiv> (63 :: u8)"
abbreviation (input) "COMP_MSG_MODULE_DATA_GUID \<equiv> (64 :: u8)"

definition bssStr2BssInfoIds :: "(string \<times> u8) list" where
  "bssStr2BssInfoIds =
    [(''bssid'', BSS_INFO_BSSID),
     (''bssidStr'', BSS_INFO_BSSID_STR),
     (''ssid'', BSS_INFO_SSID),
     (''ssid_len'', BSS_INFO_SSID_LEN),
     (''channel'', BSS_INFO_CHANNEL),
     (''rssi'', BSS_INFO_RSSI),
     (''authmode'', BSS_INFO_AUTH_MODE),
     (''is_hidden'', BSS_INFO_IS_HIDDEN),
     (''freq_offset'', BSS_INFO_FREQ_OFFSET),
     (''freqcal_val'', BSS_INFO_FREQ_CAL_VAL)]"

definition keyValueStr2KeyValueIds :: "(string \<times> u8) list" where
  "keyValueStr2KeyValueIds =
    [(''ssid'', KEY_VALUE_KEY_SSID),
     (''bssid'', KEY_VALUE_KEY_BSSID),
     (''authmode'', KEY_VALUE_KEY_AUTH_MODE),
     (''channel'', KEY_VALUE_KEY_CHANNEL),
     (''freq_offset'', KEY_VALUE_KEY_FREQ_OFFSET),
     (''freqcal_val'', KEY_VALUE_KEY_FREQ_CAL_VAL),
     (''rssi'', KEY_VALUE_KEY_RSSI),
     (''is_hidden'', KEY_VALUE_KEY_IS_HIDDEN),
     (''clientSsid'', KEY_VALUE_KEY_CLIENT_SSID),
     (''clientPasswd'', KEY_VALUE_KEY_CLIENT_PASSWD),
     (''clientIPAddr'', KEY_VALUE_KEY_CLIENT_IP_ADDR),
     (''clientPort'', KEY_VALUE_KEY_CLIENT_PORT),
     (''clientStatus'', KEY_VALUE_KEY_CLIENT_STATUS),
     (''seqquenceNum'', KEY_VALUE_KEY_SEQUENCE_NUM),
     (''MACAddr'', KEY_VALUE_KEY_MAC_ADDR),
     (''machineState'', KEY_VALUE_KEY_MACHINE_STATE),
     (''firmwareMainBoard'', KEY_VALUE_KEY_FIRMWARE_MAIN_BOARD),
     (''firmwareDisplayBoard'', KEY_VALUE_KEY_FIRMWARE_DISPLAY_BOARD),
     (''firmwareWifiModule'', KEY_VALUE_KEY_FIRMWARE_WIFI_MODULE),
     (''lastError'', KEY_VALUE_KEY_LAST_ERROR),
     (''casingUseList'', KEY_VALUE_KEY_CASING_USE_LIST),
     (''casingStatisticList'', KEY_VALUE_KEY_CASING_STATISTIC_LIST),
     (''dataAndTime'', KEY_VALUE_KEY_DAT_AND_TIME)]"

definition wifiCallbackIds :: "(string \<times> u8) list" where
  "wifiCallbackIds =
    [(''@getWifiAPBssidSize'', COMP_MSG_WIFI_AP_BssidSize),
     (''@getWifiAPBssidStrSize'', COMP_MSG_WIFI_AP_BssidStrSize),
     (''@getWifiAPSsidSize'', COMP_MSG_WIFI_AP_SsidSize),
     (''@getWifiAPSsid_lenSize'', COMP_MSG_WIFI_AP_Ssid_lenSize),
     (''@getWifiAPChannelSize'', COMP_MSG_WIFI_AP_ChannelSize),
     (''@getWifiAPRssiSize'', COMP_MSG_WIFI_AP_RssiSize),
     (''@getWifiAPAuthmodeSize'', COMP_MSG_WIFI_AP_AuthmodeSize),
     (''@getWifiAPIs_hiddenSize'', COMP_MSG_WIFI_AP_Is_hiddenSize),
     (''@getWifiAPFreq_offsetSize'', COMP_MSG_WIFI_AP_Freq_offsetSize),
     (''@getWifiAPFreqcal_valSize'', COMP_MSG_WIFI_AP_Freqcal_valSize),
     (''@getWifiAPBssids'', COMP_MSG_WIFI_AP_Bssids),
     (''@getWifiAPBssidStrs'', COMP_MSG_WIFI_AP_BssidStrs),
     (''@getWifiAPSsids'', COMP_MSG_WIFI_AP_Ssids),
     (''@getWifiAPSsid_lens'', COMP_MSG_WIFI_AP_Ssid_lens),
     (''@getWifiAPChannels'', COMP_MSG_WIFI_AP_Channels),
     (''@getWifiAPRssis'', COMP_MSG_WIFI_AP_Rssis),
     (''@getWifiAPAuthmodes'', COMP_MSG_WIFI_AP_Authmodes),
     (''@getWifiAPIs_hiddens'', COMP_MSG_WIFI_AP_Is_hiddens),
     (''@getWifiAPFreq_offsets'', COMP_MSG_WIFI_AP_Freq_offsets),
     (''@getWifiAPFreqcal_vals'', COMP_MSG_WIFI_AP_Freqcal_vals),
     (''@getProvisioningSsid'', COMP_MSG_WIFI_ProvisioningSsid),
     (''@getProvisioningPort'', COMP_MSG_WIFI_ProvisioningPort),
     (''@getClientSsid'', COMP_MSG_WIFI_ClientSsid),
     (''@getClientPasswd'', COMP_MSG_WIFI_ClientPasswd),
     (''@getClientIPAddr'', COMP_MSG_WIFI_ClientIPAddr),
     (''@getClientPort'', COMP_MSG_WIFI_ClientPort),
     (''@getClientStatus'', COMP_MSG_WIFI_ClientStatus),
     (''@getClientSsidSize'', COMP_MSG_WIFI_ClientSsidSize),
     (''@getClientPasswdSize'', COMP_MSG_WIFI_ClientPasswdSize),
     (''@getClientIPAddrSize'', COMP_MSG_WIFI_ClientIPAddrSize),
     (''@getClientPortSize'', COMP_MSG_WIFI_ClientPortSize),
     (''@getClientStatusSize'', COMP_MSG_WIFI_ClientStatusSize),
     (''@getClientSequenceNumSize'', COMP_MSG_WIFI_ClientSequenceNumSize),
     (''@getClientSequenceNum'', COMP_MSG_WIFI_ClientSequenceNum),
     (''@getSSDPIPAddr'', COMP_MSG_WIFI_SSDPIPAddr),
     (''@getSSDPPort'', COMP_MSG_WIFI_SSDPPort),
     (''@getSSDPStatus'', COMP_MSG_WIFI_SSDPStatus),
     (''@getSSDPReceivedCallback'', COMP_MSG_WIFI_SSDPReceivedCallback),
     (''@getSSDPToSendCallback'', COMP_MSG_WIFI_SSDPToSendCallback),
     (''@getNetReceivedCallback'', COMP_MSG_WIFI_NetReceivedCallback),
     (''@getNetToSendCallback'', COMP_MSG_WIFI_NetToSendCallback),
     (''@getWebBinaryReceivedCallback'', COMP_MSG_WIFI_WebBinaryReceivedCallback),
     (''@getWebTextReceivedCallback'', COMP_MSG_WIFI_WebTextReceivedCallback),
     (''@getCloudPort'', COMP_MSG_WIFI_CloudPort),
     (''@getCloudHost1'', COMP_MSG_WIFI_CloudHost1),
     (''@getCloudHost2'', COMP_MSG_WIFI_CloudHost2),
     (''@getCloudUrl1Part1'', COMP_MSG_WIFI_CloudUrl1Part1),
     (''@getCloudUrl1Part2'', COMP_MSG_WIFI_CloudUrl1Part2),
     (''@getCloudUrlTenantId1'', COMP_MSG_WIFI_CloudUrlTenantId1),
     (''@getCloudUrl2Part1'', COMP_MSG_WIFI_Cloudl2Part1),
     (''@getCloudUrl2Part2'', COMP_MSG_WIFI_Cloudl2Part2),
     (''@getCloudUrlTenantId2'', COMP_MSG_WIFI_CloudlTenantId2),
     (''@getCloudNodeToken1'', COMP_MSG_WIFI_CloudNodeToken1),
     (''@getCloudNodeToken2'', COMP_MSG_WIFI_CloudNodeToken2),
     (''@getProdTestSsid'', COMP_MSG_WIFI_ProdTestSsid),
     (''@getProdTestPasswd'', COMP_MSG_WIFI_ProdTestPasswd),
     (''@getProdTestSecurityType'', COMP_MSG_WIFI_ProdTestSecurityType),
     (''@getProdTestTargetProtocol'', COMP_MSG_WIFI_ProdTestTargetProtocol),
     (''@getProdTestIpAddress'', COMP_MSG_WIFI_ProdTestIpAddress),
     (''@getProdTestSubnet'', COMP_MSG_WIFI_ProdTestSubnet),
     (''@getProdTestGateway'', COMP_MSG_WIFI_ProdTestGateway),
     (''@getProdTestDns'', COMP_MSG_WIFI_ProdTestDns),
     (''@getProdTestPingAddress'', COMP_MSG_WIFI_ProdTestPingAddress),
     (''@getProdTestStatus'', COMP_MSG_WIFI_ProdTestStatus)]"

definition moduleCallbackIds :: "(string \<times> u8) list" where
  "moduleCallbackIds =
    [(''@getMACAddr'', COMP_MSG_MODULE_MACAddr),
     (''@getIPAddr'', COMP_MSG_MODULE_IPAddr),
     (''@getFirmwareVersion'', COMP_MSG_MODULE_FirmwareVersion),
     (''@getRSSI'', COMP_MSG_MODULE_RSSI),
     (''@getRSSIMax'', COMP_MSG_MODULE_RSSIMax),
     (''@getConnectionState'', COMP_MSG_MODULE_ConnectionState),
     (''@getConnectedUsers'', COMP_MSG_MODULE_ConnectedUsers),
     (''@getIPProtocol'', COMP_MSG_MODULE_IPProtocol),
     (''@getErrorMain'', COMP_MSG_MODULE_ErrorMain),
     (''@getErrorSub'', COMP_MSG_MODULE_ErrorSub),
     (''@getDateAndTime'', COMP_MSG_MODULE_DateAndTime),
     (''@getSSIDs'', COMP_MSG_MODULE_SSIDs),
     (''@getOperatingMode'', COMP_MSG_MODULE_OperatingMode),
     (''@getOtaHost'', COMP_MSG_MODULE_OtaHost),
     (''@getOtaRomPath'', COMP_MSG_MODULE_OtaRomPath),
     (''@getOtaFsPath'', COMP_MSG_MODULE_OtaFsPath),
     (''@getOtaPort'', COMP_MSG_MODULE_OtaPort),
     (''@getCryptKey'', COMP_MSG_MODULE_CryptKey),
     (''@getReserve1'', COMP_MSG_MODULE_Reserve1),
     (''@getReserve2'', COMP_MSG_MODULE_Reserve2),
     (''@getReserve3'', COMP_MSG_MODULE_Reserve3),
     (''@getReserve4'', COMP_MSG_MODULE_Reserve4),
     (''@getReserve5'', COMP_MSG_MODULE_Reserve5),
     (''@getReserve6'', COMP_MSG_MODULE_Reserve6),
     (''@getReserve7'', COMP_MSG_MODULE_Reserve7),
     (''@getReserve8'', COMP_MSG_MODULE_Reserve8),
     (''@getPingState'', COMP_MSG_MODULE_DATA_PingState),
     (''@getDeviceSecurity'', COMP_MSG_MODULE_DATA_DeviceSecurity),
     (''@getProgRunningMode'', COMP_MSG_MODULE_DATA_ProgRunningMode),
     (''@getCurrentRunningMode'', COMP_MSG_MODULE_DATA_CurrentRunningMode),
     (''@getRegion'', COMP_MSG_MODULE_DATA_Region),
     (''@getSerieNumber'', COMP_MSG_MODULE_DATA_SerieNumber),
     (''@getHdrReserve'', COMP_MSG_MODULE_DATA_HdrReserve),
     (''@getPasswdC'', COMP_MSG_MODULE_DATA_PasswdC),
     (''@setOperatingMode'', COMP_MSG_MODULE_DATA_OperatingMode),
     (''@getMyU16Src'', COMP_MSG_MODULE_DATA_MyU16Src),
     (''@getMyU8Src'', COMP_MSG_MODULE_DATA_MyU8Src),
     (''@getMyU16SaveUserDataCmdKey'', COMP_MSG_MODULE_DATA_MyU16SaveUserDataCmdKey),
     (''@getMyU8SaveUserDataCmdKey'', COMP_MSG_MODULE_DATA_MyU8SaveUserDataCmdKey),
     (''@getSrcId'', COMP_MSG_MODULE_DATA_SrcId),
     (''@getGUID'', COMP_MSG_MODULE_DATA_GUID)]"

interpretation bss_tab: str2id_table bssStr2BssInfoIds
  by unfold_locales (code_simp, code_simp)

interpretation keyValue_tab: str2id_table keyValueStr2KeyValueIds
  by unfold_locales (code_simp, code_simp)

interpretation wifi_tab: str2id_table wifiCallbackIds
  by unfold_locales (code_simp, code_simp)

interpretation module_tab: str2id_table moduleCallbackIds
  by unfold_locales (code_simp, code_simp)

subsection \<open>Searching\<close>

text \<open>
  The number that \<open>callbackStr2CallbackId\<close> writes before it searches, 0xFF, is not used by its callers
  when the name is not found.
\<close>

definition bssStr2BssInfoId :: "string \<Rightarrow> (errcode + u8) ub" where
  "bssStr2BssInfoId name =
    do { r \<leftarrow> search_str (terminated bssStr2BssInfoIds) name;
         Some (case r of Some i \<Rightarrow> Inr i | None \<Rightarrow> Inl COMP_MSG_ERR_FIELD_NOT_FOUND) }"

definition keyValueStr2KeyValueId :: "string \<Rightarrow> (errcode + u16) ub" where
  "keyValueStr2KeyValueId name =
    do { r \<leftarrow> search_str (terminated keyValueStr2KeyValueIds) name;
         Some (case r of Some i \<Rightarrow> Inr (ucast i) | None \<Rightarrow> Inl COMP_MSG_ERR_FIELD_NOT_FOUND) }"

definition callbackStr2CallbackId :: "(string \<times> u8) list \<Rightarrow> string \<Rightarrow> (errcode + u16) ub" where
  "callbackStr2CallbackId tab callbackName =
    do { r \<leftarrow> search_str (terminated tab) callbackName;
         Some (case r of Some i \<Rightarrow> Inr (ucast i) | None \<Rightarrow> Inl COMP_MSG_ERR_CALLBACK_NAME_NOT_FOUND) }"

definition callbackId2CallbackStr :: "(string \<times> u8) list \<Rightarrow> u16 \<Rightarrow> (errcode + string) ub" where
  "callbackId2CallbackStr tab callbackId =
    (if callbackId > 0xFF then Some (Inl COMP_MSG_ERR_CALLBACK_NAME_NOT_FOUND)
     else do { r \<leftarrow> search_id (terminated tab) (ucast callbackId);
               Some (case r of Some s \<Rightarrow> Inr s | None \<Rightarrow> Inl COMP_MSG_ERR_CALLBACK_NAME_NOT_FOUND) })"

text \<open>The two searches as their callers combine them.\<close>

definition resolveCallbackName :: "string \<Rightarrow> (errcode + u16) ub" where
  "resolveCallbackName callbackName =
    do { r \<leftarrow> callbackStr2CallbackId wifiCallbackIds callbackName;
         case r of Inr i \<Rightarrow> Some (Inr i) | Inl _ \<Rightarrow> callbackStr2CallbackId moduleCallbackIds callbackName }"

definition resolveCallbackId :: "u16 \<Rightarrow> (errcode + string) ub" where
  "resolveCallbackId callbackId =
    do { r \<leftarrow> callbackId2CallbackStr wifiCallbackIds callbackId;
         case r of Inr s \<Rightarrow> Some (Inr s) | Inl _ \<Rightarrow> callbackId2CallbackStr moduleCallbackIds callbackId }"

lemma byte_callback [simp]:
  fixes i :: u8
  shows "\<not> (ucast i :: u16) > 0xFF"
proof -
  have "unat i < 256" using unsigned_less [of i] by simp
  then show ?thesis by (simp add: word_less_nat_alt)
qed

lemma module_names_new: "list_all (\<lambda>(s, i). s \<notin> fst ` set wifiCallbackIds) moduleCallbackIds"
  by code_simp

lemma module_numbers: "list_all (\<lambda>(s, i). i \<in> snd ` set wifiCallbackIds \<longleftrightarrow> i \<le> 64) moduleCallbackIds"
  by code_simp

lemma map_of_swap: "map_of (map (\<lambda>(s, i). (i, s)) tab) i = None \<longleftrightarrow> i \<notin> snd ` set tab"
  by (induction tab) auto

lemma wifi_callback:
  assumes "(s, i) \<in> set wifiCallbackIds"
  shows "resolveCallbackName s = Some (Inr (ucast i))" "resolveCallbackId (ucast i) = Some (Inr s)"
  using assms
  by (simp_all add: resolveCallbackName_def resolveCallbackId_def callbackStr2CallbackId_def callbackId2CallbackStr_def
      wifi_tab.search_str_iff [THEN iffD2] wifi_tab.search_id_iff [THEN iffD2])

lemma module_callback:
  assumes m: "(s, i) \<in> set moduleCallbackIds"
  shows "resolveCallbackName s = Some (Inr (ucast i))"
    and "resolveCallbackId (ucast i) = Some (Inr s) \<longleftrightarrow> 64 < i"
proof -
  from m module_names_new have "map_of wifiCallbackIds s = None" by (auto simp: list_all_iff map_of_eq_None_iff)
  with m show "resolveCallbackName s = Some (Inr (ucast i))"
    by (simp add: resolveCallbackName_def callbackStr2CallbackId_def search_str_map_of [of wifiCallbackIds] module_tab.search_str_iff [THEN iffD2])
  show "resolveCallbackId (ucast i) = Some (Inr s) \<longleftrightarrow> 64 < i"
  proof (cases "i \<in> snd ` set wifiCallbackIds")
    case True
    then obtain s' where w: "(s', i) \<in> set wifiCallbackIds" by auto
    with m module_names_new have "s' \<noteq> s" by (force simp: list_all_iff)
    moreover from True m module_numbers have "\<not> 64 < i" by (auto simp: list_all_iff)
    ultimately show ?thesis by (simp add: wifi_callback(2) [OF w])
  next
    case False
    with m module_numbers have "64 < i" by (auto simp: list_all_iff not_le)
    with False m show ?thesis
      by (simp add: resolveCallbackId_def callbackId2CallbackStr_def search_id_map_of [of wifiCallbackIds] map_of_swap [THEN iffD2]
          module_tab.search_id_iff [THEN iffD2])
  qed
qed

subsection \<open>Property\<close>

text \<open>
  A callback of the wifi data is found by its name, and its number leads back to the name.
  A callback of the module data is found by its name too, but its number leads back to it only when
  it is above 64: the numbers 50 to 64 of \<^verbatim>\<open>compMsgModuleDataCustom.h\<close> are in use in
  \<^verbatim>\<open>compMsgWifiDataCustom.h\<close> as well, so that these fifteen numbers stand for callbacks of the wifi data.
\<close>

lemma callback_numbers:
  "list_all (\<lambda>(s, i). resolveCallbackName s = Some (Inr (ucast i)) \<and> resolveCallbackId (ucast i) = Some (Inr s)) wifiCallbackIds
   \<and> list_all (\<lambda>(s, i). resolveCallbackName s = Some (Inr (ucast i))
        \<and> (resolveCallbackId (ucast i) = Some (Inr s) \<longleftrightarrow> 64 < i)) moduleCallbackIds
   \<and> map snd (filter (\<lambda>(s, i). i \<le> 64) moduleCallbackIds) = map word_of_nat [50..<65]"
proof (intro conjI)
  show "map snd (filter (\<lambda>(s, i). i \<le> 64) moduleCallbackIds) = map word_of_nat [50..<65]" by code_simp
qed (auto simp: list_all_iff wifi_callback module_callback)

end
