(* ===== verification/CompMsgMsgDesc.thy ===== *)
theory CompMsgMsgDesc
  imports CompMsgFile CompMsgUtil CompMsgData
begin

text \<open>
  \<^verbatim>\<open>src/app/compMsg/compMsgMsgDesc.c\<close>: the description files.  \<^verbatim>\<open>MsgFiles.txt\<close> names the other files with the
  group each belongs to; the files of the header, the mid part and the trailer list the fields common to
  all messages, \<^verbatim>\<open>MsgHeads.txt\<close> the headers of the messages, and one file per message its own fields.

  \<^item> The state \<open>msgDesc\<close> is \<open>compMsgMsgDesc_t\<close> with what the handlers of a line change besides:
    the fields of the line, the dictionary, the message whose view is used for the header values, the two
    counters of the views and the number of calls of the allocator so far.  The handler of a line
    does not touch the open file, so \<open>openedFile\<close> is a second component.
  \<^item> \<open>al n\<close> tells which of the allocations of the \<open>n\<close>-th call succeed; \<open>junk n\<close> is the value of
    an uninitialised member that is copied.
  \<^item> \<open>int\<close> counters that count lines or entries up are \<open>int\<close> and \<open>nat\<close>: \<open>numLines\<close> and \<open>currLineNo\<close>
    never pass \<open>expectedLines\<close>, a 32 bit value.
\<close>

subsection \<open>State\<close>

text \<open>\<open>msgHeaderInfo_t\<close>, \<open>msgMidPartInfo_t\<close> and \<open>msgTrailerInfo_t\<close> have the same members.\<close>

record msgPartInfo =
  partLgth :: u16
  numPartFields :: u8
  partFieldIds :: "u8 cell list"

record msgFieldGroupInfo =
  fieldGroupId :: u16
  fg_cmdKey :: u16
  fg_fileName :: "string option"

record msgDesc =
  d_line :: lineFields
  expectedLines :: int
  currLineNo :: int
  msgDescriptionInfos :: msgDescriptionInfos
  numMsgFieldGroupInfo :: nat
  maxMsgFieldGroupInfo :: nat
  currMsgFieldGroupInfo :: nat
  msgFieldGroupInfos :: "msgFieldGroupInfo cell list"
  msgFieldGroupFileName :: "string option"
  msgHeaderInfo :: msgPartInfo
  msgMidPartInfo :: msgPartInfo
  msgTrailerInfo :: msgPartInfo
  d_tn :: typesAndNames
  d_msg :: "compMsgData option"
  d_ids :: "u8 \<times> u8"
  d_calls :: nat

abbreviation (input) "COMP_MSG_FIELD_TO_SAVE \<equiv> (0x04 :: u32)"
abbreviation (input) "COMP_MSG_FIELD_KEY_VALUE \<equiv> (0x08 :: u32)"
abbreviation (input) "COMP_MSG_FIELD_HEADER \<equiv> (0x10 :: u32)"
abbreviation (input) "COMP_MSG_FIELD_HEADER_UNIQUE \<equiv> (0x40 :: u32)"
abbreviation (input) "COMP_MSG_FIELD_HEADER_CHKSUM_NON_ZERO \<equiv> (0x80 :: u32)"
abbreviation (input) "COMP_MSG_HAS_CMD_LGTH \<equiv> (1 :: u16)"
abbreviation (input) "COMP_MSG_DATA_VALUE_CMD_KEY_SPECIAL \<equiv> (0x5F5F :: u16)"

definition zeroPartInfo :: msgPartInfo where
  "zeroPartInfo = \<lparr>partLgth = 0, numPartFields = 0, partFieldIds = []\<rparr>"

definition zeroFieldGroupInfo :: msgFieldGroupInfo where
  "zeroFieldGroupInfo = \<lparr>fieldGroupId = 0, fg_cmdKey = 0, fg_fileName = None\<rparr>"

definition tick :: "msgDesc \<Rightarrow> msgDesc" where
  "tick st = st\<lparr>d_calls := d_calls st + 1\<rparr>"

subsection \<open>The common parts of a message\<close>

definition addPartInfo :: "bool \<Rightarrow> msgPartInfo \<Rightarrow> u16 \<Rightarrow> u8 \<Rightarrow> errcode \<times> msgPartInfo" where
  "addPartInfo ok info fLgth fieldId =
    (let n = unat (numPartFields info) in
     if \<not> ok then (DATA_VIEW_ERR_OUT_OF_MEMORY, info\<lparr>partFieldIds := []\<rparr>)
     else
       let ids = (if n = 0 then zalloc_cells (n + 1) 0 else realloc_cells (n + 1) (partFieldIds info)) in
       (COMP_MSG_ERR_OK,
        info\<lparr>partFieldIds := ids[n := Def fieldId], partLgth := partLgth info + fLgth,
             numPartFields := numPartFields info + 1\<rparr>))"

definition addHeaderInfo :: "bool \<Rightarrow> msgDesc \<Rightarrow> u16 \<Rightarrow> u8 \<Rightarrow> errcode \<times> msgDesc" where
  "addHeaderInfo ok st fLgth fieldId =
    (let (rc, info) = addPartInfo ok (msgHeaderInfo st) fLgth fieldId in (rc, st\<lparr>msgHeaderInfo := info\<rparr>))"

definition addMidPartInfo :: "bool \<Rightarrow> msgDesc \<Rightarrow> u16 \<Rightarrow> u8 \<Rightarrow> errcode \<times> msgDesc" where
  "addMidPartInfo ok st fLgth fieldId =
    (let (rc, info) = addPartInfo ok (msgMidPartInfo st) fLgth fieldId in (rc, st\<lparr>msgMidPartInfo := info\<rparr>))"

definition addTrailerInfo :: "bool \<Rightarrow> msgDesc \<Rightarrow> u16 \<Rightarrow> u8 \<Rightarrow> errcode \<times> msgDesc" where
  "addTrailerInfo ok st fLgth fieldId =
    (let (rc, info) = addPartInfo ok (msgTrailerInfo st) fLgth fieldId in (rc, st\<lparr>msgTrailerInfo := info\<rparr>))"

text \<open>
  \<open>getHeaderChksumKey\<close>: the loop from \<open>idx\<close> on with \<open>k\<close> rounds to go.  The field infos are indexed with
  the position in the header and not with the number of the field, and the key is not handed to the
  caller: the function only tells whether it got through.
\<close>

primrec chksumKeyLoop :: "typesAndNames \<Rightarrow> mem \<Rightarrow> nat \<Rightarrow> nat \<Rightarrow> u16 \<Rightarrow> nat \<Rightarrow> (errcode + u16) ub" where
  "chksumKeyLoop tn d idx offset key 0 = Some (Inr key)"
| "chksumKeyLoop tn d idx offset key (Suc k) =
    do { p \<leftarrow> rd_cell (fieldDescInfos tn) idx;
         case p of
           None \<Rightarrow> Some (Inl COMP_MSG_ERR_MSG_FIELD_INFO_IDX_NOT_SET)
         | Some info \<Rightarrow>
             let n = unat (fieldLgth info) in
             do { key \<leftarrow> (if fieldFlags info AND COMP_MSG_FIELD_HEADER_UNIQUE \<noteq> 0 then crc_loop d offset n key else Some key);
                  chksumKeyLoop tn d (idx + 1) (offset + n) key k } }"

definition getHeaderChksumKey :: "msgDesc \<Rightarrow> mem \<Rightarrow> errcode ub" where
  "getHeaderChksumKey st d =
    do { r \<leftarrow> chksumKeyLoop (d_tn st) d 1 0 0 (unat (numPartFields (msgHeaderInfo st)) - 1);
         Some (case r of Inl rc \<Rightarrow> rc | Inr _ \<Rightarrow> COMP_MSG_ERR_OK) }"

subsection \<open>Groups of description files\<close>

text \<open>The allocation of the copy of the name (allocation 2) is not tested.\<close>

definition addFieldGroup :: "allocs \<Rightarrow> msgDesc \<Rightarrow> string \<Rightarrow> u16 \<Rightarrow> u16 \<Rightarrow> (errcode \<times> msgDesc) ub" where
  "addFieldGroup ok st fileName groupId key =
    (let (rc, st) =
       (if numMsgFieldGroupInfo st \<ge> maxMsgFieldGroupInfo st then
          if maxMsgFieldGroupInfo st = 0 then
            let st = st\<lparr>maxMsgFieldGroupInfo := 1\<rparr> in
            if ok 0 then (COMP_MSG_ERR_OK, st\<lparr>msgFieldGroupInfos := zalloc_cells 1 zeroFieldGroupInfo\<rparr>)
            else (DATA_VIEW_ERR_OUT_OF_MEMORY, st\<lparr>msgFieldGroupInfos := []\<rparr>)
          else
            let st = st\<lparr>maxMsgFieldGroupInfo := maxMsgFieldGroupInfo st + 1\<rparr> in
            if ok 1 then (COMP_MSG_ERR_OK,
              st\<lparr>msgFieldGroupInfos := realloc_cells (maxMsgFieldGroupInfo st) (msgFieldGroupInfos st)\<rparr>)
            else (DATA_VIEW_ERR_OUT_OF_MEMORY, st\<lparr>msgFieldGroupInfos := []\<rparr>)
        else (COMP_MSG_ERR_OK, st)) in
     if rc \<noteq> COMP_MSG_ERR_OK then Some (rc, st)
     else if \<not> ok 2 then None
     else
       do { gs \<leftarrow> wr_cell (msgFieldGroupInfos st) (numMsgFieldGroupInfo st)
              \<lparr>fieldGroupId = groupId, fg_cmdKey = key, fg_fileName = Some fileName\<rparr>;
            Some (COMP_MSG_ERR_OK, st\<lparr>msgFieldGroupInfos := gs, currMsgFieldGroupInfo := numMsgFieldGroupInfo st,
                                      numMsgFieldGroupInfo := numMsgFieldGroupInfo st + 1\<rparr>) })"

definition currGroup :: "msgDesc \<Rightarrow> msgFieldGroupInfo ub" where
  "currGroup st = rd_cell (msgFieldGroupInfos st) (currMsgFieldGroupInfo st)"

subsection \<open>The lines of a file\<close>

text \<open>The index of the first byte that is no blank, carriage return or newline.\<close>

primrec skipBlanks :: "u8 cell list \<Rightarrow> nat ub" where
  "skipBlanks [] = None"
| "skipBlanks (c # cs) =
    (case c of Undef \<Rightarrow> None
     | Def b \<Rightarrow> if b = 32 \<or> b = 13 \<or> b = 10 then do { n \<leftarrow> skipBlanks cs; Some (Suc n) } else Some 0)"

text \<open>
  The loop of \<open>handleMsgFileInternal\<close>; the handler of a line is a parameter.  It calls itself once per
  line and ends with the file, which is up to the file system, hence \<open>partial_function (option)\<close>.
\<close>

definition closing :: "'f fsOps \<Rightarrow> errcode \<Rightarrow> 'f openedFile \<Rightarrow> msgDesc \<Rightarrow> (errcode \<times> 'f openedFile \<times> msgDesc) ub" where
  "closing ops rc f st = Some (rc, snd (closeFile ops f), st)"

type_synonym lineHandler = "msgDesc \<Rightarrow> (errcode \<times> msgDesc) ub"

partial_function (option) fileLoop ::
  "nat \<Rightarrow> 'f fsOps \<Rightarrow> lineHandler \<Rightarrow> int \<Rightarrow> bool \<Rightarrow> 'f openedFile \<Rightarrow> msgDesc \<Rightarrow> (errcode \<times> 'f openedFile \<times> msgDesc) option" where
  "fileLoop bufsiz ops handleMsgLine numLines hadNumLines f st =
    do { (r, f, buffer) \<leftarrow> readLine bufsiz ops f (lineBuf (d_line st));
         let st = st\<lparr>d_line := (d_line st)\<lparr>lineBuf := buffer\<rparr>\<rparr>;
         case r of
           Inl rc \<Rightarrow> closing ops rc f st
         | Inr lineLgth \<Rightarrow>
             if lineLgth = 0 then
               closing ops (if numLines > expectedLines st then COMP_MSG_ERR_BAD_NUM_DESC_FILE_LINES else COMP_MSG_ERR_OK) f st
             else do {
               n \<leftarrow> skipBlanks buffer;
               if n = unat lineLgth then fileLoop bufsiz ops handleMsgLine numLines hadNumLines f st
               else do {
                 buffer \<leftarrow> wr_cell buffer (unat lineLgth) 0;
                 (rc, line) \<leftarrow> getLineFields ((d_line st)\<lparr>lineBuf := buffer\<rparr>) lineLgth;
                 let st = st\<lparr>d_line := line\<rparr>;
                 if rc \<noteq> COMP_MSG_ERR_OK then closing ops rc f st
                 else do {
                   field0 \<leftarrow> fieldStr line 0;
                   b0 \<leftarrow> rd_cell (lineBuf line) 0;
                   b1 \<leftarrow> rd_cell (lineBuf line) 1;
                   if numLineFields line < 2 \<and> field0 = [] \<or> b0 = of_char CHR ''#'' \<and> b1 = of_char CHR '' '' then
                     fileLoop bufsiz ops handleMsgLine numLines hadNumLines f st
                   else if numLines = 0 \<and> \<not> hadNumLines then
                     if field0 = ''#'' then do {
                       off \<leftarrow> lineField line 1;
                       v \<leftarrow> getIntFieldValue line off 0;
                       fileLoop bufsiz ops handleMsgLine numLines True f (st\<lparr>currLineNo := 0, expectedLines := sint v\<rparr>)
                     }
                     else Some (COMP_MSG_ERR_WRONG_DESC_FILE_LINE, f, st\<lparr>currLineNo := 0\<rparr>)
                   else if numLines + 1 > expectedLines st then
                     closing ops COMP_MSG_ERR_BAD_NUM_DESC_FILE_LINES f st
                   else do {
                     (rc, st) \<leftarrow> handleMsgLine (st\<lparr>currLineNo := currLineNo st + 1\<rparr>);
                     if rc \<noteq> COMP_MSG_ERR_OK then closing ops rc f st
                     else fileLoop bufsiz ops handleMsgLine (numLines + 1) hadNumLines f st
                   }
                 }
               }
             } }"

text \<open>
  The buffer of the line is an array of the function: undefined at its start, and pointers into that of
  an earlier call are dead.
\<close>

definition handleMsgFileInternal ::
  "nat \<Rightarrow> 'f fsOps \<Rightarrow> 'f openedFile \<Rightarrow> msgDesc \<Rightarrow> string \<Rightarrow> lineHandler \<Rightarrow> (errcode \<times> 'f openedFile \<times> msgDesc) ub" where
  "handleMsgFileInternal bufsiz ops f st fileName handleMsgLine =
    (let st = st\<lparr>d_line := (d_line st)\<lparr>lineBuf := replicate 100 Undef, lineFields := replicate MSG_MAX_LINE_FIELDS None\<rparr>\<rparr> in
     case openFile ops f fileName ''r'' of (rc, f) \<Rightarrow>
       if rc \<noteq> COMP_MSG_ERR_OK then Some (rc, f, st)
       else fileLoop bufsiz ops handleMsgLine 0 False f (st\<lparr>currLineNo := 0\<rparr>))"

partial_function (option) groupLoop ::
  "nat \<Rightarrow> 'f fsOps \<Rightarrow> lineHandler \<Rightarrow> 'f openedFile \<Rightarrow> msgDesc \<Rightarrow> (errcode \<times> 'f openedFile \<times> msgDesc) option" where
  "groupLoop bufsiz ops handleMsgFieldGroupLine f st =
    (if currMsgFieldGroupInfo st < numMsgFieldGroupInfo st then
       do { g \<leftarrow> currGroup st;
            name \<leftarrow> fg_fileName g;
            (rc, f, st) \<leftarrow> handleMsgFileInternal bufsiz ops f st name handleMsgFieldGroupLine;
            if rc \<noteq> COMP_MSG_ERR_OK then Some (rc, f, st)
            else groupLoop bufsiz ops handleMsgFieldGroupLine f
              (st\<lparr>currMsgFieldGroupInfo := currMsgFieldGroupInfo st + 1\<rparr>) }
     else Some (COMP_MSG_ERR_OK, f, st))"

definition handleMsgFile ::
  "nat \<Rightarrow> 'f fsOps \<Rightarrow> lineHandler \<Rightarrow> 'f openedFile \<Rightarrow> msgDesc \<Rightarrow> string \<Rightarrow> lineHandler \<Rightarrow> (errcode \<times> 'f openedFile \<times> msgDesc) ub" where
  "handleMsgFile bufsiz ops handleMsgFieldGroupLine f st fileName handleMsgLine =
    do { (rc, f, st) \<leftarrow> handleMsgFileInternal bufsiz ops f st fileName handleMsgLine;
         if rc \<noteq> COMP_MSG_ERR_OK then Some (rc, f, st)
         else if numMsgFieldGroupInfo st > 0 then
           groupLoop bufsiz ops handleMsgFieldGroupLine f (st\<lparr>currMsgFieldGroupInfo := 0\<rparr>)
         else Some (rc, f, st) }"

subsection \<open>Lines of \<^verbatim>\<open>MsgFiles.txt\<close>\<close>

text \<open>A string value of the line: the pointer behind the opening quote, or the code.\<close>

definition stringField :: "msgDesc \<Rightarrow> nat \<Rightarrow> ((errcode + nat) \<times> msgDesc) ub" where
  "stringField st i =
    do { off \<leftarrow> lineField (d_line st) i;
         (r, line) \<leftarrow> getStringFieldValue (d_line st) off;
         Some (r, st\<lparr>d_line := line\<rparr>) }"

definition intField :: "msgDesc \<Rightarrow> nat \<Rightarrow> i32 ub" where
  "intField st i = do { off \<leftarrow> lineField (d_line st) i; getIntFieldValue (d_line st) off 0 }"

text \<open>\<open>(str[0] << 8) | str[1]\<close>\<close>

definition cmdKeyAt :: "lineFields \<Rightarrow> nat \<Rightarrow> u16 ub" where
  "cmdKeyAt line off =
    do { b0 \<leftarrow> rd_cell (lineBuf line) off;
         b1 \<leftarrow> rd_cell (lineBuf line) (off + 1);
         Some (push_bit 8 (ucast b0) OR ucast b1) }"

definition fileNameCmdKey :: "msgDesc \<Rightarrow> ((errcode + u16) \<times> msgDesc) ub" where
  "fileNameCmdKey st =
    (if numLineFields (d_line st) > 2 then
       do { (r, st) \<leftarrow> stringField st 2;
            case r of
              Inl rc \<Rightarrow> Some (Inl rc, st)
            | Inr off \<Rightarrow>
                do { s \<leftarrow> lineStr (d_line st) off;
                     if length s \<noteq> 2 then Some (Inl COMP_MSG_ERR_BAD_CMD_KEY_VALUE, st)
                     else do { k \<leftarrow> cmdKeyAt (d_line st) off; Some (Inr k, st) } } }
     else Some (Inr COMP_MSG_DATA_VALUE_CMD_KEY_SPECIAL, st))"

definition handleMsgFileNameLine :: "(nat \<Rightarrow> allocs) \<Rightarrow> lineHandler" where
  "handleMsgFileNameLine al st =
    (if numLineFields (d_line st) < 2 then Some (COMP_MSG_ERR_FIELD_DESC_TOO_FEW_FIELDS, st)
     else
       do { (r, st) \<leftarrow> stringField st 1;
            case r of
              Inl rc \<Rightarrow> Some (rc, st)
            | Inr off \<Rightarrow>
                do { token \<leftarrow> fieldStr (d_line st) 0;
                     if take 2 token \<noteq> ''@$'' then Some (COMP_MSG_ERR_OK, st)
                     else
                       do { i \<leftarrow> getFileNameTokenIdFromStr token;
                            case i of
                              Inl rc \<Rightarrow> Some (rc, st)
                            | Inr groupId \<Rightarrow>
                                let ok = al (d_calls st); st = tick st in
                                do { fileName \<leftarrow> lineStr (d_line st) off;
                                     if \<not> ok 3 then Some (DATA_VIEW_ERR_OUT_OF_MEMORY, st\<lparr>msgFieldGroupFileName := None\<rparr>)
                                     else
                                       let st = st\<lparr>msgFieldGroupFileName := Some fileName\<rparr> in
                                       do { (k, st) \<leftarrow> fileNameCmdKey st;
                                            case k of
                                              Inl rc \<Rightarrow> Some (rc, st)
                                            | Inr key \<Rightarrow>
                                                if groupId \<noteq> 0 then addFieldGroup ok st fileName (ucast groupId) key
                                                else Some (COMP_MSG_ERR_OK, st) } } } } })"

subsection \<open>Lines that describe a field\<close>

text \<open>
  Entering a field into the sequence of a message: its number and its offset, the end of the fields
  before it.
\<close>

definition enterField :: "msgDescription \<Rightarrow> nat \<Rightarrow> u8 \<Rightarrow> msgDescription ub" where
  "enterField d fieldIdx fldId =
    do { seq \<leftarrow> fieldSequence d;
         offs \<leftarrow> fieldOffsets d;
         if fieldIdx < length seq \<and> fieldIdx < length offs then
           Some (d\<lparr>fieldSequence := Some (seq[fieldIdx := fldId]),
                   fieldOffsets := Some (offs[fieldIdx := lastFieldOffset d])\<rparr>)
         else None }"

definition addLgth :: "msgDescription \<Rightarrow> u16 \<Rightarrow> msgDescription" where
  "addLgth d n = d\<lparr>lastFieldOffset := lastFieldOffset d + n\<rparr>"

text \<open>The fields of the header, from \<open>idx\<close> on with \<open>k\<close> to go; \<open>fieldIdx\<close> and \<open>headerIdx\<close> are equal.\<close>

primrec headerSeqLoop :: "typesAndNames \<Rightarrow> u8 cell list \<Rightarrow> msgDescription \<Rightarrow> nat \<Rightarrow> nat \<Rightarrow> msgDescription ub" where
  "headerSeqLoop tn ids d idx 0 = Some d"
| "headerSeqLoop tn ids d idx (Suc k) =
    do { fldId \<leftarrow> rd_cell ids idx;
         d \<leftarrow> enterField d idx fldId;
         p \<leftarrow> rd_cell (fieldDescInfos tn) (unat fldId);
         info \<leftarrow> p;
         headerSeqLoop tn ids (addLgth d (fieldLgth info)) (idx + 1) k }"

text \<open>
  The loops over the mid part and the trailer; a field is left out when the flags of the message do not
  ask for it.
\<close>

definition midPartSkips :: "msgDescription \<Rightarrow> string \<Rightarrow> bool" where
  "midPartSkips d name \<longleftrightarrow> name = ''@cmdLgth'' \<and> md_fieldFlags d AND COMP_MSG_HAS_CMD_LGTH = 0"

definition trailerSkips :: "msgDescription \<Rightarrow> string \<Rightarrow> bool" where
  "trailerSkips d name \<longleftrightarrow>
     name = ''@crc'' \<and> md_fieldFlags d AND COMP_MSG_HAS_CRC = 0
     \<or> name = ''@totalCrc'' \<and> md_fieldFlags d AND COMP_MSG_HAS_TOTAL_CRC = 0"

primrec partSeqLoop ::
  "(msgDescription \<Rightarrow> string \<Rightarrow> bool) \<Rightarrow> typesAndNames \<Rightarrow> u8 cell list \<Rightarrow> nat \<Rightarrow> msgDescription \<Rightarrow> nat \<Rightarrow> nat
    \<Rightarrow> (errcode \<times> nat \<times> msgDescription) ub" where
  "partSeqLoop skips tn ids fieldIdx d idx 0 = Some (COMP_MSG_ERR_OK, fieldIdx, d)"
| "partSeqLoop skips tn ids fieldIdx d idx (Suc k) =
    do { fldId \<leftarrow> rd_cell ids idx;
         n \<leftarrow> getFieldNameStrFromId tn fldId;
         case n of
           Inl rc \<Rightarrow> Some (rc, fieldIdx, d)
         | Inr s \<Rightarrow>
             do { p \<leftarrow> rd_cell (fieldDescInfos tn) (unat fldId);
                  name \<leftarrow> s;
                  if skips d name then partSeqLoop skips tn ids fieldIdx d (idx + 1) k
                  else do { d \<leftarrow> enterField d fieldIdx fldId;
                            info \<leftarrow> p;
                            partSeqLoop skips tn ids (fieldIdx + 1) (addLgth d (fieldLgth info)) (idx + 1) k } } }"

text \<open>
  The sequence of a message starts with the header and the mid part.  \<open>fieldIdx\<close> is set in this branch
  only; \<open>None\<close> is its indeterminate value when the sequence exists already.
\<close>

definition startSequence ::
  "allocs \<Rightarrow> msgDesc \<Rightarrow> msgDescription \<Rightarrow> (errcode \<times> nat option \<times> msgDescription) ub" where
  "startSequence ok st d =
    (if fieldSequence d \<noteq> None then Some (COMP_MSG_ERR_OK, None, d)
     else
       let hdr = msgHeaderInfo st; mid = msgMidPartInfo st; trl = msgTrailerInfo st;
           n = unat (numPartFields hdr) + unat (numPartFields mid) + unat (numPartFields trl) + 10 in
       if \<not> ok 0 then Some (DATA_VIEW_ERR_OUT_OF_MEMORY, None, d)
       else let d = d\<lparr>fieldSequence := Some (replicate n 0)\<rparr> in
       if \<not> ok 1 then Some (DATA_VIEW_ERR_OUT_OF_MEMORY, None, d\<lparr>fieldOffsets := None\<rparr>)
       else
         do { d \<leftarrow> headerSeqLoop (d_tn st) (partFieldIds hdr) (d\<lparr>fieldOffsets := Some (replicate n 0)\<rparr>) 0
                (unat (numPartFields hdr));
              (rc, fieldIdx, d) \<leftarrow> partSeqLoop midPartSkips (d_tn st) (partFieldIds mid) (unat (numPartFields hdr)) d 0
                (unat (numPartFields mid));
              Some (rc, Some fieldIdx, d) })"

text \<open>The description of the message: the one with the key of the file, otherwise the last one.\<close>

definition descriptionIdx :: "msgDescriptionInfos \<Rightarrow> u16 \<Rightarrow> nat ub" where
  "descriptionIdx ds key =
    do { m \<leftarrow> scan (msgDescriptions ds) (\<lambda>d. md_cmdKey d = key) 0 (unat (numMsgDescriptions ds));
         case m of
           Some (i, _) \<Rightarrow> Some i
         | None \<Rightarrow> if numMsgDescriptions ds = 0 then None else Some (unat (numMsgDescriptions ds) - 1) }"

definition messageField :: "allocs \<Rightarrow> msgDesc \<Rightarrow> u8 \<Rightarrow> msgDescription \<Rightarrow> (errcode \<times> msgDescription) ub" where
  "messageField ok st nameId d =
    do { (rc, i, d) \<leftarrow> startSequence ok st d;
         if rc \<noteq> COMP_MSG_ERR_OK then Some (rc, d)
         else do {
           p \<leftarrow> rd_cell (fieldDescInfos (d_tn st)) (unat nameId);
           fieldIdx \<leftarrow> i;
           d \<leftarrow> enterField d fieldIdx nameId;
           case p of
             None \<Rightarrow> Some (COMP_MSG_ERR_BAD_FIELD_INFO, d)
           | Some info \<Rightarrow>
               let d = addLgth d (fieldLgth info) in
               if expectedLines st = currLineNo st then
                 do { (rc, _, d) \<leftarrow> partSeqLoop trailerSkips (d_tn st) (partFieldIds (msgTrailerInfo st)) (fieldIdx + 1) d 0
                        (unat (numPartFields (msgTrailerInfo st)));
                      Some (rc, d) }
               else Some (COMP_MSG_ERR_OK, d) } }"

definition addToDescription :: "allocs \<Rightarrow> msgDesc \<Rightarrow> u16 \<Rightarrow> u8 \<Rightarrow> (errcode \<times> msgDesc) ub" where
  "addToDescription ok st key nameId =
    (let ds = msgDescriptionInfos st in
     do { i \<leftarrow> descriptionIdx ds key;
          d \<leftarrow> rd_cell (msgDescriptions ds) i;
          (rc, d) \<leftarrow> messageField ok st nameId d;
          es \<leftarrow> wr_cell (msgDescriptions ds) i d;
          Some (rc, st\<lparr>msgDescriptionInfos := ds\<lparr>msgDescriptions := es\<rparr>\<rparr>) })"

text \<open>The flag of a header field: 0, 1 or 2.\<close>

definition headerFieldFlags :: "i32 \<Rightarrow> u32 option" where
  "headerFieldFlags v =
    (if v = 0 then Some 0
     else if v = 1 then Some COMP_MSG_FIELD_HEADER_UNIQUE
     else if v = 2 then Some COMP_MSG_FIELD_HEADER_CHKSUM_NON_ZERO
     else None)"

definition storeInfo :: "allocs \<Rightarrow> u8 \<Rightarrow> fieldDescInfo \<Rightarrow> msgDesc \<Rightarrow> (errcode \<times> msgDesc) ub" where
  "storeInfo ok nameId info st =
    do { (rc, tn) \<leftarrow> setMsgFieldDescInfo ok (d_tn st) nameId info;
         Some (rc, st\<lparr>d_tn := tn\<rparr>) }"

text \<open>The second half of \<open>handleMsgCommonLine\<close>: what the group of the file asks for.\<close>

definition describeField :: "allocs \<Rightarrow> msgDesc \<Rightarrow> msgFieldGroupInfo \<Rightarrow> u8 \<Rightarrow> fieldDescInfo \<Rightarrow> (errcode \<times> msgDesc) ub" where
  "describeField ok st g nameId info =
    (let group = fieldGroupId g in
     if group = ucast COMP_MSG_DESC_HEADER_FIELD_GROUP then
       do { v \<leftarrow> intField st 3;
            case headerFieldFlags v of
              None \<Rightarrow> Some (COMP_MSG_ERR_BAD_HEADER_FIELD_FLAG, st)
            | Some fl \<Rightarrow>
                let info = info\<lparr>fieldOffset := partLgth (msgHeaderInfo st),
                                fieldFlags := fieldFlags info OR fl OR COMP_MSG_FIELD_HEADER\<rparr> in
                checkErrOK (Some (addHeaderInfo (ok 2) st (fieldLgth info) nameId)) (storeInfo ok nameId info) }
     else if group = ucast COMP_MSG_DESC_MID_PART_FIELD_GROUP then
       let info = info\<lparr>fieldOffset := partLgth (msgHeaderInfo st) + partLgth (msgMidPartInfo st)\<rparr> in
       checkErrOK (Some (addMidPartInfo (ok 2) st (fieldLgth info) nameId)) (storeInfo ok nameId info)
     else if group = ucast COMP_MSG_DESC_TRAILER_FIELD_GROUP then
       checkErrOK (Some (addTrailerInfo (ok 2) st (fieldLgth info) nameId)) (storeInfo ok nameId info)
     else if group = ucast COMP_MSG_DESC_KEY_VALUE_FIELD_GROUP then
       do { _ \<leftarrow> intField st 3;
            storeInfo ok nameId (info\<lparr>fieldFlags := fieldFlags info OR COMP_MSG_FIELD_KEY_VALUE\<rparr>) st }
     else if group = ucast COMP_MSG_DESC_FIELD_GROUP then
       checkErrOK (storeInfo ok nameId info st)
         (\<lambda>st. addToDescription (\<lambda>i. ok (i + 3)) st (fg_cmdKey g) nameId)
     else Some (COMP_MSG_ERR_OK, st))"

definition handleMsgCommonLine :: "(nat \<Rightarrow> allocs) \<Rightarrow> (nat \<Rightarrow> u16) \<Rightarrow> lineHandler" where
  "handleMsgCommonLine al junk st =
    (if numLineFields (d_line st) < 3 then Some (COMP_MSG_ERR_FIELD_DESC_TOO_FEW_FIELDS, st)
     else
       do { name \<leftarrow> fieldStr (d_line st) 0;
            (r, tn) \<leftarrow> getFieldNameIdFromStr (al (d_calls st)) (d_tn st) name COMP_MSG_INCR;
            let st = tick (st\<lparr>d_tn := tn\<rparr>);
            case r of
              Inl rc \<Rightarrow> Some (rc, st)
            | Inr nameId \<Rightarrow>
                do { type \<leftarrow> fieldStr (d_line st) 1;
                     t \<leftarrow> getFieldTypeIdFromStr type;
                     case t of
                       Inl rc \<Rightarrow> Some (rc, st)
                     | Inr typeId \<Rightarrow>
                         do { v \<leftarrow> intField st 2;
                              g \<leftarrow> currGroup st;
                              describeField (al (d_calls st)) (tick st) g nameId
                                \<lparr>fieldFlags = (if take 2 name = ''@#'' then COMP_MSG_FIELD_KEY_VALUE else 0),
                                 fieldTypeId = typeId, fieldLgth = ucast v,
                                 fieldOffset = junk (d_calls st), keyValueDesc = None\<rparr> } } })"

definition handleMsgFieldsToSaveLine :: "(nat \<Rightarrow> allocs) \<Rightarrow> lineHandler" where
  "handleMsgFieldsToSaveLine al st =
    (if numLineFields (d_line st) < 1 then Some (COMP_MSG_ERR_FIELD_DESC_TOO_FEW_FIELDS, st)
     else
       do { name \<leftarrow> fieldStr (d_line st) 0;
            (r, tn) \<leftarrow> getFieldNameIdFromStr (al (d_calls st)) (d_tn st) name COMP_MSG_INCR;
            let st = tick (st\<lparr>d_tn := tn\<rparr>);
            case r of
              Inl rc \<Rightarrow> Some (rc, st)
            | Inr nameId \<Rightarrow>
                do { (e, tn) \<leftarrow> getMsgFieldDescInfo (al (d_calls st) 0) (d_tn st) nameId;
                     let st = tick (st\<lparr>d_tn := tn\<rparr>);
                     case e of
                       Inl rc \<Rightarrow> Some (rc, st)
                     | Inr info \<Rightarrow>
                         storeInfo (al (d_calls st)) nameId
                           (info\<lparr>fieldFlags := fieldFlags info OR COMP_MSG_FIELD_TO_SAVE\<rparr>) (tick st) } })"

text \<open>The lines of \<^verbatim>\<open>MsgActions.txt\<close> only enter their name.\<close>

definition handleMsgActionsLine :: "(nat \<Rightarrow> allocs) \<Rightarrow> lineHandler" where
  "handleMsgActionsLine al st =
    (if numLineFields (d_line st) < 2 then Some (COMP_MSG_ERR_FIELD_DESC_TOO_FEW_FIELDS, st)
     else
       do { name \<leftarrow> fieldStr (d_line st) 0;
            (r, tn) \<leftarrow> getFieldNameIdFromStr (al (d_calls st)) (d_tn st) name COMP_MSG_INCR;
            Some (case r of Inl rc \<Rightarrow> rc | Inr _ \<Rightarrow> COMP_MSG_ERR_OK, tick (st\<lparr>d_tn := tn\<rparr>)) })"

subsection \<open>Lines of \<^verbatim>\<open>MsgHeads.txt\<close>\<close>

text \<open>The bytes a pointer into the line buffer gives access to.\<close>

primrec defined_bytes :: "u8 cell list \<Rightarrow> mem" where
  "defined_bytes [] = []"
| "defined_bytes (c # cs) = (case c of Undef \<Rightarrow> [] | Def b \<Rightarrow> b # defined_bytes cs)"

definition is_numeric_type :: "u8 \<Rightarrow> bool" where
  "is_numeric_type t \<longleftrightarrow>
     t = DATA_VIEW_FIELD_UINT8_T \<or> t = DATA_VIEW_FIELD_INT8_T \<or> t = DATA_VIEW_FIELD_UINT16_T
     \<or> t = DATA_VIEW_FIELD_INT16_T \<or> t = DATA_VIEW_FIELD_UINT32_T \<or> t = DATA_VIEW_FIELD_INT32_T"

text \<open>The value of a field that identifies the message; \<open>*\<close> stands for any value.\<close>

definition headsValue ::
  "typesAndNames \<Rightarrow> fieldDescInfo \<Rightarrow> u8 \<Rightarrow> nat \<Rightarrow> dataView \<Rightarrow> lineFields \<Rightarrow> (errcode \<times> dataView \<times> lineFields) ub" where
  "headsValue tn info fldId off dv line =
    do { v \<leftarrow> lineStr line off;
         b \<leftarrow> rd_cell (lineBuf line) off;
         if v = ''*'' then Some (COMP_MSG_ERR_OK, dv, line)
         else if b = of_char CHR 0x22 then
           if is_numeric_type (fieldTypeId info) then Some (COMP_MSG_ERR_EXPECTED_INT_VALUE, dv, line)
           else
             do { (r, line) \<leftarrow> getStringFieldValue line off;
                  case r of
                    Inl rc \<Rightarrow> Some (rc, dv, line)
                  | Inr s \<Rightarrow>
                      do { (rc, dv) \<leftarrow> setIdFieldValue tn dv fldId 0 (Some (defined_bytes (drop s (lineBuf line)))) 0;
                           Some (rc, dv, line) } }
         else
           do { n \<leftarrow> getIntFieldValue line off 0;
                (rc, dv) \<leftarrow> setIdFieldValue tn dv fldId n None 0;
                Some (rc, dv, line) } }"

text \<open>The loop over the special fields; the first component is the code or \<open>headerFieldIdx\<close>.\<close>

primrec headsLoop ::
  "typesAndNames \<Rightarrow> nat \<Rightarrow> nat \<Rightarrow> dataView \<Rightarrow> lineFields \<Rightarrow> nat \<Rightarrow> ((errcode + nat) \<times> dataView \<times> lineFields) ub" where
  "headsLoop tn fieldIdx headerFieldIdx dv line 0 = Some (Inr headerFieldIdx, dv, line)"
| "headsLoop tn fieldIdx headerFieldIdx dv line (Suc k) =
    do { p \<leftarrow> rd_cell (fieldDescInfos tn) fieldIdx;
         case p of
           None \<Rightarrow> headsLoop tn (fieldIdx + 1) headerFieldIdx dv line k
         | Some info \<Rightarrow>
             if fieldFlags info AND COMP_MSG_FIELD_HEADER \<noteq> 0 then
               do { n \<leftarrow> getFieldNameStrFromId tn (word_of_nat fieldIdx);
                    case n of
                      Inl rc \<Rightarrow> Some (Inl rc, dv, line)
                    | Inr _ \<Rightarrow>
                        if headerFieldIdx \<ge> MSG_MAX_LINE_FIELDS then None
                        else
                          do { (rc, dv, line) \<leftarrow>
                                 (if fieldFlags info AND COMP_MSG_FIELD_HEADER_UNIQUE \<noteq> 0 then
                                    do { off \<leftarrow> lineField line headerFieldIdx;
                                         headsValue tn info (word_of_nat fieldIdx) off dv line }
                                  else Some (COMP_MSG_ERR_OK, dv, line));
                               if rc \<noteq> COMP_MSG_ERR_OK then Some (Inl rc, dv, line)
                               else headsLoop tn (fieldIdx + 1) (headerFieldIdx + 1) dv line k } }
             else headsLoop tn (fieldIdx + 1) headerFieldIdx dv line k }"

text \<open>One character in quotes, or the given code.\<close>

definition quotedChar :: "errcode \<Rightarrow> lineFields \<Rightarrow> nat \<Rightarrow> ((errcode + u8) \<times> lineFields) ub" where
  "quotedChar bad line i =
    do { off \<leftarrow> lineField line i;
         b \<leftarrow> rd_cell (lineBuf line) off;
         if b \<noteq> of_char CHR 0x22 then Some (Inl bad, line)
         else
           do { (r, line) \<leftarrow> getStringFieldValue line off;
                case r of
                  Inl rc \<Rightarrow> Some (Inl rc, line)
                | Inr s \<Rightarrow>
                    do { str \<leftarrow> lineStr line s;
                         if length str > 1 then Some (Inl bad, line)
                         else do { c \<leftarrow> rd_cell (lineBuf line) s; Some (Inr c, line) } } } }"

definition headsCmdKey :: "lineFields \<Rightarrow> nat \<Rightarrow> ((errcode + u16) \<times> lineFields) ub" where
  "headsCmdKey line i =
    do { off \<leftarrow> lineField line i;
         b \<leftarrow> rd_cell (lineBuf line) off;
         if b = of_char CHR 0x22 then
           do { (r, line) \<leftarrow> getStringFieldValue line off;
                case r of
                  Inl rc \<Rightarrow> Some (Inl rc, line)
                | Inr s \<Rightarrow>
                    do { str \<leftarrow> lineStr line s;
                         if length str > 2 then Some (Inl COMP_MSG_ERR_BAD_CMD_KEY_VALUE, line)
                         else do { k \<leftarrow> cmdKeyAt line s; Some (Inr k, line) } } }
         else do { v \<leftarrow> getIntFieldValue line off 0; Some (Inr (ucast v), line) } }"

text \<open>The three columns behind the header fields.\<close>

definition headsColumns :: "lineFields \<Rightarrow> nat \<Rightarrow> msgDescription \<Rightarrow> (errcode \<times> msgDescription \<times> lineFields) ub" where
  "headsColumns line i d =
    do { (r, line) \<leftarrow> quotedChar COMP_MSG_ERR_BAD_ENCRYPTED_VALUE line i;
         case r of
           Inl rc \<Rightarrow> Some (rc, d, line)
         | Inr c \<Rightarrow>
             let d = d\<lparr>encrypted := c\<rparr> in
             do { (r, line) \<leftarrow> quotedChar COMP_MSG_ERR_BAD_HANDLE_TYPE_VALUE line (i + 1);
                  case r of
                    Inl rc \<Rightarrow> Some (rc, d, line)
                  | Inr c \<Rightarrow>
                      let d = d\<lparr>handleType := c\<rparr> in
                      do { (r, line) \<leftarrow> headsCmdKey line (i + 2);
                           Some (case r of Inl rc \<Rightarrow> (rc, d, line)
                                         | Inr k \<Rightarrow> (COMP_MSG_ERR_OK, d\<lparr>md_cmdKey := k\<rparr>, line)) } } }"

text \<open>The message whose view is used; a failed allocation of the view is not tested.\<close>

definition headsMsg :: "allocs \<Rightarrow> msgDesc \<Rightarrow> errcode \<times> msgDesc" where
  "headsMsg ok st =
    (case d_msg st of
       Some _ \<Rightarrow> (COMP_MSG_ERR_OK, st)
     | None \<Rightarrow>
         (case newCompMsgData (ok 0) of
            None \<Rightarrow> (DATA_VIEW_ERR_OUT_OF_MEMORY, st)
          | Some m \<Rightarrow>
              (case newCompMsgDataView (\<lambda>i. ok (i + 1)) (fst (d_ids st)) (snd (d_ids st)) [0] 0 of (a, b, view) \<Rightarrow>
                (COMP_MSG_ERR_OK, st\<lparr>d_msg := Some (m\<lparr>cd_view := view\<rparr>), d_ids := (a, b)\<rparr>))))"

text \<open>
  \<open>handleMsgHeadsLine\<close>; the view of the message is set to the block \<open>headerFieldValues\<close> and
  shares its bytes.
\<close>

definition headsLine :: "typesAndNames \<Rightarrow> u16 \<Rightarrow> dataView \<Rightarrow> lineFields \<Rightarrow> msgDescription \<Rightarrow> (errcode \<times> dataView \<times> lineFields \<times> msgDescription) ub" where
  "headsLine tn headerLgth dv line d =
    do { vals \<leftarrow> headerFieldValues d;
         (r, dv, line) \<leftarrow> headsLoop tn 1 0 (snd (setDataViewData dv vals (ucast headerLgth))) line (unat (numSpecFieldIds tn) - 1);
         let d = d\<lparr>headerFieldValues := Some (data dv)\<rparr>;
         case r of
           Inl rc \<Rightarrow> Some (rc, dv, line, d)
         | Inr i \<Rightarrow>
             do { (rc, d, line) \<leftarrow> headsColumns line i d;
                  Some (rc, dv, line, d) } }"

definition handleMsgHeadsLine :: "(nat \<Rightarrow> allocs) \<Rightarrow> lineHandler" where
  "handleMsgHeadsLine al st =
    (let ok = al (d_calls st); (rc, st) = headsMsg ok (tick st); hdr = msgHeaderInfo st in
     if rc \<noteq> COMP_MSG_ERR_OK then Some (rc, st)
     else
       do { (rc, ds) \<leftarrow> addFieldDescription (\<lambda>i. ok (i + 4)) (msgDescriptionInfos st);
            let st = st\<lparr>msgDescriptionInfos := ds\<rparr>;
            if rc \<noteq> COMP_MSG_ERR_OK then Some (rc, st)
            else if \<not> ok 6 then Some (DATA_VIEW_ERR_OUT_OF_MEMORY, st)
            else
              let i = unat (numMsgDescriptions ds) - 1 in
              do { _ \<leftarrow> (if numMsgDescriptions ds = 0 then None else Some ());
                   d \<leftarrow> rd_cell (msgDescriptions ds) i;
                   let d = d\<lparr>headerFieldValues := Some (replicate (unat (partLgth hdr)) 0)\<rparr>;
                   (rc, msg, line, d) \<leftarrow>
                     (if numPartFields hdr = 0 then Some (COMP_MSG_ERR_HEADER_FIELD_GROUP_NOT_FOUND, d_msg st, d_line st, d)
                      else if numLineFields (d_line st) < 3 then
                        Some (COMP_MSG_ERR_FIELD_DESC_TOO_FEW_FIELDS, d_msg st, d_line st, d)
                      else
                        do { m \<leftarrow> d_msg st;
                             view \<leftarrow> cd_view m;
                             (rc, dv, line, d) \<leftarrow> headsLine (d_tn st) (partLgth hdr) (dataView view) (d_line st) d;
                             Some (rc, Some (m\<lparr>cd_view := Some (view\<lparr>dataView := dv\<rparr>)\<rparr>), line, d) });
                   es \<leftarrow> wr_cell (msgDescriptions ds) i d;
                   Some (rc, st\<lparr>msgDescriptionInfos := ds\<lparr>msgDescriptions := es\<rparr>, d_msg := msg, d_line := line\<rparr>) } })"

end
