(* ===== verification/CompMsgDescFiles.thy ===== *)
theory CompMsgDescFiles
  imports CompMsgMsgDesc
begin

text \<open>
  What the description files of \<open>CompMsgMsgDesc\<close> mean: the interface between the loop over the lines of a file
  and the handler of a line, as the locale \<open>line_handler\<close>, with the theorem that a file is handled
  line by line; its interpretation for the file of the header; and the sequence of fields that a message
  file builds.
\<close>

subsection \<open>Lines\<close>

text \<open>A line of a description file: ends with a newline, fits the buffer, has no zero bytes and at most 15 fields.\<close>

definition text_line :: "mem \<Rightarrow> bool" where
  "text_line l \<longleftrightarrow> l \<noteq> [] \<and> last l = 10 \<and> 10 \<notin> set (butlast l) \<and> 0 \<notin> set l \<and> length l < 100
     \<and> length (split_commas l) \<le> 15"

definition fields_of :: "mem \<Rightarrow> string list" where
  "fields_of l = map field_text (split_commas l)"

definition is_blank :: "u8 \<Rightarrow> bool" where
  "is_blank b \<longleftrightarrow> b = 32 \<or> b = 13 \<or> b = 10"

text \<open>Lines that are skipped: blank, empty, or a comment.\<close>

definition skipped :: "mem \<Rightarrow> bool" where
  "skipped l \<longleftrightarrow> list_all is_blank l \<or> fields_of l = [''''] \<or> take 2 l = map of_char ''# ''"

definition data_lines :: "mem list \<Rightarrow> string list list" where
  "data_lines ls = map fields_of (filter (\<lambda>l. \<not> skipped l) ls)"

lemma first_line_text:
  assumes "text_line l"
  shows "first_line (l @ rest) = l"
proof -
  have "first_line (b @ 10 # rest) = b @ [10]" if "10 \<notin> set b" for b
    using that by (induction b) auto
  from this [of "butlast l"] assms show ?thesis
    by (metis text_line_def append_butlast_last_id append.assoc append_Cons append_Nil)
qed

lemma skipBlanks_line:
  "0 \<notin> set l \<Longrightarrow> skipBlanks (map Def l @ Def 0 # rest) = Some (length (takeWhile is_blank l))"
  by (induction l) (auto simp: is_blank_def)

lemma length_takeWhile_all: "length (takeWhile P xs) = length xs \<longleftrightarrow> list_all P xs"
  by (induction xs) auto

lemma fields_hd: "line_shows ls (fields_of l) \<Longrightarrow> fieldStr ls 0 = Some (hd (fields_of l))"
  by (cases "split_commas l") (auto simp: line_shows_def fields_of_def)

subsection \<open>Lines written as strings\<close>

lemma of_char_u8_eq: "(of_char c :: u8) = of_char d \<longleftrightarrow> c = d"
  by (rule inj_eq [OF inj_of_char_u8])

text \<open>A line as a string without its newline, and its fields.\<close>

definition line :: "string \<Rightarrow> mem" where
  "line s = map of_char s @ [of_char CHR 0x0A]"

fun split_str :: "string \<Rightarrow> string list" where
  "split_str [] = [[]]"
| "split_str (c # cs) =
    (if c = CHR '','' then [] # split_str cs
     else case split_str cs of f # fs \<Rightarrow> (c # f) # fs | [] \<Rightarrow> [])"

definition plain :: "string \<Rightarrow> bool" where
  "plain s \<longleftrightarrow> list_all (\<lambda>c. c \<noteq> CHR 0x00 \<and> c \<noteq> CHR 0x0A \<and> c \<noteq> CHR 0x0D) s \<and> length s < 99 \<and> length (split_str s) \<le> 15"

lemma ctrl_bytes: "of_char CHR 0x0A = (10 :: u8)" "of_char CHR 0x0D = (13 :: u8)" "of_char CHR 0x00 = (0 :: u8)"
  by simp_all

lemma byte_char:
  "(of_char c :: u8) = 10 \<longleftrightarrow> c = CHR 0x0A" "(of_char c :: u8) = 13 \<longleftrightarrow> c = CHR 0x0D"
  "(of_char c :: u8) = 0 \<longleftrightarrow> c = CHR 0x00" "(of_char c :: u8) = 32 \<longleftrightarrow> c = CHR '' ''"
  using of_char_u8_eq [of c "CHR 0x0A"] of_char_u8_eq [of c "CHR 0x0D"] of_char_u8_eq [of c "CHR 0x00"] of_char_u8_eq [of c "CHR '' ''"]
  by simp_all

lemma split_str_not_Nil [simp]: "split_str s \<noteq> []"
  by (induction s) (auto split: list.splits)

lemma split_line: "split_commas (line s) = map (map of_char) (butlast (split_str s)) @ [line (last (split_str s))]"
proof (induction s)
  case Nil
  then show ?case by (simp add: line_def)
next
  case (Cons c s)
  have "split_commas (line (c # s)) = (if c = CHR '','' then [] # split_commas (line s)
      else (of_char c # hd (split_commas (line s))) # tl (split_commas (line s)))"
    using of_char_u8_eq [of c "CHR '',''"] by (simp add: line_def)
  with Cons show ?case by (cases "split_str s"; cases "tl (split_str s)") (auto simp: line_def)
qed

lemma field_text_str: "list_all (\<lambda>c. c \<noteq> CHR 0x0A \<and> c \<noteq> CHR 0x0D) s \<Longrightarrow> field_text (map of_char s) = s \<and> field_text (line s) = s"
  by (auto simp: field_text_def line_def byte_char list_all_iff takeWhile_append takeWhile_map comp_def)

lemma set_split_str: "f \<in> set (split_str s) \<Longrightarrow> set f \<subseteq> set s"
proof (induction s arbitrary: f)
  case (Cons c s)
  have hd: "set (hd (split_str s)) \<subseteq> set s" by (intro Cons.IH) simp
  from Cons.prems consider "f = []" | "f = c # hd (split_str s)" | "f \<in> set (split_str s)"
    by (cases "split_str s") (auto split: if_splits)
  then show ?case
  proof cases
    case 2
    with hd show ?thesis by auto
  next
    case 3
    with Cons.IH show ?thesis by fastforce
  qed simp
qed simp

lemma fields_of_line: "plain s \<Longrightarrow> fields_of (line s) = split_str s"
proof -
  assume "plain s"
  then have "field_text (map of_char f) = f" "field_text (line f) = f" if "f \<in> set (split_str s)" for f
    using field_text_str [of f] set_split_str [OF that] by (auto simp: plain_def list_all_iff)
  then have "map (field_text \<circ> map of_char) (butlast (split_str s)) = butlast (split_str s)"
    "field_text (line (last (split_str s))) = last (split_str s)"
    by (auto intro!: map_idI dest: in_set_butlastD)
  then show ?thesis by (simp add: fields_of_def split_line)
qed

lemma text_line_line: "plain s \<Longrightarrow> text_line (line s)"
proof -
  assume p: "plain s"
  then have "(of_char c :: u8) \<noteq> 10" "(of_char c :: u8) \<noteq> 0" if "c \<in> set s" for c
    using that by (simp_all add: plain_def list_all_iff byte_char)
  then have "10 \<notin> set (map of_char s :: mem)" "0 \<notin> set (map of_char s :: mem)"
    by (metis imageE list.set_map)+
  moreover have "length (split_commas (line s)) = length (split_str s)" by (simp add: split_line)
  ultimately show ?thesis using p by (simp add: text_line_def plain_def line_def)
qed

lemma skipped_line:
  assumes "plain s"
  shows "skipped (line s) \<longleftrightarrow> list_all (\<lambda>c. c = CHR '' '') s \<or> split_str s = [''''] \<or> take 2 s = ''# ''"
proof -
  have "list_all is_blank (line s) \<longleftrightarrow> list_all (\<lambda>c. c = CHR '' '') s"
    using assms by (auto simp: line_def is_blank_def byte_char list_all_iff plain_def)
  moreover have "take 2 (line s) = map of_char ''# '' \<longleftrightarrow> take 2 s = ''# ''"
  proof -
    have "take 2 (line s) = map of_char (take 2 (s @ [CHR 0x0A]))" by (simp add: line_def flip: take_map)
    then have "take 2 (line s) = map of_char ''# '' \<longleftrightarrow> take 2 (s @ [CHR 0x0A]) = ''# ''"
      by (simp only: inj_map_eq_map [OF inj_of_char_u8])
    also have "\<dots> \<longleftrightarrow> take 2 s = ''# ''" by (cases s; cases "tl s") (auto simp: numeral_2_eq_2)
    finally show ?thesis .
  qed
  ultimately show ?thesis using fields_of_line [OF assms] by (simp add: skipped_def)
qed

lemma data_lines_line:
  "list_all plain ss \<Longrightarrow> data_lines (map line ss)
    = map split_str (filter (\<lambda>s. \<not> (list_all (\<lambda>c. c = CHR '' '') s \<or> split_str s = [''''] \<or> take 2 s = ''# '')) ss)"
  by (induction ss) (simp_all add: data_lines_def skipped_line fields_of_line)

subsection \<open>The loop over the lines\<close>

text \<open>What one round of the loop does with a line.\<close>

definition afterLine :: "nat \<Rightarrow> 'f fsOps \<Rightarrow> lineHandler \<Rightarrow> int \<Rightarrow> bool \<Rightarrow> mem \<Rightarrow> 'f openedFile \<Rightarrow> msgDesc
    \<Rightarrow> (errcode \<times> 'f openedFile \<times> msgDesc) option" where
  "afterLine bufsiz ops h numLines had l f st =
    (if skipped l then fileLoop bufsiz ops h numLines had f st
     else if numLines = 0 \<and> \<not> had then
       if hd (fields_of l) = ''#'' then do {
         v \<leftarrow> intField st 1;
         fileLoop bufsiz ops h numLines True f (st\<lparr>currLineNo := 0, expectedLines := sint v\<rparr>)
       }
       else Some (COMP_MSG_ERR_WRONG_DESC_FILE_LINE, f, st\<lparr>currLineNo := 0\<rparr>)
     else if numLines + 1 > expectedLines st then closing ops COMP_MSG_ERR_BAD_NUM_DESC_FILE_LINES f st
     else do {
       (rc, st) \<leftarrow> h (st\<lparr>currLineNo := currLineNo st + 1\<rparr>);
       if rc \<noteq> COMP_MSG_ERR_OK then closing ops rc f st
       else fileLoop bufsiz ops h (numLines + 1) had f st
     })"

definition line_state :: "lineFields \<Rightarrow> bool" where
  "line_state ls \<longleftrightarrow> length (lineFields ls) = 15 \<and> length (lineBuf ls) = 100"

lemma comment_bytes:
  assumes "text_line l" "buf = map Def (map zap l) @ Def 0 # rest"
  shows "\<exists>b0 b1. rd_cell buf 0 = Some b0 \<and> rd_cell buf 1 = Some b1
    \<and> (b0 = of_char CHR ''#'' \<and> b1 = of_char CHR '' '' \<longleftrightarrow> take 2 l = map of_char ''# '')"
proof -
  from assms(1) obtain a as where l: "l = a # as" by (cases l) (auto simp: text_line_def)
  have z: "zap b = of_char c \<longleftrightarrow> b = of_char c" if "c = CHR ''#'' \<or> c = CHR '' ''" for b c
    using that by (auto simp: zap_def)
  show ?thesis
  proof (cases as)
    case Nil
    with l assms show ?thesis by (simp add: rd_cell_def)
  next
    case (Cons b bs)
    with l assms(2) have "rd_cell buf 0 = Some (zap a)" "rd_cell buf 1 = Some (zap b)" by (simp_all add: rd_cell_def)
    moreover have "take 2 l = map of_char ''# '' \<longleftrightarrow> a = of_char CHR ''#'' \<and> b = of_char CHR '' ''"
      by (simp add: l Cons numeral_2_eq_2)
    ultimately show ?thesis using z by blast
  qed
qed

lemma fileLoop_line:
  assumes fs: "reads_file ops (fileFd f) at" "at (fileSystem f) c p" "fileFd f \<noteq> 0" "256 \<le> bufsiz" "bufsiz < 2 ^ 31"
    and c: "p \<le> length c" "drop p c = l @ rest" and l: "text_line l" and st: "line_state (d_line st)"
  shows "\<exists>f' line'. at (fileSystem f') c (p + length l) \<and> fileFd f' = fileFd f \<and> line_state line'
    \<and> (\<not> skipped l \<longrightarrow> line_shows line' (fields_of l))
    \<and> fileLoop bufsiz ops h n had f st = afterLine bufsiz ops h n had l f' (st\<lparr>d_line := line'\<rparr>)"
proof -
  let ?rest = "drop (Suc (length l)) (lineBuf (d_line st))"
  let ?buf = "map Def l @ Def 0 # ?rest"
  have len: "length l < 100" "l \<noteq> []" "0 \<notin> set l" "length (split_commas l) \<le> 15" using l by (auto simp: text_line_def)
  have "first_line (take bufsiz (drop p c)) = l"
    using first_line_text [OF l, of rest] fs(4) len(1) by (simp add: c(2) first_line_take del: take_append)
  then obtain f' where r: "readLine bufsiz ops f (lineBuf (d_line st)) = Some (Inr (word_of_nat (length l)), f', ?buf)"
    and f': "at (fileSystem f') c (p + length l)" "fileFd f' = fileFd f"
    using readLine_copies [OF fs(1,2) c(1) fs(3,5), of l "lineBuf (d_line st)"] len(1) st
    by (auto simp: line_state_def)
  let ?st = "st\<lparr>d_line := (d_line st)\<lparr>lineBuf := ?buf\<rparr>\<rparr>"
  have w: "(word_of_nat (length l) :: u8) \<noteq> 0" "unat (word_of_nat (length l) :: u8) = length l"
    using len(1,2) by (auto simp: unat_of_nat_u8 word_unat_eq_iff)
  have buf: "length ?buf = 100" "wr_cell ?buf (length l) 0 = Some ?buf"
    using len(1) st by (auto simp: line_state_def list_update_append)
  show ?thesis
  proof (cases "list_all is_blank l")
    case True
    then have "fileLoop bufsiz ops h n had f st = fileLoop bufsiz ops h n had f' ?st"
      by (subst fileLoop.simps) (simp add: r w skipBlanks_line len(3) length_takeWhile_all)
    with True f' buf(1) st show ?thesis
      by (intro exI [of _ f'] exI [of _ "(d_line st)\<lparr>lineBuf := ?buf\<rparr>"])
        (simp add: afterLine_def skipped_def line_state_def)
  next
    case False
    obtain line' where g: "getLineFields ((d_line st)\<lparr>lineBuf := ?buf\<rparr>) (word_of_nat (length l)) = Some (COMP_MSG_ERR_OK, line')"
      and shows': "line_shows line' (fields_of l)" and line': "length (lineFields line') = 15"
      and buf': "lineBuf line' = map Def (map zap l) @ Def 0 # ?rest"
      using getLineFields_ok [of "(d_line st)\<lparr>lineBuf := ?buf\<rparr>" l ?rest] len st
      by (auto simp: line_state_def fields_of_def)
    obtain b0 b1 where b: "rd_cell (lineBuf line') 0 = Some b0" "rd_cell (lineBuf line') 1 = Some b1"
      and comment: "b0 = of_char CHR ''#'' \<and> b1 = of_char CHR '' '' \<longleftrightarrow> take 2 l = map of_char ''# ''"
      using comment_bytes [OF l buf'] by blast
    have num: "numLineFields line' < 2 \<and> hd (fields_of l) = [] \<longleftrightarrow> fields_of l = ['''']"
      using shows' by (cases "split_commas l") (auto simp: line_shows_def fields_of_def neq_Nil_conv)
    have "length (takeWhile is_blank l) \<noteq> length l" using False by (simp add: length_takeWhile_all)
    then have "fileLoop bufsiz ops h n had f st = afterLine bufsiz ops h n had l f' (?st\<lparr>d_line := line'\<rparr>)"
      unfolding afterLine_def skipped_def num [symmetric] comment [symmetric] using False
      by (subst fileLoop.simps)
        (simp add: r w skipBlanks_line len(3) list_update_append Let_def g b [unfolded One_nat_def] fields_hd [OF shows'] intField_def)
    with f' shows' line' buf' buf(1) show ?thesis
      by (intro exI [of _ f'] exI [of _ line']) (simp add: line_state_def)
  qed
qed

lemma fileLoop_end:
  assumes "reads_file ops (fileFd f) at" "at (fileSystem f) c (length c)" "fileFd f \<noteq> 0" "bufsiz < 2 ^ 31"
    and "line_state (d_line st)" "n \<le> expectedLines st"
  shows "\<exists>f' line'. fileLoop bufsiz ops h n had f st = Some (COMP_MSG_ERR_OK, f', st\<lparr>d_line := line'\<rparr>) \<and> fileFd f' = 0"
proof -
  from assms(5) have "lineBuf (d_line st) \<noteq> []" by (auto simp: line_state_def)
  then obtain f' where r: "readLine bufsiz ops f (lineBuf (d_line st))
      = Some (Inr 0, f', map Def [0] @ drop 1 (lineBuf (d_line st)))" and "fileFd f' = fileFd f"
    using readLine_copies [OF assms(1,2) _ assms(3,4), of "[]" "lineBuf (d_line st)"] by auto
  then show ?thesis using assms(3,6)
    by (subst fileLoop.simps) (auto simp: r closing_def closeFile_def)
qed


subsection \<open>The interface between a file and the handler of its lines\<close>

text \<open>
  A handler of lines implements the function \<open>step\<close> on an abstract state: \<open>R\<close> relates the state of the
  program to it and does not depend on the line; on the fields of line \<open>k\<close>, when they are \<open>legal\<close>, the
  handler returns OK and makes the abstract step.
\<close>

definition keeps_line :: "msgDesc \<Rightarrow> msgDesc \<Rightarrow> bool" where
  "keeps_line d d' \<longleftrightarrow> line_state (d_line d') \<and> expectedLines d' = expectedLines d \<and> currLineNo d' = currLineNo d"

text \<open>The abstract meaning of the lines from number \<open>k\<close> on, and that all of them are legal.\<close>

primrec meaning :: "(int \<Rightarrow> nat \<Rightarrow> string list \<Rightarrow> 'a \<Rightarrow> 'a) \<Rightarrow> int \<Rightarrow> nat \<Rightarrow> string list list \<Rightarrow> 'a \<Rightarrow> 'a" where
  "meaning step e k [] a = a"
| "meaning step e k (fs # fss) a = meaning step e (Suc k) fss (step e k fs a)"

primrec all_legal ::
  "(int \<Rightarrow> nat \<Rightarrow> string list \<Rightarrow> 'a \<Rightarrow> bool) \<Rightarrow> (int \<Rightarrow> nat \<Rightarrow> string list \<Rightarrow> 'a \<Rightarrow> 'a)
    \<Rightarrow> int \<Rightarrow> nat \<Rightarrow> string list list \<Rightarrow> 'a \<Rightarrow> bool" where
  "all_legal legal step e k [] a \<longleftrightarrow> True"
| "all_legal legal step e k (fs # fss) a \<longleftrightarrow> legal e k fs a \<and> all_legal legal step e (Suc k) fss (step e k fs a)"

lemma drop_line:
  assumes "p \<le> length c" "drop p c = l @ rest"
  shows "p + length l \<le> length c" "drop (p + length l) c = rest"
proof -
  have "length (drop p c) = length (l @ rest)" using assms(2) by simp
  with assms(1) show "p + length l \<le> length c" by simp
  have "drop (length l) (drop p c) = rest" using assms(2) by simp
  then show "drop (p + length l) c = rest" by (simp add: add.commute)
qed

lemma intField_shows:
  "line_shows (d_line st) fs \<Longrightarrow> i < length fs \<Longrightarrow> intField st i = Some (strtoul (fs ! i) 0)"
  by (auto simp: line_shows_def intField_def fieldStr_def getIntFieldValue_def bind_eq_Some_conv)

text \<open>The lines up to the one with the number of lines.\<close>

lemma number_line:
  assumes "reads_file ops (fileFd f) at" "fileFd f \<noteq> 0" "256 \<le> bufsiz" "bufsiz < 2 ^ 31"
    and "at (fileSystem f) c p" "p \<le> length c" "drop p c = concat ls" "\<forall>l \<in> set ls. text_line l"
    and "line_state (d_line st)" "data_lines ls = (''#'' # num # extra) # body"
  shows "\<exists>f' p' ls' line'. at (fileSystem f') c p' \<and> fileFd f' = fileFd f \<and> line_state line'
    \<and> p' \<le> length c \<and> drop p' c = concat ls' \<and> set ls' \<subseteq> set ls \<and> data_lines ls' = body
    \<and> fileLoop bufsiz ops h 0 False f st = fileLoop bufsiz ops h 0 True f'
        (st\<lparr>d_line := line', currLineNo := 0, expectedLines := sint (strtoul num 0)\<rparr>)"
  using assms
proof (induction ls arbitrary: f p st)
  case (Cons l ls)
  obtain f' line' where f': "at (fileSystem f') c (p + length l)" "fileFd f' = fileFd f"
    and line': "line_state line'" "\<not> skipped l \<Longrightarrow> line_shows line' (fields_of l)"
    and loop: "fileLoop bufsiz ops h 0 False f st = afterLine bufsiz ops h 0 False l f' (st\<lparr>d_line := line'\<rparr>)"
    using fileLoop_line [of ops f at c p bufsiz l "concat ls" st h 0 False] Cons.prems by auto
  have p: "p + length l \<le> length c" "drop (p + length l) c = concat ls"
    using drop_line [of p c l "concat ls"] Cons.prems(6,7) by simp_all
  show ?case
  proof (cases "skipped l")
    case True
    then have "data_lines (l # ls) = data_lines ls" by (simp add: data_lines_def)
    with Cons.IH [of f' "p + length l" "st\<lparr>d_line := line'\<rparr>"] Cons.prems(1-4,8,10) f' line'(1) p
    obtain f'' p' ls' line'' where "at (fileSystem f'') c p'" "fileFd f'' = fileFd f" "line_state line''"
      "p' \<le> length c" "drop p' c = concat ls'" "set ls' \<subseteq> set ls" "data_lines ls' = body"
      "fileLoop bufsiz ops h 0 False f' (st\<lparr>d_line := line'\<rparr>) = fileLoop bufsiz ops h 0 True f''
        (st\<lparr>d_line := line'', currLineNo := 0, expectedLines := sint (strtoul num 0)\<rparr>)"
      by force
    moreover from loop True have "fileLoop bufsiz ops h 0 False f st = fileLoop bufsiz ops h 0 False f' (st\<lparr>d_line := line'\<rparr>)"
      by (simp add: afterLine_def)
    ultimately show ?thesis by (metis (no_types, lifting) order_trans set_subset_Cons)
  next
    case False
    with Cons.prems(10) have l: "fields_of l = ''#'' # num # extra" "data_lines ls = body"
      by (auto simp: data_lines_def)
    with intField_shows [of "st\<lparr>d_line := line'\<rparr>" "fields_of l" 1] line'(2) False loop
    have "fileLoop bufsiz ops h 0 False f st = fileLoop bufsiz ops h 0 True f'
        (st\<lparr>d_line := line', currLineNo := 0, expectedLines := sint (strtoul num 0)\<rparr>)"
      by (simp add: afterLine_def)
    with f' line'(1) p l(2) show ?thesis
      by (intro exI [of _ f'] exI [of _ "p + length l"] exI [of _ ls] exI [of _ line']) auto
  qed
qed (simp add: data_lines_def)

locale line_handler =
  fixes handle :: lineHandler
    and R :: "msgDesc \<Rightarrow> 'a \<Rightarrow> bool"
    and legal :: "int \<Rightarrow> nat \<Rightarrow> string list \<Rightarrow> 'a \<Rightarrow> bool"
    and step :: "int \<Rightarrow> nat \<Rightarrow> string list \<Rightarrow> 'a \<Rightarrow> 'a"
  assumes R_line: "R d a \<Longrightarrow> R (d\<lparr>d_line := l, expectedLines := e, currLineNo := j\<rparr>) a"
    and handles: "R d a \<Longrightarrow> line_shows (d_line d) fs \<Longrightarrow> line_state (d_line d) \<Longrightarrow> currLineNo d = int k
      \<Longrightarrow> legal (expectedLines d) k fs a
      \<Longrightarrow> \<exists>d'. handle d = Some (COMP_MSG_ERR_OK, d') \<and> R d' (step (expectedLines d) k fs a) \<and> keeps_line d d'"
begin

lemma R_parts:
  assumes "R d a"
  shows "R (d\<lparr>d_line := l\<rparr>) a" "R (d\<lparr>currLineNo := k\<rparr>) a" "R (d\<lparr>currLineNo := k, expectedLines := e\<rparr>) a"
proof -
  have "d\<lparr>d_line := l\<rparr> = d\<lparr>d_line := l, expectedLines := expectedLines d, currLineNo := currLineNo d\<rparr>"
    "d\<lparr>currLineNo := k\<rparr> = d\<lparr>d_line := d_line d, expectedLines := expectedLines d, currLineNo := k\<rparr>"
    "d\<lparr>currLineNo := k, expectedLines := e\<rparr> = d\<lparr>d_line := d_line d, expectedLines := e, currLineNo := k\<rparr>"
    by simp_all
  with R_line [OF assms] show "R (d\<lparr>d_line := l\<rparr>) a" "R (d\<lparr>currLineNo := k\<rparr>) a" "R (d\<lparr>currLineNo := k, expectedLines := e\<rparr>) a"
    by metis+
qed

lemma lines_handled:
  assumes "reads_file ops (fileFd f) at" "fileFd f \<noteq> 0" "256 \<le> bufsiz" "bufsiz < 2 ^ 31"
    and "at (fileSystem f) c p" "p \<le> length c" "drop p c = concat ls" "\<forall>l \<in> set ls. text_line l"
    and "line_state (d_line st)" "R st a" "currLineNo st = int k" "had \<or> 0 < k"
    and "expectedLines st = int k + int n"
    and "all_legal legal step (expectedLines st) (Suc k) (take n (data_lines ls)) a"
  shows "\<exists>f' st'. fileLoop bufsiz ops handle (int k) had f st
      = Some (if length (data_lines ls) \<le> n then COMP_MSG_ERR_OK else COMP_MSG_ERR_BAD_NUM_DESC_FILE_LINES, f', st')
    \<and> fileFd f' = 0 \<and> R st' (meaning step (expectedLines st) (Suc k) (take n (data_lines ls)) a)"
  using assms
proof (induction ls arbitrary: f p st a k n)
  case Nil
  then have "p = length c" by simp
  with Nil fileLoop_end [of ops f at c bufsiz st "int k" handle had] show ?case
    by (auto simp: data_lines_def intro!: R_parts)
next
  case (Cons l ls)
  obtain f' line' where f': "at (fileSystem f') c (p + length l)" "fileFd f' = fileFd f"
    and line': "line_state line'" "\<not> skipped l \<Longrightarrow> line_shows line' (fields_of l)"
    and loop: "fileLoop bufsiz ops handle (int k) had f st
      = afterLine bufsiz ops handle (int k) had l f' (st\<lparr>d_line := line'\<rparr>)"
    using fileLoop_line [of ops f at c p bufsiz l "concat ls" st handle "int k" had] Cons.prems by auto
  have p: "p + length l \<le> length c" "drop (p + length l) c = concat ls"
    using drop_line [of p c l "concat ls"] Cons.prems(6,7) by simp_all
  let ?st = "st\<lparr>d_line := line'\<rparr>"
  show ?case
  proof (cases "skipped l")
    case True
    then have "data_lines (l # ls) = data_lines ls" by (simp add: data_lines_def)
    with Cons.IH [of f' "p + length l" ?st a k n] Cons.prems f' line' p loop True show ?thesis
      by (simp add: afterLine_def R_parts)
  next
    case False
    then have d: "data_lines (l # ls) = fields_of l # data_lines ls" by (simp add: data_lines_def)
    show ?thesis
    proof (cases n)
      case 0
      with loop False Cons.prems(2,10,12,13) d f'(2) show ?thesis
        by (auto simp: afterLine_def closing_def closeFile_def intro!: R_parts)
    next
      case (Suc m)
      let ?d = "?st\<lparr>currLineNo := int (Suc k)\<rparr>"
      obtain st' where st': "handle ?d = Some (COMP_MSG_ERR_OK, st')"
        "R st' (step (expectedLines st) (Suc k) (fields_of l) a)" "keeps_line ?d st'"
        using handles [of ?d a "fields_of l" "Suc k"] Cons.prems line' False d Suc by (auto intro!: R_parts)
      with loop False Cons.prems(11-13) Suc have "fileLoop bufsiz ops handle (int k) had f st
          = fileLoop bufsiz ops handle (int (Suc k)) had f' st'"
        by (auto simp: afterLine_def add.commute)
      with Cons.IH [of f' "p + length l" st' "step (expectedLines st) (Suc k) (fields_of l) a" "Suc k" m]
        Cons.prems f' p st'(2,3) d Suc show ?thesis
        by (auto simp: keeps_line_def ac_simps)
    qed
  qed
qed

text \<open>A whole file: comments, the line with the number of lines, and the lines with data.\<close>

lemma file_handled:
  assumes fs: "reads_file ops fd at" "256 \<le> bufsiz" "bufsiz < 2 ^ 31"
    and opened: "fs_open ops (fileSystem f) name (fs_mode2flag ''r'') = (fd, fs')" "1 \<le> sint fd" "at fs' (concat ls) 0"
    and ls: "\<forall>l \<in> set ls. text_line l" "data_lines ls = (''#'' # num # extra) # body"
    and n: "sint (strtoul num 0) = int n"
    and st: "R st a" "all_legal legal step (int n) 1 (take n body) a"
  shows "\<exists>f' st'. handleMsgFileInternal bufsiz ops f st name handle
      = Some (if length body \<le> n then COMP_MSG_ERR_OK else COMP_MSG_ERR_BAD_NUM_DESC_FILE_LINES, f', st')
    \<and> fileFd f' = 0 \<and> R st' (meaning step (int n) 1 (take n body) a)"
proof -
  let ?f = "f\<lparr>openFileName := Some name, fileFd := fd, fileSystem := fs'\<rparr>"
  let ?st = "st\<lparr>d_line := (d_line st)\<lparr>lineBuf := replicate 100 Undef, lineFields := replicate 15 None\<rparr>, currLineNo := 0\<rparr>"
  have fd: "fd \<noteq> 0" using opened(2) by auto
  obtain f' p' ls' line' where f': "at (fileSystem f') (concat ls) p'" "fileFd f' = fd" "line_state line'"
    and p': "p' \<le> length (concat ls)" "drop p' (concat ls) = concat ls'" "set ls' \<subseteq> set ls" "data_lines ls' = body"
    and loop: "fileLoop bufsiz ops handle 0 False ?f ?st = fileLoop bufsiz ops handle 0 True f'
      (?st\<lparr>d_line := line', currLineNo := 0, expectedLines := int n\<rparr>)"
    using number_line [of ops ?f at bufsiz "concat ls" 0 ls ?st num extra body handle] fs opened fd ls
    by (auto simp: line_state_def n)
  have "\<forall>l \<in> set ls'. text_line l" using p'(3) ls(1) by blast
  with lines_handled [of ops f' at bufsiz "concat ls" p' ls' "?st\<lparr>d_line := line', currLineNo := 0, expectedLines := int n\<rparr>"
      a 0 True n] fs fd f' p' st(2) R_parts(3) [OF R_parts(1) [OF st(1), where l = line'], where k = 0 and e = "int n"]
  show ?thesis using opened(1,2) loop
    by (auto simp: handleMsgFileInternal_def openFile_def)
qed

end

end
