(* ===== verification/CompMsgHeaderFile.thy ===== *)
theory CompMsgHeaderFile
  imports CompMsgDescFiles
begin

text \<open>
  The file of the header fields, \<^verbatim>\<open>MsgDescHeader.txt\<close>: what its lines mean, and that
  \<open>handleMsgCommonLine\<close> implements that meaning, as an interpretation of \<open>line_handler\<close>.
\<close>

subsection \<open>The meaning of a line\<close>

text \<open>
  A line \<^verbatim>\<open>name,type,length,flag\<close> with the name of a special field describes a header field at the offset
  \<open>off\<close>, the sum of the lengths of the fields before it.
\<close>

type_synonym hdrFields = "(u8 \<times> fieldDescInfo) list"

definition header_lgth :: "hdrFields \<Rightarrow> u16" where
  "header_lgth a = sum_list (map (fieldLgth \<circ> snd) a)"

fun header_field :: "u16 \<Rightarrow> string list \<Rightarrow> (u8 \<times> fieldDescInfo) option" where
  "header_field off (name # type # n # flag # _) =
    do { i \<leftarrow> map_of specialFieldNames name;
         t \<leftarrow> map_of fieldType2Ids type;
         fl \<leftarrow> headerFieldFlags (strtoul flag 0);
         Some (i, \<lparr>fieldFlags = fl OR COMP_MSG_FIELD_HEADER, fieldTypeId = t, fieldLgth = ucast (strtoul n 0),
                   fieldOffset = off, keyValueDesc = None\<rparr>) }"
| "header_field off _ = None"

definition header_legal :: "int \<Rightarrow> nat \<Rightarrow> string list \<Rightarrow> hdrFields \<Rightarrow> bool" where
  "header_legal e k fs a \<longleftrightarrow>
    (case header_field (header_lgth a) fs of None \<Rightarrow> False | Some (i, _) \<Rightarrow> i \<notin> fst ` set a)"

definition header_step :: "int \<Rightarrow> nat \<Rightarrow> string list \<Rightarrow> hdrFields \<Rightarrow> hdrFields" where
  "header_step e k fs a = (case header_field (header_lgth a) fs of None \<Rightarrow> a | Some f \<Rightarrow> a @ [f])"

text \<open>The state after the lines with the meaning \<open>a\<close>.\<close>

definition header_described :: "msgDesc \<Rightarrow> hdrFields \<Rightarrow> bool" where
  "header_described d a \<longleftrightarrow>
     partFieldIds (msgHeaderInfo d) = map (Def \<circ> fst) a
     \<and> numPartFields (msgHeaderInfo d) = word_of_nat (length a)
     \<and> partLgth (msgHeaderInfo d) = header_lgth a
     \<and> (\<forall>i < 55. rd_cell (fieldDescInfos (d_tn d)) i = Some (map_of a (word_of_nat i)))"

definition header_rel :: "msgDesc \<Rightarrow> hdrFields \<Rightarrow> bool" where
  "header_rel d a \<longleftrightarrow> header_described d a
     \<and> distinct (map fst a) \<and> fst ` set a \<subseteq> snd ` set specialFieldNames
     \<and> 55 \<le> numMsgDescFields (d_tn d)
     \<and> map_option fieldGroupId (currGroup d) = Some (ucast COMP_MSG_DESC_HEADER_FIELD_GROUP)"

subsection \<open>The handler implements it\<close>

lemma special_name:
  assumes "map_of specialFieldNames name = Some i"
  shows "is_special name" "take 2 name \<noteq> ''@#''" "unat i < 55" "(name, i) \<in> set specialFieldNames"
proof -
  show m: "(name, i) \<in> set specialFieldNames" using assms by (rule map_of_SomeD)
  have "list_all (\<lambda>(s, i). is_special s \<and> take 2 s \<noteq> ''@#'' \<and> i \<le> 54) specialFieldNames" by code_simp
  with m show "is_special name" "take 2 name \<noteq> ''@#''" "unat i < 55"
    by (auto simp: list_all_iff word_le_nat_alt)
qed

lemma special_count: "A \<subseteq> snd ` set specialFieldNames \<Longrightarrow> card A \<le> 54"
proof -
  have "card (snd ` set specialFieldNames) \<le> length specialFieldNames"
    using card_image_le [of "set specialFieldNames" snd] card_length [of specialFieldNames] by simp
  moreover have "length specialFieldNames = 54" by code_simp
  moreover assume "A \<subseteq> snd ` set specialFieldNames"
  then have "card A \<le> card (snd ` set specialFieldNames)" by (intro card_mono) auto
  ultimately show ?thesis by linarith
qed

lemma addPartInfo_ok:
  assumes "partFieldIds info = map Def ids" "numPartFields info = word_of_nat (length ids)" "length ids < 255"
  shows "addPartInfo True info n i
    = (COMP_MSG_ERR_OK, info\<lparr>partFieldIds := map Def (ids @ [i]), partLgth := partLgth info + n,
                             numPartFields := word_of_nat (Suc (length ids))\<rparr>)"
proof -
  have "(realloc_cells (length ids + 1) (map Def ids))[length ids := Def i] = map Def (ids @ [i])"
    by (simp add: realloc_cells_def list_update_append)
  moreover have "unat (word_of_nat (length ids) :: u8) = length ids" using assms(3) by (simp add: unat_of_nat_u8)
  moreover have "(zalloc_cells 1 0)[0 := Def i] = [Def i]" by (simp add: zalloc_cells_def)
  ultimately show ?thesis using assms by (auto simp: addPartInfo_def Let_def add.commute)
qed

lemma setMsgFieldDescInfo_new:
  assumes "rd_cell (fieldDescInfos tn) (unat i) = Some None" "ucast i < numMsgDescFields tn"
    and "(name, i) \<in> set specialFieldNames" "keyValueDesc info = None"
  shows "setMsgFieldDescInfo (\<lambda>_. True) tn i info
    = Some (COMP_MSG_ERR_OK, tn\<lparr>fieldDescInfos := (fieldDescInfos tn)[unat i := Def (Some info)]\<rparr>)"
proof -
  have "unat i < length (fieldDescInfos tn)" using assms(1) by (auto simp: rd_cell_def split: if_splits)
  moreover have "zeroFieldDescInfo\<lparr>fieldFlags := fieldFlags info, fieldTypeId := fieldTypeId info,
      fieldLgth := fieldLgth info, fieldOffset := fieldOffset info\<rparr> = info"
    using assms(4) by (cases info) (simp add: zeroFieldDescInfo_def)
  ultimately show ?thesis using assms
    by (simp add: setMsgFieldDescInfo_def not_le Let_def getFieldNameStrFromId_def special_tab.search_id_iff [THEN iffD2])
qed


lemma intField_calls [simp]: "intField (d\<lparr>d_calls := n\<rparr>) i = intField d i" "currGroup (d\<lparr>d_calls := n\<rparr>) = currGroup d"
  by (simp_all add: intField_def currGroup_def)

lemma header_line:
  assumes rel: "header_rel d a" and line: "line_shows (d_line d) fs" and legal: "header_legal e k fs a"
  shows "\<exists>d'. handleMsgCommonLine (\<lambda>_ _. True) junk d = Some (COMP_MSG_ERR_OK, d')
    \<and> header_rel d' (header_step e k fs a)
    \<and> d_line d' = d_line d \<and> expectedLines d' = expectedLines d \<and> currLineNo d' = currLineNo d"
proof -
  obtain i info where f: "header_field (header_lgth a) fs = Some (i, info)" and new: "i \<notin> fst ` set a"
    using legal by (auto simp: header_legal_def split: option.splits)
  obtain name type n flag rest where fs: "fs = name # type # n # flag # rest"
    using f by (cases "(header_lgth a, fs)" rule: header_field.cases) auto
  obtain t fl where i: "map_of specialFieldNames name = Some i" and t: "map_of fieldType2Ids type = Some t"
    and fl: "headerFieldFlags (strtoul flag 0) = Some fl"
    and info: "info = \<lparr>fieldFlags = fl OR COMP_MSG_FIELD_HEADER, fieldTypeId = t, fieldLgth = ucast (strtoul n 0),
                   fieldOffset = header_lgth a, keyValueDesc = None\<rparr>"
    using f by (auto simp: fs bind_eq_Some_conv)
  note special = special_name [OF i]
  have str: "fieldStr (d_line d) 0 = Some name" "fieldStr (d_line d) 1 = Some type"
    and ints: "intField d 2 = Some (strtoul n 0)" "intField d 3 = Some (strtoul flag 0)"
    and num: "\<not> numLineFields (d_line d) < 3"
    using line intField_shows [OF line] by (auto simp: line_shows_def fs)
  obtain g where g: "currGroup d = Some g" "fieldGroupId g = ucast COMP_MSG_DESC_HEADER_FIELD_GROUP"
    using rel by (auto simp: header_rel_def)
  have len: "length a \<le> 54" using special_count [of "fst ` set a"] rel distinct_card [of "map fst a"]
    by (simp add: header_rel_def)
  have slot: "rd_cell (fieldDescInfos (d_tn d)) (unat i) = Some None"
  proof -
    from rel special(3) have "rd_cell (fieldDescInfos (d_tn d)) (unat i) = Some (map_of a i)"
      by (force simp: header_rel_def header_described_def)
    with new show ?thesis by (simp add: map_of_eq_None_iff)
  qed
  have below: "(ucast i :: u16) < numMsgDescFields (d_tn d)"
    using rel special(3) by (simp add: header_rel_def word_less_nat_alt word_le_nat_alt)
  define d' where "d' = (tick (tick d))\<lparr>
    msgHeaderInfo := (msgHeaderInfo d)\<lparr>partFieldIds := map Def (map fst a @ [i]),
       partLgth := partLgth (msgHeaderInfo d) + fieldLgth info, numPartFields := word_of_nat (Suc (length a))\<rparr>,
    d_tn := (d_tn d)\<lparr>fieldDescInfos := (fieldDescInfos (d_tn d))[unat i := Def (Some info)]\<rparr>\<rparr>"
  have "getFieldNameIdFromStr (\<lambda>_. True) (d_tn d) name COMP_MSG_INCR = Some (Inr i, d_tn d)"
    by (simp add: getFieldNameIdFromStr_def special(1) search_str_map_of i)
  moreover have "getFieldTypeIdFromStr type = Some (Inr t)"
    by (simp add: getFieldTypeIdFromStr_def search_str_map_of t)
  moreover have "describeField (\<lambda>_. True) (tick (tick d)) g i
      \<lparr>fieldFlags = 0, fieldTypeId = t, fieldLgth = ucast (strtoul n 0), fieldOffset = junk (d_calls (tick d)), keyValueDesc = None\<rparr>
    = Some (COMP_MSG_ERR_OK, d')"
    using ints(2) fl g(2) addPartInfo_ok [of "msgHeaderInfo d" "map fst a" "fieldLgth info" i] len rel
      setMsgFieldDescInfo_new [OF slot below special(4), of info]
    by (simp add: describeField_def tick_def addHeaderInfo_def storeInfo_def header_rel_def
        header_described_def d'_def info)
  ultimately have "handleMsgCommonLine (\<lambda>_ _. True) junk d = Some (COMP_MSG_ERR_OK, d')"
    using str ints(1) num g(1) special(2)
    by (simp add: handleMsgCommonLine_def tick_def)
  moreover have "header_rel d' (header_step e k fs a)"
  proof -
    have "header_step e k fs a = a @ [(i, info)]" by (simp add: header_step_def f)
    moreover have "rd_cell ((fieldDescInfos (d_tn d))[unat i := Def (Some info)]) j
        = Some (map_of (a @ [(i, info)]) (word_of_nat j))" if "j < 55" for j
    proof (cases "j = unat i")
      case True
      have "unat i < length (fieldDescInfos (d_tn d))" using slot by (auto simp: rd_cell_def split: if_splits)
      with True new show ?thesis by (simp add: rd_cell_def map_add_def map_of_eq_None_iff [THEN iffD2])
    next
      case False
      with that have "word_of_nat j \<noteq> i" by (auto simp: unat_of_nat_u8)
      moreover have "rd_cell (fieldDescInfos (d_tn d)) j = Some (map_of a (word_of_nat j))"
        using rel that by (simp add: header_rel_def header_described_def)
      ultimately show ?thesis using False by (auto simp: rd_cell_def map_add_def split: if_splits option.splits)
    qed
    moreover have "i \<in> snd ` set specialFieldNames" using special(4) by force
    ultimately show ?thesis using rel new
      by (simp add: header_rel_def header_described_def d'_def tick_def header_lgth_def currGroup_def)
  qed
  ultimately show ?thesis by (auto simp: d'_def tick_def)
qed


interpretation header_lines: line_handler "handleMsgCommonLine (\<lambda>_ _. True) junk" header_rel header_legal header_step
  for junk
proof
  fix d :: msgDesc and a l e j
  assume "header_rel d a"
  then show "header_rel (d\<lparr>d_line := l, expectedLines := e, currLineNo := j\<rparr>) a"
    by (simp add: header_rel_def header_described_def currGroup_def)
next
  fix d :: msgDesc and a fs k
  assume "header_rel d a" "line_shows (d_line d) fs" "line_state (d_line d)" "header_legal (expectedLines d) k fs a"
  with header_line [of d a fs "expectedLines d" k junk]
  show "\<exists>d'. handleMsgCommonLine (\<lambda>_ _. True) junk d = Some (COMP_MSG_ERR_OK, d')
      \<and> header_rel d' (header_step (expectedLines d) k fs a) \<and> keeps_line d d'"
    by (auto simp: keeps_line_def)
qed

subsection \<open>Property\<close>

text \<open>The header fields that the data lines of the file describe.\<close>

definition header_fields :: "string list list \<Rightarrow> hdrFields" where
  "header_fields body = meaning header_step 0 1 body []"

lemma meaning_header: "meaning header_step e k body a = meaning header_step 0 1 body a"
proof (induction body arbitrary: e k a)
  case (Cons fs body)
  have "header_step e k fs a = header_step 0 1 fs a" by (simp add: header_step_def)
  then show ?case using Cons.IH [of e "Suc k" "header_step e k fs a"] Cons.IH [of 0 "Suc 1" "header_step 0 1 fs a"] by simp
qed simp

definition tiled :: "hdrFields \<Rightarrow> bool" where
  "tiled a \<longleftrightarrow> (\<forall>i < length a. fieldOffset (snd (a ! i)) = header_lgth (take i a))"

lemma header_field_offset: "header_field off fs = Some (i, info) \<Longrightarrow> fieldOffset info = off"
  by (cases "(off, fs)" rule: header_field.cases) (auto simp: bind_eq_Some_conv)

lemma header_offsets: "tiled a \<Longrightarrow> tiled (meaning header_step e k body a)"
proof (induction body arbitrary: e k a)
  case (Cons fs body)
  have "tiled (header_step e k fs a)"
    using Cons.prems header_field_offset
    by (auto simp: header_step_def tiled_def nth_append less_Suc_eq split: option.splits)
  then show ?case using Cons.IH by simp
qed simp

text \<open>Every line is the description of a header field, with names that differ.\<close>

definition header_file :: "string list list \<Rightarrow> bool" where
  "header_file body \<longleftrightarrow> all_legal header_legal header_step 0 1 body []"

lemma all_legal_header: "all_legal header_legal header_step e k body a = all_legal header_legal header_step 0 1 body a"
proof (induction body arbitrary: e k a)
  case (Cons fs body)
  have "header_step e k fs a = header_step 0 1 fs a" "header_legal e k fs a = header_legal 0 1 fs a"
    by (simp_all add: header_step_def header_legal_def)
  then show ?case using Cons.IH [of e "Suc k" "header_step e k fs a"] Cons.IH [of 0 "Suc 1" "header_step 0 1 fs a"] by simp
qed simp

text \<open>
  Claim C24.  Reading the file of the header fields: for a file of lines with comments, the number of
  lines and one line per field, all of the files being readable and memory being available,
  \<open>handleMsgFileInternal\<close> returns OK and closes the file; the header consists of the fields in the order of
  the lines, each at the offset that is the sum of the lengths of the fields before it, and its length
  is the sum of all lengths.  Comments and empty lines do not matter.  When the file has more lines
  than it announces, \<open>COMP_MSG_ERR_BAD_NUM_DESC_FILE_LINES\<close> is returned after the announced ones.
\<close>

theorem header_file_read:
  assumes "reads_file ops fd at" "256 \<le> bufsiz" "bufsiz < 2 ^ 31"
    and "fs_open ops (fileSystem f) name (fs_mode2flag ''r'') = (fd, fs')" "1 \<le> sint fd" "at fs' (concat ls) 0"
    and "\<forall>l \<in> set ls. text_line l" "data_lines ls = (''#'' # num # extra) # body"
    and "sint (strtoul num 0) = int n" "header_file (take n body)" "header_rel d []"
  shows "\<exists>f' d'. handleMsgFileInternal bufsiz ops f d name (handleMsgCommonLine (\<lambda>_ _. True) junk)
      = Some (if length body \<le> n then COMP_MSG_ERR_OK else COMP_MSG_ERR_BAD_NUM_DESC_FILE_LINES, f', d')
    \<and> fileFd f' = 0 \<and> header_described d' (header_fields (take n body))
    \<and> (\<forall>i < length (header_fields (take n body)).
         fieldOffset (snd (header_fields (take n body) ! i)) = header_lgth (take i (header_fields (take n body))))"
proof -
  have "all_legal header_legal header_step (int n) 1 (take n body) []"
    using assms(10) all_legal_header [of "int n" 1 "take n body"] by (simp add: header_file_def)
  from header_lines.file_handled [OF assms(1-9,11) this, where junk = junk]
  obtain f' d' where "handleMsgFileInternal bufsiz ops f d name (handleMsgCommonLine (\<lambda>_ _. True) junk)
      = Some (if length body \<le> n then COMP_MSG_ERR_OK else COMP_MSG_ERR_BAD_NUM_DESC_FILE_LINES, f', d')"
    "fileFd f' = 0" "header_rel d' (header_fields (take n body))"
    using meaning_header [of "int n" 1 "take n body"] by (auto simp: header_fields_def)
  then show ?thesis using header_offsets [of "[]" 0 1 "take n body"] by (auto simp: header_rel_def header_fields_def tiled_def)
qed

text \<open>The file \<^verbatim>\<open>src/module_image_files/MsgDescHeader.txt\<close>.\<close>

definition msgDescHeader :: "string list" where
  "msgDescHeader =
    [''# this is an example message header file'',
     ''#,6'',
     ''@src,uint8_t,1,1'',
     ''@grp,uint8_t,1,1'',
     ''@dst,uint8_t,1,1'',
     ''@totalLgth,uint16_t,2,2'',
     ''@ipAddr,uint32_t,4,0'',
     ''@hdrFiller,uint8_t*,7,0'']"

definition desc0 :: msgDesc where
  "desc0 = \<lparr>d_line = \<lparr>numLineFields = 0, lineFields = replicate 15 None, lineBuf = []\<rparr>, expectedLines = 0, currLineNo = 0,
     msgDescriptionInfos = \<lparr>numMsgDescriptions = 0, maxMsgDescriptions = 0, msgDescriptions = []\<rparr>,
     numMsgFieldGroupInfo = 1, maxMsgFieldGroupInfo = 1, currMsgFieldGroupInfo = 0,
     msgFieldGroupInfos = [Def \<lparr>fieldGroupId = 3, fg_cmdKey = 0x5F5F, fg_fileName = Some ''MsgDescHeader.txt''\<rparr>],
     msgFieldGroupFileName = None, msgHeaderInfo = zeroPartInfo, msgMidPartInfo = zeroPartInfo, msgTrailerInfo = zeroPartInfo,
     d_tn = \<lparr>tn_id = 1, numNames = 0, maxNames = 0, names = [], numSpecFieldIds = 55, numMsgDescFields = 56,
       fieldDescInfos = replicate 56 (Def None), numMsgValFields = 56, fieldValInfos = replicate 56 (Def None)\<rparr>,
     d_msg = None, d_ids = (0, 0), d_calls = 0\<rparr>"

lemma rd_replicate: "i < n \<Longrightarrow> rd_cell (replicate n (Def x)) i = Some x"
  by (simp add: rd_cell_def)

lemma header_rel_desc0: "header_rel desc0 []"
proof -
  have "rd_cell (fieldDescInfos (d_tn desc0)) i = Some None" if "i < 55" for i
    using that unfolding desc0_def typesAndNames.simps msgDesc.simps by (intro rd_replicate) simp
  moreover have "currGroup desc0 = Some \<lparr>fieldGroupId = 3, fg_cmdKey = 0x5F5F, fg_fileName = Some ''MsgDescHeader.txt''\<rparr>"
    by (simp add: desc0_def currGroup_def rd_cell_def)
  moreover have "msgHeaderInfo desc0 = zeroPartInfo" "numMsgDescFields (d_tn desc0) = 56" by (simp_all add: desc0_def)
  ultimately show ?thesis
    by (simp add: header_rel_def header_described_def zeroPartInfo_def header_lgth_def)
qed

lemma msgDescHeader_lines:
  "list_all plain msgDescHeader" "\<forall>l \<in> set (map line msgDescHeader). text_line l"
  "data_lines (map line msgDescHeader) = (''#'' # ''6'' # []) # map split_str (drop 2 msgDescHeader)"
proof -
  show p: "list_all plain msgDescHeader" by code_simp
  then show "\<forall>l \<in> set (map line msgDescHeader). text_line l" by (auto simp: list_all_iff intro: text_line_line)
  show "data_lines (map line msgDescHeader) = (''#'' # ''6'' # []) # map split_str (drop 2 msgDescHeader)"
    unfolding data_lines_line [OF p] by code_simp
qed

lemma strtoul_numbers:
  "strtoul ''0'' 0 = 0" "strtoul ''1'' 0 = 1" "strtoul ''2'' 0 = 2" "strtoul ''4'' 0 = 4" "strtoul ''6'' 0 = 6" "strtoul ''7'' 0 = 7"
  by (simp_all add: strtoul_def isspace_c_def digits_value_def digit_val_def)

lemma msgDescHeader_special:
  "map_of specialFieldNames ''@src'' = Some 1" "map_of specialFieldNames ''@grp'' = Some 2"
  "map_of specialFieldNames ''@dst'' = Some 3" "map_of specialFieldNames ''@totalLgth'' = Some 4"
  "map_of specialFieldNames ''@ipAddr'' = Some 5" "map_of specialFieldNames ''@hdrFiller'' = Some 15"
  "map_of fieldType2Ids ''uint8_t'' = Some 1" "map_of fieldType2Ids ''uint16_t'' = Some 3"
  "map_of fieldType2Ids ''uint32_t'' = Some 5" "map_of fieldType2Ids ''uint8_t*'' = Some 7"
  by code_simp+

lemma msgDescHeader_body: "take 6 (map split_str (drop 2 msgDescHeader)) =
  [[''@src'', ''uint8_t'', ''1'', ''1''], [''@grp'', ''uint8_t'', ''1'', ''1''], [''@dst'', ''uint8_t'', ''1'', ''1''],
   [''@totalLgth'', ''uint16_t'', ''2'', ''2''], [''@ipAddr'', ''uint32_t'', ''4'', ''0''], [''@hdrFiller'', ''uint8_t*'', ''7'', ''0'']]"
  by code_simp

lemma msgDescHeader_fields:
  "header_file (take 6 (map split_str (drop 2 msgDescHeader)))"
  "map fst (header_fields (take 6 (map split_str (drop 2 msgDescHeader)))) = [1, 2, 3, 4, 5, 15]"
  "header_lgth (header_fields (take 6 (map split_str (drop 2 msgDescHeader)))) = 16"
  unfolding msgDescHeader_body
  by (simp_all add: header_file_def header_fields_def header_legal_def header_step_def headerFieldFlags_def header_lgth_def
      msgDescHeader_special strtoul_numbers)

theorem header_file_read_witness:
  "\<exists>f' d'. handleMsgFileInternal 1024 ram_fs \<lparr>fileSystem = (concat (map line msgDescHeader), 0), fileFd = 0, openFileName = None\<rparr>
       desc0 ''MsgDescHeader.txt'' (handleMsgCommonLine (\<lambda>_ _. True) (\<lambda>_. 0)) = Some (COMP_MSG_ERR_OK, f', d')
     \<and> fileFd f' = 0 \<and> partLgth (msgHeaderInfo d') = 16 \<and> partFieldIds (msgHeaderInfo d') = map Def [1, 2, 3, 4, 5, 15]"
proof -
  let ?c = "concat (map line msgDescHeader)"
  let ?f = "\<lparr>fileSystem = (?c, 0), fileFd = 0, openFileName = None\<rparr>"
  let ?body = "map split_str (drop 2 msgDescHeader)"
  have n: "sint (strtoul ''6'' 0) = int 6" by (simp add: strtoul_numbers)
  have len: "length ?body \<le> 6" by (simp add: msgDescHeader_def)
  have opened: "fs_open ram_fs (fileSystem ?f) ''MsgDescHeader.txt'' (fs_mode2flag ''r'') = (1, (?c, 0))"
    by (simp add: ram_fs_def)
  obtain f' d' where "handleMsgFileInternal 1024 ram_fs ?f desc0 ''MsgDescHeader.txt'' (handleMsgCommonLine (\<lambda>_ _. True) (\<lambda>_. 0))
      = Some (if length ?body \<le> 6 then COMP_MSG_ERR_OK else COMP_MSG_ERR_BAD_NUM_DESC_FILE_LINES, f', d')"
    and "fileFd f' = 0" and d': "header_described d' (header_fields (take 6 ?body))"
    using header_file_read [OF ram_reads _ _ opened _ _ msgDescHeader_lines(2,3) n msgDescHeader_fields(1) header_rel_desc0,
        of 1024 "\<lambda>_. 0"] by (auto simp: ram_at_def)
  moreover have "partFieldIds (msgHeaderInfo d') = map Def (map fst (header_fields (take 6 ?body)))"
    "partLgth (msgHeaderInfo d') = header_lgth (header_fields (take 6 ?body))"
    using d' by (simp_all add: header_described_def)
  ultimately show ?thesis using len msgDescHeader_fields(2,3) by (simp only: if_True) blast
qed

end
