(* ===== verification/CompMsgSequence.thy ===== *)
theory CompMsgSequence
  imports CompMsgMsgDesc
begin

text \<open>
  The sequence of fields of a message: what the line of a message file makes of the header, the mid part,
  its own field and the trailer.
\<close>

subsection \<open>Sequences of fields\<close>

text \<open>The offsets of consecutive fields of the given lengths.\<close>

definition offsets :: "u16 list \<Rightarrow> u16 list" where
  "offsets lens = map (\<lambda>i. sum_list (take i lens)) [0..<length lens]"

text \<open>
  The arrays of a description have \<open>n\<close> elements; the first ones are the fields \<open>ids\<close>, one behind the
  other, the others are 0.
\<close>

definition entered :: "nat \<Rightarrow> (u8 \<times> u16) list \<Rightarrow> msgDescription \<Rightarrow> bool" where
  "entered n fs d \<longleftrightarrow> length fs \<le> n
     \<and> fieldSequence d = Some (map fst fs @ replicate (n - length fs) 0)
     \<and> fieldOffsets d = Some (offsets (map snd fs) @ replicate (n - length fs) 0)
     \<and> lastFieldOffset d = sum_list (map snd fs)"

lemma offsets_snoc: "offsets (lens @ [l]) = offsets lens @ [sum_list lens]"
  by (simp add: offsets_def)

lemma length_offsets [simp]: "length (offsets lens) = length lens"
  by (simp add: offsets_def)

lemma enter_field:
  assumes "entered n fs d" "length fs < n"
  shows "\<exists>d'. enterField d (length fs) i = Some d' \<and> entered n (fs @ [(i, l)]) (addLgth d' l)
    \<and> md_fieldFlags (addLgth d' l) = md_fieldFlags d"
proof -
  obtain k where k: "n - length fs = Suc k" using assms(2) by (cases "n - length fs") auto
  then have "n - length (fs @ [(i, l)]) = k" by simp
  with k assms show ?thesis
    by (auto simp: enterField_def entered_def addLgth_def offsets_snoc list_update_append)
qed

text \<open>A described field: its length is known, and its name.\<close>

definition described :: "typesAndNames \<Rightarrow> u8 \<times> u16 \<Rightarrow> bool" where
  "described tn f \<longleftrightarrow> (case rd_cell (fieldDescInfos tn) (unat (fst f)) of
     Some (Some info) \<Rightarrow> fieldLgth info = snd f | _ \<Rightarrow> False)"

definition named :: "typesAndNames \<Rightarrow> u8 \<Rightarrow> string \<Rightarrow> bool" where
  "named tn i name \<longleftrightarrow> getFieldNameStrFromId tn i = Some (Inr (Some name))"

lemma describedE:
  assumes "described tn (i, l)"
  obtains info where "rd_cell (fieldDescInfos tn) (unat i) = Some (Some info)" "fieldLgth info = l"
  using assms by (auto simp: described_def split: option.splits)

lemma header_sequence:
  assumes "entered n done d" "length done + length fs \<le> n" "\<forall>f \<in> set fs. described tn f"
  shows "\<exists>d'. headerSeqLoop tn (map Def (map fst done @ map fst fs)) d (length done) (length fs) = Some d'
    \<and> entered n (done @ fs) d' \<and> md_fieldFlags d' = md_fieldFlags d"
  using assms
proof (induction fs arbitrary: "done" d)
  case (Cons f fs)
  obtain i l where f: "f = (i, l)" by fastforce
  have "described tn (i, l)" using Cons.prems(3) by (simp add: f)
  then obtain info where info: "rd_cell (fieldDescInfos tn) (unat i) = Some (Some info)" "fieldLgth info = l"
    by (rule describedE)
  obtain d' where d': "enterField d (length done) i = Some d'" "entered n (done @ [(i, l)]) (addLgth d' l)"
    "md_fieldFlags (addLgth d' l) = md_fieldFlags d"
    using enter_field [OF Cons.prems(1), of i l] Cons.prems(2) by auto
  have "rd_cell (map Def (map fst done @ map fst (f # fs))) (length done) = Some i"
    by (simp add: rd_cell_def nth_append f)
  then have "headerSeqLoop tn (map Def (map fst done @ map fst (f # fs))) d (length done) (length (f # fs))
    = headerSeqLoop tn (map Def (map fst (done @ [f]) @ map fst fs)) (addLgth d' l) (length (done @ [f])) (length fs)"
    using d' info by (simp add: f)
  with Cons.IH [of "done @ [f]" "addLgth d' l"] d' Cons.prems show ?case by (auto simp: f)
qed simp

text \<open>The mid part and the trailer: fields that are left out do not count.\<close>

lemma part_sequence:
  assumes "entered n done d" "length done + length fs \<le> n"
    and "\<forall>(f, name) \<in> set fs. described tn f \<and> named tn (fst f) name"
    and skips: "\<And>d' name. md_fieldFlags d' = md_fieldFlags d \<Longrightarrow> skips d' name \<longleftrightarrow> skip name"
  shows "\<exists>d'. partSeqLoop skips tn (map Def (pre @ map (fst \<circ> fst) fs)) (length done) d (length pre) (length fs)
      = Some (COMP_MSG_ERR_OK, length done + length (filter (\<lambda>(f, name). \<not> skip name) fs), d')
    \<and> entered n (done @ map fst (filter (\<lambda>(f, name). \<not> skip name) fs)) d' \<and> md_fieldFlags d' = md_fieldFlags d"
  using assms(1-3) skips
proof (induction fs arbitrary: "done" d pre)
  case (Cons x fs)
  obtain i l name where x: "x = ((i, l), name)" by (metis surj_pair)
  have "described tn (i, l)" using Cons.prems(3) by (auto simp: x)
  then obtain info where info: "rd_cell (fieldDescInfos tn) (unat i) = Some (Some info)" "fieldLgth info = l"
    by (rule describedE)
  have name: "getFieldNameStrFromId tn i = Some (Inr (Some name))" using Cons.prems(3) by (auto simp: x named_def)
  have id: "rd_cell (map Def (pre @ map (fst \<circ> fst) (x # fs))) (length pre) = Some i"
    by (simp add: rd_cell_def nth_append x)
  show ?case
  proof (cases "skip name")
    case True
    then have eq: "partSeqLoop skips tn (map Def (pre @ map (fst \<circ> fst) (x # fs))) (length done) d (length pre) (length (x # fs))
      = partSeqLoop skips tn (map Def ((pre @ [i]) @ map (fst \<circ> fst) fs)) (length done) d (length (pre @ [i])) (length fs)"
      using id name info Cons.prems(4) by (simp add: x)
    have "filter (\<lambda>(f, name). \<not> skip name) (x # fs) = filter (\<lambda>(f, name). \<not> skip name) fs"
      using True by (simp add: x)
    then show ?thesis unfolding eq using Cons.IH [of "done" d "pre @ [i]"] Cons.prems by (simp add: comp_def)
  next
    case False
    obtain d' where d': "enterField d (length done) i = Some d'" "entered n (done @ [(i, l)]) (addLgth d' l)"
      "md_fieldFlags (addLgth d' l) = md_fieldFlags d"
      using enter_field [OF Cons.prems(1), of i l] Cons.prems(2) by auto
    then have eq: "partSeqLoop skips tn (map Def (pre @ map (fst \<circ> fst) (x # fs))) (length done) d (length pre) (length (x # fs))
      = partSeqLoop skips tn (map Def ((pre @ [i]) @ map (fst \<circ> fst) fs)) (length (done @ [(i, l)])) (addLgth d' l)
          (length (pre @ [i])) (length fs)"
      using id name info Cons.prems(4) False by (simp add: x)
    have "filter (\<lambda>(f, name). \<not> skip name) (x # fs) = x # filter (\<lambda>(f, name). \<not> skip name) fs"
      using False by (simp add: x)
    then show ?thesis unfolding eq
      using Cons.IH [of "done @ [(i, l)]" "addLgth d' l" "pre @ [i]"] d' Cons.prems by (simp add: x comp_def)
  qed
qed simp

subsection \<open>The first line of a message file\<close>

text \<open>A part of the message, with the numbers and lengths of its fields, and their names.\<close>

definition is_part :: "msgPartInfo \<Rightarrow> (u8 \<times> u16) list \<Rightarrow> bool" where
  "is_part info fs \<longleftrightarrow> partFieldIds info = map Def (map fst fs) \<and> unat (numPartFields info) = length fs"

definition part_named :: "typesAndNames \<Rightarrow> ((u8 \<times> u16) \<times> string) list \<Rightarrow> bool" where
  "part_named tn fs \<longleftrightarrow> (\<forall>(f, name) \<in> set fs. described tn f \<and> named tn (fst f) name)"

definition kept :: "(string \<Rightarrow> bool) \<Rightarrow> ((u8 \<times> u16) \<times> string) list \<Rightarrow> (u8 \<times> u16) list" where
  "kept skip fs = map fst (filter (\<lambda>(f, name). \<not> skip name) fs)"

text \<open>Whether a field is left out depends on the flags of the message only.\<close>

definition by_flags :: "(msgDescription \<Rightarrow> string \<Rightarrow> bool) \<Rightarrow> bool" where
  "by_flags skips \<longleftrightarrow> (\<forall>d d'. md_fieldFlags d' = md_fieldFlags d \<longrightarrow> skips d' = skips d)"

lemma skips_by_flags: "by_flags midPartSkips" "by_flags trailerSkips"
  by (simp_all add: by_flags_def midPartSkips_def trailerSkips_def fun_eq_iff)

lemma length_kept: "length (kept skip fs) \<le> length fs"
  by (simp add: kept_def)

lemma part_entered:
  assumes "entered n done d" "length done + length fs \<le> n" "part_named tn fs" "is_part info (map fst fs)"
    and skips: "by_flags skips"
  shows "\<exists>d'. partSeqLoop skips tn (partFieldIds info) (length done) d 0 (unat (numPartFields info))
      = Some (COMP_MSG_ERR_OK, length (done @ kept (skips d) fs), d')
    \<and> entered n (done @ kept (skips d) fs) d' \<and> md_fieldFlags d' = md_fieldFlags d"
proof -
  have "\<And>d' name. md_fieldFlags d' = md_fieldFlags d \<Longrightarrow> skips d' name = skips d name"
    using skips unfolding by_flags_def by metis
  note part_sequence [OF assms(1,2) assms(3) [unfolded part_named_def] this, where pre = "[]"]
  moreover have "partFieldIds info = map Def ([] @ map (fst \<circ> fst) fs)" "unat (numPartFields info) = length fs"
    using assms(4) by (simp_all add: is_part_def comp_def)
  ultimately show ?thesis by (simp only: kept_def length_append length_map list.size(3))
qed

lemma sequence_started:
  assumes "ok 0" "ok 1" "fieldSequence d = None" "lastFieldOffset d = 0"
    and hdr: "is_part (msgHeaderInfo st) hs" "\<forall>f \<in> set hs. described (d_tn st) f"
    and mid: "is_part (msgMidPartInfo st) (map fst ms)" "part_named (d_tn st) ms"
    and n: "n = length hs + length ms + unat (numPartFields (msgTrailerInfo st)) + 10"
  shows "\<exists>d'. startSequence ok st d = Some (COMP_MSG_ERR_OK, Some (length (hs @ kept (midPartSkips d) ms)), d')
    \<and> entered n (hs @ kept (midPartSkips d) ms) d' \<and> md_fieldFlags d' = md_fieldFlags d"
proof -
  let ?d = "d\<lparr>fieldSequence := Some (replicate n 0), fieldOffsets := Some (replicate n 0)\<rparr>"
  have d: "entered n [] ?d" using assms(4) by (simp add: entered_def offsets_def)
  obtain d1 where d1: "headerSeqLoop (d_tn st) (partFieldIds (msgHeaderInfo st)) ?d 0 (length hs) = Some d1"
    "entered n hs d1" "md_fieldFlags d1 = md_fieldFlags d"
    using header_sequence [OF d _ hdr(2)] hdr(1) n by (auto simp: is_part_def)
  have flags: "midPartSkips d1 = midPartSkips d" using d1(3) by (simp add: midPartSkips_def fun_eq_iff)
  obtain d2 where "partSeqLoop midPartSkips (d_tn st) (partFieldIds (msgMidPartInfo st)) (length hs) d1 0 (length ms)
      = Some (COMP_MSG_ERR_OK, length (hs @ kept (midPartSkips d) ms), d2)"
    "entered n (hs @ kept (midPartSkips d) ms) d2" "md_fieldFlags d2 = md_fieldFlags d1"
    using part_entered [OF d1(2) _ mid(2,1) skips_by_flags(1)] n mid(1) flags by (auto simp: is_part_def)
  with assms d1 show ?thesis by (simp add: startSequence_def is_part_def Let_def add.assoc)
qed

lemma own_field_entered:
  assumes "entered n fs d" "length fs < n" "described (d_tn st) (i, l)"
  shows "\<exists>d' info. enterField d (length fs) i = Some d' \<and> rd_cell (fieldDescInfos (d_tn st)) (unat i) = Some (Some info)
    \<and> entered n (fs @ [(i, l)]) (addLgth d' (fieldLgth info)) \<and> md_fieldFlags (addLgth d' (fieldLgth info)) = md_fieldFlags d"
  using enter_field [OF assms(1,2), of i l] describedE [OF assms(3)] by metis

text \<open>
  Claim C25.  The first field line of a message file gives the message the sequence of the header, the mid part without
  \<open>@cmdLgth\<close> unless the flags of the message ask for it, and the field of the line.  Only when it is also the last
  line the file announces, the trailer follows, without the checksums the flags do not ask for; in a file with more
  lines, as all shipped ones are, no trailer is entered.  The fields follow one another without gaps,
  and the end of the last one is kept for the next line.  That line, however, finds the sequence there and uses an index that was never set, so
  that its behaviour, and with it that of every file with more than one line, is undefined.
\<close>

theorem message_sequence:
  assumes "ok 0" "ok 1" "fieldSequence d = None" "lastFieldOffset d = 0"
    and hdr: "is_part (msgHeaderInfo st) hs" "\<forall>f \<in> set hs. described (d_tn st) f"
    and mid: "is_part (msgMidPartInfo st) (map fst ms)" "part_named (d_tn st) ms"
    and trl: "is_part (msgTrailerInfo st) (map fst ts)" "part_named (d_tn st) ts"
    and own: "described (d_tn st) (i, l)"
  shows "\<exists>d'. messageField ok st i d = Some (COMP_MSG_ERR_OK, d')
    \<and> entered (length hs + length ms + length ts + 10)
        (hs @ kept (midPartSkips d) ms @ [(i, l)]
          @ (if expectedLines st = currLineNo st then kept (trailerSkips d) ts else [])) d'
    \<and> (\<forall>ok' st' j. messageField ok' st' j d' = None)"
proof -
  let ?n = "length hs + length ms + length ts + 10" and ?fs = "hs @ kept (midPartSkips d) ms"
  have n: "length ?fs + 1 + length ts \<le> ?n" using length_kept [of "midPartSkips d" ms] by simp
  obtain d1 where d1: "startSequence ok st d = Some (COMP_MSG_ERR_OK, Some (length ?fs), d1)"
    "entered ?n ?fs d1" "md_fieldFlags d1 = md_fieldFlags d"
    using sequence_started [OF assms(1-4) hdr mid, of ?n] trl(1) by (auto simp: is_part_def)
  obtain d2 info where d2: "enterField d1 (length ?fs) i = Some d2"
    "rd_cell (fieldDescInfos (d_tn st)) (unat i) = Some (Some info)"
    "entered ?n (?fs @ [(i, l)]) (addLgth d2 (fieldLgth info))" "md_fieldFlags (addLgth d2 (fieldLgth info)) = md_fieldFlags d"
    using own_field_entered [OF d1(2) _ own] n d1(3) by auto
  have flags: "trailerSkips (addLgth d2 (fieldLgth info)) = trailerSkips d"
    using d2(4) by (simp add: trailerSkips_def fun_eq_iff)
  obtain d3 where d3: "partSeqLoop trailerSkips (d_tn st) (partFieldIds (msgTrailerInfo st)) (length ?fs + 1)
      (addLgth d2 (fieldLgth info)) 0 (unat (numPartFields (msgTrailerInfo st)))
      = Some (COMP_MSG_ERR_OK, length (?fs @ [(i, l)] @ kept (trailerSkips d) ts), d3)"
    "entered ?n (?fs @ [(i, l)] @ kept (trailerSkips d) ts) d3"
    using part_entered [OF d2(3) _ trl(2,1) skips_by_flags(2)] n flags by auto
  have later: "messageField ok' st' j d' = None" if "entered ?n fs d'" for ok' st' j fs d'
    using that by (simp add: entered_def messageField_def startSequence_def split: option.splits)
  show ?thesis
  proof (cases "expectedLines st = currLineNo st")
    case True
    then have "messageField ok st i d = Some (COMP_MSG_ERR_OK, d3)" using d1(1) d2(1,2) d3(1) by (simp add: messageField_def)
    then show ?thesis using True d3(2) later [OF d3(2)] by simp
  next
    case False
    then have "messageField ok st i d = Some (COMP_MSG_ERR_OK, addLgth d2 (fieldLgth info))"
      using d1(1) d2(1,2) by (simp add: messageField_def)
    then show ?thesis using False d2(3) later [OF d2(3)] by simp
  qed
qed

text \<open>A header of one field, a mid part and a trailer of two, and a message with one field.\<close>

definition sequenceInfos :: "fieldDescInfo option cell list" where
  "sequenceInfos = map (\<lambda>i. Def (map_option (\<lambda>l. \<lparr>fieldFlags = 0, fieldTypeId = 1, fieldLgth = l, fieldOffset = 0, keyValueDesc = None\<rparr>)
     (map_of [(1, 1), (6, 2), (7, 2), (10, 5), (11, 1), (16, 4)] i))) [0..<17]"

definition sequenceDesc :: msgDesc where
  "sequenceDesc = \<lparr>d_line = \<lparr>numLineFields = 0, lineFields = [], lineBuf = []\<rparr>, expectedLines = 1, currLineNo = 1,
     msgDescriptionInfos = \<lparr>numMsgDescriptions = 0, maxMsgDescriptions = 0, msgDescriptions = []\<rparr>,
     numMsgFieldGroupInfo = 0, maxMsgFieldGroupInfo = 0, currMsgFieldGroupInfo = 0, msgFieldGroupInfos = [],
     msgFieldGroupFileName = None,
     msgHeaderInfo = \<lparr>partLgth = 1, numPartFields = 1, partFieldIds = [Def 1]\<rparr>,
     msgMidPartInfo = \<lparr>partLgth = 4, numPartFields = 2, partFieldIds = [Def 6, Def 7]\<rparr>,
     msgTrailerInfo = \<lparr>partLgth = 6, numPartFields = 2, partFieldIds = [Def 10, Def 11]\<rparr>,
     d_tn = \<lparr>tn_id = 1, numNames = 0, maxNames = 0, names = [], numSpecFieldIds = 55, numMsgDescFields = 17,
       fieldDescInfos = sequenceInfos, numMsgValFields = 0, fieldValInfos = []\<rparr>,
     d_msg = None, d_ids = (0, 0), d_calls = 0\<rparr>"

lemma sequence_fields:
  "list_all (described (d_tn sequenceDesc)) [(1, 1), (6, 2), (7, 2), (10, 5), (11, 1), (16, 4)]"
  "part_named (d_tn sequenceDesc) [((6, 2), ''@cmdKey''), ((7, 2), ''@cmdLgth'')]"
  "part_named (d_tn sequenceDesc) [((10, 5), ''@filler''), ((11, 1), ''@crc'')]"
  by code_simp+

lemma sequence_parts:
  "is_part (msgHeaderInfo sequenceDesc) [(1, 1)]"
  "is_part (msgMidPartInfo sequenceDesc) (map fst [((6, 2), ''@cmdKey''), ((7, 2), ''@cmdLgth'')])"
  "is_part (msgTrailerInfo sequenceDesc) (map fst [((10, 5), ''@filler''), ((11, 1), ''@crc'')])"
  by code_simp+

theorem message_sequence_witness:
  "\<exists>d'. messageField (\<lambda>_. True) sequenceDesc 16 zeroMsgDescription = Some (COMP_MSG_ERR_OK, d')
    \<and> fieldSequence d' = Some ([1, 6, 16, 10] @ replicate 11 0)
    \<and> fieldOffsets d' = Some ([0, 1, 3, 7] @ replicate 11 0) \<and> lastFieldOffset d' = 12
    \<and> messageField (\<lambda>_. True) sequenceDesc 16 d' = None"
proof -
  let ?ms = "[((6, 2), ''@cmdKey''), ((7, 2), ''@cmdLgth'')]" and ?ts = "[((10, 5), ''@filler''), ((11, 1), ''@crc'')]"
  have k: "kept (midPartSkips zeroMsgDescription) ?ms = [(6, 2)]" "kept (trailerSkips zeroMsgDescription) ?ts = [(10, 5)]"
    by (simp_all add: kept_def midPartSkips_def trailerSkips_def zeroMsgDescription_def)
  have "expectedLines sequenceDesc = currLineNo sequenceDesc" by (simp add: sequenceDesc_def)
  moreover have "fieldSequence zeroMsgDescription = None" "lastFieldOffset zeroMsgDescription = 0"
    by (simp_all add: zeroMsgDescription_def)
  moreover have "\<forall>f \<in> set [(1, 1)]. described (d_tn sequenceDesc) f" "described (d_tn sequenceDesc) (16, 4)"
    using sequence_fields(1) by simp_all
  ultimately obtain d' where d': "messageField (\<lambda>_. True) sequenceDesc 16 zeroMsgDescription = Some (COMP_MSG_ERR_OK, d')"
    "entered 15 [(1, 1), (6, 2), (16, 4), (10, 5)] d'" "messageField (\<lambda>_. True) sequenceDesc 16 d' = None"
    using message_sequence [of "\<lambda>_. True" zeroMsgDescription sequenceDesc "[(1, 1)]" ?ms ?ts 16 4] sequence_fields(2,3) sequence_parts
    by (auto simp: k)
  then show ?thesis by (simp add: entered_def offsets_def upt_rec)
qed

end
