(* ===== verification/CompMsgRequest.thy ===== *)
theory CompMsgRequest
  imports ErrorCodes
begin

text \<open>
  \<^verbatim>\<open>src/app/compMsg/compMsgRequest.c\<close>: the requests that are being received, one slot per socket and one for
  the uart, and \<open>uartReceiveCb\<close> of \<^verbatim>\<open>compMsgSendReceive.c\<close>, which hands over what the uart receives.

  \<^item> A slot is a \<open>msgRequestInfo_t\<close>, \<open>None\<close> the null pointer before the initialisation.  Sockets and
    dispatchers are known by a number.  All dispatchers share \<open>compMsgRequest\<close> and \<open>dispatcherCommon\<close>, so
    that \<open>detectMsg\<close> works on the same slots whatever dispatcher the slot has; it only must not be null.
  \<^item> \<open>received\<close> of \<open>detectMsg\<close> and \<open>unpackReceivedMsg\<close> and \<open>compMsgData\<close> of \<open>startRequest\<close> are never initialised,
    their initialisations are not compiled; a use of them is undefined.
  \<^item> \<open>IPAddr\<close> and \<open>isUsed\<close> are never used.
\<close>

subsection \<open>State\<close>

record msgRequestInfo =
  requestType :: u8
  r_sud :: "nat option"
  requestDispatcher :: "nat option"
  r_data :: "u8 cell list option"
  r_lgth :: u16
  r_currLgth :: u16
  r_currIdx :: u16
  r_totalLgth :: u16
  isComplete :: bool

record msgRequestInfos =
  slots :: "msgRequestInfo option list"
  currRequestIdx :: int
  lastRequestIdx :: int

abbreviation (input) "COMP_MSG_MAX_REQUESTS \<equiv> (5 :: nat)"
abbreviation (input) "COMP_MSG_INPUT_UART \<equiv> (0x01 :: u8)"
abbreviation (input) "COMP_MSG_INPUT_NET_SOCKET \<equiv> (0x02 :: u8)"
abbreviation (input) "COMP_MSG_INPUT_WEB_SOCKET \<equiv> (0x04 :: u8)"

definition zeroRequestInfo :: msgRequestInfo where
  "zeroRequestInfo = \<lparr>requestType = 0, r_sud = None, requestDispatcher = None, r_data = None, r_lgth = 0,
     r_currLgth = 0, r_currIdx = 0, r_totalLgth = 0, isComplete = False\<rparr>"

text \<open>\<open>*msgRequestInfos->msgRequestInfo[i]\<close>, read and written.\<close>

definition get_slot :: "msgRequestInfos \<Rightarrow> nat \<Rightarrow> msgRequestInfo ub" where
  "get_slot q i = (if i < length (slots q) then slots q ! i else None)"

definition set_slot :: "msgRequestInfos \<Rightarrow> nat \<Rightarrow> msgRequestInfo \<Rightarrow> msgRequestInfos" where
  "set_slot q i r = q\<lparr>slots := (slots q)[i := Some r]\<rparr>"

subsection \<open>Collecting bytes\<close>

text \<open>
  The size of the block; \<open>lgth\<close> new bytes are compared with the size of the whole block.  \<open>ok\<close> is the
  allocation of either branch.
\<close>

definition makeRoom :: "bool \<Rightarrow> u16 \<Rightarrow> msgRequestInfo \<Rightarrow> errcode \<times> msgRequestInfo" where
  "makeRoom ok lgth r =
    (if r_currLgth r < lgth then
       let n = (if requestType r = COMP_MSG_INPUT_UART then
                  if r_currLgth r = 0 then 255 else r_currLgth r + 10
                else r_currLgth r + lgth);
           r = r\<lparr>r_currLgth := n\<rparr> in
       if \<not> ok then (DATA_VIEW_ERR_OUT_OF_MEMORY, r\<lparr>r_data := None\<rparr>)
       else (COMP_MSG_ERR_OK,
             r\<lparr>r_data := Some (case r_data r of None \<Rightarrow> zalloc_cells (unat n) 0
                                           | Some d \<Rightarrow> realloc_cells (unat n) d)\<rparr>)
     else (COMP_MSG_ERR_OK, r))"

text \<open>The loop over the bytes from \<open>idx\<close> on, with \<open>k\<close> to go; \<open>h\<close> is the length of the header.\<close>

primrec detectLoop :: "u8 \<Rightarrow> mem \<Rightarrow> nat \<Rightarrow> msgRequestInfo \<Rightarrow> nat \<Rightarrow> msgRequestInfo ub" where
  "detectLoop h buffer idx r 0 = Some r"
| "detectLoop h buffer idx r (Suc k) =
    do { d \<leftarrow> r_data r;
         b \<leftarrow> rd_byte buffer (word_of_nat idx);
         d \<leftarrow> wr_cell d (unat (r_currIdx r)) b;
         let r = r\<lparr>r_data := Some d, r_currIdx := r_currIdx r + 1\<rparr>;
         if r_currIdx r = ucast h then None
         else if r_currIdx r = r_totalLgth r \<and> r_totalLgth r > 0 then Some (r\<lparr>isComplete := True\<rparr>)
         else detectLoop h buffer (idx + 1) r k }"

definition detectMsg :: "bool \<Rightarrow> u8 \<Rightarrow> msgRequestInfos \<Rightarrow> mem \<Rightarrow> u16 \<Rightarrow> nat \<Rightarrow> (errcode \<times> msgRequestInfos) ub" where
  "detectMsg ok h q buffer lgth queueIdx =
    do { r \<leftarrow> get_slot q queueIdx;
         case makeRoom ok lgth r of (rc, r) \<Rightarrow>
           if rc \<noteq> COMP_MSG_ERR_OK then Some (rc, set_slot q queueIdx r)
           else do { r \<leftarrow> detectLoop h buffer 0 r (unat lgth);
                     Some (COMP_MSG_ERR_OK, set_slot q queueIdx r) } }"

text \<open>
  The slot of a socket: the first one that belongs to it or is free; a free one is taken.  The result is the
  code or the slot, \<open>COMP_MSG_MAX_REQUESTS\<close> when there is none.
\<close>

primrec requestLoop ::
  "bool \<Rightarrow> u8 \<Rightarrow> nat option \<Rightarrow> u16 \<Rightarrow> msgRequestInfos \<Rightarrow> nat \<Rightarrow> nat \<Rightarrow> ((errcode + nat) \<times> msgRequestInfos) ub" where
  "requestLoop ok type sud lgth q requestIdx 0 = Some (Inr requestIdx, q)"
| "requestLoop ok type sud lgth q requestIdx (Suc k) =
    do { r \<leftarrow> get_slot q requestIdx;
         if r_sud r = sud then Some (Inr requestIdx, q)
         else if r_sud r = None \<and> requestType r = 0 \<or> type = COMP_MSG_INPUT_UART \<and> lgth = 0 then
           let r = r\<lparr>requestType := type, r_sud := sud\<rparr> in
           if \<not> ok then Some (Inl DATA_VIEW_ERR_OUT_OF_MEMORY, set_slot q requestIdx (r\<lparr>r_data := None\<rparr>))
           else Some (Inr requestIdx, set_slot q requestIdx
                  (r\<lparr>r_data := Some (zalloc_cells (unat lgth) 0), r_lgth := lgth, r_totalLgth := 999\<rparr>))
         else requestLoop ok type sud lgth q (requestIdx + 1) k }"

definition addRequestData ::
  "allocs \<Rightarrow> u8 \<Rightarrow> msgRequestInfos \<Rightarrow> u8 \<Rightarrow> nat option \<Rightarrow> mem \<Rightarrow> u16 \<Rightarrow> (errcode \<times> msgRequestInfos) ub" where
  "addRequestData ok h q type sud data lgth =
    do { (res, q) \<leftarrow> requestLoop (ok 0) type sud lgth q 0 COMP_MSG_MAX_REQUESTS;
         case res of
           Inl rc \<Rightarrow> Some (rc, q)
         | Inr requestIdx \<Rightarrow>
             if requestIdx \<ge> COMP_MSG_MAX_REQUESTS then Some (COMP_MSG_ERR_TOO_MANY_REQUESTS, q)
             else
               do { r \<leftarrow> get_slot q requestIdx;
                    _ \<leftarrow> requestDispatcher r;
                    (rc, q) \<leftarrow> detectMsg (ok 1) h q data lgth requestIdx;
                    if rc \<noteq> COMP_MSG_ERR_OK then Some (rc, q)
                    else do { r \<leftarrow> get_slot q requestIdx;
                              if isComplete r then None else Some (rc, q) } } }"

text \<open>\<open>uartReceiveCb\<close> without its timer; no byte at all counts as a zero.\<close>

definition uartReceiveCb :: "allocs \<Rightarrow> u8 \<Rightarrow> msgRequestInfos \<Rightarrow> mem \<Rightarrow> size_t \<Rightarrow> (errcode \<times> msgRequestInfos) ub" where
  "uartReceiveCb ok h q buffer lgth =
    (if lgth = 0 then addRequestData ok h q COMP_MSG_INPUT_UART None [0] 1
     else addRequestData ok h q COMP_MSG_INPUT_UART None buffer (ucast lgth))"

subsection \<open>Reset, start and deletion\<close>

text \<open>The dispatcher of the slot is reset, too.\<close>

definition resetRequest :: "msgRequestInfos \<Rightarrow> int \<Rightarrow> (errcode \<times> msgRequestInfos) ub" where
  "resetRequest q slot =
    (if slot < 0 then None
     else do { _ \<leftarrow> get_slot q (nat slot);
               Some (COMP_MSG_ERR_OK, set_slot q (nat slot) zeroRequestInfo) })"

definition uartTimerResetRequest :: "msgRequestInfos \<Rightarrow> (errcode \<times> msgRequestInfos) ub" where
  "uartTimerResetRequest q = do { (_, q) \<leftarrow> resetRequest q 0; Some (COMP_MSG_ERR_OK, q) }"

definition startRequest :: "msgRequestInfos \<Rightarrow> (errcode \<times> msgRequestInfos) ub" where
  "startRequest q = None"

text \<open>The slot of \<open>currRequestIdx\<close> is read first, also when the index is negative.\<close>

definition startNextRequest :: "msgRequestInfos \<Rightarrow> (errcode \<times> msgRequestInfos) ub" where
  "startNextRequest q =
    (if currRequestIdx q < 0 \<or> int (length (slots q)) \<le> currRequestIdx q then None
     else if currRequestIdx q < lastRequestIdx q then
       checkErrOK (startRequest (q\<lparr>currRequestIdx := currRequestIdx q + 1\<rparr>)) (\<lambda>q. Some (COMP_MSG_ERR_OK, q))
     else Some (COMP_MSG_ERR_OK, q))"

text \<open>The search of \<open>deleteRequest\<close> does not stop; what it notes is not used.\<close>

primrec deleteScan :: "msgRequestInfos \<Rightarrow> nat \<Rightarrow> nat \<Rightarrow> nat ub" where
  "deleteScan q requestIdx 0 = Some requestIdx"
| "deleteScan q requestIdx (Suc k) = do { _ \<leftarrow> get_slot q requestIdx; deleteScan q (requestIdx + 1) k }"

definition deleteRequest :: "msgRequestInfos \<Rightarrow> u8 \<Rightarrow> nat option \<Rightarrow> (errcode \<times> msgRequestInfos) ub" where
  "deleteRequest q type sud =
    do { requestIdx \<leftarrow> deleteScan q 0 COMP_MSG_MAX_REQUESTS;
         q \<leftarrow> (if requestIdx < COMP_MSG_MAX_REQUESTS then
                do { r \<leftarrow> get_slot q requestIdx;
                     r1 \<leftarrow> get_slot q (requestIdx + 1);
                     Some (set_slot q requestIdx (r\<lparr>requestType := requestType r1, r_sud := r_sud r1\<rparr>)) }
              else Some q);
         if requestIdx \<ge> COMP_MSG_MAX_REQUESTS then Some (COMP_MSG_ERR_REQUEST_NOT_FOUND, q)
         else do { (_, q) \<leftarrow> startNextRequest q; Some (COMP_MSG_ERR_OK, q) } }"

text \<open>
  \<open>compMsgRequestInit\<close>: \<open>ok i\<close> is the allocation of slot \<open>i\<close>, \<open>disp i\<close> the dispatcher \<open>newCompMsgDispatcher\<close>
  returns for it.
\<close>

primrec requestInitLoop ::
  "allocs \<Rightarrow> (nat \<Rightarrow> nat option) \<Rightarrow> nat \<Rightarrow> msgRequestInfos \<Rightarrow> nat \<Rightarrow> nat \<Rightarrow> errcode \<times> msgRequestInfos" where
  "requestInitLoop ok disp self q idx 0 = (COMP_MSG_ERR_OK, q)"
| "requestInitLoop ok disp self q idx (Suc k) =
    (if \<not> ok idx then (DATA_VIEW_ERR_OUT_OF_MEMORY, q\<lparr>slots := (slots q)[idx := None]\<rparr>)
     else
       let d = (if idx = 0 then Some self else disp idx);
           q = set_slot q idx (zeroRequestInfo\<lparr>requestDispatcher := d\<rparr>) in
       if d = None then (DATA_VIEW_ERR_OUT_OF_MEMORY, q)
       else requestInitLoop ok disp self q (idx + 1) k)"

definition compMsgRequestInit ::
  "allocs \<Rightarrow> (nat \<Rightarrow> nat option) \<Rightarrow> nat \<Rightarrow> msgRequestInfos \<Rightarrow> errcode \<times> msgRequestInfos" where
  "compMsgRequestInit ok disp self q =
    requestInitLoop ok disp self (q\<lparr>currRequestIdx := -1, lastRequestIdx := -1\<rparr>) 0 COMP_MSG_MAX_REQUESTS"

definition newCompMsgRequest :: "bool \<Rightarrow> msgRequestInfos option" where
  "newCompMsgRequest ok =
    (if ok then Some \<lparr>slots = replicate COMP_MSG_MAX_REQUESTS None, currRequestIdx = 0, lastRequestIdx = 0\<rparr> else None)"

subsection \<open>The bytes of one slot\<close>

text \<open>
  A slot that has received the bytes \<open>ds\<close>; \<open>rest\<close> is the part of its block behind them.  It is empty
  except between taking the slot and storing the first bytes.
\<close>

definition filled :: "mem \<Rightarrow> u8 cell list \<Rightarrow> msgRequestInfo \<Rightarrow> bool" where
  "filled ds rest r \<longleftrightarrow> r_data r = Some (map Def ds @ rest) \<and> unat (r_currLgth r) = length ds \<and> r_currIdx r = r_currLgth r
     \<and> r_totalLgth r = 999 \<and> \<not> isComplete r \<and> requestType r \<noteq> 0 \<and> requestType r \<noteq> COMP_MSG_INPUT_UART
     \<and> requestDispatcher r \<noteq> None"

abbreviation holds :: "mem \<Rightarrow> msgRequestInfo \<Rightarrow> bool" where
  "holds ds \<equiv> filled ds []"

text \<open>What a further piece makes of the bytes; \<open>None\<close> when it is written behind the block.\<close>

definition add_piece :: "nat \<Rightarrow> mem \<Rightarrow> mem \<Rightarrow> mem option" where
  "add_piece h ds bs =
    (if bs = [] \<or> length ds < length bs \<and> length ds + length bs < h then Some (ds @ bs) else None)"

lemma rd_byte_nat: "i < length m \<Longrightarrow> i < 2 ^ 32 \<Longrightarrow> rd_byte m (word_of_nat i) = Some (m ! i)"
  by (simp add: rd_byte_def unat_of_nat)

lemma unat_Suc_u16: "unat i < n \<Longrightarrow> n < 65536 \<Longrightarrow> unat (i + 1) = Suc (unat i)" for i :: u16
  by (simp add: unat_word_ariths)

lemma ucast_8_16_eq: "i = ucast h \<longleftrightarrow> unat i = unat h" for i :: u16 and h :: u8
  by (simp add: word_unat_eq_iff)

lemma unat_h_less: "unat (h :: u8) < 256"
  using unsigned_less [of h] by simp

text \<open>Bytes that fit the block and stay below the header.\<close>

lemma detectLoop_stores:
  "\<lbrakk>r_data r = Some (map Def ds @ rest); unat (r_currIdx r) = length ds; length buffer \<le> length (pre @ bs);
    buffer = pre @ bs; length buffer < 65536; length ds + length bs < unat h; length bs \<le> length rest; r_totalLgth r = 999\<rbrakk>
   \<Longrightarrow> detectLoop h buffer (length pre) r (length bs)
      = Some (r\<lparr>r_data := Some (map Def (ds @ bs) @ drop (length bs) rest), r_currIdx := r_currIdx r + word_of_nat (length bs)\<rparr>)"
proof (induction bs arbitrary: pre ds rest r)
  case Nil
  then show ?case by (cases r) simp
next
  case (Cons b bs)
  obtain c rest' where rest: "rest = c # rest'" using Cons.prems(7) by (cases rest) auto
  let ?r = "r\<lparr>r_data := Some (map Def (ds @ [b]) @ rest'), r_currIdx := r_currIdx r + 1\<rparr>"
  have n: "unat (r_currIdx r + 1) = Suc (length ds)"
    using unat_Suc_u16 [of "r_currIdx r" 256] Cons.prems(2,6) unat_h_less [of h] by simp
  then have ne: "r_currIdx r + 1 \<noteq> ucast h" "r_currIdx r + 1 \<noteq> 999"
    using Cons.prems(6) unat_h_less [of h] by (auto simp: ucast_8_16_eq dest: arg_cong [where f = unat])
  have "rd_byte buffer (word_of_nat (length pre)) = Some b"
    using Cons.prems(4,5) by (subst rd_byte_nat) (simp_all add: nth_append)
  then have "detectLoop h buffer (length pre) r (length (b # bs)) = detectLoop h buffer (length (pre @ [b])) ?r (length bs)"
    using Cons.prems(1,2,8) n ne by (simp add: rest list_update_append)
  also have "\<dots> = Some (?r\<lparr>r_data := Some (map Def ((ds @ [b]) @ bs) @ drop (length bs) rest'),
      r_currIdx := r_currIdx ?r + word_of_nat (length bs)\<rparr>)"
    using Cons.prems n by (intro Cons.IH) (simp_all add: rest)
  finally show ?case by (simp add: rest add.assoc)
qed

lemma detectLoop_overruns:
  assumes "r_data r = Some (map Def ds)" "unat (r_currIdx r) = length ds"
  shows "detectLoop h buffer idx r (Suc k) = None"
  using assms by (auto simp: wr_cell_def Option.bind_eq_None_conv)

lemma detectLoop_header:
  "\<lbrakk>unat (r_currIdx r) < unat h; unat h \<le> unat (r_currIdx r) + k; r_totalLgth r = 999\<rbrakk>
   \<Longrightarrow> detectLoop h buffer idx r k = None"
proof (induction k arbitrary: idx r)
  case (Suc k)
  have n: "unat (r_currIdx r + 1) = Suc (unat (r_currIdx r))"
    using unat_Suc_u16 [of "r_currIdx r" 256] Suc.prems(1) unat_h_less [of h] by simp
  then have "r_currIdx r + 1 \<noteq> 999"
    using Suc.prems(1) unat_h_less [of h] by (auto dest: arg_cong [where f = unat])
  moreover have "detectLoop h buffer (idx + 1) (r\<lparr>r_data := Some d, r_currIdx := r_currIdx r + 1\<rparr>) k = None"
    if "r_currIdx r + 1 \<noteq> ucast h" for d
    using that Suc.prems n by (intro Suc.IH) (auto simp: ucast_8_16_eq)
  ultimately show ?case using Suc.prems(3) by (auto simp: Option.bind_eq_None_conv Let_def)
qed simp

lemma makeRoom_fits:
  assumes "filled ds rest r" "length ds < unat lgth" "length ds + unat lgth < 65536" "length rest \<le> unat lgth"
  shows "\<exists>rest'. length rest' = unat lgth
    \<and> makeRoom True lgth r = (COMP_MSG_ERR_OK, r\<lparr>r_currLgth := r_currLgth r + lgth, r_data := Some (map Def ds @ rest')\<rparr>)"
proof -
  have "realloc_cells (length ds + unat lgth) (map Def ds @ rest) = map Def ds @ rest @ replicate (unat lgth - length rest) Undef"
    using assms(4) by (simp add: realloc_cells_def)
  then have "makeRoom True lgth r = (COMP_MSG_ERR_OK, r\<lparr>r_currLgth := r_currLgth r + lgth,
      r_data := Some (map Def ds @ rest @ replicate (unat lgth - length rest) Undef)\<rparr>)"
    using assms(1-3) by (simp add: makeRoom_def filled_def word_less_nat_alt unat_word_ariths)
  then show ?thesis using assms(4) by (metis le_add_diff_inverse length_append length_replicate)
qed

text \<open>
  A piece is stored when it is empty, or longer than all bytes before it and the header is not reached;
  otherwise the store leaves the block or the header is looked up through an uninitialised pointer.
\<close>

lemma detect_piece:
  assumes r: "filled ds rest r" "get_slot q i = Some r" and "length bs = unat lgth" "length ds < unat h"
    and rest: "rest = [] \<or> ds = [] \<and> length rest = unat lgth"
  shows "rel_option (\<lambda>ds' x. \<exists>r'. x = (COMP_MSG_ERR_OK, set_slot q i r') \<and> holds ds' r' \<and> r_sud r' = r_sud r)
    (add_piece (unat h) ds bs) (detectMsg True h q bs lgth i)"
proof -
  have lt: "length ds < 256" "length bs < 65536" using assms(3,4) unat_h_less [of h] unsigned_less [of lgth] by simp_all
  consider (empty) "bs = []" | (short) "bs \<noteq> []" "length bs \<le> length ds"
    | (long) "length ds < length bs" "unat h \<le> length ds + length bs"
    | (fits) "length ds < length bs" "length ds + length bs < unat h" by linarith
  then show ?thesis
  proof cases
    case empty
    then have "unat lgth = 0" "lgth = 0" "rest = []" using assms(3) rest by (auto simp: unat_eq_0)
    then have "detectMsg True h q bs lgth i = Some (COMP_MSG_ERR_OK, set_slot q i r)"
      using r by (simp add: detectMsg_def makeRoom_def)
    then show ?thesis using r(1) empty \<open>rest = []\<close> by (auto simp: add_piece_def)
  next
    case short
    then obtain k where k: "unat lgth = Suc k" using assms(3) by (cases "unat lgth") auto
    have "rest = []" using short rest by auto
    have "makeRoom True lgth r = (COMP_MSG_ERR_OK, r)"
      using r(1) short assms(3) by (simp add: makeRoom_def filled_def word_less_nat_alt)
    moreover have "detectLoop h bs 0 r (Suc k) = None"
      using r(1) \<open>rest = []\<close> by (intro detectLoop_overruns) (auto simp: filled_def)
    ultimately have "detectMsg True h q bs lgth i = None" using r(2) k by (simp add: detectMsg_def del: detectLoop.simps)
    then show ?thesis using short by (simp add: add_piece_def)
  next
    case long
    obtain rc r' where m: "makeRoom True lgth r = (rc, r')" by fastforce
    then have "rc = 0" "r_currIdx r' = r_currIdx r" "r_totalLgth r' = 999"
      using r(1) by (auto simp: makeRoom_def filled_def Let_def split: if_splits)
    moreover from this have "detectLoop h bs 0 r' (unat lgth) = None"
      using r(1) assms(3,4) long by (intro detectLoop_header) (auto simp: filled_def)
    ultimately have "detectMsg True h q bs lgth i = None" using r(2) m by (simp add: detectMsg_def)
    then show ?thesis using long by (auto simp: add_piece_def)
  next
    case fits
    have n: "length ds + unat lgth < 65536" using fits lt unat_h_less [of h] assms(3) by simp
    have "length rest \<le> unat lgth" using rest by auto
    then obtain rest' where rest': "length rest' = length bs" "makeRoom True lgth r = (COMP_MSG_ERR_OK,
        r\<lparr>r_currLgth := r_currLgth r + lgth, r_data := Some (map Def ds @ rest')\<rparr>)"
      using makeRoom_fits [OF r(1) _ n] fits assms(3) by auto
    let ?r = "r\<lparr>r_currLgth := r_currLgth r + lgth, r_data := Some (map Def ds @ rest')\<rparr>"
    have "detectLoop h bs (length ([] :: mem)) ?r (length bs)
      = Some (?r\<lparr>r_data := Some (map Def (ds @ bs) @ drop (length bs) rest'),
                r_currIdx := r_currIdx ?r + word_of_nat (length bs)\<rparr>)"
      using r(1) fits lt rest' by (intro detectLoop_stores) (auto simp: filled_def)
    then have "detectMsg True h q bs lgth i = Some (COMP_MSG_ERR_OK, set_slot q i
        (r\<lparr>r_currLgth := r_currLgth r + lgth, r_data := Some (map Def (ds @ bs)), r_currIdx := r_currIdx r + lgth\<rparr>))"
      using r(2) assms(3) rest' by (simp add: detectMsg_def)
    then show ?thesis using r(1) fits assms(3) n by (auto simp: add_piece_def filled_def unat_word_ariths)
  qed
qed

subsection \<open>The slots\<close>

text \<open>
  What the slots stand for: the sockets with the bytes received from each, in the order in which
  they came.  The other slots are free.
\<close>

definition slot_rel :: "nat \<times> mem \<Rightarrow> msgRequestInfo option \<Rightarrow> bool" where
  "slot_rel e x \<longleftrightarrow> (\<exists>r. x = Some r \<and> r_sud r = Some (fst e) \<and> holds (snd e) r)"

definition free_slot :: "msgRequestInfo option \<Rightarrow> bool" where
  "free_slot x \<longleftrightarrow> (\<exists>d. x = Some (zeroRequestInfo\<lparr>requestDispatcher := Some d\<rparr>))"

definition queue_rel :: "(nat \<times> mem) list \<Rightarrow> msgRequestInfos \<Rightarrow> bool" where
  "queue_rel xs q \<longleftrightarrow> length xs \<le> 5 \<and> length (slots q) = 5 \<and> list_all2 slot_rel xs (take (length xs) (slots q))
     \<and> list_all free_slot (drop (length xs) (slots q))"

definition spec_request :: "nat \<Rightarrow> (nat \<times> mem) list \<Rightarrow> nat \<Rightarrow> mem \<Rightarrow> (errcode \<times> (nat \<times> mem) list) option" where
  "spec_request h xs s bs =
    (case find_idx (\<lambda>e. fst e = s) 0 xs of
       Some (i, e) \<Rightarrow> map_option (\<lambda>ds. (COMP_MSG_ERR_OK, xs[i := (s, ds)])) (add_piece h (snd e) bs)
     | None \<Rightarrow> if length xs = 5 then Some (COMP_MSG_ERR_TOO_MANY_REQUESTS, xs)
              else map_option (\<lambda>ds. (COMP_MSG_ERR_OK, xs @ [(s, ds)])) (add_piece h [] bs))"

lemma queue_relD:
  assumes "queue_rel xs q"
  shows "i < length xs \<Longrightarrow> \<exists>r. get_slot q i = Some r \<and> r_sud r = Some (fst (xs ! i)) \<and> holds (snd (xs ! i)) r"
    and "length xs \<le> i \<Longrightarrow> i < 5 \<Longrightarrow> \<exists>d. get_slot q i = Some (zeroRequestInfo\<lparr>requestDispatcher := Some d\<rparr>)"
proof -
  assume "i < length xs"
  then show "\<exists>r. get_slot q i = Some r \<and> r_sud r = Some (fst (xs ! i)) \<and> holds (snd (xs ! i)) r"
    using assms by (auto simp: queue_rel_def list_all2_conv_all_nth slot_rel_def get_slot_def)
next
  assume "length xs \<le> i" "i < 5"
  then have "slots q ! i \<in> set (drop (length xs) (slots q))"
    using assms by (auto simp: queue_rel_def in_set_conv_nth intro!: exI [of _ "i - length xs"])
  then show "\<exists>d. get_slot q i = Some (zeroRequestInfo\<lparr>requestDispatcher := Some d\<rparr>)"
    using assms \<open>i < 5\<close> by (auto simp: queue_rel_def list_all_iff free_slot_def get_slot_def)
qed

lemma requestLoop_skips:
  assumes "\<forall>j < n. \<exists>r. get_slot q (i + j) = Some r \<and> r_sud r \<noteq> sud \<and> r_sud r \<noteq> None" "type \<noteq> COMP_MSG_INPUT_UART"
  shows "requestLoop ok type sud lgth q i (n + m) = requestLoop ok type sud lgth q (i + n) m"
  using assms(1)
proof (induction n arbitrary: i)
  case (Suc n)
  obtain r where "get_slot q i = Some r" "r_sud r \<noteq> sud" "r_sud r \<noteq> None" using Suc.prems by fastforce
  moreover have "\<forall>j < n. \<exists>r. get_slot q (Suc i + j) = Some r \<and> r_sud r \<noteq> sud \<and> r_sud r \<noteq> None"
    using Suc.prems by (metis Suc_less_eq add_Suc_shift)
  ultimately show ?case using Suc.IH [of "Suc i"] assms(2) by auto
qed simp

lemma slots_before:
  assumes "queue_rel xs q" "n \<le> length xs" "\<forall>j < n. fst (xs ! j) \<noteq> s"
  shows "\<forall>j < n. \<exists>r. get_slot q (0 + j) = Some r \<and> r_sud r \<noteq> Some s \<and> r_sud r \<noteq> None"
proof (intro allI impI)
  fix j assume "j < n"
  then show "\<exists>r. get_slot q (0 + j) = Some r \<and> r_sud r \<noteq> Some s \<and> r_sud r \<noteq> None"
    using queue_relD(1) [OF assms(1), of j] assms(2,3) by auto
qed

lemma requestLoop_at:
  assumes "queue_rel xs q" "n \<le> length xs" "n < 5" "\<forall>j < n. fst (xs ! j) \<noteq> s" "type \<noteq> COMP_MSG_INPUT_UART"
  shows "requestLoop ok type (Some s) lgth q 0 5 = requestLoop ok type (Some s) lgth q n (Suc (4 - n))"
proof -
  have 5: "5 = n + Suc (4 - n)" using assms(3) by simp
  from requestLoop_skips [OF slots_before [OF assms(1,2,4)] assms(5), of ok lgth "Suc (4 - n)"] show ?thesis
    by (subst 5) (simp only: add_0)
qed

lemma requestLoop_found:
  assumes "queue_rel xs q" "find_idx (\<lambda>e. fst e = s) 0 xs = Some (i, e)" "type \<noteq> COMP_MSG_INPUT_UART"
  shows "requestLoop ok type (Some s) lgth q 0 5 = Some (Inr i, q)"
proof -
  have i: "i < length xs" "fst (xs ! i) = s" "\<forall>j < i. fst (xs ! j) \<noteq> s"
    using find_idx_SomeD [OF assms(2)] by auto
  moreover from this have "i < 5" using assms(1) by (simp add: queue_rel_def)
  ultimately show ?thesis
    using requestLoop_at [OF assms(1) _ _ i(3) assms(3), of ok lgth] queue_relD(1) [OF assms(1) i(1)] by auto
qed

text \<open>A free slot is taken; its first block has room for the first piece.\<close>

lemma requestLoop_new:
  assumes "queue_rel xs q" "find_idx (\<lambda>e. fst e = s) 0 xs = None" "type \<noteq> COMP_MSG_INPUT_UART" "type \<noteq> 0" "length xs < 5"
  shows "\<exists>r. requestLoop True type (Some s) lgth q 0 5 = Some (Inr (length xs), set_slot q (length xs) r)
      \<and> filled [] (replicate (unat lgth) (Def 0)) r \<and> r_sud r = Some s"
proof -
  have ne: "\<forall>j < length xs. fst (xs ! j) \<noteq> s" using assms(2) by (auto simp: find_idx_None_iff)
  obtain d where d: "get_slot q (length xs) = Some (zeroRequestInfo\<lparr>requestDispatcher := Some d\<rparr>)"
    using queue_relD(2) [OF assms(1) order_refl assms(5)] by auto
  let ?r = "zeroRequestInfo\<lparr>requestDispatcher := Some d, requestType := type, r_sud := Some s,
    r_data := Some (zalloc_cells (unat lgth) 0), r_lgth := lgth, r_totalLgth := 999\<rparr>"
  have "requestLoop True type (Some s) lgth q 0 5 = Some (Inr (length xs), set_slot q (length xs) ?r)"
    using requestLoop_at [OF assms(1) order_refl assms(5) ne assms(3)] d by (simp add: zeroRequestInfo_def)
  moreover have "filled [] (replicate (unat lgth) (Def 0)) ?r"
    using assms(3,4) by (simp add: filled_def zeroRequestInfo_def zalloc_cells_def)
  ultimately show ?thesis by fastforce
qed

lemma requestLoop_full:
  assumes "queue_rel xs q" "find_idx (\<lambda>e. fst e = s) 0 xs = None" "type \<noteq> COMP_MSG_INPUT_UART" "length xs = 5"
  shows "requestLoop ok type (Some s) lgth q 0 5 = Some (Inr 5, q)"
proof -
  have ne: "\<forall>j < length xs. fst (xs ! j) \<noteq> s" using assms(2) by (auto simp: find_idx_None_iff)
  from requestLoop_skips [OF slots_before [OF assms(1) order_refl ne] assms(3), of _ _ 0] show ?thesis
    using assms(4) by simp
qed

lemma queue_rel_upd:
  assumes "queue_rel xs q" "i < length xs" "slot_rel e (Some r)"
  shows "queue_rel (xs[i := e]) (set_slot q i r)"
  using assms by (auto simp: queue_rel_def set_slot_def take_update_swap intro: list_all2_update_cong)

lemma queue_rel_new:
  assumes "queue_rel xs q" "length xs < 5" "slot_rel e (Some r)"
  shows "queue_rel (xs @ [e]) (set_slot q (length xs) r)"
proof -
  have "take (Suc (length xs)) (slots (set_slot q (length xs) r)) = take (length xs) (slots q) @ [Some r]"
    using assms(1,2) by (simp add: queue_rel_def set_slot_def take_Suc_conv_app_nth)
  moreover have "drop (Suc (length xs)) (slots (set_slot q (length xs) r)) = drop 1 (drop (length xs) (slots q))"
    by (simp add: set_slot_def)
  moreover have "list_all free_slot (drop 1 (drop (length xs) (slots q)))"
    using assms(1) unfolding queue_rel_def list_all_iff by (blast dest: in_set_dropD)
  ultimately show ?thesis using assms
    by (simp add: queue_rel_def set_slot_def list_all2_appendI)
qed

lemma get_set_slot [simp]: "i < length (slots q) \<Longrightarrow> get_slot (set_slot q i r) i = Some r"
  by (simp add: get_slot_def set_slot_def)

lemma set_set_slot [simp]: "set_slot (set_slot q i r) i r' = set_slot q i r'"
  by (simp add: set_slot_def)

lemma addRequestData_slot:
  assumes loop: "requestLoop (ok 0) type (Some s) lgth q 0 5 = Some (Inr i, q1)"
    and "i < 5" "length (slots q1) = 5" "get_slot q1 i = Some r" "requestDispatcher r \<noteq> None" "ok 1"
    and piece: "rel_option (\<lambda>ds x. \<exists>r'. x = (COMP_MSG_ERR_OK, set_slot q1 i r') \<and> holds ds r' \<and> r_sud r' = Some s)
      a (detectMsg True h q1 bs lgth i)"
  shows "rel_option (\<lambda>ds x. \<exists>r'. x = (COMP_MSG_ERR_OK, set_slot q1 i r') \<and> slot_rel (s, ds) (Some r'))
      a (addRequestData ok h q type (Some s) bs lgth)"
proof (cases a)
  case None
  then have "detectMsg True h q1 bs lgth i = None" using piece by simp
  then show ?thesis using assms(2,4-6) loop None by (auto simp: addRequestData_def)
next
  case (Some ds)
  then obtain r' where "detectMsg True h q1 bs lgth i = Some (COMP_MSG_ERR_OK, set_slot q1 i r')" "holds ds r'" "r_sud r' = Some s"
    using piece by (auto simp: option_rel_Some1)
  moreover from this have "\<not> isComplete r'" by (simp add: filled_def)
  ultimately show ?thesis using assms(2-6) loop Some by (auto simp: addRequestData_def slot_rel_def)
qed

lemma request_step:
  assumes q: "queue_rel xs q" and "type = COMP_MSG_INPUT_NET_SOCKET \<or> type = COMP_MSG_INPUT_WEB_SOCKET" "ok 0" "ok 1"
    and "length bs = unat lgth" "\<forall>(s, ds) \<in> set xs. length ds < unat h" "h \<noteq> 0"
  shows "rel_option (\<lambda>(rc, xs') (rc', q'). rc' = rc \<and> queue_rel xs' q')
    (spec_request (unat h) xs s bs) (addRequestData ok h q type (Some s) bs lgth)"
proof -
  have type: "type \<noteq> 0" "type \<noteq> COMP_MSG_INPUT_UART" using assms(2) by auto
  have len: "length (slots q) = 5" "length xs \<le> 5" using q by (simp_all add: queue_rel_def)
  show ?thesis
  proof (cases "find_idx (\<lambda>e. fst e = s) 0 xs")
    case (Some p)
    obtain i e where p: "find_idx (\<lambda>e. fst e = s) 0 xs = Some (i, e)" using Some by (cases p) auto
    have i: "i < length xs" "e = xs ! i" "fst e = s" using find_idx_SomeD [OF p] by auto
    obtain r where r: "get_slot q i = Some r" "r_sud r = Some s" "holds (snd e) r"
      using queue_relD(1) [OF q i(1)] i(2,3) by auto
    have "length (snd e) < unat h" using assms(6) i(1,2) by (auto simp: case_prod_beta)
    from detect_piece [OF r(3,1) assms(5) this] r(2)
    have "rel_option (\<lambda>ds x. \<exists>r'. x = (COMP_MSG_ERR_OK, set_slot q i r') \<and> slot_rel (s, ds) (Some r'))
        (add_piece (unat h) (snd e) bs) (addRequestData ok h q type (Some s) bs lgth)"
      using requestLoop_found [OF q p type(2)] r i(1) len assms(4)
      by (intro addRequestData_slot [OF _ _ _ r(1)]) (auto simp: filled_def)
    then show ?thesis using queue_rel_upd [OF q i(1)] by (auto simp: spec_request_def p option_rel_Some1 rel_option_iff split: option.splits)
  next
    case None
    show ?thesis
    proof (cases "length xs = 5")
      case True
      then show ?thesis using requestLoop_full [OF q None type(2)] q None by (simp add: spec_request_def addRequestData_def)
    next
      case False
      then have "length xs < 5" using len by simp
      obtain r where r: "requestLoop True type (Some s) lgth q 0 5 = Some (Inr (length xs), set_slot q (length xs) r)"
        "filled [] (replicate (unat lgth) (Def 0)) r" "r_sud r = Some s"
        using requestLoop_new [OF q None type(2,1) \<open>length xs < 5\<close>] by blast
      have n: "get_slot (set_slot q (length xs) r) (length xs) = Some r" using len \<open>length xs < 5\<close> by simp
      have "rel_option (\<lambda>ds x. \<exists>r'. x = (COMP_MSG_ERR_OK, set_slot (set_slot q (length xs) r) (length xs) r')
            \<and> slot_rel (s, ds) (Some r'))
          (add_piece (unat h) [] bs) (addRequestData ok h q type (Some s) bs lgth)"
        using detect_piece [OF r(2) n assms(5)] r len \<open>length xs < 5\<close> assms(3,4,7)
        by (intro addRequestData_slot [OF _ _ _ n]) (auto simp: filled_def set_slot_def unat_gt_0)
      then show ?thesis using queue_rel_new [OF q \<open>length xs < 5\<close>] False
        by (auto simp: spec_request_def None rel_option_iff split: option.splits)
    qed
  qed
qed

text \<open>
  Claim C17.  The requests of the sockets.  A socket keeps its slot; a new one gets the next free slot, and
  a sixth one is refused with \<open>TOO_MANY_REQUESTS\<close>.  The bytes of a request are collected in order as long
  as the header is not complete and every piece is longer than all pieces before it together; an equally
  long or shorter piece is written behind the block.
\<close>

theorem request_refines:
  assumes q: "queue_rel xs q" and "type = COMP_MSG_INPUT_NET_SOCKET \<or> type = COMP_MSG_INPUT_WEB_SOCKET" "ok 0" "ok 1"
    and "length bs = unat lgth" "\<forall>(s, ds) \<in> set xs. length ds < unat h" "h \<noteq> 0"
  shows "rel_option (\<lambda>(rc, xs') (rc', q'). rc' = rc \<and> queue_rel xs' q')
    (spec_request (unat h) xs s bs) (addRequestData ok h q type (Some s) bs lgth)"
  using assms by (rule request_step)

text \<open>After the initialisation all slots are free.\<close>

lemma free_slotI [simp]: "free_slot (Some (zeroRequestInfo\<lparr>requestDispatcher := Some d\<rparr>))"
  by (auto simp: free_slot_def)

lemma requestInitLoop_free:
  assumes "\<And>i. ok i" "\<And>i. disp i \<noteq> None"
  shows "list_all free_slot (take idx (slots q)) \<Longrightarrow> length (slots q) = idx + k \<Longrightarrow>
    \<exists>q'. requestInitLoop ok disp self q idx k = (COMP_MSG_ERR_OK, q') \<and> length (slots q') = idx + k \<and> list_all free_slot (slots q')"
proof (induction k arbitrary: idx q)
  case (Suc k)
  obtain d where d: "(if idx = 0 then Some self else disp idx) = Some d" using assms(2) [of idx] by (cases "idx = 0") auto
  let ?q = "set_slot q idx (zeroRequestInfo\<lparr>requestDispatcher := Some d\<rparr>)"
  have "take (Suc idx) (slots ?q) = take idx (slots q) @ [Some (zeroRequestInfo\<lparr>requestDispatcher := Some d\<rparr>)]"
    using Suc.prems(2) by (simp add: set_slot_def take_Suc_conv_app_nth)
  with Suc.prems Suc.IH [of "Suc idx" ?q] show ?case using assms(1) [of idx] d by (simp add: set_slot_def)
qed simp

lemma init_free:
  assumes "length (slots q) = 5" "\<And>i. ok i" "\<And>i. disp i \<noteq> None"
  shows "\<exists>q'. compMsgRequestInit ok disp self q = (COMP_MSG_ERR_OK, q') \<and> queue_rel [] q'"
  using requestInitLoop_free [of ok disp 0 "q\<lparr>currRequestIdx := -1, lastRequestIdx := -1\<rparr>" 5 self] assms
  by (simp add: compMsgRequestInit_def queue_rel_def del: requestInitLoop.simps)

lemma first_free:
  assumes "queue_rel [] q"
  obtains d where "get_slot q 0 = Some (zeroRequestInfo\<lparr>requestDispatcher := Some d\<rparr>)" "0 < length (slots q)"
proof -
  have "0 < length (slots q)" using assms by (simp add: queue_rel_def)
  then show thesis using queue_relD(2) [OF assms, of 0] that by fastforce
qed

definition requests0 :: msgRequestInfos where
  "requests0 = \<lparr>slots = replicate 5 (Some (zeroRequestInfo\<lparr>requestDispatcher := Some 1\<rparr>)), currRequestIdx = -1, lastRequestIdx = -1\<rparr>"

lemma queue_rel_requests0: "queue_rel [] requests0"
  by (simp add: requests0_def queue_rel_def list_all_iff)

theorem request_refines_witness:
  "\<exists>q1. addRequestData (\<lambda>_. True) 16 requests0 COMP_MSG_INPUT_NET_SOCKET (Some 7) [1, 2] 2 = Some (COMP_MSG_ERR_OK, q1)
     \<and> queue_rel [(7, [1, 2])] q1
     \<and> (\<exists>q2. addRequestData (\<lambda>_. True) 16 q1 COMP_MSG_INPUT_NET_SOCKET (Some 7) [3, 4, 5] 3 = Some (COMP_MSG_ERR_OK, q2)
          \<and> queue_rel [(7, [1, 2, 3, 4, 5])] q2)
     \<and> addRequestData (\<lambda>_. True) 16 q1 COMP_MSG_INPUT_NET_SOCKET (Some 7) [3] 1 = None"
proof -
  note spec = spec_request_def add_piece_def
  let ?ok = "\<lambda>_ :: nat. True"
  obtain q1 where q1: "addRequestData ?ok 16 requests0 COMP_MSG_INPUT_NET_SOCKET (Some 7) [1, 2] 2 = Some (COMP_MSG_ERR_OK, q1)"
    "queue_rel [(7, [1, 2])] q1"
    using request_refines [OF queue_rel_requests0, of COMP_MSG_INPUT_NET_SOCKET ?ok "[1, 2]" 2 16 7]
    by (auto simp: spec option_rel_Some1)
  moreover obtain q2 where "addRequestData ?ok 16 q1 COMP_MSG_INPUT_NET_SOCKET (Some 7) [3, 4, 5] 3 = Some (COMP_MSG_ERR_OK, q2)"
    "queue_rel [(7, [1, 2, 3, 4, 5])] q2"
    using request_refines [OF q1(2), of COMP_MSG_INPUT_NET_SOCKET ?ok "[3, 4, 5]" 3 16 7] by (auto simp: spec option_rel_Some1)
  moreover have "addRequestData ?ok 16 q1 COMP_MSG_INPUT_NET_SOCKET (Some 7) [3] 1 = None"
    using request_refines [OF q1(2), of COMP_MSG_INPUT_NET_SOCKET ?ok "[3]" 1 16 7] by (auto simp: spec)
  ultimately show ?thesis by blast
qed

text \<open>
  Claim C21.  The uart hands over its bytes one by one without a socket, and the search takes the first
  slot with no socket without marking it as one of the uart.  Therefore the first byte gets a block of one byte,
  and the second one is written behind it.
\<close>

theorem uart_second_byte:
  assumes "queue_rel [] q" "ok 1" "1 < h"
  shows "\<exists>q'. uartReceiveCb ok h q [b] 1 = Some (COMP_MSG_ERR_OK, q') \<and> uartReceiveCb ok' h q' [c] 1 = None"
proof -
  obtain d where d: "get_slot q 0 = Some (zeroRequestInfo\<lparr>requestDispatcher := Some d\<rparr>)" "0 < length (slots q)"
    by (rule first_free [OF assms(1)])
  let ?r = "zeroRequestInfo\<lparr>requestDispatcher := Some d, r_currLgth := 1, r_data := Some [Def b], r_currIdx := 1\<rparr>"
  have h: "(1 :: u16) \<noteq> ucast h" using assms(3) by (auto simp: ucast_8_16_eq word_less_nat_alt)
  have "requestLoop ok0 COMP_MSG_INPUT_UART None 1 q 0 5 = Some (Inr 0, q)" for ok0
    using d by (simp add: zeroRequestInfo_def eval_nat_numeral)
  moreover have "detectMsg True h q [b] 1 0 = Some (COMP_MSG_ERR_OK, set_slot q 0 ?r)"
    using d h by (simp add: detectMsg_def makeRoom_def zeroRequestInfo_def zalloc_cells_def rd_byte_def)
  ultimately have 1: "uartReceiveCb ok h q [b] 1 = Some (COMP_MSG_ERR_OK, set_slot q 0 ?r)"
    using d assms(2) by (simp add: uartReceiveCb_def addRequestData_def zeroRequestInfo_def)
  have "requestLoop ok0 COMP_MSG_INPUT_UART None 1 (set_slot q 0 ?r) 0 5 = Some (Inr 0, set_slot q 0 ?r)" for ok0
    using d by (simp add: zeroRequestInfo_def eval_nat_numeral)
  moreover have "detectMsg ok1 h (set_slot q 0 ?r) [c] 1 0 = None" for ok1
    using d by (simp add: detectMsg_def makeRoom_def zeroRequestInfo_def rd_byte_def wr_cell_def)
  ultimately have "uartReceiveCb ok' h (set_slot q 0 ?r) [c] 1 = None"
    using d by (simp add: uartReceiveCb_def addRequestData_def zeroRequestInfo_def)
  with 1 show ?thesis by blast
qed

theorem uart_second_byte_witness:
  "\<exists>q'. uartReceiveCb (\<lambda>_. True) 16 requests0 [65] 1 = Some (COMP_MSG_ERR_OK, q') \<and> uartReceiveCb (\<lambda>_. True) 16 q' [66] 1 = None"
  using uart_second_byte [OF queue_rel_requests0, of "\<lambda>_. True" 16 65 "\<lambda>_. True" 66] by simp

text \<open>
  The slot is reset when the uart is silent; the dispatcher of the slot is lost with it, so that the
  next byte dereferences null.  \<open>deleteRequest\<close> never finds a request.
\<close>

lemma uart_after_reset:
  assumes "queue_rel [] q"
  shows "\<exists>q'. uartTimerResetRequest q = Some (COMP_MSG_ERR_OK, q') \<and> uartReceiveCb ok h q' bs lgth = None"
proof -
  obtain d where d: "get_slot q 0 = Some (zeroRequestInfo\<lparr>requestDispatcher := Some d\<rparr>)" "0 < length (slots q)"
    by (rule first_free [OF assms(1)])
  have "requestLoop ok0 COMP_MSG_INPUT_UART None n (set_slot q 0 zeroRequestInfo) 0 5 = Some (Inr 0, set_slot q 0 zeroRequestInfo)" for ok0 n
    using d by (simp add: zeroRequestInfo_def eval_nat_numeral)
  then show ?thesis using d
    by (simp add: uartTimerResetRequest_def resetRequest_def uartReceiveCb_def addRequestData_def zeroRequestInfo_def)
qed

lemma deleteRequest_not_found:
  assumes "length (slots q) = 5" "None \<notin> set (slots q)"
  shows "deleteRequest q type sud = Some (COMP_MSG_ERR_REQUEST_NOT_FOUND, q)"
proof -
  have "\<exists>r. get_slot q i = Some r" if "i < 5" for i
    using that assms nth_mem [of i "slots q"] by (cases "slots q ! i") (auto simp: get_slot_def)
  note slot = this
  have "deleteScan q i k = Some (i + k)" if "i + k \<le> 5" for i k
    using that
  proof (induction k arbitrary: i)
    case (Suc k)
    then show ?case using slot [of i] by auto
  qed simp
  from this [of 0 5] show ?thesis by (simp add: deleteRequest_def del: deleteScan.simps)
qed

end
