(* ===== verification/CompMsgHttp.thy ===== *)
theory CompMsgHttp
  imports CompMsgFile Base64 CompMsgRequest
begin

text \<open>
  \<^verbatim>\<open>src/app/compMsg/compMsgHttp.c\<close>: the header lines of an HTTP message are split in place, the names are
  looked up, and the body goes to the requests.

  \<^item> \<open>data\<close> is the copy of the message with a zero behind it; pointers into it (\<open>content\<close>, names and values of
    the headers) are offsets.  \<open>content\<close> keeps its value when a message has no empty line; it does
    not point into the block of the new message then and is \<open>None\<close>.
  \<^item> \<open>cp\<close> of the loops is \<open>data + idx\<close> and needs no variable of its own.
  \<^item> \<open>compMsgData\<close> of the dispatcher has the members \<open>httpParse\<close> sets; \<open>hdrHandleType\<close> is that of \<open>currHdr\<close>,
    \<open>None\<close> when that pointer is null.
\<close>

subsection \<open>Names of headers\<close>

definition httpHeaderKeyInfos :: "(string \<times> string \<times> u8) list" where
  "httpHeaderKeyInfos =
    [(''content-type'', ''Content-Type'', 2),
     (''content-length'', ''Content-Length'', 3),
     (''connection'', ''Connection'', 4),
     (''server'', ''Server'', 5),
     (''date'', ''Date'', 6),
     (''cache-control'', ''Cache-Control'', 7),
     (''node-code'', ''Node-Code'', 8),
     (''set-cookie'', ''Set-Cookie'', 9),
     (''x-powered-by'', ''X-Powered-By'', 10),
     (''content-encoding'', ''Content-Encoding'', 11),
     (''sec-websocket-key'', ''Sec-WebSocket-Key'', 12),
     (''upgrade'', ''Upgrade'', 13),
     (''access-control-allow-origin'', ''Access-Control-Allow-Origin'', 14),
     (''access-control-allow-credentials'', ''Access-Control-Allow-Credentials'', 15),
     (''access-control-allow-headers'', ''Access-Control-Allow-Headers'', 16),
     (''sec-websocket-accept'', ''Sec-WebSocket-Accept'', 17),
     (''host'', ''Host'', 18),
     (''user-agent'', ''User-Agent'', 19),
     (''sec-websocket-version'', ''Sec-WebSocket-Version'', 20),
     (''sec-websocket-protocol'', ''Sec-WebSocket-Protocol'', 21),
     (''accept'', ''Accept'', 22),
     (''accept-encoding'', ''Accept-Encoding'', 23),
     (''accept-language'', ''Accept-Language'', 24),
     (''host'', ''Host'', 18),
     (''x-aspnet-version'', ''X-Aspnet-Version'', 25),
     (''sec-websocket-extensions'', ''Sec-WebSocket-Extensions'', 26),
     (''pragma'', ''Pragma'', 27),
     (''origin'', ''Origin'', 28),
     (''upgrade-insecure-requests'', ''Upgrade-Insecure-Requests'', 29)]"

abbreviation (input) "COMP_MSG_HTTP_CODE \<equiv> (1 :: u8)"
abbreviation (input) "COMP_MSG_HTTP_CONTENT_LENGTH \<equiv> (3 :: u8)"

text \<open>The table with the entry of null pointers that ends it, by the key that is compared.\<close>

definition getHttpHeaderKeyIdFromKey :: "string \<Rightarrow> (errcode + u8) ub" where
  "getHttpHeaderKeyIdFromKey httpHeaderKey =
    do { r \<leftarrow> search_str (terminated (map (\<lambda>(lower, key, i). (key, i)) httpHeaderKeyInfos)) httpHeaderKey;
         Some (case r of Some i \<Rightarrow> Inr i | None \<Rightarrow> Inl DATA_VIEW_ERR_FIELD_TYPE_NOT_FOUND) }"

definition getHttpHeaderKeyIdFromLowerKey :: "string \<Rightarrow> (errcode + u8) ub" where
  "getHttpHeaderKeyIdFromLowerKey httpHeaderKey =
    do { r \<leftarrow> search_str (terminated (map (\<lambda>(lower, key, i). (lower, i)) httpHeaderKeyInfos)) httpHeaderKey;
         Some (case r of Some i \<Rightarrow> Inr i | None \<Rightarrow> Inl COMP_MSG_ERR_HEADER_NOT_FOUND) }"

definition getHttpHeaderKeyFromId :: "u8 \<Rightarrow> (errcode + string) ub" where
  "getHttpHeaderKeyFromId httpHeaderKeyId =
    do { r \<leftarrow> search_id (terminated (map (\<lambda>(lower, key, i). (key, i)) httpHeaderKeyInfos)) httpHeaderKeyId;
         Some (case r of Some key \<Rightarrow> Inr key | None \<Rightarrow> Inl DATA_VIEW_ERR_FIELD_TYPE_NOT_FOUND) }"

subsection \<open>State\<close>

datatype httpPtr = NullPtr | Literal string | InData nat

record httpHeaderPart =
  httpHeaderId :: u8
  httpHeaderName :: httpPtr
  httpHeaderValue :: httpPtr

record httpMsgInfo =
  receivedHeaders :: "httpHeaderPart list option"
  httpRequestCode :: i32
  numHeaders :: u8
  h_currLgth :: size_t
  expectedLgth :: size_t
  content :: "nat option"
  h_data :: "mem option"
  lowerData :: "mem option"

record socketUserData =
  sud_id :: nat
  connectionType :: u8
  numHttpMsgInfos :: u8
  httpMsgInfos :: "httpMsgInfo list"

record httpDispatcher =
  hdrHandleType :: "u8 option"
  hd_sud :: "nat option"
  direction :: u8
  receivedData :: "mem option"
  receivedLgth :: u16
  hd_requests :: msgRequestInfos

abbreviation (input) "NET_SOCKET_TYPE_SOCKET \<equiv> (0x01 :: u8)"
abbreviation (input) "NET_SOCKET_TYPE_CLIENT \<equiv> (0x02 :: u8)"
abbreviation (input) "WEB_SOCKET_TYPE_CLIENT \<equiv> (0x10 :: u8)"
abbreviation (input) "COMP_MSG_RECEIVED_DATA \<equiv> (2 :: u8)"
abbreviation (input) "COMP_MSG_TRANSFER_DATA \<equiv> (4 :: u8)"

definition zeroHeaderPart :: httpHeaderPart where
  "zeroHeaderPart = \<lparr>httpHeaderId = 0, httpHeaderName = NullPtr, httpHeaderValue = NullPtr\<rparr>"

text \<open>A byte of a block, and the string that starts there.\<close>

definition byte_at :: "mem \<Rightarrow> nat \<Rightarrow> u8 ub" where
  "byte_at d i = (if i < length d then Some (d ! i) else None)"

definition put_byte :: "mem \<Rightarrow> nat \<Rightarrow> u8 \<Rightarrow> mem ub" where
  "put_byte d i b = (if i < length d then Some (d[i := b]) else None)"

definition string_at :: "mem \<Rightarrow> nat \<Rightarrow> string ub" where
  "string_at d i = do { bs \<leftarrow> c_bytes (map Def (drop i d)); Some (chars bs) }"

subsection \<open>The lines of the header\<close>

text \<open>
  The loop of \<open>getContentAndNumHeaders\<close> with \<open>k\<close> bytes to go: the number of lines, and the newline of the
  empty line.
\<close>

primrec contentLoop :: "mem \<Rightarrow> nat \<Rightarrow> nat \<Rightarrow> u8 \<Rightarrow> nat \<Rightarrow> (u8 \<times> nat option) ub" where
  "contentLoop d idx lastNewLine n 0 = Some (n, None)"
| "contentLoop d idx lastNewLine n (Suc k) =
    do { c \<leftarrow> byte_at d idx;
         if c = 10 then
           if idx - lastNewLine < 3 then Some (n, Some idx)
           else contentLoop d (idx + 1) idx (n + 1) k
         else contentLoop d (idx + 1) lastNewLine n k }"

definition getContentAndNumHeaders :: "httpMsgInfo \<Rightarrow> size_t \<Rightarrow> (errcode \<times> httpMsgInfo) ub" where
  "getContentAndNumHeaders info sz =
    do { d \<leftarrow> h_data info;
         (n, nl) \<leftarrow> contentLoop d 0 0 0 (unat sz);
         let info = info\<lparr>numHeaders := n\<rparr>;
         case nl of
           None \<Rightarrow> Some (COMP_MSG_ERR_OK, info)
         | Some i \<Rightarrow> Some (COMP_MSG_ERR_OK, info\<lparr>h_data := Some (d[i := 0]), content := Some (i + 1),
                                             h_currLgth := sz - word_of_nat (i + 1)\<rparr>) }"

text \<open>The number behind the first space of the first line; there are at most as many rounds as bytes.\<close>

primrec codeLoop :: "mem \<Rightarrow> nat \<Rightarrow> nat \<Rightarrow> i32 option ub" where
  "codeLoop d cp 0 = None"
| "codeLoop d cp (Suc k) =
    do { c \<leftarrow> byte_at d cp;
         if c = 10 then Some None
         else if c = 32 then do { s \<leftarrow> string_at d (cp + 1); Some (Some (strtoul s 10)) }
         else codeLoop d (cp + 1) k }"

definition getHttpRequestCode :: "httpMsgInfo \<Rightarrow> (errcode \<times> httpMsgInfo) ub" where
  "getHttpRequestCode info =
    do { hs \<leftarrow> receivedHeaders info;
         d \<leftarrow> h_data info;
         if hs = [] then None
         else
           do { code \<leftarrow> codeLoop d 0 (length d);
                let info = info\<lparr>receivedHeaders := Some (hs[0 := \<lparr>httpHeaderId = COMP_MSG_HTTP_CODE,
                                  httpHeaderName = Literal ''Code'', httpHeaderValue = InData 0\<rparr>])\<rparr>;
                Some (COMP_MSG_ERR_OK, case code of None \<Rightarrow> info | Some v \<Rightarrow> info\<lparr>httpRequestCode := v\<rparr>) } }"

subsection \<open>Splitting the header lines\<close>

text \<open>
  The variables of \<open>getHttpHeaders\<close>; \<open>dp\<close> and \<open>lowerHeaderStr\<close> are offsets into \<open>lowerData\<close>, the others into
  \<open>data\<close>.  The pointer \<open>httpHeaderPart\<close> is \<open>receivedHeaders\<close> at \<open>httpHeaderIdx\<close>.
\<close>

record headersLocals =
  hl_data :: mem
  hl_lower :: mem
  hl_headers :: "httpHeaderPart list"
  hl_idx :: nat
  hl_dp :: nat
  hadColon :: bool
  httpHeaderIdx :: nat
  lowerHeaderStr :: nat
  headerStr :: nat

text \<open>At a newline: the byte before it becomes the end of the line, and a new header starts.\<close>

definition newLine :: "headersLocals \<Rightarrow> headersLocals ub" where
  "newLine l =
    (if hl_idx l = 0 then None
     else
       do { d \<leftarrow> put_byte (hl_data l) (hl_idx l - 1) 0;
            let i = hl_idx l + 1;
            Some (l\<lparr>hl_data := d, hl_idx := i, httpHeaderIdx := httpHeaderIdx l + 1, hadColon := False,
                    hl_dp := i, lowerHeaderStr := i, headerStr := i\<rparr>) })"

text \<open>\<open>while (cp[1] == ' ')\<close>: there are at most as many rounds as bytes.\<close>

primrec skipSpaces :: "mem \<Rightarrow> nat \<Rightarrow> nat \<Rightarrow> nat ub" where
  "skipSpaces d cp 0 = None"
| "skipSpaces d cp (Suc k) =
    do { c \<leftarrow> byte_at d (cp + 1);
         if c = 32 then skipSpaces d (cp + 1) k else Some cp }"

definition headerColon :: "headersLocals \<Rightarrow> (errcode \<times> headersLocals) ub" where
  "headerColon l =
    do { d \<leftarrow> put_byte (hl_data l) (hl_idx l) 0;
         lower \<leftarrow> put_byte (hl_lower l) (hl_dp l) 0;
         let l = l\<lparr>hadColon := True, hl_data := d, hl_lower := lower\<rparr>;
         name \<leftarrow> string_at lower (lowerHeaderStr l);
         r \<leftarrow> getHttpHeaderKeyIdFromLowerKey name;
         case r of
           Inl rc \<Rightarrow> Some (rc, l)
         | Inr i \<Rightarrow>
             if httpHeaderIdx l < length (hl_headers l) then
               do { cp \<leftarrow> skipSpaces d (hl_idx l) (length d);
                    Some (COMP_MSG_ERR_OK, l\<lparr>hl_idx := cp, hl_headers := (hl_headers l)[httpHeaderIdx l :=
                            \<lparr>httpHeaderId = i, httpHeaderName = InData (headerStr l), httpHeaderValue = InData (cp + 1)\<rparr>]\<rparr>) }
             else None }"

definition tolower_c :: "u8 \<Rightarrow> u8" where
  "tolower_c c = (if 65 \<le> c \<and> c \<le> 90 then c - 65 + 97 else c)"

definition headerChar :: "headersLocals \<Rightarrow> (errcode \<times> headersLocals) ub" where
  "headerChar l =
    do { c \<leftarrow> byte_at (hl_data l) (hl_idx l);
         if httpHeaderIdx l > 0 \<and> \<not> hadColon l \<and> c = of_char CHR '':'' then headerColon l
         else do { lower \<leftarrow> put_byte (hl_lower l) (hl_dp l) (if httpHeaderIdx l > 0 then tolower_c c else c);
                   Some (COMP_MSG_ERR_OK, l\<lparr>hl_lower := lower\<rparr>) } }"

definition headerNewLine :: "headersLocals \<Rightarrow> headersLocals ub" where
  "headerNewLine l = do { c \<leftarrow> byte_at (hl_data l) (hl_idx l); if c = 10 then newLine l else Some l }"

lemma skipSpaces_ge: "skipSpaces d cp k = Some cp' \<Longrightarrow> cp \<le> cp'"
  by (induction k arbitrary: cp) (fastforce simp: Option.bind_eq_Some_conv split: if_splits)+

lemma headerNewLine_idx: "headerNewLine l = Some l' \<Longrightarrow> hl_idx l \<le> hl_idx l'"
  by (auto simp: headerNewLine_def newLine_def Let_def Option.bind_eq_Some_conv split: if_splits)

lemma headerColon_idx:
  assumes "headerColon l = Some (rc, l')"
  shows "hl_idx l \<le> hl_idx l'"
proof -
  obtain d lower name r where "put_byte (hl_data l) (hl_idx l) 0 = Some d" "put_byte (hl_lower l) (hl_dp l) 0 = Some lower"
    "string_at lower (lowerHeaderStr l) = Some name" "getHttpHeaderKeyIdFromLowerKey name = Some r"
    using assms by (auto simp: headerColon_def Let_def Option.bind_eq_Some_conv)
  with assms show ?thesis
    by (cases r) (auto simp: headerColon_def Let_def Option.bind_eq_Some_conv dest: skipSpaces_ge split: if_splits)
qed

lemma headerChar_idx: "headerChar l = Some (rc, l') \<Longrightarrow> hl_idx l \<le> hl_idx l'"
  by (auto simp: headerChar_def Option.bind_eq_Some_conv dest: headerColon_idx split: if_splits)

text \<open>The loop goes on until the end of the header; every round moves on.\<close>

function headersLoop :: "nat \<Rightarrow> headersLocals \<Rightarrow> (errcode \<times> headersLocals) ub" where
  "headersLoop headerLgth l =
    (if hl_idx l < headerLgth then
       do { l1 \<leftarrow> headerNewLine l;
            r \<leftarrow> headerChar l1;
            case r of (rc, l2) \<Rightarrow>
              if rc \<noteq> COMP_MSG_ERR_OK then Some (rc, l2)
              else headersLoop headerLgth (l2\<lparr>hl_dp := hl_dp l2 + 1, hl_idx := hl_idx l2 + 1\<rparr>) }
     else Some (COMP_MSG_ERR_OK, l))"
  by pat_completeness auto

termination
proof (relation "measure (\<lambda>(headerLgth, l). headerLgth - hl_idx l)", simp)
  fix headerLgth l l1 r rc l2
  assume "hl_idx l < headerLgth" "headerNewLine l = Some l1" "headerChar l1 = Some r" "(rc, l2) = r"
  moreover from this have "hl_idx l \<le> hl_idx l1" "hl_idx l1 \<le> hl_idx l2"
    by (auto dest: headerNewLine_idx headerChar_idx)
  ultimately show "((headerLgth, l2\<lparr>hl_dp := hl_dp l2 + 1, hl_idx := hl_idx l2 + 1\<rparr>), headerLgth, l)
      \<in> measure (\<lambda>(headerLgth, l). headerLgth - hl_idx l)"
    by auto
qed

declare headersLoop.simps [simp del]

text \<open>The allocation of \<open>lowerData\<close> is not tested.\<close>

definition getHttpHeaders :: "bool \<Rightarrow> httpMsgInfo \<Rightarrow> size_t \<Rightarrow> (errcode \<times> httpMsgInfo) ub" where
  "getHttpHeaders ok info sz =
    (if \<not> ok then None
     else
       do { d \<leftarrow> h_data info;
            hs \<leftarrow> receivedHeaders info;
            headerLgth \<leftarrow> content info;
            (rc, l) \<leftarrow> headersLoop headerLgth \<lparr>hl_data = d, hl_lower = replicate (unat (sz + 1)) 0, hl_headers = hs,
                        hl_idx = 0, hl_dp = 0, hadColon = False, httpHeaderIdx = 0, lowerHeaderStr = 0, headerStr = 0\<rparr>;
            Some (rc, info\<lparr>h_data := Some (hl_data l), lowerData := Some (hl_lower l), receivedHeaders := Some (hl_headers l)\<rparr>) })"

text \<open>The loop of \<open>httpParse\<close> over the headers, from \<open>idx\<close> on with \<open>k\<close> to go.\<close>

primrec contentLgthLoop :: "httpMsgInfo \<Rightarrow> nat \<Rightarrow> nat \<Rightarrow> httpMsgInfo ub" where
  "contentLgthLoop info idx 0 = Some info"
| "contentLgthLoop info idx (Suc k) =
    do { hs \<leftarrow> receivedHeaders info;
         if idx \<ge> length hs then None
         else if httpHeaderId (hs ! idx) = COMP_MSG_HTTP_CONTENT_LENGTH \<and> expectedLgth info = 0 then
           case httpHeaderValue (hs ! idx) of
             InData off \<Rightarrow>
               do { d \<leftarrow> h_data info;
                    s \<leftarrow> string_at d off;
                    contentLgthLoop (info\<lparr>expectedLgth := strtoul s 10\<rparr>) (idx + 1) k }
           | _ \<Rightarrow> None
         else contentLgthLoop info (idx + 1) k }"

subsection \<open>A message\<close>

text \<open>\<open>addRequestData\<close> for the socket of the message.\<close>

definition handOver :: "allocs \<Rightarrow> u8 \<Rightarrow> httpDispatcher \<Rightarrow> socketUserData \<Rightarrow> u8 \<Rightarrow> mem \<Rightarrow> size_t \<Rightarrow> (errcode \<times> httpDispatcher) ub" where
  "handOver ok h disp sud dir msgData msgLgth =
    do { _ \<leftarrow> hdrHandleType disp;
         (rc, q) \<leftarrow> addRequestData ok h (hd_requests disp) COMP_MSG_INPUT_NET_SOCKET (Some (sud_id sud)) msgData (ucast msgLgth);
         Some (rc, disp\<lparr>hdrHandleType := Some (of_char CHR ''W''), hd_sud := Some (sud_id sud), direction := dir,
                        receivedData := Some msgData, receivedLgth := ucast msgLgth, hd_requests := q\<rparr>) }"

text \<open>What \<open>httpParse\<close> does with the body, by code and kind of connection.\<close>

definition httpBody :: "allocs \<Rightarrow> u8 \<Rightarrow> httpDispatcher \<Rightarrow> socketUserData \<Rightarrow> httpMsgInfo \<Rightarrow> (errcode \<times> httpDispatcher) ub" where
  "httpBody ok h disp sud info =
    (if httpRequestCode info = 200 \<and> connectionType sud = NET_SOCKET_TYPE_SOCKET then
       do { d \<leftarrow> h_data info;
            off \<leftarrow> content info;
            enc \<leftarrow> rd_block d (word_of_nat off) (unat (h_currLgth info));
            r \<leftarrow> fromBase64 (ok 3) enc;
            case r of
              Inl rc \<Rightarrow> Some (rc, disp)
            | Inr msg \<Rightarrow> handOver (\<lambda>i. ok (i + 4)) h disp sud COMP_MSG_RECEIVED_DATA msg (word_of_nat (length msg)) }
     else if httpRequestCode info = 0 \<and> (connectionType sud = WEB_SOCKET_TYPE_CLIENT \<or> connectionType sud = NET_SOCKET_TYPE_CLIENT)
         \<and> h_currLgth info > 0 then
       do { d \<leftarrow> h_data info;
            off \<leftarrow> content info;
            handOver (\<lambda>i. ok (i + 4)) h disp sud COMP_MSG_TRANSFER_DATA (drop off d) (h_currLgth info) }
     else Some (COMP_MSG_ERR_OK, disp))"

text \<open>The lines of the message, up to the loop that looks for its length.\<close>

definition httpLines :: "allocs \<Rightarrow> httpMsgInfo \<Rightarrow> mem \<Rightarrow> size_t \<Rightarrow> (errcode \<times> httpMsgInfo) ub" where
  "httpLines ok info data sz =
    (if \<not> ok 0 then Some (DATA_VIEW_ERR_OUT_OF_MEMORY, info\<lparr>h_data := None\<rparr>)
     else
       do { bs \<leftarrow> rd_block data 0 (unat sz);
            d \<leftarrow> wr_block (replicate (unat (sz + 1)) 0) 0 bs;
            checkErrOK (getContentAndNumHeaders (info\<lparr>h_data := Some d, content := None\<rparr>) sz) (\<lambda>info.
              if \<not> ok 1 then Some (DATA_VIEW_ERR_OUT_OF_MEMORY, info\<lparr>receivedHeaders := None\<rparr>)
              else checkErrOK (getHttpRequestCode (info\<lparr>receivedHeaders := Some (replicate (unat (numHeaders info)) zeroHeaderPart)\<rparr>))
                (\<lambda>info. checkErrOK (getHttpHeaders (ok 2) info sz)
                  (\<lambda>info. do { info \<leftarrow> contentLgthLoop info 0 (unat (numHeaders info)); Some (COMP_MSG_ERR_OK, info) }))) })"

definition httpParse ::
  "allocs \<Rightarrow> u8 \<Rightarrow> httpDispatcher \<Rightarrow> socketUserData \<Rightarrow> mem \<Rightarrow> size_t \<Rightarrow> (errcode \<times> httpDispatcher \<times> socketUserData) ub" where
  "httpParse ok h disp sud data sz =
    (let n = unat (numHttpMsgInfos sud) in
     if n \<ge> length (httpMsgInfos sud) then None
     else
       do { (rc, info) \<leftarrow> httpLines ok (httpMsgInfos sud ! n) data sz;
            let sud = sud\<lparr>httpMsgInfos := (httpMsgInfos sud)[n := info]\<rparr>;
            if rc \<noteq> COMP_MSG_ERR_OK then Some (rc, disp, sud)
            else
              do { (rc, disp) \<leftarrow> httpBody ok h disp sud info;
                   if rc \<noteq> COMP_MSG_ERR_OK then Some (rc, disp, sud)
                   else Some (COMP_MSG_ERR_OK, disp,
                          sud\<lparr>httpMsgInfos := (httpMsgInfos sud)[n := info\<lparr>expectedLgth := 0\<rparr>]\<rparr>) } })"

definition getHttpGetHeaderValueForId :: "socketUserData \<Rightarrow> u8 \<Rightarrow> (errcode + httpPtr) ub" where
  "getHttpGetHeaderValueForId sud i =
    (let n = unat (numHttpMsgInfos sud) in
     if n \<ge> length (httpMsgInfos sud) then None
     else
       let info = httpMsgInfos sud ! n;
           hs = (case receivedHeaders info of None \<Rightarrow> [] | Some hs \<Rightarrow> map Def hs) in
       do { m \<leftarrow> scan hs (\<lambda>p. httpHeaderId p = i) 0 (unat (numHeaders info));
            Some (case m of Some (_, p) \<Rightarrow> Inr (httpHeaderValue p) | None \<Rightarrow> Inl COMP_MSG_ERR_FIELD_NOT_FOUND) })"

text \<open>The function has no return statement, and the pointer \<open>content\<close> is left as it is.\<close>

definition deleteHttpMsgInfo :: "socketUserData \<Rightarrow> socketUserData ub" where
  "deleteHttpMsgInfo sud =
    (let n = unat (numHttpMsgInfos sud) in
     if n \<ge> length (httpMsgInfos sud) then None
     else Some (sud\<lparr>httpMsgInfos := (httpMsgInfos sud)[n := (httpMsgInfos sud ! n)
                 \<lparr>receivedHeaders := None, h_data := None, lowerData := None\<rparr>]\<rparr>))"

end
