(* ===== verification/CompMsgHttpLines.thy ===== *)
theory CompMsgHttpLines
  imports CompMsgHttp
begin

text \<open>
  What \<open>httpParse\<close> makes of the lines of a message that is written as the protocol says.
\<close>

subsection \<open>Messages\<close>

text \<open>A header line: name, number of blanks behind the colon, val.\<close>

type_synonym httpHeader = "mem \<times> nat \<times> mem"

definition header_line :: "httpHeader \<Rightarrow> mem" where
  "header_line = (\<lambda>(name, blanks, val). name @ 58 # replicate blanks 32 @ val @ [13, 10])"

definition http_text :: "mem \<Rightarrow> httpHeader list \<Rightarrow> mem \<Rightarrow> mem" where
  "http_text status hs body = status @ [13, 10] @ concat (map header_line hs) @ [13, 10] @ body"

text \<open>The line as it is left, and its entry when it starts at \<open>off\<close>.\<close>

definition split_line :: "httpHeader \<Rightarrow> mem" where
  "split_line = (\<lambda>(name, blanks, val). name @ 0 # replicate blanks 32 @ val @ [0, 10])"

definition key_id :: "mem \<Rightarrow> u8 option" where
  "key_id name = map_of (map (\<lambda>(lower, key, i). (lower, i)) httpHeaderKeyInfos) (chars (map tolower_c name))"

definition header_shape :: "httpHeader \<Rightarrow> bool" where
  "header_shape = (\<lambda>(name, blanks, val). name \<noteq> [] \<and> 0 \<notin> set name \<and> 10 \<notin> set name \<and> 58 \<notin> set name
     \<and> 0 \<notin> set val \<and> 10 \<notin> set val \<and> (val = [] \<or> val ! 0 \<noteq> 32))"

definition header_ok :: "httpHeader \<Rightarrow> bool" where
  "header_ok x \<longleftrightarrow> header_shape x \<and> key_id (fst x) \<noteq> None"

lemmas header_defs = header_ok_def header_shape_def

definition header_part :: "nat \<Rightarrow> httpHeader \<Rightarrow> httpHeaderPart" where
  "header_part off = (\<lambda>(name, blanks, val). \<lparr>httpHeaderId = the (key_id name), httpHeaderName = InData off,
     httpHeaderValue = InData (off + length name + 1 + blanks)\<rparr>)"

primrec header_parts :: "nat \<Rightarrow> httpHeader list \<Rightarrow> httpHeaderPart list" where
  "header_parts off [] = []"
| "header_parts off (x # hs) = header_part off x # header_parts (off + length (header_line x)) hs"

lemma length_split_line: "length (split_line x) = length (header_line x)"
  by (cases x) (simp add: split_line_def header_line_def)

lemma length_header_parts [simp]: "length (header_parts off hs) = length hs"
  by (induction hs arbitrary: off) simp_all

subsection \<open>Finding the end of the header\<close>

lemma contentLoop_run:
  "10 \<notin> set xs \<Longrightarrow> contentLoop (pre @ xs @ rest) (length pre) nl n (length xs + k)
    = contentLoop (pre @ xs @ rest) (length pre + length xs) nl n k"
proof (induction xs arbitrary: pre)
  case (Cons x xs)
  from Cons.IH [of "pre @ [x]"] Cons.prems show ?case by (simp add: byte_at_def nth_append)
qed simp

lemma contentLoop_line:
  assumes "10 \<notin> set xs"
  shows "contentLoop (pre @ xs @ 10 # rest) (length pre) nl n (length xs + Suc k)
    = (if length pre + length xs - nl < 3 then Some (n, Some (length pre + length xs))
       else contentLoop (pre @ xs @ 10 # rest) (length pre + length xs + 1) (length pre + length xs) (n + 1) k)"
  unfolding contentLoop_run [OF assms] by (simp add: byte_at_def nth_append)

lemma header_shape_line:
  assumes "header_shape x"
  obtains xs where "header_line x = xs @ [10]" "10 \<notin> set xs" "2 \<le> length xs"
  using that assms by (cases x) (auto simp: header_shape_def header_line_def Suc_le_eq)

lemma contentLoop_headers:
  assumes "\<forall>x \<in> set hs. header_shape x" "pre \<noteq> []"
  shows "contentLoop (pre @ concat (map header_line hs) @ 13 # 10 # rest) (length pre) (length pre - 1) n
      (length (concat (map header_line hs)) + (2 + k))
    = Some (n + word_of_nat (length hs), Some (length (pre @ concat (map header_line hs)) + 1))"
  using assms
proof (induction hs arbitrary: pre n)
  case Nil
  have "Suc (length pre) - (length pre - Suc 0) < 3" by arith
  then show ?case using contentLoop_line [of "[13]" pre rest "length pre - 1" n k] by simp
next
  case (Cons x hs)
  obtain xs where xs: "header_line x = xs @ [10]" "10 \<notin> set xs" "2 \<le> length xs"
    using Cons.prems(1) by (auto elim: header_shape_line)
  let ?rest = "concat (map header_line hs) @ 13 # 10 # rest"
  have "contentLoop (pre @ xs @ 10 # ?rest) (length pre) (length pre - 1) n (length xs + Suc (length (concat (map header_line hs)) + (2 + k)))
    = contentLoop (pre @ xs @ 10 # ?rest) (length pre + length xs + 1) (length pre + length xs) (n + 1)
        (length (concat (map header_line hs)) + (2 + k))"
    using xs(3) Cons.prems(2) by (subst contentLoop_line [OF xs(2)]) (cases pre; simp)
  also have "\<dots> = Some (n + 1 + word_of_nat (length hs), Some (length ((pre @ xs @ [10]) @ concat (map header_line hs)) + 1))"
    using Cons.IH [of "pre @ xs @ [10]" "n + 1"] Cons.prems(1) by simp
  finally show ?case by (simp add: xs(1) add.assoc del: contentLoop.simps)
qed

lemma contentLoop_text:
  assumes "10 \<notin> set status" "2 \<le> length status" "\<forall>x \<in> set hs. header_shape x"
  shows "contentLoop (http_text status hs body @ [0]) 0 0 0 (length (http_text status hs body))
    = Some (word_of_nat (Suc (length hs)), Some (length status + 3 + length (concat (map header_line hs))))"
proof -
  let ?hs = "concat (map header_line hs)" and ?s = "status @ [13]"
  have "contentLoop ([] @ ?s @ 10 # ?hs @ 13 # 10 # body @ [0]) (length ([] :: mem)) 0 0 (length ?s + Suc (length ?hs + (2 + length body)))
    = contentLoop ((?s @ [10]) @ ?hs @ 13 # 10 # body @ [0]) (length (?s @ [10])) (length (?s @ [10]) - 1) 1 (length ?hs + (2 + length body))"
    using assms(1,2) by (subst contentLoop_line) auto
  also have "\<dots> = Some (1 + word_of_nat (length hs), Some (length ((?s @ [10]) @ ?hs) + 1))"
    using assms(3) by (intro contentLoop_headers) simp_all
  finally show ?thesis by (simp add: http_text_def add.assoc)
qed

subsection \<open>Splitting the lines\<close>

text \<open>
  The position of the loop: the bytes in front of it and from it on.  The copy in lower case is as long as
  the message and never written behind the position.
\<close>

definition loop_at :: "mem \<Rightarrow> mem \<Rightarrow> headersLocals \<Rightarrow> bool" where
  "loop_at pre rest l \<longleftrightarrow> hl_data l = pre @ rest \<and> hl_idx l = length pre \<and> hl_dp l \<le> length pre
     \<and> length (hl_lower l) = length (pre @ rest)"

definition copied :: "headersLocals \<Rightarrow> u8 \<Rightarrow> u8" where
  "copied l c = (if httpHeaderIdx l > 0 then tolower_c c else c)"

definition plain_char :: "headersLocals \<Rightarrow> u8 \<Rightarrow> bool" where
  "plain_char l c \<longleftrightarrow> c \<noteq> 10 \<and> (c = 58 \<longrightarrow> httpHeaderIdx l = 0 \<or> hadColon l)"

definition passed :: "mem \<Rightarrow> headersLocals \<Rightarrow> headersLocals" where
  "passed xs l = l\<lparr>hl_lower := put (hl_lower l) (hl_dp l) (map (copied l) xs), hl_dp := hl_dp l + length xs, hl_idx := hl_idx l + length xs\<rparr>"

lemma of_char_colon [simp]: "of_char CHR '':'' = (58 :: u8)"
  by (simp add: of_char_def)

lemma headersLoop_char:
  assumes "loop_at pre (c # rest) l" "plain_char l c" "length pre < n"
  shows "headersLoop n l = headersLoop n (passed [c] l)"
proof -
  have c: "byte_at (hl_data l) (hl_idx l) = Some c" using assms(1) by (simp add: loop_at_def byte_at_def)
  then have "headerNewLine l = Some l" using assms(2) by (simp add: headerNewLine_def plain_char_def)
  moreover have "headerChar l = Some (COMP_MSG_ERR_OK, l\<lparr>hl_lower := (hl_lower l)[hl_dp l := copied l c]\<rparr>)"
    using assms(1,2) c by (auto simp: headerChar_def plain_char_def put_byte_def loop_at_def copied_def)
  ultimately show ?thesis
    using assms(1,3) by (subst headersLoop.simps) (simp add: loop_at_def passed_def)
qed

lemma loop_at_passed: "loop_at pre (xs @ rest) l \<Longrightarrow> loop_at (pre @ xs) rest (passed xs l)"
  by (simp add: loop_at_def passed_def)

lemma copied_passed [simp]: "copied (passed xs l) = copied l"
  by (simp add: copied_def passed_def fun_eq_iff)

lemma headersLoop_run:
  "loop_at pre (xs @ rest) l \<Longrightarrow> list_all (plain_char l) xs \<Longrightarrow> length (pre @ xs) \<le> n \<Longrightarrow>
   headersLoop n l = headersLoop n (passed xs l)"
proof (induction xs arbitrary: pre l)
  case Nil
  then show ?case by (cases l) (simp add: passed_def)
next
  case (Cons c xs)
  have "headersLoop n l = headersLoop n (passed [c] l)"
    using Cons.prems by (intro headersLoop_char [of pre c "xs @ rest"]) simp_all
  also have "\<dots> = headersLoop n (passed xs (passed [c] l))"
    using Cons.prems loop_at_passed [of pre "[c]" "xs @ rest" l]
    by (intro Cons.IH [of "pre @ [c]"]) (auto simp: passed_def plain_char_def list_all_iff)
  also have "passed xs (passed [c] l) = passed (c # xs) l"
    using copied_passed [of "[c]" l] by (simp add: passed_def)
  finally show ?case .
qed

text \<open>A newline; the loop goes on with the first byte of the next line.\<close>

definition next_line :: "headersLocals \<Rightarrow> headersLocals" where
  "next_line l = (let i = hl_idx l + 1 in
     l\<lparr>hl_data := (hl_data l)[hl_idx l - 1 := 0], hl_idx := i, httpHeaderIdx := httpHeaderIdx l + 1, hadColon := False,
       hl_dp := i, lowerHeaderStr := i, headerStr := i\<rparr>)"

lemma headersLoop_newline:
  assumes "loop_at (pre @ [b]) (10 # c # rest) l" "c \<noteq> 10" "length pre + 2 < n"
  shows "headersLoop n l = headersLoop n (next_line l)" "loop_at (pre @ [0, 10]) (c # rest) (next_line l)"
proof -
  show at: "loop_at (pre @ [0, 10]) (c # rest) (next_line l)"
    using assms(1) by (simp add: loop_at_def next_line_def Let_def list_update_append)
  have "headerNewLine l = Some (next_line l)"
    using assms(1) by (auto simp: loop_at_def headerNewLine_def newLine_def next_line_def byte_at_def put_byte_def nth_append Let_def)
  moreover have "headerNewLine (next_line l) = Some (next_line l)"
    using at assms(2) by (simp add: loop_at_def headerNewLine_def byte_at_def nth_append)
  moreover have "hl_idx l < n" "hl_idx (next_line l) < n" using assms(1,3) at by (simp_all add: loop_at_def)
  ultimately show "headersLoop n l = headersLoop n (next_line l)"
    by (subst headersLoop.simps, subst (2) headersLoop.simps) simp
qed

text \<open>The colon: the name is looked up and the val starts behind the blanks.\<close>

lemma skipSpaces_blanks:
  "rest \<noteq> [] \<Longrightarrow> rest ! 0 \<noteq> 32 \<Longrightarrow> blanks < k \<Longrightarrow> skipSpaces (pre @ x # replicate blanks 32 @ rest) (length pre) k = Some (length pre + blanks)"
proof (induction blanks arbitrary: pre x k)
  case 0
  then show ?case by (cases k) (auto simp: byte_at_def nth_append neq_Nil_conv)
next
  case (Suc blanks)
  then obtain k' where "k = Suc k'" by (cases k) auto
  with Suc.IH [of k' "pre @ [x]" 32] Suc.prems show ?case by (simp add: byte_at_def nth_append)
qed

lemma chars_append [simp]: "chars (xs @ ys) = chars xs @ chars ys" "chars [] = []"
  by (simp_all add: chars_def)

lemma string_at_name:
  "0 \<notin> set xs \<Longrightarrow> string_at (pre @ xs @ 0 # rest) (length pre) = Some (chars xs)"
  by (simp add: string_at_def c_bytes_append)

lemma headerKey:
  "key_id name = Some i \<Longrightarrow> getHttpHeaderKeyIdFromLowerKey (chars (map tolower_c name)) = Some (Inr i)"
  "key_id name = None \<Longrightarrow> getHttpHeaderKeyIdFromLowerKey (chars (map tolower_c name)) = Some (Inl COMP_MSG_ERR_HEADER_NOT_FOUND)"
  unfolding getHttpHeaderKeyIdFromLowerKey_def key_id_def search_str_map_of by simp_all

lemma put_append: "off + length bs \<le> length m \<Longrightarrow> put m off bs = take off m @ bs @ drop (off + length bs) m"
  by (rule nth_equalityI) (auto simp: nth_put nth_append)

lemma tolower_c_0 [simp]: "tolower_c c = 0 \<longleftrightarrow> c = 0"
proof (cases "65 \<le> c \<and> c \<le> 90")
  case True
  then have "65 \<le> unat c" "unat c \<le> 90" by (simp_all add: word_le_nat_alt)
  then have "unat (c - 65 + 97) = unat c + 32" by (simp add: unat_word_ariths)
  then show ?thesis using True \<open>65 \<le> unat c\<close> by (auto simp: tolower_c_def dest: arg_cong [where f = unat])
qed (auto simp: tolower_c_def)

text \<open>The start of a header line.\<close>

definition line_start :: "mem \<Rightarrow> mem \<Rightarrow> headersLocals \<Rightarrow> bool" where
  "line_start pre rest l \<longleftrightarrow> loop_at pre rest l \<and> hl_dp l = length pre \<and> lowerHeaderStr l = length pre \<and> headerStr l = length pre
     \<and> \<not> hadColon l \<and> 0 < httpHeaderIdx l"

lemma passed_simps [simp]:
  "hl_data (passed xs l) = hl_data l" "hl_headers (passed xs l) = hl_headers l" "hl_idx (passed xs l) = hl_idx l + length xs"
  "hl_dp (passed xs l) = hl_dp l + length xs" "hadColon (passed xs l) = hadColon l" "httpHeaderIdx (passed xs l) = httpHeaderIdx l"
  "lowerHeaderStr (passed xs l) = lowerHeaderStr l" "headerStr (passed xs l) = headerStr l"
  "hl_lower (passed xs l) = put (hl_lower l) (hl_dp l) (map (copied l) xs)"
  by (simp_all add: passed_def)

lemma line_start_next: "loop_at pre rest (next_line l) \<Longrightarrow> line_start pre rest (next_line l)"
proof -
  assume at: "loop_at pre rest (next_line l)"
  have "hl_dp (next_line l) = hl_idx (next_line l)" "lowerHeaderStr (next_line l) = hl_idx (next_line l)"
    "headerStr (next_line l) = hl_idx (next_line l)" "\<not> hadColon (next_line l)" "0 < httpHeaderIdx (next_line l)"
    by (simp_all add: next_line_def Let_def)
  with at show ?thesis by (simp add: line_start_def loop_at_def)
qed

text \<open>The name in lower case, as it is looked up at the colon.\<close>

lemma lower_name:
  assumes "line_start pre (name @ c # rest) l" "0 \<notin> set name"
  shows "\<exists>lower. put_byte (hl_lower (passed name l)) (hl_dp (passed name l)) 0 = Some lower
    \<and> string_at lower (lowerHeaderStr l) = Some (chars (map tolower_c name)) \<and> length lower = length (hl_lower l)"
proof -
  let ?low = "hl_lower l" and ?k = "length pre + length name"
  have l: "length ?low = length pre + length name + Suc (length rest)" "hl_dp l = length pre" "lowerHeaderStr l = length pre"
    "copied l = tolower_c"
    using assms(1) by (auto simp: line_start_def loop_at_def copied_def)
  then have drop: "drop ?k ?low = ?low ! ?k # drop (Suc ?k) ?low" by (simp add: Cons_nth_drop_Suc)
  have "hl_lower (passed name l) = take (length pre) ?low @ map tolower_c name @ drop ?k ?low"
    using l by (simp add: put_append)
  then have "put_byte (hl_lower (passed name l)) (hl_dp (passed name l)) 0
      = Some (take (length pre) ?low @ map tolower_c name @ 0 # drop (Suc ?k) ?low)"
    using l by (simp add: put_byte_def drop list_update_append)
  moreover have "string_at (take (length pre) ?low @ map tolower_c name @ 0 # drop (Suc ?k) ?low) (length (take (length pre) ?low))
      = Some (chars (map tolower_c name))"
    using assms(2) by (intro string_at_name) auto
  ultimately show ?thesis using l by simp
qed

lemma headersLoop_colon:
  assumes start: "line_start pre (name @ 58 # replicate blanks 32 @ val @ [13] @ rest) l"
    and ok: "header_ok (name, blanks, val)" and j: "httpHeaderIdx l < length (hl_headers l)" and n: "length pre + length name < n"
  shows "\<exists>l'. headersLoop n (passed name l) = headersLoop n l'
    \<and> loop_at (pre @ name @ 0 # replicate blanks 32) (val @ [13] @ rest) l' \<and> hadColon l' \<and> httpHeaderIdx l' = httpHeaderIdx l
    \<and> hl_headers l' = (hl_headers l)[httpHeaderIdx l := header_part (length pre) (name, blanks, val)]"
proof -
  let ?l = "passed name l" and ?rest = "val @ [13] @ rest"
  have at: "loop_at (pre @ name) (58 # replicate blanks 32 @ ?rest) ?l"
    using start by (intro loop_at_passed) (simp add: line_start_def)
  obtain lower where lower: "put_byte (hl_lower ?l) (hl_dp ?l) 0 = Some lower" "length lower = length (hl_lower l)"
    "string_at lower (lowerHeaderStr l) = Some (chars (map tolower_c name))"
    using lower_name [of pre name 58 _ l] start ok by (auto simp: header_defs)
  obtain i where i: "key_id name = Some i" using ok by (auto simp: header_defs)
  let ?d = "(pre @ name) @ 0 # replicate blanks 32 @ ?rest" and ?cp = "length (pre @ name) + blanks"
  have "skipSpaces ?d (length (pre @ name)) (length ?d) = Some ?cp"
    using ok by (intro skipSpaces_blanks) (auto simp: header_defs nth_append)
  moreover have "put_byte (hl_data ?l) (hl_idx ?l) 0 = Some ?d" "hl_idx ?l = length (pre @ name)"
    using at by (simp_all add: loop_at_def put_byte_def list_update_append)
  moreover have "headerNewLine ?l = Some ?l" "headerChar ?l = headerColon ?l"
    using at start by (auto simp: headerNewLine_def headerChar_def byte_at_def loop_at_def line_start_def nth_append)
  ultimately have "headersLoop n ?l = headersLoop n (?l\<lparr>hadColon := True, hl_data := ?d, hl_lower := lower,
      hl_headers := (hl_headers l)[httpHeaderIdx l := header_part (length pre) (name, blanks, val)], hl_dp := hl_dp ?l + 1, hl_idx := ?cp + 1\<rparr>)"
    using lower headerKey(1) [OF i] j n start
    by (subst headersLoop.simps) (simp add: headerColon_def Let_def header_part_def i line_start_def)
  then show ?thesis using start lower by (intro exI conjI) (assumption, auto simp: line_start_def loop_at_def)
qed

lemma headersLoop_header:
  assumes start: "line_start pre (header_line x @ c # rest) l" and ok: "header_ok x"
    and j: "httpHeaderIdx l < length (hl_headers l)" and c: "c \<noteq> 10" and n: "length pre + length (header_line x) < n"
  shows "\<exists>l'. headersLoop n l = headersLoop n l' \<and> line_start (pre @ split_line x) (c # rest) l'
    \<and> httpHeaderIdx l' = Suc (httpHeaderIdx l) \<and> hl_headers l' = (hl_headers l)[httpHeaderIdx l := header_part (length pre) x]"
proof -
  obtain name blanks val where x: "x = (name, blanks, val)" by (metis surj_pair)
  let ?rest = "10 # c # rest"
  have start': "line_start pre (name @ 58 # replicate blanks 32 @ val @ [13] @ ?rest) l"
    using start by (simp add: x header_line_def)
  have "list_all (plain_char l) name" using start ok by (auto simp: list_all_iff plain_char_def header_defs x line_start_def)
  then have 1: "headersLoop n l = headersLoop n (passed name l)"
    using start' n by (intro headersLoop_run) (auto simp: line_start_def x header_line_def)
  obtain l1 where l1: "headersLoop n (passed name l) = headersLoop n l1" "hadColon l1" "httpHeaderIdx l1 = httpHeaderIdx l"
    "loop_at (pre @ name @ 0 # replicate blanks 32) ((val @ [13]) @ ?rest) l1"
    "hl_headers l1 = (hl_headers l)[httpHeaderIdx l := header_part (length pre) x]"
    using headersLoop_colon [OF start' ok [unfolded x] j, of n] n by (auto simp: x header_line_def)
  have "list_all (plain_char l1) (val @ [13])" using l1(2) ok by (auto simp: list_all_iff plain_char_def header_defs x)
  with l1(4) n have 2: "headersLoop n l1 = headersLoop n (passed (val @ [13]) l1)"
    by (intro headersLoop_run) (auto simp: x header_line_def)
  have "loop_at ((pre @ name @ 0 # replicate blanks 32 @ val) @ [13]) (10 # c # rest) (passed (val @ [13]) l1)"
    using loop_at_passed [OF l1(4)] by simp
  note nl = headersLoop_newline [OF this c, of n]
  have pre: "(pre @ name @ 0 # replicate blanks 32 @ val) @ [0, 10] = pre @ split_line x" by (simp add: x split_line_def)
  have 3: "headersLoop n (passed (val @ [13]) l1) = headersLoop n (next_line (passed (val @ [13]) l1))"
    using n by (intro nl(1)) (simp add: x header_line_def)
  have at: "loop_at (pre @ split_line x) (c # rest) (next_line (passed (val @ [13]) l1))"
    using nl(2) n unfolding pre by (simp add: x header_line_def)
  then have "line_start (pre @ split_line x) (c # rest) (next_line (passed (val @ [13]) l1))"
    by (rule line_start_next)
  then show ?thesis using 1 l1 2 3 by (intro exI [of _ "next_line (passed (val @ [13]) l1)"]) (simp add: next_line_def Let_def)
qed

lemma headersLoop_headers:
  assumes "line_start pre (concat (map header_line hs) @ c # rest) l" "\<forall>x \<in> set hs. header_ok x" "c \<noteq> 10"
    and "httpHeaderIdx l + length hs \<le> length (hl_headers l)" "length pre + length (concat (map header_line hs)) < n"
  shows "\<exists>l'. headersLoop n l = headersLoop n l' \<and> line_start (pre @ concat (map split_line hs)) (c # rest) l'
    \<and> hl_headers l' = take (httpHeaderIdx l) (hl_headers l) @ header_parts (length pre) hs
        @ drop (httpHeaderIdx l + length hs) (hl_headers l)"
  using assms
proof (induction hs arbitrary: pre l)
  case Nil
  then show ?case by auto
next
  case (Cons x hs)
  obtain c' rest' where c': "concat (map header_line hs) @ c # rest = c' # rest'" "c' \<noteq> 10"
  proof (cases hs)
    case Nil
    then show ?thesis using that Cons.prems(3) by simp
  next
    case (Cons y ys)
    obtain name blanks val where "y = (name, blanks, val)" by (metis surj_pair)
    moreover have "header_ok y" using Cons.prems(2) \<open>hs = y # ys\<close> by simp
    ultimately show ?thesis using that \<open>hs = y # ys\<close> by (cases name) (auto simp: header_defs header_line_def)
  qed
  let ?j = "httpHeaderIdx l"
  obtain l1 where l1: "headersLoop n l = headersLoop n l1" "line_start (pre @ split_line x) (c' # rest') l1"
    "httpHeaderIdx l1 = Suc ?j" "hl_headers l1 = (hl_headers l)[?j := header_part (length pre) x]"
    using headersLoop_header [of pre x c' rest' l n] Cons.prems c' by auto
  have "\<exists>l'. headersLoop n l1 = headersLoop n l' \<and> line_start ((pre @ split_line x) @ concat (map split_line hs)) (c # rest) l'
      \<and> hl_headers l' = take (httpHeaderIdx l1) (hl_headers l1) @ header_parts (length (pre @ split_line x)) hs
        @ drop (httpHeaderIdx l1 + length hs) (hl_headers l1)"
    using l1 Cons.prems c'(1) by (intro Cons.IH) (simp_all add: length_split_line)
  moreover have "take (Suc ?j) ((hl_headers l)[?j := header_part (length pre) x]) = take ?j (hl_headers l) @ [header_part (length pre) x]"
    using Cons.prems(4) by (simp add: take_Suc_conv_app_nth)
  ultimately show ?case using l1 by (simp add: length_split_line)
qed

subsection \<open>The whole header\<close>

text \<open>The block before the lines are split, when the end of the header is found, and after it.\<close>

definition ended_text :: "mem \<Rightarrow> httpHeader list \<Rightarrow> mem \<Rightarrow> mem" where
  "ended_text status hs body = status @ [13, 10] @ concat (map header_line hs) @ [13, 0] @ body @ [0]"

definition split_text :: "mem \<Rightarrow> httpHeader list \<Rightarrow> mem \<Rightarrow> mem" where
  "split_text status hs body = status @ [0, 10] @ concat (map split_line hs) @ [13, 0] @ body @ [0]"

definition headers0 :: "mem \<Rightarrow> mem \<Rightarrow> httpHeaderPart list \<Rightarrow> headersLocals" where
  "headers0 d lower ps = \<lparr>hl_data = d, hl_lower = lower, hl_headers = ps, hl_idx = 0, hl_dp = 0, hadColon = False,
     httpHeaderIdx = 0, lowerHeaderStr = 0, headerStr = 0\<rparr>"

lemma header_line_no_newline:
  "\<forall>x \<in> set hs. header_shape x \<Longrightarrow> \<exists>c rest. concat (map header_line hs) @ 13 # xs = c # rest \<and> c \<noteq> 10"
proof (cases hs)
  case (Cons y ys)
  assume "\<forall>x \<in> set hs. header_shape x"
  moreover obtain name blanks val where "y = (name, blanks, val)" by (metis surj_pair)
  ultimately show ?thesis using Cons by (cases name) (auto simp: header_shape_def header_line_def)
qed simp

lemma split_text_body: "drop (length status + 4 + length (concat (map header_line hs))) (split_text status hs body) = body @ [0]"
proof -
  have "length (concat (map split_line hs)) = length (concat (map header_line hs))"
    by (simp add: length_concat comp_def length_split_line)
  then have "length status + 4 + length (concat (map header_line hs)) = length (status @ [0, 10] @ concat (map split_line hs) @ [13, 0])"
    by simp
  moreover have "split_text status hs body = (status @ [0, 10] @ concat (map split_line hs) @ [13, 0]) @ body @ [0]"
    by (simp add: split_text_def)
  moreover have "drop (length xs) (xs @ ys) = ys" for xs ys :: mem by simp
  ultimately show ?thesis by (simp only:)
qed

lemma headersLoop_status:
  assumes "10 \<notin> set status" "length lower = length d" "d = status @ [13, 10] @ c # rest" "c \<noteq> 10" "length status + 2 < n"
  shows "\<exists>l. headersLoop n (headers0 d lower ps) = headersLoop n l \<and> line_start (status @ [0, 10]) (c # rest) l
    \<and> httpHeaderIdx l = 1 \<and> hl_headers l = ps"
proof -
  let ?l0 = "headers0 d lower ps"
  have "loop_at [] ((status @ [13]) @ 10 # c # rest) ?l0"
    using assms(2,3) by (simp add: loop_at_def headers0_def)
  moreover have "list_all (plain_char ?l0) (status @ [13])"
    using assms(1) by (auto simp: list_all_iff plain_char_def headers0_def)
  ultimately have 1: "headersLoop n ?l0 = headersLoop n (passed (status @ [13]) ?l0)"
    and at: "loop_at (status @ [13]) (10 # c # rest) (passed (status @ [13]) ?l0)"
    using headersLoop_run [of "[]" "status @ [13]" "10 # c # rest" ?l0 n] loop_at_passed [of "[]" "status @ [13]" "10 # c # rest" ?l0] assms(5)
    by simp_all
  let ?l1 = "next_line (passed (status @ [13]) ?l0)"
  have "headersLoop n (passed (status @ [13]) ?l0) = headersLoop n ?l1" "line_start (status @ [0, 10]) (c # rest) ?l1"
    using headersLoop_newline [OF at assms(4), of n] line_start_next assms(5) by simp_all
  moreover have "httpHeaderIdx ?l1 = 1" "hl_headers ?l1 = ps" by (simp_all add: next_line_def Let_def headers0_def)
  ultimately show ?thesis using 1 by auto
qed

lemma headersLoop_text:
  assumes "10 \<notin> set status" "\<forall>x \<in> set hs. header_ok x"
    and "length lower = length (ended_text status hs body)" "length ps = Suc (length hs)"
    and n: "n = length status + 4 + length (concat (map header_line hs))"
  shows "\<exists>l. headersLoop n (headers0 (ended_text status hs body) lower ps) = Some (COMP_MSG_ERR_OK, l)
    \<and> hl_data l = split_text status hs body \<and> hl_headers l = take 1 ps @ header_parts (length status + 2) hs"
proof -
  let ?l0 = "headers0 (ended_text status hs body) lower ps"
  let ?rest = "concat (map header_line hs) @ [13, 0] @ body @ [0]"
  obtain c rest where c: "?rest = c # rest" "c \<noteq> 10"
    using header_line_no_newline [of hs] assms(2) by (fastforce simp: header_ok_def)
  have "ended_text status hs body = status @ [13, 10] @ c # rest" using c(1) by (simp add: ended_text_def)
  then obtain l1 where l1: "headersLoop n ?l0 = headersLoop n l1" "line_start (status @ [0, 10]) (concat (map header_line hs) @ 13 # 0 # body @ [0]) l1"
    "httpHeaderIdx l1 = 1" "hl_headers l1 = ps"
    using headersLoop_status [OF assms(1,3) _ c(2), of rest n ps] c(1) n by auto
  obtain l2 where l2: "headersLoop n l1 = headersLoop n l2"
    "line_start ((status @ [0, 10]) @ concat (map split_line hs)) (13 # 0 # body @ [0]) l2"
    "hl_headers l2 = take 1 ps @ header_parts (length (status @ [0, 10])) hs @ drop (1 + length hs) ps"
    using headersLoop_headers [OF l1(2) assms(2), of n] l1(3,4) assms(4) n by auto
  let ?pre = "(status @ [0, 10]) @ concat (map split_line hs)"
  have len: "length ?pre + 2 = n"
  proof -
    have "length (concat (map split_line hs)) = length (concat (map header_line hs))"
      by (simp add: length_concat comp_def length_split_line)
    then show ?thesis by (simp add: n)
  qed
  have 3: "headersLoop n l2 = headersLoop n (passed [13, 0] l2)" "loop_at (?pre @ [13, 0]) (body @ [0]) (passed [13, 0] l2)"
    using headersLoop_run [of ?pre "[13, 0]" "body @ [0]" l2 n] loop_at_passed [of ?pre "[13, 0]" "body @ [0]" l2] l2(2) len
    by (simp_all add: line_start_def plain_char_def)
  then have "headersLoop n (passed [13, 0] l2) = Some (COMP_MSG_ERR_OK, passed [13, 0] l2)"
    using len by (subst headersLoop.simps) (simp add: loop_at_def)
  then show ?thesis using l1(1) l2 3 assms(4) by (auto simp: loop_at_def split_text_def)
qed

text \<open>What the entries show: names and values of the headers as strings.\<close>

definition part_shows :: "mem \<Rightarrow> httpHeaderPart \<Rightarrow> httpHeader \<Rightarrow> bool" where
  "part_shows d p = (\<lambda>(name, blanks, val). Some (httpHeaderId p) = key_id name
     \<and> (\<exists>off. httpHeaderName p = InData off \<and> string_at d off = Some (chars name))
     \<and> (\<exists>off. httpHeaderValue p = InData off \<and> string_at d off = Some (chars val)))"

lemma part_value:
  assumes "list_all2 (part_shows d) ps hs" "p \<in> set ps"
  shows "\<exists>off s. httpHeaderValue p = InData off \<and> string_at d off = Some s"
proof -
  have "\<exists>x. part_shows d p x" using assms by (induction rule: list_all2_induct) auto
  then show ?thesis by (auto simp: part_shows_def)
qed

lemma header_part_shows:
  assumes "header_ok x"
  shows "part_shows (pre @ split_line x @ rest) (header_part (length pre) x) x"
proof -
  obtain name blanks val where x: "x = (name, blanks, val)" by (metis surj_pair)
  have "string_at (pre @ name @ 0 # replicate blanks 32 @ val @ [0, 10] @ rest) (length pre) = Some (chars name)"
    using assms by (intro string_at_name) (simp add: header_defs x)
  moreover have "string_at ((pre @ name @ 0 # replicate blanks 32) @ val @ 0 # 10 # rest) (length (pre @ name @ 0 # replicate blanks 32)) = Some (chars val)"
    using assms by (intro string_at_name) (simp add: header_defs x)
  ultimately show ?thesis using assms
    by (auto simp: part_shows_def header_part_def x split_line_def header_defs add.assoc)
qed

lemma header_parts_show:
  "\<forall>x \<in> set hs. header_ok x \<Longrightarrow>
   list_all2 (part_shows (pre @ concat (map split_line hs) @ rest)) (header_parts (length pre) hs) hs"
proof (induction hs arbitrary: pre)
  case (Cons x hs)
  then show ?case using header_part_shows [of x pre "concat (map split_line hs) @ rest"] Cons.IH [of "pre @ split_line x"]
    by (simp add: length_split_line)
qed simp

text \<open>Looking for the length of the content only changes that length.\<close>

lemma contentLgthLoop_returns:
  assumes "receivedHeaders info = Some ps" "h_data info = Some d"
    and "\<forall>p \<in> set ps. httpHeaderId p = COMP_MSG_HTTP_CONTENT_LENGTH \<longrightarrow> (\<exists>off s. httpHeaderValue p = InData off \<and> string_at d off = Some s)"
  shows "idx + k \<le> length ps \<Longrightarrow> \<exists>e. contentLgthLoop info idx k = Some (info\<lparr>expectedLgth := e\<rparr>)"
  using assms(1,2)
proof (induction k arbitrary: idx info)
  case 0
  then show ?case by (intro exI [of _ "expectedLgth info"]) simp
next
  case (Suc k)
  have p: "ps ! idx \<in> set ps" using Suc.prems(1) by simp
  have "\<exists>e. contentLgthLoop (info\<lparr>expectedLgth := v\<rparr>) (idx + 1) k = Some (info\<lparr>expectedLgth := v, expectedLgth := e\<rparr>)" for v
    using Suc.prems by (intro Suc.IH) simp_all
  moreover have "\<exists>e. contentLgthLoop info (idx + 1) k = Some (info\<lparr>expectedLgth := e\<rparr>)"
    using Suc.prems by (intro Suc.IH) simp_all
  ultimately show ?case using Suc.prems assms(3) p
    by (cases "httpHeaderId (ps ! idx) = COMP_MSG_HTTP_CONTENT_LENGTH \<and> expectedLgth info = 0") auto
qed

text \<open>The code: the number behind the first blank of the first line.\<close>

lemma codeLoop_blank:
  assumes "10 \<notin> set xs" "32 \<notin> set xs" "0 \<notin> set ys"
  shows "length xs < k \<Longrightarrow> codeLoop (pre @ xs @ 32 # ys @ 0 # rest) (length pre) k = Some (Some (strtoul (chars ys) 10))"
  using assms(1,2)
proof (induction xs arbitrary: pre k)
  case Nil
  have "string_at ((pre @ [32]) @ ys @ 0 # rest) (length (pre @ [32])) = Some (chars ys)" by (rule string_at_name [OF assms(3)])
  then show ?case using Nil by (cases k) (simp_all add: byte_at_def nth_append)
next
  case (Cons x xs)
  then obtain k' where "k = Suc k'" by (cases k) auto
  then show ?case using Cons.IH [of k' "pre @ [x]"] Cons.prems by (simp add: byte_at_def nth_append)
qed

text \<open>
  A message as the protocol writes it: a first line with a blank in it, header lines with known names, and less
  than 255 of them.
\<close>

definition http_shape :: "mem \<Rightarrow> mem \<Rightarrow> httpHeader list \<Rightarrow> mem \<Rightarrow> bool" where
  "http_shape first rest hs body \<longleftrightarrow> 10 \<notin> set first \<and> 32 \<notin> set first \<and> 0 \<notin> set rest \<and> 10 \<notin> set rest \<and> 1 \<le> length (first @ rest)
     \<and> (\<forall>x \<in> set hs. header_shape x) \<and> length hs < 255 \<and> length (http_text (first @ 32 # rest) hs body) < 2 ^ 32 - 1"

definition http_ok :: "mem \<Rightarrow> mem \<Rightarrow> httpHeader list \<Rightarrow> mem \<Rightarrow> bool" where
  "http_ok first rest hs body \<longleftrightarrow> http_shape first rest hs body \<and> (\<forall>x \<in> set hs. header_ok x)"

definition http_parsed :: "mem \<Rightarrow> mem \<Rightarrow> httpHeader list \<Rightarrow> mem \<Rightarrow> httpMsgInfo \<Rightarrow> bool" where
  "http_parsed first rest hs body info \<longleftrightarrow>
     unat (numHeaders info) = Suc (length hs) \<and> unat (h_currLgth info) = length body
     \<and> httpRequestCode info = strtoul (chars (rest @ [13, 10] @ concat (map header_line hs) @ [13])) 10
     \<and> (\<exists>d off p ps. h_data info = Some d \<and> content info = Some off \<and> off < 2 ^ 32 \<and> drop off d = body @ [0]
          \<and> receivedHeaders info = Some (p # ps) \<and> httpHeaderId p = COMP_MSG_HTTP_CODE \<and> list_all2 (part_shows d) ps hs)"

lemma header_line_no_zero: "\<forall>x \<in> set hs. header_shape x \<Longrightarrow> 0 \<notin> set (concat (map header_line hs))"
  by (auto simp: header_shape_def header_line_def split: prod.splits)

lemma copied_block:
  assumes "length text < 2 ^ 32 - 1"
  shows "rd_block text 0 (unat (word_of_nat (length text) :: u32)) = Some text"
    and "wr_block (replicate (unat (word_of_nat (length text) + 1 :: u32)) 0) 0 text = Some (text @ [0])"
proof -
  have n: "unat (word_of_nat (length text) :: u32) = length text" "unat (word_of_nat (length text) + 1 :: u32) = Suc (length text)"
    using assms by (simp_all add: unat_of_nat unat_word_ariths)
  then show "rd_block text 0 (unat (word_of_nat (length text) :: u32)) = Some text" by (simp add: rd_block_def)
  show "wr_block (replicate (unat (word_of_nat (length text) + 1 :: u32)) 0) 0 text = Some (text @ [0])"
    unfolding n(2) by (simp add: wr_block_def put_append drop_replicate del: replicate_Suc) simp
qed

lemma ended_text_upd:
  "(http_text status hs body @ [0])[length status + 3 + length (concat (map header_line hs)) := 0] = ended_text status hs body"
  by (simp add: http_text_def ended_text_def list_update_append)

lemma getContent_text:
  assumes "10 \<notin> set status" "2 \<le> length status" "\<forall>x \<in> set hs. header_shape x" "length (http_text status hs body) < 2 ^ 32 - 1"
    and "h_data info = Some (http_text status hs body @ [0])"
  shows "getContentAndNumHeaders info (word_of_nat (length (http_text status hs body))) = Some (COMP_MSG_ERR_OK,
    info\<lparr>numHeaders := word_of_nat (Suc (length hs)), h_data := Some (ended_text status hs body),
      content := Some (length status + 4 + length (concat (map header_line hs))), h_currLgth := word_of_nat (length body)\<rparr>)"
proof -
  have n: "unat (word_of_nat (length (http_text status hs body)) :: u32) = length (http_text status hs body)"
    using assms(4) by (simp add: unat_of_nat)
  have "(word_of_nat (length (http_text status hs body)) - word_of_nat (length status + 4 + length (concat (map header_line hs))) :: u32)
      = word_of_nat (length body)"
    by (simp add: http_text_def)
  then show ?thesis
    unfolding getContentAndNumHeaders_def n assms(5) using contentLoop_text [OF assms(1-3), of body] ended_text_upd
    by (simp add: Let_def ac_simps del: of_nat_Suc of_nat_add)
qed

lemma getCode_text:
  assumes "http_shape first rest hs body" "h_data info = Some (ended_text (first @ 32 # rest) hs body)" "receivedHeaders info = Some (p # ps)"
  shows "getHttpRequestCode info = Some (COMP_MSG_ERR_OK, info\<lparr>receivedHeaders := Some (\<lparr>httpHeaderId = COMP_MSG_HTTP_CODE,
      httpHeaderName = Literal ''Code'', httpHeaderValue = InData 0\<rparr> # ps),
    httpRequestCode := strtoul (chars (rest @ [13, 10] @ concat (map header_line hs) @ [13])) 10\<rparr>)"
proof -
  let ?ys = "rest @ [13, 10] @ concat (map header_line hs) @ [13]"
  have d: "ended_text (first @ 32 # rest) hs body = [] @ first @ 32 # ?ys @ 0 # body @ [0]" by (simp add: ended_text_def)
  have ys: "0 \<notin> set ?ys" using assms(1) header_line_no_zero [of hs] by (simp add: http_shape_def)
  have "codeLoop (ended_text (first @ 32 # rest) hs body) 0 (length (ended_text (first @ 32 # rest) hs body)) = Some (Some (strtoul (chars ?ys) 10))"
    unfolding d using codeLoop_blank [OF _ _ ys, of first "length ([] @ first @ 32 # ?ys @ 0 # body @ [0])" "[]"] assms(1)
    by (simp add: http_shape_def del: codeLoop.simps)
  then show ?thesis using assms(2,3) by (simp add: getHttpRequestCode_def Let_def)
qed

lemma getHeaders_text:
  assumes "http_ok first rest hs body" "h_data info = Some (ended_text (first @ 32 # rest) hs body)"
    and "receivedHeaders info = Some (p # ps)" "length ps = length hs"
    and "content info = Some (length (first @ 32 # rest) + 4 + length (concat (map header_line hs)))"
  shows "\<exists>lower. getHttpHeaders True info (word_of_nat (length (http_text (first @ 32 # rest) hs body))) = Some (COMP_MSG_ERR_OK,
    info\<lparr>h_data := Some (split_text (first @ 32 # rest) hs body), lowerData := Some lower,
      receivedHeaders := Some (p # header_parts (length (first @ 32 # rest) + 2) hs)\<rparr>)"
proof -
  let ?st = "first @ 32 # rest"
  let ?n = "unat (word_of_nat (length (http_text ?st hs body)) + 1 :: u32)"
  have "?n = length (ended_text ?st hs body)"
    using assms(1) by (simp add: http_ok_def http_shape_def unat_word_ariths unat_of_nat ended_text_def http_text_def)
  then obtain l where "headersLoop (length ?st + 4 + length (concat (map header_line hs)))
      (headers0 (ended_text ?st hs body) (replicate ?n 0) (p # ps)) = Some (COMP_MSG_ERR_OK, l)"
    "hl_data l = split_text ?st hs body" "hl_headers l = p # header_parts (length ?st + 2) hs"
    using headersLoop_text [of ?st hs "replicate ?n 0" body "p # ps"] assms(1,4) by (auto simp: http_ok_def http_shape_def)
  then show ?thesis using assms(2-5) by (intro exI [of _ "hl_lower l"]) (simp add: getHttpHeaders_def headers0_def)
qed

text \<open>All up to the header lines; \<open>codeEntry\<close> is the entry of the first line.\<close>

definition codeEntry :: httpHeaderPart where
  "codeEntry = \<lparr>httpHeaderId = COMP_MSG_HTTP_CODE, httpHeaderName = Literal ''Code'', httpHeaderValue = InData 0\<rparr>"

definition counted :: "mem \<Rightarrow> mem \<Rightarrow> httpHeader list \<Rightarrow> mem \<Rightarrow> httpMsgInfo \<Rightarrow> httpMsgInfo" where
  "counted first rest hs body info = info\<lparr>h_data := Some (ended_text (first @ 32 # rest) hs body),
     content := Some (length (first @ 32 # rest) + 4 + length (concat (map header_line hs))), numHeaders := word_of_nat (Suc (length hs)),
     h_currLgth := word_of_nat (length body), receivedHeaders := Some (codeEntry # replicate (length hs) zeroHeaderPart),
     httpRequestCode := strtoul (chars (rest @ [13, 10] @ concat (map header_line hs) @ [13])) 10\<rparr>"

lemma http_counted:
  assumes "http_shape first rest hs body" "ok 0" "ok 1" "ok 2" and t: "text = http_text (first @ 32 # rest) hs body"
  shows "httpLines ok info text (word_of_nat (length text)) =
    checkErrOK (getHttpHeaders True (counted first rest hs body info) (word_of_nat (length text)))
      (\<lambda>info. do { info \<leftarrow> contentLgthLoop info 0 (unat (numHeaders info)); Some (COMP_MSG_ERR_OK, info) })"
    and "unat (numHeaders (counted first rest hs body info)) = Suc (length hs)"
proof -
  let ?st = "first @ 32 # rest" and ?sz = "word_of_nat (length text) :: u32"
  let ?off = "length ?st + 4 + length (concat (map header_line hs))"
  have st: "10 \<notin> set ?st" "2 \<le> length ?st" "\<forall>x \<in> set hs. header_shape x" "length text < 2 ^ 32 - 1" and len: "length hs < 255"
    using assms(1) by (auto simp: http_shape_def t)
  define info1 where "info1 = info\<lparr>h_data := Some (ended_text ?st hs body), content := Some ?off, numHeaders := word_of_nat (Suc (length hs)),
    h_currLgth := word_of_nat (length body)\<rparr>"
  have 1: "getContentAndNumHeaders (info\<lparr>h_data := Some (text @ [0]), content := None\<rparr>) ?sz = Some (COMP_MSG_ERR_OK, info1)"
    using getContent_text [OF st(1,2)] st(3,4) by (simp add: t info1_def)
  have n: "unat (numHeaders info1) = Suc (length hs)" using len by (simp add: info1_def unat_of_nat del: of_nat_Suc)
  have 2: "getHttpRequestCode (info1\<lparr>receivedHeaders := Some (replicate (unat (numHeaders info1)) zeroHeaderPart)\<rparr>)
      = Some (COMP_MSG_ERR_OK, counted first rest hs body info)"
    by (subst getCode_text [OF assms(1)]) (simp_all add: n counted_def codeEntry_def, simp_all add: info1_def)
  show "httpLines ok info text ?sz = checkErrOK (getHttpHeaders True (counted first rest hs body info) ?sz)
      (\<lambda>info. do { info \<leftarrow> contentLgthLoop info 0 (unat (numHeaders info)); Some (COMP_MSG_ERR_OK, info) })"
    using copied_block [OF st(4)] 1 2 assms(2-4) by (simp add: httpLines_def)
  show "unat (numHeaders (counted first rest hs body info)) = Suc (length hs)" using n by (simp add: counted_def info1_def)
qed

lemma http_lines:
  assumes http: "http_ok first rest hs body" and "ok 0" "ok 1" "ok 2" and t: "text = http_text (first @ 32 # rest) hs body"
  shows "\<exists>info'. httpLines ok info text (word_of_nat (length text)) = Some (COMP_MSG_ERR_OK, info') \<and> http_parsed first rest hs body info'"
proof -
  let ?st = "first @ 32 # rest" and ?sz = "word_of_nat (length text) :: u32" and ?ps = "header_parts (length (first @ 32 # rest) + 2) hs"
  let ?off = "length ?st + 4 + length (concat (map header_line hs))" and ?info = "counted first rest hs body info"
  have shape: "http_shape first rest hs body" and ok: "\<forall>x \<in> set hs. header_ok x" and "length text < 2 ^ 32 - 1"
    using http by (auto simp: http_ok_def http_shape_def t)
  note c = http_counted [OF shape assms(2-4) t, of info]
  obtain lower where h: "getHttpHeaders True ?info ?sz = Some (COMP_MSG_ERR_OK,
      ?info\<lparr>h_data := Some (split_text ?st hs body), lowerData := Some lower, receivedHeaders := Some (codeEntry # ?ps)\<rparr>)"
    using getHeaders_text [OF http, of ?info] by (auto simp: counted_def t)
  define info3 where "info3 = ?info\<lparr>h_data := Some (split_text ?st hs body), lowerData := Some lower, receivedHeaders := Some (codeEntry # ?ps)\<rparr>"
  have parts: "list_all2 (part_shows (split_text ?st hs body)) ?ps hs"
    using header_parts_show [OF ok, of "?st @ [0, 10]" "[13, 0] @ body @ [0]"] by (simp add: split_text_def)
  then have "\<exists>off s. httpHeaderValue q = InData off \<and> string_at (split_text ?st hs body) off = Some s" if "q \<in> set ?ps" for q
    using that by (rule part_value)
  then obtain e where "contentLgthLoop info3 0 (unat (numHeaders info3)) = Some (info3\<lparr>expectedLgth := e\<rparr>)"
    using contentLgthLoop_returns [of info3 "codeEntry # ?ps" "split_text ?st hs body" 0 "unat (numHeaders info3)"] c(2)
    by (auto simp: info3_def codeEntry_def)
  then have "httpLines ok info text ?sz = Some (COMP_MSG_ERR_OK, info3\<lparr>expectedLgth := e\<rparr>)"
    using c(1) h by (simp add: info3_def)
  moreover have "unat (word_of_nat (length body) :: u32) = length body" "?off < 2 ^ 32"
    using \<open>length text < _\<close> by (auto simp: t http_text_def unat_of_nat)
  then have "http_parsed first rest hs body (info3\<lparr>expectedLgth := e\<rparr>)"
    using c(2) parts split_text_body [of ?st hs body] by (auto simp: http_parsed_def info3_def counted_def codeEntry_def)
  ultimately show ?thesis by blast
qed

text \<open>
  Claim C18.  The lines of a message.  For every message written as the protocol says whose header names are
  known, in any case, and whose body is arbitrary, the header is split and nothing outside the block is
  touched: the entries have the numbers of the names, the names and the values without leading
  blanks in the order of the lines, the code is the number behind the first blank, and the content is the
  body.
\<close>

theorem http_lines_parsed:
  assumes "http_ok first rest hs body" "ok 0" "ok 1" "ok 2" and t: "text = http_text (first @ 32 # rest) hs body"
  shows "\<exists>info'. httpLines ok info text (word_of_nat (length text)) = Some (COMP_MSG_ERR_OK, info') \<and> http_parsed first rest hs body info'"
  using assms by (rule http_lines)

text \<open>The lookup of an unknown name ends the loop.\<close>

definition unknown_header :: "httpHeader \<Rightarrow> bool" where
  "unknown_header x \<longleftrightarrow> header_shape x \<and> key_id (fst x) = None"

lemma headersLoop_unknown:
  assumes start: "line_start pre (header_line x @ rest) l" and "unknown_header x" "length pre + length (header_line x) \<le> n"
  shows "\<exists>l'. headersLoop n l = Some (COMP_MSG_ERR_HEADER_NOT_FOUND, l')"
proof -
  obtain name blanks val where x: "x = (name, blanks, val)" by (metis surj_pair)
  let ?rest = "replicate blanks 32 @ val @ [13, 10] @ rest" and ?l = "passed name l"
  have start': "line_start pre (name @ 58 # ?rest) l" using start by (simp add: x header_line_def)
  have shape: "0 \<notin> set name" "10 \<notin> set name" "58 \<notin> set name" "key_id name = None"
    using assms(2) by (auto simp: unknown_header_def header_shape_def x)
  then have "list_all (plain_char l) name" by (auto simp: list_all_iff plain_char_def)
  then have 1: "headersLoop n l = headersLoop n ?l"
    using start' assms(3) by (intro headersLoop_run) (auto simp: line_start_def x header_line_def)
  have at: "loop_at (pre @ name) (58 # ?rest) ?l" using start' by (intro loop_at_passed) (simp add: line_start_def)
  obtain lower where lower: "put_byte (hl_lower ?l) (hl_dp ?l) 0 = Some lower"
    "string_at lower (lowerHeaderStr l) = Some (chars (map tolower_c name))"
    using lower_name [OF start' shape(1)] by auto
  have "headerNewLine ?l = Some ?l" "headerChar ?l = headerColon ?l" "hl_idx ?l < n" "hl_idx ?l < length (hl_data ?l)"
    using at start' assms(3) by (auto simp: headerNewLine_def headerChar_def byte_at_def loop_at_def line_start_def nth_append x header_line_def)
  moreover from this have "\<exists>l'. headerColon ?l = Some (COMP_MSG_ERR_HEADER_NOT_FOUND, l')"
    using lower headerKey(2) [OF shape(4)] by (simp add: headerColon_def put_byte_def Let_def)
  ultimately show ?thesis unfolding 1 by (subst headersLoop.simps) auto
qed

lemma getHeaders_unknown:
  assumes "10 \<notin> set status" "\<forall>y \<in> set hs. header_ok y" "unknown_header x" "length (http_text status (hs @ x # hs') body) < 2 ^ 32 - 1"
    and "h_data info = Some (ended_text status (hs @ x # hs') body)" "receivedHeaders info = Some ps" "length hs < length ps"
    and n: "content info = Some (length status + 4 + length (concat (map header_line (hs @ x # hs'))))"
  shows "\<exists>info'. getHttpHeaders True info (word_of_nat (length (http_text status (hs @ x # hs') body))) = Some (COMP_MSG_ERR_HEADER_NOT_FOUND, info')"
proof -
  let ?d = "ended_text status (hs @ x # hs') body" and ?n = "length status + 4 + length (concat (map header_line (hs @ x # hs')))"
  let ?lower = "replicate (unat (word_of_nat (length (http_text status (hs @ x # hs') body)) + 1 :: u32)) (0 :: u8)"
  let ?rest = "concat (map header_line hs') @ [13, 0] @ body @ [0]"
  obtain c r where c: "header_line x @ ?rest = c # r" "c \<noteq> 10"
    using assms(3) by (cases "fst x") (auto simp: unknown_header_def header_shape_def header_line_def split: prod.splits)
  obtain c1 r1 where c1: "concat (map header_line hs) @ c # r = c1 # r1" "c1 \<noteq> 10"
  proof (cases hs)
    case (Cons y ys)
    then show ?thesis using that header_line_no_newline [of hs] assms(2)
      by (cases "fst y") (auto simp: header_defs header_line_def split: prod.splits)
  qed (use that c(2) in simp)
  have low: "length ?lower = length ?d"
    using assms(4) by (simp add: unat_word_ariths unat_of_nat ended_text_def http_text_def)
  have d: "?d = status @ [13, 10] @ c1 # r1" unfolding c1(1) [symmetric] c(1) [symmetric] by (simp add: ended_text_def)
  obtain l1 where l1: "headersLoop ?n (headers0 ?d ?lower ps) = headersLoop ?n l1"
    "line_start (status @ [0, 10]) (concat (map header_line hs) @ c # r) l1" "httpHeaderIdx l1 = 1" "hl_headers l1 = ps"
    using headersLoop_status [OF assms(1) low d c1(2), of ?n ps] c1(1) by auto
  obtain l2 where l2: "headersLoop ?n l1 = headersLoop ?n l2"
    "line_start ((status @ [0, 10]) @ concat (map split_line hs)) (header_line x @ ?rest) l2"
    using headersLoop_headers [OF l1(2) assms(2) c(2), of ?n] l1(3,4) assms(7) c(1) by auto
  have "length (concat (map split_line hs)) = length (concat (map header_line hs))"
    by (simp add: length_concat comp_def length_split_line)
  then obtain l3 where "headersLoop ?n l2 = Some (COMP_MSG_ERR_HEADER_NOT_FOUND, l3)"
    using headersLoop_unknown [OF l2(2) assms(3), of ?n] by auto
  then show ?thesis using l1(1) l2(1) assms(5,6) n by (simp add: getHttpHeaders_def headers0_def)
qed

text \<open>
  Claim C20.  One header line with a name that is not in the table, wherever it stands, makes the whole message
  be refused.
\<close>

theorem http_unknown_header:
  assumes "http_shape first rest (hs @ x # hs') body" "\<forall>y \<in> set hs. header_ok y" "unknown_header x" "ok 0" "ok 1" "ok 2"
    and t: "text = http_text (first @ 32 # rest) (hs @ x # hs') body"
  shows "\<exists>info'. httpLines ok info text (word_of_nat (length text)) = Some (COMP_MSG_ERR_HEADER_NOT_FOUND, info')"
proof -
  let ?info = "counted first rest (hs @ x # hs') body info" and ?st = "first @ 32 # rest"
  have "10 \<notin> set ?st" "length (http_text ?st (hs @ x # hs') body) < 2 ^ 32 - 1" using assms(1) by (auto simp: http_shape_def)
  then obtain info' where "getHttpHeaders True ?info (word_of_nat (length text)) = Some (COMP_MSG_ERR_HEADER_NOT_FOUND, info')"
    using getHeaders_unknown [of ?st hs x hs' body ?info] assms(2,3) by (auto simp: counted_def t)
  then show ?thesis using http_counted(1) [OF assms(1,4-6) t, of info] by simp
qed

definition http_bytes :: "string \<Rightarrow> mem" where
  "http_bytes cs = map of_char cs"

lemma char_of_32: "char_of (32 :: nat) = CHR '' ''"
  by code_simp

lemma strtoul_200: "strtoul (chars (map of_char ''200'' @ 32 # cs)) 10 = 200"
proof -
  have "chars (map of_char ''200'' @ 32 # cs) = ''200'' @ CHR '' '' # chars cs"
    unfolding chars_append chars_of_char using char_of_32 by (simp add: chars_def)
  then show ?thesis by (simp add: strtoul_def isspace_c_def digits_value_def digit_val_def)
qed

lemma http_parsed_value:
  assumes "http_parsed first rest hs body info" "httpMsgInfos sud = info # infos" "numHttpMsgInfos sud = 0"
    and "key_id (fst (hs ! i)) = Some k" "i < length hs" "k \<noteq> COMP_MSG_HTTP_CODE" "\<forall>j < i. key_id (fst (hs ! j)) \<noteq> Some k"
  shows "\<exists>off d. getHttpGetHeaderValueForId sud k = Some (Inr (InData off)) \<and> h_data info = Some d
    \<and> string_at d off = Some (chars (snd (snd (hs ! i))))"
proof -
  obtain d p ps where ps: "h_data info = Some d" "receivedHeaders info = Some (p # ps)" "httpHeaderId p = COMP_MSG_HTTP_CODE"
    "list_all2 (part_shows d) ps hs" "unat (numHeaders info) = Suc (length hs)"
    using assms(1) by (auto simp: http_parsed_def)
  have len: "length ps = length hs" using ps(4) by (rule list_all2_lengthD)
  have part: "part_shows d (ps ! j) (hs ! j)" if "j < length hs" for j using that ps(4) by (simp add: list_all2_conv_all_nth)
  then have ids: "Some (httpHeaderId (ps ! j)) = key_id (fst (hs ! j))" if "j < length hs" for j
    using that by (fastforce simp: part_shows_def split: prod.splits)
  obtain off where off: "httpHeaderValue (ps ! i) = InData off" "string_at d off = Some (chars (snd (snd (hs ! i))))"
    using part [OF assms(5)] by (auto simp: part_shows_def split: prod.splits)
  have "\<exists>j q. find_idx (\<lambda>q. httpHeaderId q = k) 0 (p # ps) = Some (j, q) \<and> httpHeaderValue q = InData off"
  proof (cases "find_idx (\<lambda>q. httpHeaderId q = k) 0 (p # ps)")
    case None
    then have "httpHeaderId (ps ! i) \<noteq> k" unfolding find_idx_None_iff using len assms(5) by simp
    then show ?thesis using ids [OF assms(5)] assms(4) by simp
  next
    case (Some r)
    obtain j q where r: "r = (j, q)" by fastforce
    have j: "j < Suc (length ps)" "q = (p # ps) ! j" "httpHeaderId q = k" "\<forall>m < j. httpHeaderId ((p # ps) ! m) \<noteq> k"
      using find_idx_SomeD [OF Some [unfolded r]] by auto
    then obtain j' where j': "j = Suc j'" using ps(3) assms(6) by (cases j) auto
    have "j' = i"
    proof (rule linorder_cases)
      assume "j' < i"
      then show ?thesis using ids [of j'] j(2,3) j' assms(5,7) by auto
    next
      assume "i < j'"
      then show ?thesis using ids [OF assms(5)] j(4) j' assms(4) by auto
    qed
    then show ?thesis using Some r j j' off(1) by simp
  qed
  then show ?thesis
    using assms(2,3) ps off(2) len scan_defined [of "p # ps" "[]" "\<lambda>q. httpHeaderId q = k"]
    by (auto simp: getHttpGetHeaderValueForId_def)
qed

text \<open>
  Claim C19.  From the cloud to the requests: the body of a response with code 200 on a client socket is decoded
  from Base64 and added to the request of the socket, as the requests promise.
\<close>

theorem http_delivers:
  assumes http: "http_ok first rest hs body" "rest = http_bytes ''200'' @ 32 # reason" "text = http_text (first @ 32 # rest) hs body"
    and "\<And>i. ok i" and sud: "httpMsgInfos sud = info # infos" "numHttpMsgInfos sud = 0" "connectionType sud = NET_SOCKET_TYPE_SOCKET"
    and "hdrHandleType disp \<noteq> None" and msg: "fromBase64 True body = Some (Inr msg)" "length msg < 65536"
    and q: "queue_rel xs (hd_requests disp)" "\<forall>(s, ds) \<in> set xs. length ds < unat h" "h \<noteq> 0"
    and spec: "spec_request (unat h) xs (sud_id sud) msg = Some (rc, xs')"
  shows "\<exists>disp' sud'. httpParse ok h disp sud text (word_of_nat (length text)) = Some (rc, disp', sud')
    \<and> queue_rel xs' (hd_requests disp') \<and> receivedData disp' = Some msg \<and> hd_sud disp' = Some (sud_id sud)
    \<and> direction disp' = COMP_MSG_RECEIVED_DATA"
proof -
  obtain info' where info': "httpLines ok info text (word_of_nat (length text)) = Some (COMP_MSG_ERR_OK, info')" "http_parsed first rest hs body info'"
    using http_lines [OF http(1), of ok "text" info] http(3) assms(4) by blast
  obtain d off where d: "h_data info' = Some d" "content info' = Some off" "off < 2 ^ 32" "drop off d = body @ [0]"
    and lgth: "unat (h_currLgth info') = length body"
    and code: "httpRequestCode info' = strtoul (chars (rest @ [13, 10] @ concat (map header_line hs) @ [13])) 10"
    using info'(2) by (auto simp: http_parsed_def)
  have "rd_block d (word_of_nat off) (length body) = Some body"
  proof -
    have "off + length body \<le> length d" using arg_cong [OF d(4), of length] by simp
    then show ?thesis using d(3,4) by (simp add: rd_block_def unat_of_nat)
  qed
  moreover have "httpRequestCode info' = 200"
  proof -
    have "rest @ [13, 10] @ concat (map header_line hs) @ [13] = map of_char ''200'' @ 32 # (reason @ [13, 10] @ concat (map header_line hs) @ [13])"
      unfolding http(2) http_bytes_def by (simp only: append.assoc append_Cons)
    then show ?thesis by (simp only: code strtoul_200)
  qed
  moreover obtain q' where "addRequestData (\<lambda>i. ok (i + 4)) h (hd_requests disp) COMP_MSG_INPUT_NET_SOCKET (Some (sud_id sud)) msg (word_of_nat (length msg))
      = Some (rc, q')" "queue_rel xs' q'"
    using request_step [OF q(1) _ _ _ _ q(2,3), of COMP_MSG_INPUT_NET_SOCKET "\<lambda>i. ok (i + 4)" msg "word_of_nat (length msg)" "sud_id sud"] msg(2) spec assms(4)
    by (auto simp: option_rel_Some1 unat_of_nat)
  moreover have "ucast (word_of_nat (length msg) :: u32) = (word_of_nat (length msg) :: u16)"
    by (rule bit_word_eqI) (simp add: bit_simps)
  ultimately show ?thesis
    using info'(1) d sud assms(4) assms(8) msg(1) lgth
    by (auto simp: httpParse_def httpBody_def handOver_def Let_def)
qed

text \<open>A response of the cloud with the bytes 1, 2 and 255.\<close>

definition cloudHeaders :: "httpHeader list" where
  "cloudHeaders = [(http_bytes ''Content-Length'', 1, http_bytes ''4''), (http_bytes ''HOST'', 0, http_bytes ''cloud'')]"

lemma cloud_ok: "http_ok (http_bytes ''HTTP/1.1'') (http_bytes ''200 OK'') cloudHeaders (http_bytes ''AQL/'')"
proof -
  have "list_all header_ok cloudHeaders" by code_simp
  then have "\<forall>x \<in> set cloudHeaders. header_ok x" by (simp add: list_all_iff)
  moreover have "10 \<notin> set (http_bytes ''HTTP/1.1'')" "32 \<notin> set (http_bytes ''HTTP/1.1'')" "0 \<notin> set (http_bytes ''200 OK'')"
    "10 \<notin> set (http_bytes ''200 OK'')" by code_simp+
  moreover have "length (http_text (http_bytes ''HTTP/1.1'' @ 32 # http_bytes ''200 OK'') cloudHeaders (http_bytes ''AQL/'')) = 54"
    by code_simp
  ultimately show ?thesis by (simp add: http_ok_def http_shape_def header_ok_def cloudHeaders_def http_bytes_def)
qed

definition httpInfo0 :: httpMsgInfo where
  "httpInfo0 = \<lparr>receivedHeaders = None, httpRequestCode = 0, numHeaders = 0, h_currLgth = 0, expectedLgth = 0, content = None,
     h_data = None, lowerData = None\<rparr>"

theorem http_lines_parsed_witness:
  "\<exists>info'. httpLines (\<lambda>_. True) httpInfo0 (http_text (http_bytes ''HTTP/1.1 200 OK'') cloudHeaders (http_bytes ''AQL/'')) 54
      = Some (COMP_MSG_ERR_OK, info') \<and> http_parsed (http_bytes ''HTTP/1.1'') (http_bytes ''200 OK'') cloudHeaders (http_bytes ''AQL/'') info'"
proof -
  let ?text = "http_text (http_bytes ''HTTP/1.1'' @ 32 # http_bytes ''200 OK'') cloudHeaders (http_bytes ''AQL/'')"
  have "?text = http_text (http_bytes ''HTTP/1.1 200 OK'') cloudHeaders (http_bytes ''AQL/'')" "length ?text = 54"
    by code_simp+
  with http_lines_parsed [OF cloud_ok, of "\<lambda>_. True" ?text httpInfo0] show ?thesis by simp
qed

theorem http_delivers_witness:
  "\<exists>disp' sud'. httpParse (\<lambda>_. True) 16 \<lparr>hdrHandleType = Some 0, hd_sud = None, direction = 0, receivedData = None, receivedLgth = 0,
       hd_requests = requests0\<rparr> \<lparr>sud_id = 7, connectionType = 1, numHttpMsgInfos = 0, httpMsgInfos = [httpInfo0]\<rparr>
       (http_text (http_bytes ''HTTP/1.1 200 OK'') cloudHeaders (http_bytes ''AQL/'')) 54 = Some (COMP_MSG_ERR_OK, disp', sud')
     \<and> queue_rel [(7, [1, 2, 255])] (hd_requests disp') \<and> receivedData disp' = Some [1, 2, 255]"
proof -
  let ?text = "http_text (http_bytes ''HTTP/1.1'' @ 32 # http_bytes ''200 OK'') cloudHeaders (http_bytes ''AQL/'')"
  let ?disp = "\<lparr>hdrHandleType = Some 0, hd_sud = None, direction = 0, receivedData = None, receivedLgth = 0, hd_requests = requests0\<rparr>"
  let ?sud = "\<lparr>sud_id = 7, connectionType = 1, numHttpMsgInfos = 0, httpMsgInfos = [httpInfo0]\<rparr>"
  have t: "?text = http_text (http_bytes ''HTTP/1.1 200 OK'') cloudHeaders (http_bytes ''AQL/'')" "length ?text = 54"
    "http_bytes ''200 OK'' = http_bytes ''200'' @ 32 # http_bytes ''OK''"
    by code_simp+
  have msg: "fromBase64 True (http_bytes ''AQL/'') = Some (Inr [1, 2, 255])"
  proof -
    have "http_bytes ''AQL/'' = toBase64_loop [1, 2, 255]" by code_simp
    then show ?thesis using fromBase64_toBase64_loop [of "[1, 2, 255]"] by (simp only: list.simps list.size) simp
  qed
  have spec: "spec_request (unat (16 :: u8)) [] 7 [1, 2, 255] = Some (COMP_MSG_ERR_OK, [(7, [1, 2, 255])])"
    by (simp add: spec_request_def add_piece_def)
  show ?thesis
    using http_delivers [OF cloud_ok t(3) refl, of "\<lambda>_. True" ?sud httpInfo0 "[]" ?disp "[1, 2, 255]" "[]" 16] queue_rel_requests0 t msg spec
    by auto
qed

theorem http_unknown_header_witness:
  "\<exists>info'. httpLines (\<lambda>_. True) httpInfo0 (http_text (http_bytes ''GET / HTTP/1.1'') (cloudHeaders @ [(http_bytes ''Referer'', 1, http_bytes ''a'')]) []) 61
      = Some (COMP_MSG_ERR_HEADER_NOT_FOUND, info')"
proof -
  let ?x = "(http_bytes ''Referer'', 1 :: nat, http_bytes ''a'')" and ?f = "http_bytes ''GET''" and ?r = "http_bytes ''/ HTTP/1.1''"
  let ?text = "http_text (?f @ 32 # ?r) (cloudHeaders @ [?x]) []"
  have t: "?text = http_text (http_bytes ''GET / HTTP/1.1'') (cloudHeaders @ [?x]) []" "length ?text = 61" by code_simp+
  have "list_all header_shape (cloudHeaders @ [?x])" "list_all header_ok cloudHeaders" "unknown_header ?x" by code_simp+
  moreover have "10 \<notin> set ?f" "32 \<notin> set ?f" "0 \<notin> set ?r" "10 \<notin> set ?r" "1 \<le> length (?f @ ?r)" "length (cloudHeaders @ [?x]) < 255" by code_simp+
  ultimately have "http_shape ?f ?r (cloudHeaders @ [?x]) []" "\<forall>y \<in> set cloudHeaders. header_ok y" "unknown_header ?x"
    using t(2) by (auto simp: http_shape_def list_all_iff)
  from http_unknown_header [OF this, of "\<lambda>_. True" ?text httpInfo0] t show ?thesis by simp
qed

end
