(* ===== verification/CompMsgAction.thy ===== *)
theory CompMsgAction
  imports CompMsgDataView
begin

text \<open>
  \<^verbatim>\<open>src/app/compMsg/compMsgAction.c\<close>: actions by name, the modes and command keys under which they are run, and
  \<open>runAction\<close>, which runs the action a received message asks for.

  \<^item> The static table \<open>actionName2Actions\<close> is part of the state, since \<open>setActionEntry\<close> writes mode and keys into it;
    its last entry, of null pointers, ends every search and is never changed.
  \<^item> An action is the address of its function.  What it does and returns is that of wifi, sockets and flash;
    \<open>ret\<close> gives the code each one returns, and the calls are recorded in \<open>ac_called\<close>.
\<close>

subsection \<open>State\<close>

datatype action = RunClientMode | RunAPMode | RunLightSleepWakeupMode | RunLightSleepNoWakeupMode | RunWpsMode
  | RunModulTestMode | RunDeletePasswdCMode | GetAPList | RunAPConnect | RunRestoreUserData | GetWifiSrcId

record actionName2Action =
  actionName :: string
  action :: action
  a_u16CmdKey :: u16
  a_u8CmdKey :: u8
  a_mode :: u8

definition actionEntry :: "string \<Rightarrow> action \<Rightarrow> u16 \<Rightarrow> u8 \<Rightarrow> actionName2Action" where
  "actionEntry name a key m = \<lparr>actionName = name, action = a, a_u16CmdKey = key, a_u8CmdKey = 0, a_mode = m\<rparr>"

definition actionName2Actions :: "actionName2Action list" where
  "actionName2Actions =
    [actionEntry ''runClientMode'' RunClientMode 0 0,
     actionEntry ''runAPMode'' RunAPMode 0 0,
     actionEntry ''runLightSleepWakeupMode'' RunLightSleepWakeupMode 0 0,
     actionEntry ''runLightSleepNoWakeupMode'' RunLightSleepNoWakeupMode 0 0,
     actionEntry ''runWpsMode'' RunWpsMode 0 0,
     actionEntry ''runTestMode'' RunModulTestMode 0 0,
     actionEntry ''runDeletePasswdCMode'' RunDeletePasswdCMode 0 0,
     actionEntry ''getAPList'' GetAPList 0 0,
     actionEntry ''runAPConnect'' RunAPConnect 0 0,
     actionEntry ''runRestoreUserData'' RunRestoreUserData 0 0,
     actionEntry ''getWifiSrcId'' GetWifiSrcId 0x4141 8]"

text \<open>
  \<open>actionEntries\<close> are pointers into the table, here indices; \<open>actionMode\<close> is that of the dispatcher, the last
  four components are those of \<open>compMsgData\<close>, with the static counters of the views.
\<close>

record actionState =
  actions :: "actionName2Action list"
  actionEntries :: "nat cell list"
  numActionEntries :: u8
  maxActionEntries :: u8
  actionMode :: u8
  ac_view :: "compMsgDataView option"
  ac_u16CmdKey :: u16
  ac_buf :: mem
  ac_receivedLgth :: u16
  ac_ids :: "u8 \<times> u8"
  ac_called :: "action list"

subsection \<open>Operations\<close>

definition compMsgActionInit :: "allocs \<Rightarrow> actionState \<Rightarrow> errcode \<times> actionState" where
  "compMsgActionInit ok st =
    (let st = st\<lparr>numActionEntries := 0, maxActionEntries := 10, actionEntries := []\<rparr> in
     if \<not> ok 0 then (DATA_VIEW_ERR_OUT_OF_MEMORY, st)
     else
       let st = st\<lparr>actionEntries := zalloc_cells 10 0\<rparr> in
       if \<not> ok 1 then (DATA_VIEW_ERR_OUT_OF_MEMORY, st) else (COMP_MSG_ERR_OK, st))"

definition getActionMode :: "actionState \<Rightarrow> string \<Rightarrow> errcode + u8" where
  "getActionMode st name =
    (case find_idx (\<lambda>e. actionName e = name) 0 (actions st) of
       Some (_, e) \<Rightarrow> Inr (a_mode e)
     | None \<Rightarrow> Inl COMP_MSG_ERR_ACTION_NAME_NOT_FOUND)"

definition getActionCallback :: "actionState \<Rightarrow> string \<Rightarrow> errcode + action" where
  "getActionCallback st name =
    (case find_idx (\<lambda>e. actionName e = name) 0 (actions st) of
       Some (_, e) \<Rightarrow> Inr (action e)
     | None \<Rightarrow> Inl COMP_MSG_ERR_ACTION_NAME_NOT_FOUND)"

definition getActionCallbackName :: "actionState \<Rightarrow> action \<Rightarrow> errcode + string" where
  "getActionCallbackName st callback =
    (case find_idx (\<lambda>e. action e = callback) 0 (actions st) of
       Some (_, e) \<Rightarrow> Inr (actionName e)
     | None \<Rightarrow> Inl COMP_MSG_ERR_ACTION_NAME_NOT_FOUND)"

text \<open>Room for one more pointer; the entry is written before the mode is tested.\<close>

definition growActionEntries :: "bool \<Rightarrow> actionState \<Rightarrow> errcode \<times> actionState" where
  "growActionEntries ok st =
    (if numActionEntries st \<ge> maxActionEntries st then
       let n = maxActionEntries st + 5; st = st\<lparr>maxActionEntries := n\<rparr> in
       if \<not> ok then (DATA_VIEW_ERR_OUT_OF_MEMORY, st\<lparr>actionEntries := []\<rparr>)
       else (COMP_MSG_ERR_OK, st\<lparr>actionEntries := realloc_cells (unat n) (actionEntries st)\<rparr>)
     else (COMP_MSG_ERR_OK, st))"

definition setActionEntry :: "bool \<Rightarrow> actionState \<Rightarrow> string \<Rightarrow> u8 \<Rightarrow> u8 \<Rightarrow> u16 \<Rightarrow> (errcode \<times> actionState) ub" where
  "setActionEntry ok st name m u8CmdKey u16CmdKey =
    checkErrOK (Some (growActionEntries ok st)) (\<lambda>st.
      case find_idx (\<lambda>e. actionName e = name) 0 (actions st) of
        None \<Rightarrow> Some (COMP_MSG_ERR_ACTION_NAME_NOT_FOUND, st)
      | Some (i, e) \<Rightarrow>
          do { ps \<leftarrow> wr_cell (actionEntries st) (unat (numActionEntries st)) i;
               let st = st\<lparr>actionEntries := ps\<rparr>;
               if a_mode e \<noteq> 0 then Some (COMP_MSG_ERR_DUPLICATE_ENTRY, st)
               else Some (COMP_MSG_ERR_OK,
                 st\<lparr>actions := (actions st)[i := e\<lparr>a_mode := m, a_u8CmdKey := u8CmdKey, a_u16CmdKey := u16CmdKey\<rparr>],
                    numActionEntries := numActionEntries st + 1\<rparr>) })"

text \<open>The loops of \<open>runAction\<close>: the first entry that fits is called; the view is released unless the call fails.\<close>

definition callAction :: "(action \<Rightarrow> errcode) \<Rightarrow> (actionName2Action \<Rightarrow> bool) \<Rightarrow> actionState \<Rightarrow> errcode \<times> actionState" where
  "callAction ret P st =
    (case find_idx P 0 (actions st) of
       Some (_, e) \<Rightarrow>
         let st = st\<lparr>ac_called := ac_called st @ [action e]\<rparr> in
         if ret (action e) \<noteq> COMP_MSG_ERR_OK then (ret (action e), st)
         else (COMP_MSG_ERR_OK, st\<lparr>ac_view := None\<rparr>)
     | None \<Rightarrow> (COMP_MSG_ERR_ACTION_NAME_NOT_FOUND, st\<lparr>ac_view := None\<rparr>))"

definition runAction :: "allocs \<Rightarrow> (action \<Rightarrow> errcode) \<Rightarrow> actionState \<Rightarrow> (errcode \<times> actionState) ub" where
  "runAction ok ret st =
    (let (rc, st) =
       (case ac_view st of
          Some _ \<Rightarrow> (COMP_MSG_ERR_OK, st)
        | None \<Rightarrow>
            (case newCompMsgDataView ok (fst (ac_ids st)) (snd (ac_ids st)) (ac_buf st) (ucast (ac_receivedLgth st)) of
               (a, b, view) \<Rightarrow>
                 (if view = None then DATA_VIEW_ERR_OUT_OF_MEMORY else COMP_MSG_ERR_OK, st\<lparr>ac_ids := (a, b), ac_view := view\<rparr>))) in
     if rc \<noteq> COMP_MSG_ERR_OK then Some (rc, st)
     else
       do { v \<leftarrow> ac_view st;
            if ac_u16CmdKey st = 0x4244 then
              do { r \<leftarrow> getUint8 (dataView v) 7;
                   Some (case r of
                     Inl rc \<Rightarrow> (rc, st)
                   | Inr m \<Rightarrow> callAction ret (\<lambda>e. a_u16CmdKey e = ac_u16CmdKey st \<and> m = a_mode e) st) }
            else if actionMode st = 8 \<or> actionMode st = 0 then Some (callAction ret (\<lambda>e. actionMode st = a_mode e) st)
            else Some (COMP_MSG_ERR_ACTION_NAME_NOT_FOUND, st\<lparr>ac_view := None\<rparr>) })"

subsection \<open>Registered actions\<close>

text \<open>
  A registration is a name with its mode and keys.  What the registrations \<open>reg\<close> make of the table, and
  the specification of one more.
\<close>

type_synonym registration = "string \<times> u8 \<times> u8 \<times> u16"

definition enter :: "registration \<Rightarrow> actionName2Action list \<Rightarrow> actionName2Action list" where
  "enter r t = (case r of (name, m, k8, k16) \<Rightarrow>
     map (\<lambda>e. if actionName e = name then e\<lparr>a_mode := m, a_u8CmdKey := k8, a_u16CmdKey := k16\<rparr> else e) t)"

definition table_of :: "registration list \<Rightarrow> actionName2Action list" where
  "table_of reg = fold enter reg actionName2Actions"

definition spec_register :: "registration list \<Rightarrow> registration \<Rightarrow> errcode \<times> registration list" where
  "spec_register reg r =
    (case find (\<lambda>e. actionName e = fst r) (table_of reg) of
       None \<Rightarrow> (COMP_MSG_ERR_ACTION_NAME_NOT_FOUND, reg)
     | Some e \<Rightarrow> if a_mode e \<noteq> 0 then (COMP_MSG_ERR_DUPLICATE_ENTRY, reg) else (COMP_MSG_ERR_OK, reg @ [r]))"

definition action_rel :: "registration list \<Rightarrow> actionState \<Rightarrow> bool" where
  "action_rel reg st \<longleftrightarrow> actions st = table_of reg \<and> unat (numActionEntries st) = length reg
     \<and> numActionEntries st \<le> maxActionEntries st \<and> length (actionEntries st) = unat (maxActionEntries st)
     \<and> 5 dvd unat (maxActionEntries st)
     \<and> (\<forall>i < length reg. \<exists>j < length (actions st). actionEntries st ! i = Def j \<and> actionName (actions st ! j) = fst (reg ! i))"

lemma names_enter [simp]: "map actionName (enter r t) = map actionName t"
  by (cases r) (simp add: enter_def comp_def if_distrib cong: if_cong)

lemma names_table_of: "map actionName (table_of reg) = map actionName actionName2Actions"
proof -
  have "map actionName (fold enter reg t) = map actionName t" for t by (induction reg arbitrary: t) simp_all
  then show ?thesis by (simp add: table_of_def)
qed

lemma distinct_names: "distinct (map actionName (table_of reg))"
  unfolding names_table_of by code_simp

lemma map_upd_unique:
  assumes "distinct (map g t)" "i < length t"
  shows "map (\<lambda>e. if g e = g (t ! i) then f e else e) t = t[i := f (t ! i)]"
proof (rule nth_equalityI)
  fix j assume "j < length (map (\<lambda>e. if g e = g (t ! i) then f e else e) t)"
  then have j: "j < length t" by simp
  then have "g (t ! j) = g (t ! i) \<longleftrightarrow> i = j" using nth_eq_iff_index_eq [OF assms(1), of i j] assms(2) by auto
  then show "map (\<lambda>e. if g e = g (t ! i) then f e else e) t ! j = t[i := f (t ! i)] ! j"
    using j by (auto simp: nth_list_update)
qed simp

lemma find_idx_find': "find P xs = map_option snd (find_idx P i xs)"
  by (induction xs arbitrary: i) simp_all

lemma grow_ok:
  assumes "action_rel reg st" "length reg < 255"
  shows "\<exists>st'. growActionEntries True st = (COMP_MSG_ERR_OK, st') \<and> action_rel reg st' \<and> numActionEntries st' < maxActionEntries st'
    \<and> st' = st\<lparr>maxActionEntries := maxActionEntries st', actionEntries := actionEntries st'\<rparr>"
proof (cases "numActionEntries st \<ge> maxActionEntries st")
  case True
  then have eq: "maxActionEntries st = numActionEntries st" using assms(1) by (simp add: action_rel_def)
  then have "5 dvd length reg" using assms(1) by (auto simp: action_rel_def)
  then obtain k where k: "length reg = 5 * k" by (rule dvdE)
  then have n: "unat (maxActionEntries st + 5) = length reg + 5"
    using assms eq by (auto simp: action_rel_def unat_word_ariths)
  then show ?thesis using assms(1) True eq k
    by (auto simp: growActionEntries_def action_rel_def Let_def word_less_nat_alt word_le_nat_alt nth_realloc_cells)
next
  case False
  then show ?thesis using assms by (intro exI [of _ st]) (simp add: growActionEntries_def)
qed

lemma setActionEntry_refines:
  assumes "action_rel reg st" "length reg < 255" "spec_register reg (name, m, k8, k16) = (rc, reg')"
  shows "\<exists>st'. setActionEntry True st name m k8 k16 = Some (rc, st') \<and> action_rel reg' st'"
proof -
  obtain st1 where st1: "growActionEntries True st = (COMP_MSG_ERR_OK, st1)" "action_rel reg st1"
    "numActionEntries st1 < maxActionEntries st1"
    using grow_ok [OF assms(1,2)] by auto
  have table: "actions st1 = table_of reg" "unat (numActionEntries st1) = length reg" "length reg < length (actionEntries st1)"
    using st1(2,3) by (auto simp: action_rel_def word_less_nat_alt)
  show ?thesis
  proof (cases "find_idx (\<lambda>e. actionName e = name) 0 (table_of reg)")
    case None
    then show ?thesis using assms(3) st1 table by (simp add: setActionEntry_def spec_register_def find_idx_find' [of _ _ 0])
  next
    case (Some p)
    obtain i e where p: "p = (i, e)" by (cases p)
    have i: "i < length (table_of reg)" "e = table_of reg ! i" "actionName e = name"
      using find_idx_SomeD [OF Some [unfolded p]] by auto
    let ?ps = "(actionEntries st1)[length reg := Def i]"
    let ?t = "(table_of reg)[i := e\<lparr>a_mode := m, a_u8CmdKey := k8, a_u16CmdKey := k16\<rparr>]"
    have t: "?t = table_of (reg @ [(name, m, k8, k16)])"
      using map_upd_unique [OF distinct_names i(1), where f = "\<lambda>e. e\<lparr>a_mode := m, a_u8CmdKey := k8, a_u16CmdKey := k16\<rparr>"] i(2,3)
      by (simp add: table_of_def enter_def)
    have names: "actionName (?t ! j) = actionName (table_of reg ! j)" for j
      using i by (cases "j < length (table_of reg)") (auto simp: nth_list_update)
    have n: "unat (numActionEntries st1 + 1) = Suc (length reg)" "numActionEntries st1 + 1 \<le> maxActionEntries st1"
      using table(2) st1(3) assms(2) by (simp_all add: unat_word_ariths word_le_nat_alt word_less_nat_alt)
    show ?thesis
    proof (cases "a_mode e = 0")
      case True
      let ?st = "st1\<lparr>actionEntries := ?ps, actions := ?t, numActionEntries := numActionEntries st1 + 1\<rparr>"
      have "\<exists>j < length ?t. ?ps ! k = Def j \<and> actionName (?t ! j) = fst ((reg @ [(name, m, k8, k16)]) ! k)"
        if k: "k < Suc (length reg)" for k
      proof (cases "k = length reg")
        case True
        then show ?thesis using i table(3) by (intro exI [of _ i]) simp
      next
        case False
        then have "k < length reg" using k by simp
        then obtain j where "j < length (table_of reg)" "actionEntries st1 ! k = Def j" "actionName (table_of reg ! j) = fst (reg ! k)"
          using st1(2) table(1) unfolding action_rel_def by metis
        then show ?thesis using False k names [of j] by (intro exI [of _ j]) (simp add: nth_append)
      qed
      then have "action_rel (reg @ [(name, m, k8, k16)]) ?st"
        using st1(2) table n t by (auto simp: action_rel_def)
      then show ?thesis using True assms(3) st1(1) table Some p
        by (auto simp: setActionEntry_def spec_register_def find_idx_find' [of _ _ 0])
    next
      case False
      have "action_rel reg (st1\<lparr>actionEntries := ?ps\<rparr>)"
        using st1(2) by (auto simp: action_rel_def nth_list_update)
      then show ?thesis using False assms(3) st1(1) table Some p
        by (auto simp: setActionEntry_def spec_register_def find_idx_find' [of _ _ 0])
    qed
  qed
qed

text \<open>
  The map that the registrations stand for: the last one of a name counts.  An action that is not registered keeps the mode
  and the key of the table.
\<close>

definition registered :: "registration list \<Rightarrow> string \<Rightarrow> (u8 \<times> u8 \<times> u16) option" where
  "registered reg = map_of (rev reg)"

definition modeOf :: "registration list \<Rightarrow> actionName2Action \<Rightarrow> u8" where
  "modeOf reg e = (case registered reg (actionName e) of None \<Rightarrow> a_mode e | Some (m, k8, k16) \<Rightarrow> m)"

definition registeredEntry :: "registration list \<Rightarrow> actionName2Action \<Rightarrow> actionName2Action" where
  "registeredEntry reg e = (case registered reg (actionName e) of
     None \<Rightarrow> e | Some (m, k8, k16) \<Rightarrow> e\<lparr>a_mode := m, a_u8CmdKey := k8, a_u16CmdKey := k16\<rparr>)"

lemma registeredEntry_simps [simp]:
  "actionName (registeredEntry reg e) = actionName e" "action (registeredEntry reg e) = action e"
  "a_mode (registeredEntry reg e) = modeOf reg e"
  by (simp_all add: registeredEntry_def modeOf_def split: option.splits prod.splits)

lemma table_of_registered: "table_of reg = map (registeredEntry reg) actionName2Actions"
proof (induction reg rule: rev_induct)
  case Nil
  then show ?case by (simp add: table_of_def registeredEntry_def registered_def map_idI)
next
  case (snoc r reg)
  obtain name m k8 k16 where r: "r = (name, m, k8, k16)" by (cases r)
  have "table_of (reg @ [r]) = enter r (table_of reg)" by (simp add: table_of_def)
  also have "\<dots> = map (registeredEntry (reg @ [r])) actionName2Actions"
    unfolding snoc.IH by (auto simp: enter_def r registeredEntry_def registered_def split: option.splits prod.splits)
  finally show ?case .
qed

text \<open>
  The action a received message asks for, with the byte \<open>b\<close> at offset 7 and the mode \<open>m\<close> of the dispatcher.  With the command
  key \<open>BD\<close> it is the first action in the order of the table that is registered under this key with mode \<open>b\<close>.  With every
  other command key neither key nor message count: it is the first action with the mode of the dispatcher, if that is 0 or 8.
\<close>

definition spec_run :: "registration list \<Rightarrow> u16 \<Rightarrow> u8 \<Rightarrow> u8 \<Rightarrow> action option" where
  "spec_run reg key b m = map_option action
    (if key = 0x4244 then find (\<lambda>e. case registered reg (actionName e) of
        None \<Rightarrow> False | Some (m', k8, k16) \<Rightarrow> m' = b \<and> k16 = key) actionName2Actions
     else if m = 8 \<or> m = 0 then find (\<lambda>e. m = modeOf reg e) actionName2Actions
     else None)"

text \<open>A received message with the byte \<open>b\<close> at offset 7.\<close>

definition received :: "u8 \<Rightarrow> actionState \<Rightarrow> bool" where
  "received b st \<longleftrightarrow> ac_view st = None \<and> 8 \<le> unat (ac_receivedLgth st)
     \<and> unat (ac_receivedLgth st) \<le> length (ac_buf st) \<and> ac_buf st ! 7 = b"

lemma find_map: "find P (map g xs) = map_option g (find (\<lambda>x. P (g x)) xs)"
  by (induction xs) simp_all

lemma find_eq: "(\<And>x. x \<in> set xs \<Longrightarrow> P x = Q x) \<Longrightarrow> find P xs = find Q xs"
  by (induction xs) simp_all

definition call_outcome :: "(action \<Rightarrow> errcode) \<Rightarrow> action option \<Rightarrow> errcode" where
  "call_outcome ret a = (case a of None \<Rightarrow> COMP_MSG_ERR_ACTION_NAME_NOT_FOUND | Some a \<Rightarrow> ret a)"

definition calls :: "action option \<Rightarrow> action list" where
  "calls a = (case a of None \<Rightarrow> [] | Some a \<Rightarrow> [a])"

lemma callAction_find:
  assumes "action_rel reg st" "a = map_option action (find P (actions st))"
  shows "\<exists>st'. callAction ret P st = (call_outcome ret a, st') \<and> ac_called st' = ac_called st @ calls a \<and> action_rel reg st'"
  using assms by (auto simp: callAction_def find_idx_find' [of _ _ 0] call_outcome_def calls_def action_rel_def Let_def split: option.splits prod.splits)

lemma registered_key:
  assumes "e \<in> set actionName2Actions"
  shows "(a_u16CmdKey (registeredEntry reg e) = 0x4244 \<and> b = a_mode (registeredEntry reg e))
    \<longleftrightarrow> (case registered reg (actionName e) of None \<Rightarrow> False | Some (m', k8, k16) \<Rightarrow> m' = b \<and> k16 = 0x4244)"
proof -
  have "a_u16CmdKey e \<in> {0, 0x4141}" using assms by (auto simp: actionName2Actions_def actionEntry_def)
  then show ?thesis by (auto simp: registeredEntry_def modeOf_def split: option.splits prod.splits)
qed

lemma runAction_refines:
  assumes "action_rel reg st" "received b st"
  shows "\<exists>st'. runAction (\<lambda>_. True) ret st = Some (call_outcome ret (spec_run reg (ac_u16CmdKey st) b (actionMode st)), st')
    \<and> ac_called st' = ac_called st @ calls (spec_run reg (ac_u16CmdKey st) b (actionMode st)) \<and> action_rel reg st'"
proof -
  obtain x y v where v: "newCompMsgDataView (\<lambda>_. True) (fst (ac_ids st)) (snd (ac_ids st)) (ac_buf st) (ucast (ac_receivedLgth st)) = (x, y, Some v)"
    "data (dataView v) = ac_buf st" "lgth (dataView v) = ucast (ac_receivedLgth st)"
    by (simp add: newCompMsgDataView_def newDataView_def)
  let ?st = "st\<lparr>ac_ids := (x, y), ac_view := Some v\<rparr>" and ?key = "ac_u16CmdKey st" and ?m = "actionMode st"
  have t: "actions ?st = map (registeredEntry reg) actionName2Actions" and rel: "action_rel reg ?st"
    using assms(1) by (auto simp: action_rel_def table_of_registered)
  have b: "getUint8 (dataView v) 7 = Some (Inr b)"
    using assms(2) v(2,3) by (simp add: received_def getUint8_def rd_byte_def word_less_nat_alt word_le_nat_alt)
  consider (key) "?key = 0x4244" | (mode) "?key \<noteq> 0x4244" "?m = 8 \<or> ?m = 0" | (other) "?key \<noteq> 0x4244" "\<not> (?m = 8 \<or> ?m = 0)" by blast
  then show ?thesis
  proof cases
    case key
    have "spec_run reg ?key b ?m = map_option action (find (\<lambda>e. a_u16CmdKey e = 0x4244 \<and> b = a_mode e) (actions ?st))"
      unfolding t find_map using find_eq [OF registered_key [of _ reg b], of actionName2Actions] by (simp add: spec_run_def key option.map_comp comp_def)
    from callAction_find [OF rel this, of ret] show ?thesis using assms(2) v(1) b key by (auto simp: runAction_def received_def)
  next
    case mode
    then have "spec_run reg ?key b ?m = map_option action (find (\<lambda>e. ?m = a_mode e) (actions ?st))"
      unfolding t find_map by (simp add: spec_run_def option.map_comp comp_def)
    from callAction_find [OF rel this, of ret] show ?thesis using assms(2) v(1) mode by (auto simp: runAction_def received_def)
  next
    case other
    then have "spec_run reg ?key b ?m = None" by (simp add: spec_run_def)
    then show ?thesis using assms v(1) other by (auto simp: runAction_def received_def call_outcome_def calls_def action_rel_def)
  qed
qed

lemma setActionEntry_frame:
  assumes "setActionEntry ok st name m k8 k16 = Some (rc, st')"
  shows "ac_view st' = ac_view st" "ac_u16CmdKey st' = ac_u16CmdKey st" "ac_receivedLgth st' = ac_receivedLgth st"
    "ac_buf st' = ac_buf st" "ac_called st' = ac_called st"
  using assms
  by (auto simp: setActionEntry_def growActionEntries_def Let_def checkErrOK_def Option.bind_eq_Some_conv split: if_splits option.splits prod.splits)

subsection \<open>Properties\<close>

text \<open>
  Claim C15.  \<open>setActionEntry\<close> and \<open>runAction\<close> implement the list of registrations, whatever sequence of calls led to it.  A registration with an
  unknown name, or of an action that has a mode already, is refused; every other one is entered, through every
  growth of the array; the message that was received stays as it is.  \<open>runAction\<close> runs the action \<open>spec_run\<close> says, once, and
  returns its code, or \<open>ACTION_NAME_NOT_FOUND\<close> when there is none, and leaves the registrations: for the command key \<open>BD\<close> the
  first action in the order of the table that is registered under this key and the mode in the message, and for every other
  command key, without regard to the key, the first one with the mode of the dispatcher, when that is 0 or 8.
\<close>

theorem actions_refine:
  assumes "action_rel reg st" "received b st"
  shows "(\<forall>name m k8 k16 rc reg'. length reg < 255 \<and> spec_register reg (name, m, k8, k16) = (rc, reg') \<longrightarrow>
      (\<exists>st'. setActionEntry True st name m k8 k16 = Some (rc, st') \<and> action_rel reg' st' \<and> received b st' \<and> ac_called st' = ac_called st))
    \<and> (\<exists>st'. runAction (\<lambda>_. True) ret st = Some (call_outcome ret (spec_run reg (ac_u16CmdKey st) b (actionMode st)), st')
      \<and> ac_called st' = ac_called st @ calls (spec_run reg (ac_u16CmdKey st) b (actionMode st)) \<and> action_rel reg st')"
proof (intro conjI allI impI)
  fix name m k8 k16 rc reg' assume "length reg < 255 \<and> spec_register reg (name, m, k8, k16) = (rc, reg')"
  then obtain st' where st': "setActionEntry True st name m k8 k16 = Some (rc, st')" "action_rel reg' st'"
    using setActionEntry_refines [OF assms(1)] by blast
  then show "\<exists>st'. setActionEntry True st name m k8 k16 = Some (rc, st') \<and> action_rel reg' st' \<and> received b st' \<and> ac_called st' = ac_called st"
    using setActionEntry_frame [OF st'(1)] assms(2) by (auto simp: received_def)
qed (rule runAction_refines [OF assms])

text \<open>The state after the initialisation, with a message that asks for mode 3.\<close>

definition actions0 :: actionState where
  "actions0 = \<lparr>actions = actionName2Actions, actionEntries = zalloc_cells 10 0, numActionEntries = 0, maxActionEntries = 10,
     actionMode = 0, ac_view = None, ac_u16CmdKey = 0x4244, ac_buf = [0, 0, 0, 0, 0, 0, 0, 3], ac_receivedLgth = 8, ac_ids = (0, 0),
     ac_called = []\<rparr>"

lemma init_actions0: "compMsgActionInit (\<lambda>_. True) (actions0\<lparr>actionEntries := ps, numActionEntries := n, maxActionEntries := k\<rparr>) = (COMP_MSG_ERR_OK, actions0)"
  by (simp add: compMsgActionInit_def actions0_def)

lemma action_rel_actions0: "action_rel [] actions0" "received 3 actions0"
  by (simp_all add: action_rel_def received_def actions0_def table_of_def)

theorem actions_refine_witness:
  "\<exists>st1 st' st2. runAction (\<lambda>_. True) (\<lambda>_. 0) actions0 = Some (COMP_MSG_ERR_ACTION_NAME_NOT_FOUND, st1)
    \<and> setActionEntry True actions0 ''getAPList'' 3 0 0x4244 = Some (COMP_MSG_ERR_OK, st')
    \<and> runAction (\<lambda>_. True) (\<lambda>_. 0) st' = Some (0, st2) \<and> ac_called st2 = [GetAPList]"
proof -
  let ?r = "(''getAPList'', 3 :: u8, 0 :: u8, 0x4244 :: u16)"
  have reg: "spec_register [] ?r = (COMP_MSG_ERR_OK, [?r])"
    by (simp add: spec_register_def table_of_def actionName2Actions_def actionEntry_def)
  have run: "spec_run [] 0x4244 3 0 = None" "spec_run [?r] 0x4244 3 m = Some GetAPList" for m
    by (simp_all add: spec_run_def registered_def actionName2Actions_def actionEntry_def)
  have st: "ac_u16CmdKey actions0 = 0x4244" "actionMode actions0 = 0" "ac_called actions0 = []" by (simp_all add: actions0_def)
  obtain st1 where "runAction (\<lambda>_. True) (\<lambda>_. 0) actions0 = Some (COMP_MSG_ERR_ACTION_NAME_NOT_FOUND, st1)"
    using actions_refine [OF action_rel_actions0, of "\<lambda>_. 0"] st run by (auto simp: call_outcome_def)
  moreover have "length ([] :: registration list) < 255 \<and> spec_register [] ?r = (COMP_MSG_ERR_OK, [?r])" using reg by simp
  with actions_refine [OF action_rel_actions0, THEN conjunct1]
  obtain st' where st': "setActionEntry True actions0 ''getAPList'' 3 0 0x4244 = Some (COMP_MSG_ERR_OK, st')"
    "action_rel [?r] st'" "received 3 st'" "ac_called st' = ac_called actions0" by blast
  moreover have "ac_u16CmdKey st' = 0x4244" using setActionEntry_frame(2) [OF st'(1)] st(1) by simp
  then obtain st2 where "runAction (\<lambda>_. True) (\<lambda>_. 0) st' = Some (0, st2)" "ac_called st2 = [GetAPList]"
    using actions_refine [OF st'(2,3), of "\<lambda>_. 0"] st'(4) st(3) run(2) by (auto simp: call_outcome_def calls_def)
  ultimately show ?thesis by blast
qed

text \<open>
  For every other command key the mode of the dispatcher selects the action.  Mode 0 is that of every action that was
  not registered, so that the first of these in the table is run, whichever was meant.
\<close>

lemma mode_0_runs_first:
  assumes "actions st = actionName2Actions" "ac_view st = Some v" "ac_u16CmdKey st \<noteq> 0x4244" "actionMode st = 0"
  shows "\<exists>st'. runAction ok ret st = Some (ret RunClientMode, st') \<and> ac_called st' = ac_called st @ [RunClientMode]"
  using assms by (auto simp: runAction_def callAction_def actionName2Actions_def actionEntry_def Let_def)

end
