(* ===== verification/CompMsgSendReceive.thy ===== *)
theory CompMsgSendReceive
  imports CompMsgIdentify CompMsgWebSocket Base64
begin

text \<open>
  \<^verbatim>\<open>src/app/compMsg/compMsgSendReceive.c\<close>, the sending side: \<open>sendMsg\<close> hands the bytes of a message to the uart, to a
  websocket, to the cloud or to the memory of the boot loader, by the letter of its header; and \<open>storeUserData\<close>
  and \<open>getUserData\<close> of \<^verbatim>\<open>compMsgOta.c\<close>.

  \<^item> What leaves the program is a list of events: bytes for the uart, frames for a websocket, the payload for the
    cloud, and the start of the client mode or of the socket to the cloud.  The codes the calls into the network return are
    the record \<open>network\<close>.
  \<^item> \<open>userRom\<close> is the part of the configuration of the boot loader that holds user data, as it is in the flash.
    \<open>rboot_set_config\<close> writes it unless the buffer for the sector cannot be allocated.
  \<^item> The initialisations of \<open>payloadLgth\<close> and of the parts of the request in \<open>prepareCloudMsg\<close> are inside
    \<^verbatim>\<open>#ifdef OLD\<close>; the allocation reads the length.
\<close>

subsection \<open>User data\<close>

record userRom =
  save_data_flag :: u8
  save_data_size :: u16
  save_data :: mem

abbreviation (input) "BOOT_USER_ROM_SAVE_DATA_SIZE \<equiv> (1024 :: nat)"
abbreviation (input) "BOOT_USER_ROM_DATA_SAVED \<equiv> (0x12 :: u8)"

text \<open>\<open>rboot_get_config\<close> and \<open>rboot_set_config\<close> of \<^verbatim>\<open>src/app/rboot/rboot-api.c\<close>; the sector is read and written whole.\<close>

definition rboot_get_config :: "userRom \<Rightarrow> userRom" where
  "rboot_get_config flash = flash"

definition rboot_set_config :: "bool \<Rightarrow> userRom \<Rightarrow> userRom \<Rightarrow> bool \<times> userRom" where
  "rboot_set_config ok conf flash = (if \<not> ok then (False, flash) else (True, conf))"

text \<open>The result of \<open>rboot_set_config\<close> is not looked at.\<close>

definition storeUserData :: "bool \<Rightarrow> userRom \<Rightarrow> size_t \<Rightarrow> mem \<Rightarrow> (errcode \<times> userRom) ub" where
  "storeUserData ok flash msgLgth msgData =
    do { let bootconf = (rboot_get_config flash)\<lparr>save_data_flag := BOOT_USER_ROM_DATA_SAVED\<rparr>;
         d \<leftarrow> wr_byte (save_data bootconf) 0 0;
         bs \<leftarrow> rd_block msgData 0 (unat msgLgth);
         d \<leftarrow> wr_block d 0 bs;
         let bootconf = bootconf\<lparr>save_data := d, save_data_size := ucast msgLgth\<rparr>;
         case rboot_set_config ok bootconf flash of (_, flash) \<Rightarrow> Some (COMP_MSG_ERR_OK, flash) }"

definition getUserData :: "bool \<Rightarrow> userRom \<Rightarrow> (errcode + mem) ub" where
  "getUserData ok flash =
    (let bootconf = rboot_get_config flash in
     if \<not> ok then Some (Inl DATA_VIEW_ERR_OUT_OF_MEMORY)
     else do { bs \<leftarrow> rd_block (save_data bootconf) 0 (unat (save_data_size bootconf)); Some (Inr bs) })"

subsection \<open>State\<close>

datatype sendEvent = UartByte u8 | SocketEvent wsEvent | CloudPayload mem | ClientModeRun | CloudSocketStarted

record network =
  n_runClientMode :: errcode
  n_startCloudSocket :: errcode
  n_sendData :: "mem \<Rightarrow> errcode"

record sender =
  s_msg :: compMsgData
  s_tn :: "typesAndNames option"
  s_handles :: handleTable
  s_currHdr :: "headerPart option"
  s_sud :: bool
  s_rom :: userRom
  s_runningModeFlags :: u16
  startSendMsg2 :: bool
  cloudMsgData :: "mem option"
  cloudMsgDataLgth :: size_t
  cloudPayload :: "mem option"
  cloudPayloadLgth :: size_t
  s_events :: "sendEvent list"

abbreviation (input) "COMP_DISP_RUNNING_MODE_CLIENT \<equiv> (0x02 :: u16)"

definition emit :: "sendEvent list \<Rightarrow> 'a sender_scheme \<Rightarrow> 'a sender_scheme" where
  "emit es s = s\<lparr>s_events := s_events s @ es\<rparr>"

subsection \<open>Uart and cloud\<close>

text \<open>The length is a \<open>uint8_t\<close>.\<close>

definition uartSendAnswer :: "'a sender_scheme \<Rightarrow> mem \<Rightarrow> u8 \<Rightarrow> (errcode \<times> 'a sender_scheme) ub" where
  "uartSendAnswer s msgData msgLgth =
    do { bs \<leftarrow> rd_block msgData 0 (unat msgLgth); Some (COMP_MSG_ERR_OK, emit (map UartByte bs) s) }"

definition sendCloudMsg :: "network \<Rightarrow> 'a sender_scheme \<Rightarrow> (errcode \<times> 'a sender_scheme) ub" where
  "sendCloudMsg net s =
    (if \<not> s_sud s then Some (COMP_MSG_ERR_NO_WEBSOCKET_OPENED, s)
     else case cloudPayload s of
       None \<Rightarrow> Some (COMP_MSG_ERR_NO_WEBSOCKET_OPENED, s)
     | Some p \<Rightarrow>
         do { bs \<leftarrow> rd_block p 0 (unat (cloudPayloadLgth s));
              let s = emit [CloudPayload bs] s;
              if n_sendData net bs \<noteq> COMP_MSG_ERR_OK then Some (n_sendData net bs, s)
              else Some (COMP_MSG_ERR_OK, s\<lparr>cloudPayload := None, cloudPayloadLgth := 0\<rparr>) })"

definition prepareCloudMsg :: "bool \<Rightarrow> 'a sender_scheme \<Rightarrow> (errcode \<times> 'a sender_scheme) ub" where
  "prepareCloudMsg ok s =
    do { d \<leftarrow> cloudMsgData s;
         bs \<leftarrow> rd_block d 0 (unat (cloudMsgDataLgth s));
         r \<leftarrow> toBase64 ok bs;
         case r of Inl rc \<Rightarrow> Some (rc, s) | Inr _ \<Rightarrow> None }"

definition checkClientMode :: "network \<Rightarrow> 'a sender_scheme \<Rightarrow> errcode \<times> 'a sender_scheme" where
  "checkClientMode net s =
    (let s = s\<lparr>startSendMsg2 := True\<rparr> in
     if s_runningModeFlags s AND COMP_DISP_RUNNING_MODE_CLIENT = 0 then (n_runClientMode net, emit [ClientModeRun] s)
     else (n_startCloudSocket net, emit [CloudSocketStarted] s))"

subsection \<open>Sending a message\<close>

definition dropMsg :: "'a sender_scheme \<Rightarrow> (errcode \<times> 'a sender_scheme) ub" where
  "dropMsg s =
    do { (rc, tn, t, msg) \<leftarrow> deleteMsg (s_tn s) (s_handles s) (s_msg s);
         Some (rc, s\<lparr>s_tn := tn, s_handles := t, s_msg := msg\<rparr>) }"

text \<open>The letters are \<open>A\<close>, \<open>D\<close>, \<open>G\<close>, \<open>S\<close>, \<open>R\<close>, \<open>U\<close>, \<open>W\<close> and \<open>N\<close>.\<close>

definition sendMsg :: "bool \<Rightarrow> network \<Rightarrow> 'a sender_scheme \<Rightarrow> mem \<Rightarrow> size_t \<Rightarrow> (errcode \<times> 'a sender_scheme) ub" where
  "sendMsg ok net s msgData msgLgth =
    do { hdr \<leftarrow> s_currHdr s;
         if hdrHandleType hdr = 65 then
           if \<not> s_sud s then Some (COMP_MSG_ERR_NO_WEBSOCKET_OPENED, s)
           else do { (rc, ev) \<leftarrow> webSocketSendData ok msgData msgLgth (ucast OPCODE_BINARY);
                     let s = emit (map SocketEvent ev) s;
                     if rc \<noteq> COMP_MSG_ERR_OK then Some (rc, s)
                     else do { (_, s) \<leftarrow> dropMsg s; Some (COMP_MSG_ERR_OK, s) } }
         else if hdrHandleType hdr = 68 then
           do { (rc, rom) \<leftarrow> storeUserData ok (s_rom s) msgLgth msgData;
                let s = s\<lparr>s_rom := rom\<rparr>;
                if rc \<noteq> COMP_MSG_ERR_OK then Some (rc, s)
                else do { (_, s) \<leftarrow> dropMsg s; Some (COMP_MSG_ERR_OK, s) } }
         else if hdrHandleType hdr = 83 then
           checkErrOK (uartSendAnswer s msgData (ucast msgLgth)) (\<lambda>s.
             checkErrOK (dropMsg s) (\<lambda>s. Some (COMP_MSG_ERR_OK, s)))
         else if hdrHandleType hdr = 85 then
           checkErrOK (Some (checkClientMode net (s\<lparr>cloudMsgData := Some msgData, cloudMsgDataLgth := msgLgth\<rparr>)))
             (\<lambda>s. Some (COMP_MSG_ERR_OK, s))
         else if hdrHandleType hdr = 87 then
           checkErrOK (uartSendAnswer s msgData (ucast msgLgth)) (\<lambda>s. Some (COMP_MSG_ERR_OK, s))
         else if hdrHandleType hdr \<in> {71, 82, 78} then Some (COMP_MSG_ERR_OK, s)
         else Some (COMP_MSG_ERR_BAD_HANDLE_TYPE, s) }"

subsection \<open>Properties\<close>

text \<open>
  Claim C23.  User data of at most 1024 bytes is read back as it was stored when the buffer for the flash sector can be allocated.  When it
  cannot, \<open>storeUserData\<close> returns OK all the same and the flash keeps the user data it had.  The code never compares
  the length with the array: longer data is copied past its end.
\<close>

theorem user_data_roundtrip:
  assumes "length (save_data rom) = BOOT_USER_ROM_SAVE_DATA_SIZE" "unat n = length m"
  shows "if length m \<le> BOOT_USER_ROM_SAVE_DATA_SIZE
    then (\<exists>rom'. storeUserData True rom n m = Some (COMP_MSG_ERR_OK, rom') \<and> length (save_data rom') = BOOT_USER_ROM_SAVE_DATA_SIZE
        \<and> save_data_flag rom' = BOOT_USER_ROM_DATA_SAVED \<and> getUserData True rom' = Some (Inr m))
      \<and> storeUserData False rom n m = Some (COMP_MSG_ERR_OK, rom)
    else storeUserData ok rom n m = None"
proof (cases "length m \<le> BOOT_USER_ROM_SAVE_DATA_SIZE")
  case True
  have "wr_byte (save_data rom) 0 0 = Some ((save_data rom)[0 := 0])" using assms(1) by (simp add: wr_byte_def)
  moreover have "unat (ucast n :: u16) = length m" using True assms(2) by (simp add: unsigned_ucast_eq unsigned_take_bit_eq take_bit_nat_def)
  ultimately show ?thesis using True assms take_drop_put_same [of 0 m "(save_data rom)[0 := 0]"]
    by (simp add: storeUserData_def getUserData_def rboot_set_config_def rboot_get_config_def rd_block_def wr_block_def)
next
  case False
  then show ?thesis using assms by (simp add: storeUserData_def rboot_get_config_def rd_block_def wr_block_def wr_byte_def Let_def)
qed

theorem user_data_roundtrip_witness:
  "(\<exists>rom'. storeUserData True \<lparr>save_data_flag = 0, save_data_size = 0, save_data = replicate 1024 0\<rparr> 3 [1, 2, 3] = Some (COMP_MSG_ERR_OK, rom')
      \<and> getUserData True rom' = Some (Inr [1, 2, 3]))
   \<and> storeUserData False \<lparr>save_data_flag = 0, save_data_size = 0, save_data = replicate 1024 0\<rparr> 3 [1, 2, 3]
     = Some (COMP_MSG_ERR_OK, \<lparr>save_data_flag = 0, save_data_size = 0, save_data = replicate 1024 0\<rparr>)"
  using user_data_roundtrip [of "\<lparr>save_data_flag = 0, save_data_size = 0, save_data = replicate 1024 0\<rparr>" 3 "[1, 2, 3]"] by auto

text \<open>
  Claim C22.  The length of an answer for the uart is handed over as a \<open>uint8_t\<close>: of a message of \<open>n\<close> bytes the first \<open>n mod 256\<close> bytes are
  sent, none of a message of 256 bytes, and the result is OK all the same.
\<close>

theorem uart_answer_truncated:
  assumes "s_currHdr s = Some hdr" "hdrHandleType hdr = 87" "unat n = length m"
  shows "\<exists>s'. sendMsg ok net s m n = Some (COMP_MSG_ERR_OK, s')
    \<and> s_events s' = s_events s @ map UartByte (take (length m mod 256) m)"
proof -
  have "unat (ucast n :: u8) = length m mod 256" using assms(3) by (simp add: unsigned_ucast_eq unsigned_take_bit_eq take_bit_nat_def)
  then show ?thesis using assms(1,2) by (simp add: sendMsg_def uartSendAnswer_def rd_block_def emit_def)
qed

definition uartHeader :: headerPart where
  "uartHeader = \<lparr>hdrFromPart = 2, hdrToPart = 1, hdrTotalLgth = 0, hdrGUID = [], hdrSrcId = 0, hdrReserve = [], hdrFiller = [],
     hdrU16CmdKey = 0, hdrU16CmdLgth = 0, hdrU16Crc = 0, hdrU16TotalCrc = 0, hdrTargetPart = 0, hdrU8CmdKey = 0, hdrU8CmdLgth = 0,
     hdrU8Crc = 0, hdrU8TotalCrc = 0, hdrOffset = 0, hdrEncryption = 78, hdrHandleType = 87, hdrLgth = 4, hdrFlags = 0, fieldSequence = []\<rparr>"

definition uartSender :: sender where
  "uartSender = \<lparr>s_msg = the (newCompMsgData True), s_tn = None, s_handles = noHandles, s_currHdr = Some uartHeader, s_sud = False,
     s_rom = \<lparr>save_data_flag = 0, save_data_size = 0, save_data = []\<rparr>, s_runningModeFlags = 0, startSendMsg2 = False,
     cloudMsgData = None, cloudMsgDataLgth = 0, cloudPayload = None, cloudPayloadLgth = 0, s_events = []\<rparr>"

definition net0 :: network where
  "net0 = \<lparr>n_runClientMode = 0, n_startCloudSocket = 0, n_sendData = (\<lambda>_. 0)\<rparr>"

theorem uart_answer_truncated_witness:
  "\<exists>s'. sendMsg True net0 uartSender (replicate 256 7) 256 = Some (COMP_MSG_ERR_OK, s') \<and> s_events s' = []"
  using uart_answer_truncated [of uartSender uartHeader 256 "replicate 256 7" True net0]
  by (simp add: uartSender_def uartHeader_def)

end
