(* ===== verification/CompMsgBuildMsg.thy ===== *)
theory CompMsgBuildMsg
  imports CompMsgSendReceive CompMsgAction CompMsgLifecycle
begin

text \<open>
  \<^verbatim>\<open>src/app/compMsg/compMsgBuildMsg.c\<close>: a message is laid out, its command key is set, it is prepared, encrypted behind
  its header, closed with the total checksum and sent.

  \<^item> The state is that of the sender with the static counters.  \<open>cd_currHdr\<close> of the message is the letter of the
    encryption of the header \<open>s_currHdr\<close> points to.
  \<^item> \<open>getMsgData\<close> returns the address of the bytes of the view, so that the encryption and the checksum work on
    the view, and its bytes are sent.
  \<^item> Of \<open>fixOffsetsForKeyValues\<close>, \<open>setFieldValue\<close> and \<open>setMsgValues\<close> the parts inside \<^verbatim>\<open>#ifdef OLD\<close> are not compiled.
    \<open>setMsgValues\<close> tests the code of \<open>setDataValue\<close> twice and never that of \<open>prepareMsg\<close>.
  \<^item> \<open>cryptKey\<close> is the static array of \<^verbatim>\<open>compMsgModuleData.c\<close>; it is the key and the initial vector.
\<close>

subsection \<open>State\<close>

record builder = sender +
  b_ids :: "u8 \<times> u8"
  b_sequenceNum :: i32
  b_wifiFlags :: u16

text \<open>What the environment provides: allocations, random numbers, the saved sequence number, network and keys.\<close>

record buildEnv =
  e_ok :: allocs
  e_hdrLgth :: u8
  e_saved :: "errcode + i32"
  e_rnd :: "nat \<Rightarrow> nat \<Rightarrow> u32"
  e_net :: network
  e_cryptKey :: mem

subsection \<open>Operations\<close>

text \<open>
  The loop of \<open>fixOffsetsForKeyValues\<close> counts in a \<open>uint8_t\<close> up to a \<open>size_t\<close>.
\<close>

partial_function (option) fixLoop :: "u8 \<Rightarrow> size_t \<Rightarrow> errcode ub" where
  "fixLoop fieldIdx numFields =
    (if ucast fieldIdx < numFields then fixLoop (fieldIdx + 1) numFields else Some COMP_MSG_ERR_OK)"

definition fixOffsetsForKeyValues :: "builder \<Rightarrow> errcode ub" where
  "fixOffsetsForKeyValues b = fixLoop 0 (cd_numFields (s_msg b))"

definition setMsgFieldValue :: "builder \<Rightarrow> u8 \<Rightarrow> errcode" where
  "setMsgFieldValue b type = COMP_MSG_ERR_OK"

definition setMsgValues :: "buildEnv \<Rightarrow> builder \<Rightarrow> (errcode \<times> builder) ub" where
  "setMsgValues env b =
    do { hdr \<leftarrow> s_currHdr b;
         tn \<leftarrow> s_tn b;
         (rc, msg, tn) \<leftarrow> setDataValue tn (s_msg b) ''@cmdKey'' (ucast (hdrU16CmdKey hdr)) None;
         let b = b\<lparr>s_msg := msg, s_tn := Some tn\<rparr>;
         if rc \<noteq> COMP_MSG_ERR_OK then Some (rc, b)
         else
           do { (_, st) \<leftarrow> prepareMsg (e_hdrLgth env) (e_saved env) (e_rnd env)
                  \<lparr>ps_sequenceNum = b_sequenceNum b, ps_wifiFlags = b_wifiFlags b, ps_data = msg\<rparr>;
                Some (COMP_MSG_ERR_OK, b\<lparr>s_msg := ps_data st, b_sequenceNum := ps_sequenceNum st, b_wifiFlags := ps_wifiFlags st\<rparr>) } }"

text \<open>The bytes that are encrypted, and their encryption in place.\<close>

definition cryptLgth :: "headerPart \<Rightarrow> compMsgData \<Rightarrow> size_t" where
  "cryptLgth hdr msg =
    cd_totalLgth msg - cd_headerLgth msg - (if hdrFlags hdr AND COMP_DISP_TOTAL_CRC \<noteq> 0 then 1 else 2)"

definition encryptPart :: "'c aes_funcs \<Rightarrow> buildEnv \<Rightarrow> headerPart \<Rightarrow> compMsgData \<Rightarrow> (errcode \<times> compMsgData) ub" where
  "encryptPart aes env hdr msg =
    (if hdrEncryption hdr \<noteq> 69 then Some (COMP_MSG_ERR_OK, msg)
     else
       do { v \<leftarrow> cd_view msg;
            let m = data (dataView v);
            (rc, enc, n) \<leftarrow> encryptMsg aes (e_ok env 3) (drop (unat (cd_headerLgth msg)) m) (cryptLgth hdr msg)
              (e_cryptKey env) (e_cryptKey env) 16;
            if rc \<noteq> COMP_MSG_ERR_OK then Some (rc, msg)
            else case enc of
              Block e \<Rightarrow>
                do { bs \<leftarrow> rd_block e 0 (unat n);
                     m \<leftarrow> wr_block m (cd_headerLgth msg) bs;
                     Some (COMP_MSG_ERR_OK, msg\<lparr>cd_view := Some (v\<lparr>dataView := (dataView v)\<lparr>data := m\<rparr>\<rparr>)\<rparr>) }
            | _ \<Rightarrow> None })"

definition closePart :: "headerPart \<Rightarrow> compMsgData \<Rightarrow> (errcode \<times> compMsgData) ub" where
  "closePart hdr msg =
    (if hdrFlags hdr AND COMP_DISP_TOTAL_CRC \<noteq> 0 then
       do { f \<leftarrow> rd_cell (cd_fields msg) (unat (cd_numFields msg - 1));
            onView msg (\<lambda>dv. setTotalCrc dv f) }
     else Some (COMP_MSG_ERR_OK, msg))"

text \<open>What \<open>buildMsg\<close> does with the prepared message: encryption, total checksum and sending.\<close>

definition sendBuilt :: "'c aes_funcs \<Rightarrow> buildEnv \<Rightarrow> builder \<Rightarrow> size_t \<Rightarrow> (errcode \<times> builder) ub" where
  "sendBuilt aes env b msgLgth =
    do { hdr \<leftarrow> s_currHdr b;
         (rc, msg) \<leftarrow> encryptPart aes env hdr (s_msg b);
         if rc \<noteq> COMP_MSG_ERR_OK then Some (rc, b\<lparr>s_msg := msg\<rparr>)
         else
           do { (rc, msg) \<leftarrow> closePart hdr msg;
                let b = b\<lparr>s_msg := msg\<rparr>;
                if rc \<noteq> COMP_MSG_ERR_OK then Some (rc, b)
                else do { v \<leftarrow> cd_view msg;
                          sendMsg (e_ok env 4) (e_net env) b (data (dataView v)) msgLgth } } }"

definition buildMsg :: "'c aes_funcs \<Rightarrow> buildEnv \<Rightarrow> builder \<Rightarrow> (errcode \<times> builder) ub" where
  "buildMsg aes env b =
    do { rc \<leftarrow> fixOffsetsForKeyValues b;
         if rc \<noteq> COMP_MSG_ERR_OK then Some (rc, b)
         else
           do { (rc, ids, msg) \<leftarrow> initMsg (e_ok env) (b_ids b) ((s_msg b)\<lparr>cd_direction := COMP_MSG_TO_SEND_DATA\<rparr>);
                let b = b\<lparr>s_msg := msg, b_ids := ids\<rparr>;
                if rc \<noteq> COMP_MSG_ERR_OK then Some (rc, b)
                else checkErrOK (setMsgValues env b) (\<lambda>b.
                  do { r \<leftarrow> getMsgData (s_msg b);
                       case r of Inl rc \<Rightarrow> Some (rc, b) | Inr (_, msgLgth) \<Rightarrow> sendBuilt aes env b msgLgth }) } }"

text \<open>
  With a callback for the values the action is called, and then \<open>runAction\<close> for its mode, which works on the view of
  the message.
\<close>

definition createMsgFromHeaderPart ::
  "'c aes_funcs \<Rightarrow> buildEnv \<Rightarrow> (action \<Rightarrow> errcode) \<Rightarrow> builder \<Rightarrow> actionState \<Rightarrow> (errcode \<times> builder \<times> actionState) ub" where
  "createMsgFromHeaderPart aes env ret b st =
    (case cd_prepareValuesCbName (s_msg b) of
       Some name \<Rightarrow>
         (case getActionCallback st (drop 1 name) of
            Inl rc \<Rightarrow> Some (rc, b, st)
          | Inr a \<Rightarrow>
              let st = st\<lparr>ac_called := ac_called st @ [a]\<rparr> in
              if ret a \<noteq> COMP_MSG_ERR_OK then Some (ret a, b, st)
              else case getActionMode st (drop 1 name) of
                Inl rc \<Rightarrow> Some (rc, b, st)
              | Inr m \<Rightarrow>
                  do { (rc, st) \<leftarrow> runAction (e_ok env) ret (st\<lparr>actionMode := m, ac_view := cd_view (s_msg b), ac_ids := b_ids b\<rparr>);
                       Some (rc, b\<lparr>s_msg := (s_msg b)\<lparr>cd_view := ac_view st\<rparr>, b_ids := ac_ids st\<rparr>, st) })
     | None \<Rightarrow> do { (rc, b) \<leftarrow> buildMsg aes env b; Some (rc, b, st) })"

end
