(* ===== verification/CompMsgBuilt.thy ===== *)
theory CompMsgBuilt
  imports CompMsgBuildMsg
begin

text \<open>
  What \<open>prepareMsg\<close> and \<open>buildMsg\<close> achieve: a laid out message can be prepared, and what is sent can be
  decrypted with the key as initial vector and has an accepted checksum, as far as the lengths the code assumes are those of
  the message; and what happens for other lengths.
\<close>

subsection \<open>Preparing a message\<close>

text \<open>An initialised message with the fields \<open>fs\<close>, all inside its view, and the same message with other bytes.\<close>

definition openMsg :: "compMsgData \<Rightarrow> compMsgField list \<Rightarrow> compMsgDataView \<Rightarrow> bool" where
  "openMsg self fs v \<longleftrightarrow> inited self \<and> fieldsOf self fs \<and> cd_view self = Some v \<and> wf_view (dataView v)
     \<and> (\<forall>f \<in> set fs. fits (dataView v) (f_fieldOffset f) (unat (f_fieldLgth f)))"

definition with_data :: "compMsgData \<Rightarrow> compMsgDataView \<Rightarrow> mem \<Rightarrow> compMsgData" where
  "with_data self v m = self\<lparr>cd_view := Some (v\<lparr>dataView := (dataView v)\<lparr>data := m\<rparr>\<rparr>)\<rparr>"

text \<open>The numbers have four bytes, and the checksum covers bytes before its field.\<close>

definition prepField :: "u8 \<Rightarrow> u8 \<Rightarrow> compMsgData \<Rightarrow> compMsgField \<Rightarrow> bool" where
  "prepField hl enc self f \<longleftrightarrow>
     (f_fieldNameId f = COMP_MSG_SPEC_FIELD_RANDOM_NUM \<or> f_fieldNameId f = COMP_MSG_SPEC_FIELD_SEQUENCE_NUM \<longrightarrow> f_fieldLgth f = 4)
     \<and> (f_fieldNameId f = COMP_MSG_SPEC_FIELD_CRC \<longrightarrow> (f_fieldLgth f = 1 \<or> f_fieldLgth f = 2)
         \<and> (case crcRange hl enc self f of (s, n) \<Rightarrow> unat s \<le> unat n \<and> unat n \<le> unat (f_fieldOffset f)))"

definition isPrepared :: "u8 \<Rightarrow> bool" where
  "isPrepared i \<longleftrightarrow> i \<in> {COMP_MSG_SPEC_FIELD_RANDOM_NUM, COMP_MSG_SPEC_FIELD_SEQUENCE_NUM, COMP_MSG_SPEC_FIELD_HDR_FILLER,
     COMP_MSG_SPEC_FIELD_FILLER, COMP_MSG_SPEC_FIELD_CRC}"

definition seqOk :: "errcode + i32 \<Rightarrow> nat \<Rightarrow> prepState \<Rightarrow> bool" where
  "seqOk saved k st \<longleftrightarrow> sint (ps_sequenceNum st) + int k < 2 ^ 31
     \<and> (\<exists>n. saved = Inr n \<and> sint n + int k < 2 ^ 31)"

lemma seqOk_Suc: "seqOk saved (Suc k) st \<Longrightarrow> seqOk saved k st"
  by (auto simp: seqOk_def)

lemma sint_Suc: "sint x + 1 < 2 ^ 31 \<Longrightarrow> sint (x + 1) = sint x + 1" for x :: i32
proof -
  assume a: "sint x + 1 < 2 ^ 31"
  have "- (2 ^ 31) \<le> sint x" using sint_ge [of x] by simp
  then have "signed_take_bit 31 (sint x + 1) = sint x + 1"
    using a by (intro signed_take_bit_int_eq_self) simp_all
  then show ?thesis by (simp add: sint_word_ariths)
qed

lemma fieldWidth_fits: "fits dv off n \<Longrightarrow> m \<le> n \<Longrightarrow> fits dv off m"
  by (simp add: fits_def)

lemma onView_with_data:
  assumes "cd_view self = Some v" "g (dataView v) = Some (rc, (dataView v)\<lparr>data := m\<rparr>)"
  shows "onView self g = Some (rc, with_data self v m)"
  using assms by (simp add: onView_def with_data_def)

lemma prepareCall_ok:
  assumes "openMsg (ps_data st) fs v" "f \<in> set fs" "prepField hl enc (ps_data st) f"
    and "cd_currHdr (ps_data st) = Some enc" "seqOk saved (Suc k) st"
  shows "prepareCall hl saved rnd f st = None
    \<or> (\<exists>st' bs. prepareCall hl saved rnd f st = Some (Some (COMP_MSG_ERR_OK, st')) \<and> isPrepared (f_fieldNameId f)
        \<and> ps_data st' = with_data (ps_data st) v (put (data (dataView v)) (unat (f_fieldOffset f)) bs)
        \<and> length bs = unat (f_fieldLgth f) \<and> seqOk saved k st')"
proof -
  let ?i = "f_fieldNameId f" and ?off = "f_fieldOffset f" and ?self = "ps_data st" and ?dv = "dataView v"
  have v: "cd_view ?self = Some v" "fits ?dv ?off (unat (f_fieldLgth f))" using assms(1,2) by (auto simp: openMsg_def)
  have step: "\<exists>st' bs. x = Some (Some (COMP_MSG_ERR_OK, st')) \<and> isPrepared ?i
        \<and> ps_data st' = with_data ?self v (put (data ?dv) (unat ?off) bs) \<and> length bs = unat (f_fieldLgth f) \<and> seqOk saved k st'"
    if "x = Some (do { (rc, self) \<leftarrow> onView ?self g; Some (rc, st\<lparr>ps_data := self\<rparr>) })"
      "g ?dv = Some (0, ?dv\<lparr>data := put (data ?dv) (unat ?off) bs\<rparr>)" "length bs = unat (f_fieldLgth f)" "isPrepared ?i" for x g bs
    using that onView_with_data [OF v(1), of g 0 "put (data ?dv) (unat ?off) bs"] seqOk_Suc [OF assms(5)]
    by (auto simp: seqOk_def)
  consider (random) "?i = COMP_MSG_SPEC_FIELD_RANDOM_NUM" | (seq) "?i = COMP_MSG_SPEC_FIELD_SEQUENCE_NUM"
    | (hdrFiller) "?i = COMP_MSG_SPEC_FIELD_HDR_FILLER" | (filler) "?i = COMP_MSG_SPEC_FIELD_FILLER"
    | (crc) "?i = COMP_MSG_SPEC_FIELD_CRC" | (other) "?i \<notin> {COMP_MSG_SPEC_FIELD_RANDOM_NUM, COMP_MSG_SPEC_FIELD_SEQUENCE_NUM,
        COMP_MSG_SPEC_FIELD_HDR_FILLER, COMP_MSG_SPEC_FIELD_FILLER, COMP_MSG_SPEC_FIELD_CRC}" by blast
  then show ?thesis
  proof cases
    case random
    then have "fits ?dv ?off 4" "unat (f_fieldLgth f) = 4" using v(2) assms(3) by (simp_all add: prepField_def)
    then have "setRandomNum rnd ?dv f = Some (0, ?dv\<lparr>data := put (data ?dv) (unat ?off) (be32 (rnd 0))\<rparr>)"
      by (simp add: setRandomNum_def set32_fits)
    then show ?thesis using random \<open>unat (f_fieldLgth f) = 4\<close> by (intro disjI2 step [where g = "\<lambda>dv. setRandomNum rnd dv f" and bs = "be32 (rnd 0)"]) (simp_all add: prepareCall_def Let_def isPrepared_def)
  next
    case seq
    then have fit: "fits ?dv ?off 4" "f_fieldLgth f = 4" using v(2) assms(3) by (simp_all add: prepField_def)
    obtain n where n: "saved = Inr n" "sint n + int (Suc k) < 2 ^ 31" "sint (ps_sequenceNum st) + int (Suc k) < 2 ^ 31"
      using assms(5) by (auto simp: seqOk_def)
    have "sint (ps_sequenceNum st + 1) = sint (ps_sequenceNum st) + 1" using n(3) by (intro sint_Suc) simp
    moreover define bs where "bs = be32 (if ps_wifiFlags st AND WIFI_USE_SAVED_SEQUENCE_NUM = 0 then ps_sequenceNum st else n)"
    ultimately show ?thesis using seq v(1) fit n
      by (intro disjI2, cases "ps_wifiFlags st AND WIFI_USE_SAVED_SEQUENCE_NUM = 0")
        (auto simp: prepareCall_def isPrepared_def Let_def setSavedSequenceNum_def setSequenceNum_def set32_fits with_data_def seqOk_def
          intro!: exI [of _ bs])
  next
    case hdrFiller
    then show ?thesis using zero_fill [OF v(2)]
      by (intro disjI2 step [where g = "\<lambda>dv. setZeroFiller dv f" and bs = "replicate (unat (f_fieldLgth f)) 0"]) (simp_all add: prepareCall_def Let_def setZeroFiller_def isPrepared_def)
  next
    case filler
    obtain bs where "setFiller rnd ?dv f = Some (0, ?dv\<lparr>data := put (data ?dv) (unat ?off) bs\<rparr>)" "length bs = unat (f_fieldLgth f)"
      using random_fill [OF v(2), of rnd 0] by (auto simp: setFiller_def)
    then show ?thesis using filler by (intro disjI2 step [where g = "\<lambda>dv. setFiller rnd dv f" and bs = bs]) (simp_all add: prepareCall_def Let_def isPrepared_def)
  next
    case crc
    obtain s n where r: "crcRange hl enc ?self f = (s, n)" by fastforce
    have "crc_covers ?dv f (ucast s) n"
      using assms(3) crc r v(2) by (auto simp: prepField_def crc_covers_def fits_def crcWidth_def)
    moreover have "crcWidth f = unat (f_fieldLgth f)" using assms(3) crc by (auto simp: prepField_def crcWidth_def)
    ultimately show ?thesis using crc r assms(4)
      by (intro disjI2 step [where g = "\<lambda>dv. setCrc dv f (ucast s) n" and bs = "crcBytes f (NOT (byte_sum (covered ?dv (ucast s) n)))"]) (simp_all add: prepareCall_def Let_def setCrc_covered isPrepared_def)
  next
    case other
    then show ?thesis by (simp add: prepareCall_def)
  qed
qed

text \<open>Fields that may have got their mark, and the message with them and other bytes.\<close>

definition marked :: "compMsgField \<Rightarrow> compMsgField \<Rightarrow> bool" where
  "marked f g \<longleftrightarrow> g = f \<or> g = markSet f"

lemma marked_simps [simp]: "marked f f" "marked f (markSet f)"
  by (simp_all add: marked_def)

lemma marked_keeps:
  "marked f g \<Longrightarrow> f_fieldNameId g = f_fieldNameId f \<and> f_fieldTypeId g = f_fieldTypeId f
    \<and> f_fieldOffset g = f_fieldOffset f \<and> f_fieldLgth g = f_fieldLgth f"
  by (auto simp: marked_def)

lemma marked_origin:
  assumes "list_all2 marked fs gs" "g \<in> set gs"
  obtains f where "f \<in> set fs" "marked f g"
proof -
  obtain i where i: "i < length gs" "gs ! i = g" using assms(2) unfolding in_set_conv_nth by blast
  then show ?thesis using that [of "fs ! i"] list_all2_nthD2 [OF assms(1) i(1)] list_all2_lengthD [OF assms(1)] by simp
qed

lemma marked_image:
  assumes "list_all2 marked fs gs" "f \<in> set fs"
  obtains g where "g \<in> set gs" "marked f g"
proof -
  obtain i where i: "i < length fs" "fs ! i = f" using assms(2) unfolding in_set_conv_nth by blast
  then show ?thesis using that [of "gs ! i"] list_all2_nthD [OF assms(1) i(1)] list_all2_lengthD [OF assms(1)] by simp
qed

text \<open>The bytes of a field, and fields that do not overlap.\<close>

definition storedBytes :: "mem \<Rightarrow> compMsgField \<Rightarrow> mem" where
  "storedBytes m f = take (unat (f_fieldLgth f)) (drop (unat (f_fieldOffset f)) m)"

definition apart :: "compMsgField \<Rightarrow> compMsgField \<Rightarrow> bool" where
  "apart f g \<longleftrightarrow> unat (f_fieldOffset f) + unat (f_fieldLgth f) \<le> unat (f_fieldOffset g)
     \<or> unat (f_fieldOffset g) + unat (f_fieldLgth g) \<le> unat (f_fieldOffset f)"

definition all_apart :: "compMsgField list \<Rightarrow> bool" where
  "all_apart fs \<longleftrightarrow> (\<forall>f \<in> set fs. \<forall>g \<in> set fs. f_fieldNameId f \<noteq> f_fieldNameId g \<longrightarrow> apart f g)"

lemma storedBytes_put:
  "apart f g \<Longrightarrow> length bs = unat (f_fieldLgth f) \<Longrightarrow> unat (f_fieldOffset f) + length bs \<le> length m
    \<Longrightarrow> storedBytes (put m (unat (f_fieldOffset f)) bs) g = storedBytes m g"
  unfolding storedBytes_def by (intro take_drop_put_disjoint) (auto simp: apart_def)

definition changed :: "compMsgData \<Rightarrow> compMsgField list \<Rightarrow> compMsgDataView \<Rightarrow> compMsgField list \<Rightarrow> mem \<Rightarrow> compMsgData" where
  "changed self fs v gs m = (with_data self v m)\<lparr>cd_fields := map Def gs @ drop (length fs) (cd_fields self)\<rparr>"

lemma openMsg_changed:
  assumes "openMsg self fs v" "list_all2 marked fs gs" "length m = length (data (dataView v))"
  shows "openMsg (changed self fs v gs m) gs (v\<lparr>dataView := (dataView v)\<lparr>data := m\<rparr>\<rparr>)"
proof -
  have "fits (dataView v) (f_fieldOffset g) (unat (f_fieldLgth g))" if g: "g \<in> set gs" for g
  proof -
    obtain f where f: "f \<in> set fs" "marked f g" by (rule marked_origin [OF assms(2) g])
    have "fits (dataView v) (f_fieldOffset f) (unat (f_fieldLgth f))" using assms(1) f(1) unfolding openMsg_def by blast
    then show ?thesis by (simp only: marked_keeps [OF f(2)])
  qed
  moreover have "fieldsOf (changed self fs v gs m) gs"
    using assms(1) list_all2_lengthD [OF assms(2)] by (auto simp: openMsg_def changed_def with_data_def fieldsOf_def)
  ultimately show ?thesis using assms(1,3)
    by (simp add: openMsg_def inited_def changed_def with_data_def fits_def wf_view_def)
qed

lemma changed_changed:
  "length fs = length gs \<Longrightarrow> changed (changed self fs v gs m) gs (v\<lparr>dataView := (dataView v)\<lparr>data := m\<rparr>\<rparr>) hs m' = changed self fs v hs m'"
  by (simp add: changed_def with_data_def)

lemma changed_keeps [simp]:
  "cd_currHdr (changed self fs v gs m) = cd_currHdr self" "cd_flags (changed self fs v gs m) = cd_flags self"
  "cd_headerLgth (changed self fs v gs m) = cd_headerLgth self" "cd_cmdLgth (changed self fs v gs m) = cd_cmdLgth self"
  "cd_totalLgth (changed self fs v gs m) = cd_totalLgth self" "cd_numFields (changed self fs v gs m) = cd_numFields self"
  "cd_view (changed self fs v gs m) = Some (v\<lparr>dataView := (dataView v)\<lparr>data := m\<rparr>\<rparr>)"
  by (simp_all add: changed_def with_data_def)

lemma prepField_changed [simp]: "prepField hl enc (changed self fs v gs m) f = prepField hl enc self f"
proof -
  have "crcRange hl enc (changed self fs v gs m) f = crcRange hl enc self f" by (simp add: crcRange_def cong: if_cong)
  then show ?thesis by (simp add: prepField_def)
qed

lemma prepareLoop_ok:
  "\<lbrakk>openMsg (ps_data st) (pre @ fs) v; list_all (prepField hl enc (ps_data st)) fs; cd_currHdr (ps_data st) = Some enc;
    seqOk saved (length fs) st; all_apart (pre @ fs)\<rbrakk>
   \<Longrightarrow> \<exists>st' gs m. prepareLoop hl saved rnd st (length pre) (length fs) = Some (COMP_MSG_ERR_OK, st')
      \<and> ps_data st' = changed (ps_data st) (pre @ fs) v (pre @ gs) m \<and> list_all2 marked fs gs \<and> length m = length (data (dataView v))
      \<and> (\<forall>g \<in> set (pre @ fs). \<not> isPrepared (f_fieldNameId g) \<longrightarrow> storedBytes m g = storedBytes (data (dataView v)) g)"
proof (induction fs arbitrary: pre st v)
  case Nil
  have "changed (ps_data st) pre v pre (data (dataView v)) = ps_data st"
    using Nil.prems(1) fieldsOf_cells [of "ps_data st" pre] by (simp add: changed_def with_data_def openMsg_def)
  then show ?case by (intro exI [of _ st] exI [of _ "[]"] exI [of _ "data (dataView v)"]) simp
next
  case (Cons f fs)
  let ?self = "ps_data st" and ?rest = "drop (length (pre @ f # fs)) (cd_fields (ps_data st))"
  have "fieldsOf ?self (pre @ f # fs)" using Cons.prems(1) by (simp add: openMsg_def)
  from fieldsOf_cells [OF this] have cells: "cd_fields ?self = map Def pre @ map Def (f # fs) @ ?rest" by simp
  note cell = cells_mid [OF cells]
  consider (none) "prepareCall hl saved (rnd (length pre)) f st = None"
    | (call) st1 bs where "prepareCall hl saved (rnd (length pre)) f st = Some (Some (COMP_MSG_ERR_OK, st1))"
        "ps_data st1 = with_data ?self v (put (data (dataView v)) (unat (f_fieldOffset f)) bs)" "length bs = unat (f_fieldLgth f)"
        "isPrepared (f_fieldNameId f)" "seqOk saved (length fs) st1"
    using prepareCall_ok [OF Cons.prems(1) _ _ Cons.prems(3), of f hl saved "length fs" "rnd (length pre)"] Cons.prems(2,4) by auto
  then show ?case
  proof cases
    case none
    obtain st' gs m where "prepareLoop hl saved rnd st (length (pre @ [f])) (length fs) = Some (COMP_MSG_ERR_OK, st')"
      "ps_data st' = changed ?self ((pre @ [f]) @ fs) v ((pre @ [f]) @ gs) m" "list_all2 marked fs gs" "length m = length (data (dataView v))"
      "\<forall>g \<in> set ((pre @ [f]) @ fs). \<not> isPrepared (f_fieldNameId g) \<longrightarrow> storedBytes m g = storedBytes (data (dataView v)) g"
      using Cons.IH [of st "pre @ [f]" v] Cons.prems seqOk_Suc [of saved "length fs" st] by auto
    then show ?thesis using none cell(1)
      by (intro exI [of _ st'] exI [of _ "f # gs"] exI [of _ m]) simp
  next
    case call
    let ?m = "put (data (dataView v)) (unat (f_fieldOffset f)) bs"
    let ?g = "markSet f" and ?v = "v\<lparr>dataView := (dataView v)\<lparr>data := ?m\<rparr>\<rparr>"
    let ?st = "st1\<lparr>ps_data := changed ?self (pre @ f # fs) v ((pre @ [?g]) @ fs) ?m\<rparr>"
    have "cd_fields (ps_data st1) = map Def pre @ map Def (f # fs) @ ?rest" using cells call(2) by (simp add: with_data_def)
    from cells_mid(2) [OF this]
    have wr: "wr_cell (cd_fields (ps_data st1)) (length pre) ?g = Some (map Def (pre @ [?g]) @ map Def fs @ ?rest)" .
    have step: "prepareLoop hl saved rnd st (length pre) (length (f # fs)) = prepareLoop hl saved rnd ?st (length (pre @ [?g])) (length fs)"
      using cell(1) call(1,2) wr by (simp add: changed_def)
    have mk: "list_all2 marked (pre @ f # fs) ((pre @ [?g]) @ fs)" by (simp add: list_all2_append list_all2_refl)
    have "openMsg (ps_data ?st) ((pre @ [?g]) @ fs) ?v" using openMsg_changed [OF Cons.prems(1) mk, of ?m] by simp
    moreover have "seqOk saved (length fs) ?st" using call(5) by (simp add: seqOk_def)
    moreover have "all_apart ((pre @ [?g]) @ fs)" using Cons.prems(5) by (auto simp: all_apart_def apart_def)
    ultimately obtain st' gs m where IH: "prepareLoop hl saved rnd ?st (length (pre @ [?g])) (length fs) = Some (COMP_MSG_ERR_OK, st')"
      "ps_data st' = changed (ps_data ?st) ((pre @ [?g]) @ fs) ?v ((pre @ [?g]) @ gs) m" "list_all2 marked fs gs" "length m = length ?m"
      "\<forall>g \<in> set ((pre @ [?g]) @ fs). \<not> isPrepared (f_fieldNameId g) \<longrightarrow> storedBytes m g = storedBytes ?m g"
      using Cons.IH [of ?st "pre @ [?g]" ?v] Cons.prems(2,3) by auto
    have "ps_data st' = changed ?self (pre @ f # fs) v (pre @ ?g # gs) m"
      using IH(2) changed_changed [of "pre @ f # fs" "(pre @ [?g]) @ fs" ?self v ?m "(pre @ [?g]) @ gs" m] by simp
    moreover have room: "unat (f_fieldOffset f) + length bs \<le> length (data (dataView v))"
      using Cons.prems(1) call(3) by (simp add: openMsg_def fits_def wf_view_def)
    have "storedBytes ?m g = storedBytes (data (dataView v)) g" if "g \<in> set (pre @ f # fs)" "\<not> isPrepared (f_fieldNameId g)" for g
    proof (rule storedBytes_put)
      have "f_fieldNameId f \<noteq> f_fieldNameId g" using that(2) call(4) by auto
      then show "apart f g" using Cons.prems(5) that(1) by (auto simp: all_apart_def)
    qed (use room call(3) in simp_all)
    ultimately show ?thesis using IH step call(4)
      by (intro exI [of _ st'] exI [of _ "?g # gs"] exI [of _ m]) auto
  qed
qed

lemma prepareMsg_ok:
  assumes "openMsg (ps_data st) fs v" "list_all (prepField hl enc (ps_data st)) fs" "cd_currHdr (ps_data st) = Some enc"
    and "seqOk saved (length fs) st" "all_apart fs"
  shows "\<exists>st' gs m. prepareMsg hl saved rnd st = Some (COMP_MSG_ERR_OK, st')
      \<and> ps_data st' = (changed (ps_data st) fs v gs m)\<lparr>cd_flags := cd_flags (ps_data st) OR COMP_MSG_IS_PREPARED\<rparr>
      \<and> list_all2 marked fs gs \<and> length m = length (data (dataView v))
      \<and> (\<forall>g \<in> set fs. \<not> isPrepared (f_fieldNameId g) \<longrightarrow> storedBytes m g = storedBytes (data (dataView v)) g)"
proof -
  obtain st' gs m where "prepareLoop hl saved rnd st 0 (length fs) = Some (COMP_MSG_ERR_OK, st')"
    "ps_data st' = changed (ps_data st) fs v gs m" "list_all2 marked fs gs" "length m = length (data (dataView v))"
    "\<forall>g \<in> set fs. \<not> isPrepared (f_fieldNameId g) \<longrightarrow> storedBytes m g = storedBytes (data (dataView v)) g"
    using prepareLoop_ok [of st "[]" fs v hl enc saved rnd] assms by auto
  moreover have "numEntries (ps_data st) = length fs" "cd_flags (ps_data st) AND COMP_MSG_IS_INITTED \<noteq> 0"
    using assms(1) numEntries_fieldsOf by (auto simp: openMsg_def inited_def)
  ultimately show ?thesis by (auto simp: prepareMsg_def changed_def with_data_def)
qed

subsection \<open>Laying out and setting the command key\<close>

lemma placed_apart: "placed off fs \<Longrightarrow> unat off + msgSize fs < 2 ^ 32 \<Longrightarrow> all_apart fs"
proof -
  assume a: "placed off fs" "unat off + msgSize fs < 2 ^ 32"
  have before: "unat (f_fieldOffset (fs ! i)) + unat (f_fieldLgth (fs ! i)) \<le> unat (f_fieldOffset (fs ! j))"
    if "i < j" "j < length fs" for i j
  proof -
    have "msgSize (take i fs) + unat (f_fieldLgth (fs ! i)) \<le> msgSize (take j fs)"
      using msgSize_take [of i "take j fs"] that by (simp add: min_def)
    then show ?thesis using placed_offset [OF a, of i] placed_offset [OF a, of j] that by simp
  qed
  show ?thesis
  proof (unfold all_apart_def, intro ballI impI)
    fix f g assume "f \<in> set fs" "g \<in> set fs" "f_fieldNameId f \<noteq> f_fieldNameId g"
    moreover from this obtain i j where "i < length fs" "f = fs ! i" "j < length fs" "g = fs ! j" unfolding in_set_conv_nth by blast
    ultimately show "apart f g" using before [of i j] before [of j i] by (cases i j rule: linorder_cases) (auto simp: apart_def)
  qed
qed

lemma apart_marked:
  assumes "list_all2 marked fs gs" "all_apart fs"
  shows "all_apart gs"
proof (unfold all_apart_def, intro ballI impI)
  fix f g assume "f \<in> set gs" "g \<in> set gs" and ne: "f_fieldNameId f \<noteq> f_fieldNameId g"
  then obtain f' g' where fg: "f' \<in> set fs" "marked f' f" "g' \<in> set fs" "marked g' g" by (meson marked_origin assms(1))
  then show "apart f g" using assms(2) ne marked_keeps [OF fg(2)] marked_keeps [OF fg(4)] by (auto simp: all_apart_def apart_def)
qed

lemma init_open:
  assumes "initable self fs"
  shows "\<exists>ids' self' v gs. initMsg (\<lambda>_. True) ids self = Some (COMP_MSG_ERR_OK, ids', self') \<and> openMsg self' gs v
    \<and> list_all2 marked (layoutOf self fs) gs \<and> all_apart gs
    \<and> cd_flags self' = cd_flags self OR COMP_MSG_IS_INITTED \<and> cd_currHdr self' = cd_currHdr self
    \<and> length (data (dataView v)) = sizeOf self fs \<and> unat (cd_totalLgth self') = sizeOf self fs
    \<and> cd_headerLgth self' = hdrLgths (layoutOf self fs) \<and> cd_cmdLgth self' = cd_totalLgth self' - cd_headerLgth self'
    \<and> (\<forall>f \<in> set (layoutOf self fs). lengthField f \<longrightarrow>
         storedBytes (data (dataView v)) f = be16 (ucast (lengthValue (cd_totalLgth self') (cd_cmdLgth self') f)))"
proof -
  let ?fs = "layoutOf self fs"
  obtain ids' self' v where r: "initMsg (\<lambda>_. True) ids self = Some (COMP_MSG_ERR_OK, ids', self')"
    "cd_flags self' = cd_flags self OR COMP_MSG_IS_INITTED" "fieldsOf self' (map markLength ?fs)"
    "cd_view self' = Some v" "wf_view (dataView v)" "unat (lgth (dataView v)) = sizeOf self fs"
    "cd_totalLgth self' = lgth (dataView v)" "cd_headerLgth self' = hdrLgths ?fs"
    "cd_cmdLgth self' = lgth (dataView v) - hdrLgths ?fs" "cd_currHdr self' = cd_currHdr self"
    "\<forall>f \<in> set ?fs. lengthField f \<longrightarrow> take 2 (drop (unat (f_fieldOffset f)) (data (dataView v)))
         = be16 (ucast (lengthValue (cd_totalLgth self') (cd_cmdLgth self') f))"
    using initMsg_ok [OF assms] by blast
  have mk: "list_all2 marked ?fs (map markLength ?fs)" by (simp add: list_all2_map2 markLength_def list_all2_refl)
  have "fits (dataView v) (f_fieldOffset f) (unat (f_fieldLgth f))" if "f \<in> set ?fs" for f
    using that layout_inside(2) [OF assms] r(5,6) by (auto simp: fits_def in_set_conv_nth layoutOf_def)
  then have "openMsg self' (map markLength ?fs) v"
    using r by (auto simp: openMsg_def inited_def or32)
  moreover have "all_apart ?fs"
    using layoutSpec_placed [of 0 "crcLgth self" 0 fs] assms by (intro placed_apart [of 0]) (simp_all add: layoutOf_def initable_def sizeOf_def)
  then have "all_apart (map markLength ?fs)" by (rule apart_marked [OF mk])
  moreover have "list_all lengthFieldOk ?fs" using layoutSpec_lengthFieldOk assms by (simp add: layoutOf_def initable_def)
  then have "\<forall>f \<in> set ?fs. lengthField f \<longrightarrow>
         storedBytes (data (dataView v)) f = be16 (ucast (lengthValue (cd_totalLgth self') (cd_cmdLgth self') f))"
    using r(11) by (auto simp: storedBytes_def list_all_iff lengthFieldOk_def)
  ultimately show ?thesis using r mk
    by (intro exI [of _ ids'] exI [of _ self'] exI [of _ v] exI [of _ "map markLength ?fs"]) (simp add: wf_view_def)
qed

text \<open>The command key has 16 bits.\<close>

definition cmdKeyOk :: "compMsgField \<Rightarrow> bool" where
  "cmdKeyOk f \<longleftrightarrow> (f_fieldNameId f = COMP_MSG_SPEC_FIELD_CMD_KEY \<longrightarrow> f_fieldTypeId f = DATA_VIEW_FIELD_UINT16_T \<and> f_fieldLgth f = 2)"

lemma changed_same: "openMsg self fs v \<Longrightarrow> changed self fs v fs (data (dataView v)) = self"
  using fieldsOf_cells [of self fs] by (simp add: changed_def with_data_def openMsg_def)

lemma set_cmdKey:
  assumes "openMsg self fs v" "list_all cmdKeyOk fs" "all_apart fs"
  shows "\<exists>gs m. setDataValue tn self ''@cmdKey'' (ucast (key :: u16)) None = Some (COMP_MSG_ERR_OK, changed self fs v gs m, tn)
    \<and> list_all2 marked fs gs \<and> length m = length (data (dataView v))
    \<and> (\<forall>f. find (\<lambda>f. f_fieldNameId f = COMP_MSG_SPEC_FIELD_CMD_KEY) fs = Some f \<longrightarrow> storedBytes m f = be16 key)
    \<and> (\<forall>g \<in> set fs. f_fieldNameId g \<noteq> COMP_MSG_SPEC_FIELD_CMD_KEY \<longrightarrow> storedBytes m g = storedBytes (data (dataView v)) g)"
proof -
  let ?P = "\<lambda>f. f_fieldNameId f = COMP_MSG_SPEC_FIELD_CMD_KEY"
  have special: "getFieldNameIdFromStr (\<lambda>_. True) tn ''@cmdKey'' COMP_MSG_NO_INCR = Some (Inr COMP_MSG_SPEC_FIELD_CMD_KEY, tn)"
    by (rule special_lookup) (simp_all add: specialFieldNames_def)
  have open': "cd_flags self AND COMP_MSG_IS_INITTED \<noteq> 0" "cd_view self = Some v" "fieldsOf self fs" "wf_view (dataView v)"
    using assms(1) by (simp_all add: openMsg_def inited_def)
  note scan = fieldsOf_scan [OF open'(3), of ?P]
  show ?thesis
  proof (cases "find_idx ?P 0 fs")
    case None
    then show ?thesis using special open' scan changed_same [OF assms(1)]
      by (intro exI [of _ fs] exI [of _ "data (dataView v)"]) (simp add: setDataValue_def cannotBeSet_def list_all2_refl find_idx_find' [of _ _ 0])
  next
    case (Some p)
    obtain i f where p: "p = (i, f)" by (cases p)
    have f: "i < length fs" "f = fs ! i" "?P f" using find_idx_SomeD [OF Some [unfolded p]] by auto
    then have "f \<in> set fs" by simp
    then have t: "f_fieldTypeId f = DATA_VIEW_FIELD_UINT16_T" "f_fieldLgth f = 2" "fits (dataView v) (f_fieldOffset f) 2"
      using assms f(3) unfolding openMsg_def by (auto simp: list_all_iff cmdKeyOk_def)
    let ?m = "put (data (dataView v)) (unat (f_fieldOffset f)) (be16 key)"
    have unat_key: "unat key < 65536" "ucast (ucast key :: u32) = key"
      using unsigned_less [where ?'a = nat and w = key] by (simp_all add: ucast_up_ucast_id is_up_def source_size_def target_size_def word_size)
    have "onView self (\<lambda>dv. setFieldValue dv f (ucast key) None 0) = Some (0, with_data self v ?m)"
      using set_length [OF t(3,1), of "ucast key"] open'(2) unat_key by (intro onView_with_data) simp_all
    moreover have "wr_cell (cd_fields (with_data self v ?m)) i (markSet f) = Some (map Def (fs[i := markSet f]) @ drop (length fs) (cd_fields self))"
    proof -
      have "cd_fields self = map Def fs @ drop (length fs) (cd_fields self)" by (rule fieldsOf_cells [OF open'(3)])
      moreover have "wr_cell (map Def fs @ rest) i (markSet f) = Some (map Def (fs[i := markSet f]) @ rest)" for rest
        using f(1) by (simp add: list_update_append map_update)
      moreover have "cd_fields (with_data self v ?m) = cd_fields self" by (simp add: with_data_def)
      ultimately show ?thesis by metis
    qed
    ultimately have "setDataValue tn self ''@cmdKey'' (ucast key) None = Some (0, changed self fs v (fs[i := markSet f]) ?m, tn)"
      using special open' scan Some p by (simp add: setDataValue_def cannotBeSet_def changed_def)
    moreover have "list_all2 marked fs (fs[i := markSet f])"
      using f by (auto simp: list_all2_conv_all_nth nth_list_update)
    moreover have room: "unat (f_fieldOffset f) + length (be16 key) \<le> length (data (dataView v))" using t(3) by (simp add: fits_def wf_view_def)
    then have "storedBytes ?m f = be16 key" using take_drop_put_same [OF room] t(2) by (simp add: storedBytes_def)
    moreover have "storedBytes ?m g = storedBytes (data (dataView v)) g" if "g \<in> set fs" "\<not> ?P g" for g
      using that f(3) \<open>f \<in> set fs\<close> assms(3) t(2) room by (intro storedBytes_put) (auto simp: all_apart_def)
    ultimately show ?thesis using Some p
      by (intro exI [of _ "fs[i := markSet f]"] exI [of _ ?m]) (simp add: find_idx_find' [of _ _ 0])
  qed
qed

subsection \<open>Termination\<close>

text \<open>The loop of \<open>fixOffsetsForKeyValues\<close> ends when its counter can reach the number of fields.\<close>

lemma fixLoop_ends: "unat numFields \<le> 255 \<Longrightarrow> fixLoop i numFields = Some COMP_MSG_ERR_OK"
proof (induction "unat numFields - unat i" arbitrary: i rule: less_induct)
  case less
  show ?case
  proof (cases "ucast i < numFields")
    case True
    then have "unat i < unat numFields" by (simp add: word_less_nat_alt)
    then have "unat (i + 1) = Suc (unat i)" using less.prems by (simp add: unat_word_ariths)
    then have "fixLoop (i + 1) numFields = Some COMP_MSG_ERR_OK" using \<open>unat i < _\<close> less.prems by (intro less.hyps) linarith+
    then show ?thesis using True by (subst fixLoop.simps) simp
  next
    case False
    then show ?thesis by (subst fixLoop.simps) simp
  qed
qed

lemma fixLoop_diverges:
  assumes "fixLoop i numFields = Some rc"
  shows "unat numFields \<le> 255"
proof (rule fixLoop.raw_induct [where P = "\<lambda>i n rc. unat n \<le> 255", OF _ assms])
  fix f i n rc
  assume IH: "\<And>i n rc. f i n = Some rc \<Longrightarrow> unat (n :: size_t) \<le> 255"
    and body: "(if ucast (i :: u8) < n then f (i + 1) n else Some COMP_MSG_ERR_OK) = Some rc"
  show "unat n \<le> 255"
  proof (cases "ucast i < n")
    case True
    then show ?thesis using IH [of "i + 1" n rc] body by simp
  next
    case False
    then have "unat n \<le> unat i" by (simp add: word_less_nat_alt)
    then show ?thesis using unat_u8_less [of i] by linarith
  qed
qed

subsection \<open>The prepared message\<close>

lemma or64: "(x OR 64) AND 64 \<noteq> 0" for x :: u16
  by (simp only: bit.conj_disj_distrib2, simp)

lemma marked_trans: "marked f g \<Longrightarrow> marked g h \<Longrightarrow> marked f h"
  by (auto simp: marked_def markSet_def)

lemma marked_find:
  "list_all2 marked fs gs \<Longrightarrow> find (\<lambda>f. f_fieldNameId f = i) fs = Some f \<Longrightarrow> \<exists>g. find (\<lambda>f. f_fieldNameId f = i) gs = Some g \<and> marked f g"
  by (induction rule: list_all2_induct) (auto simp: marked_keeps split: if_splits)

lemma marked_bytes: "marked f g \<Longrightarrow> storedBytes m g = storedBytes m f"
  by (simp add: storedBytes_def marked_keeps)

lemma marked_last: "list_all2 marked fs gs \<Longrightarrow> fs \<noteq> [] \<Longrightarrow> gs \<noteq> [] \<and> marked (last fs) (last gs)"
  by (induction rule: list_all2_induct) (auto simp: list_all2_Nil)

lemma marked_kept:
  assumes "list_all2 marked fs gs" "\<forall>g \<in> set gs. P (f_fieldNameId g) \<longrightarrow> storedBytes m g = storedBytes m' g"
    and "f \<in> set fs" "P (f_fieldNameId f)"
  shows "storedBytes m f = storedBytes m' f"
proof -
  obtain g where g: "g \<in> set gs" "marked f g" by (rule marked_image [OF assms(1,3)])
  then have "P (f_fieldNameId g)" using assms(4) marked_keeps [OF g(2)] by simp
  then have "storedBytes m g = storedBytes m' g" using assms(2) g(1) by blast
  then show ?thesis by (simp only: marked_bytes [OF g(2)])
qed

lemma marked_all:
  assumes "list_all2 marked fs gs" "\<And>f g. marked f g \<Longrightarrow> P f = P g"
  shows "list_all P fs = list_all P gs"
  using assms(1) by (induction rule: list_all2_induct) (auto simp: assms(2))

text \<open>The message \<open>initMsg\<close> leaves, as far as the checksum depends on it, and what a message needs to be built.\<close>

definition laid :: "compMsgData \<Rightarrow> compMsgField list \<Rightarrow> compMsgData" where
  "laid self fs = self\<lparr>cd_flags := cd_flags self OR COMP_MSG_IS_INITTED, cd_headerLgth := hdrLgths (layoutOf self fs),
     cd_cmdLgth := word_of_nat (sizeOf self fs) - hdrLgths (layoutOf self fs)\<rparr>"

definition buildable :: "buildEnv \<Rightarrow> builder \<Rightarrow> headerPart \<Rightarrow> compMsgField list \<Rightarrow> bool" where
  "buildable env b hdr fs \<longleftrightarrow> initable (s_msg b) fs \<and> length fs < 256 \<and> s_currHdr b = Some hdr
     \<and> cd_currHdr (s_msg b) = Some (hdrEncryption hdr) \<and> s_tn b \<noteq> None \<and> e_ok env = (\<lambda>_. True)
     \<and> list_all cmdKeyOk (layoutOf (s_msg b) fs)
     \<and> list_all (prepField (e_hdrLgth env) (hdrEncryption hdr) (laid (s_msg b) fs)) (layoutOf (s_msg b) fs)
     \<and> seqOk (e_saved env) (length fs) \<lparr>ps_sequenceNum = b_sequenceNum b, ps_wifiFlags = b_wifiFlags b, ps_data = s_msg b\<rparr>"

text \<open>The fields the builder sets.\<close>

definition plainOk :: "u16 \<Rightarrow> nat \<Rightarrow> nat \<Rightarrow> compMsgField list \<Rightarrow> mem \<Rightarrow> bool" where
  "plainOk key n h fs m \<longleftrightarrow> length m = n
     \<and> (\<forall>f \<in> set fs. f_fieldNameId f = COMP_MSG_SPEC_FIELD_TOTAL_LGTH \<longrightarrow> storedBytes m f = be16 (word_of_nat n))
     \<and> (\<forall>f \<in> set fs. f_fieldNameId f = COMP_MSG_SPEC_FIELD_CMD_LGTH \<longrightarrow> storedBytes m f = be16 (word_of_nat (n - h)))
     \<and> (\<forall>f. find (\<lambda>f. f_fieldNameId f = COMP_MSG_SPEC_FIELD_CMD_KEY) fs = Some f \<longrightarrow> storedBytes m f = be16 key)"

lemma init_with_key:
  assumes "buildable env b hdr fs" "s_tn b = Some tn"
  shows "\<exists>ids' msg1 msg2 v gs. initMsg (e_ok env) (b_ids b) ((s_msg b)\<lparr>cd_direction := COMP_MSG_TO_SEND_DATA\<rparr>) = Some (COMP_MSG_ERR_OK, ids', msg1)
    \<and> setDataValue tn msg1 ''@cmdKey'' (ucast (hdrU16CmdKey hdr)) None = Some (COMP_MSG_ERR_OK, msg2, tn) \<and> openMsg msg2 gs v
    \<and> list_all2 marked (layoutOf (s_msg b) fs) gs \<and> all_apart gs
    \<and> cd_flags msg2 = cd_flags (s_msg b) OR COMP_MSG_IS_INITTED \<and> cd_currHdr msg2 = Some (hdrEncryption hdr)
    \<and> unat (cd_totalLgth msg2) = sizeOf (s_msg b) fs \<and> cd_headerLgth msg2 = hdrLgths (layoutOf (s_msg b) fs)
    \<and> cd_cmdLgth msg2 = cd_totalLgth msg2 - cd_headerLgth msg2
    \<and> plainOk (hdrU16CmdKey hdr) (sizeOf (s_msg b) fs) (unat (cd_headerLgth msg2)) (layoutOf (s_msg b) fs) (data (dataView v))"
proof -
  let ?self = "(s_msg b)\<lparr>cd_direction := COMP_MSG_TO_SEND_DATA\<rparr>" and ?L = "layoutOf (s_msg b) fs" and ?n = "sizeOf (s_msg b) fs"
  have "crcLgth ?self = crcLgth (s_msg b)" by (simp add: crcLgth_def)
  then have "layoutOf ?self fs = ?L" "sizeOf ?self fs = ?n" by (simp_all add: layoutOf_def sizeOf_def)
  then have self: "initable ?self fs" "layoutOf ?self fs = ?L" "sizeOf ?self fs = ?n"
    using assms(1) by (simp_all add: buildable_def initable_def fieldsOf_def)
  have small: "?n < 65536" using assms(1) by (simp add: buildable_def initable_def)
  obtain ids' msg1 v1 gs1 where i: "initMsg (\<lambda>_. True) (b_ids b) ?self = Some (COMP_MSG_ERR_OK, ids', msg1)" "openMsg msg1 gs1 v1"
    "list_all2 marked ?L gs1" "all_apart gs1" "cd_flags msg1 = cd_flags ?self OR COMP_MSG_IS_INITTED" "cd_currHdr msg1 = cd_currHdr ?self"
    "length (data (dataView v1)) = ?n" "unat (cd_totalLgth msg1) = ?n" "cd_headerLgth msg1 = hdrLgths ?L"
    "cd_cmdLgth msg1 = cd_totalLgth msg1 - cd_headerLgth msg1"
    "\<forall>f \<in> set ?L. lengthField f \<longrightarrow>
         storedBytes (data (dataView v1)) f = be16 (ucast (lengthValue (cd_totalLgth msg1) (cd_cmdLgth msg1) f))"
    using init_open [OF self(1), of "b_ids b"] unfolding self(2,3) by blast
  have "list_all cmdKeyOk gs1" using assms(1) marked_all [OF i(3), of cmdKeyOk] by (auto simp: buildable_def cmdKeyOk_def marked_keeps)
  from set_cmdKey [OF i(2) this i(4), of tn "hdrU16CmdKey hdr"]
  obtain gs m where k: "setDataValue tn msg1 ''@cmdKey'' (ucast (hdrU16CmdKey hdr)) None = Some (COMP_MSG_ERR_OK, changed msg1 gs1 v1 gs m, tn)"
    "list_all2 marked gs1 gs" "length m = length (data (dataView v1))"
    "\<forall>f. find (\<lambda>f. f_fieldNameId f = COMP_MSG_SPEC_FIELD_CMD_KEY) gs1 = Some f \<longrightarrow> storedBytes m f = be16 (hdrU16CmdKey hdr)"
    "\<forall>g \<in> set gs1. f_fieldNameId g \<noteq> COMP_MSG_SPEC_FIELD_CMD_KEY \<longrightarrow> storedBytes m g = storedBytes (data (dataView v1)) g" by blast
  have keep: "storedBytes m f = storedBytes (data (dataView v1)) f" if f: "f \<in> set ?L" "f_fieldNameId f \<noteq> COMP_MSG_SPEC_FIELD_CMD_KEY" for f
    by (rule marked_kept [OF i(3) k(5) f])
  have "msgSize ?L \<le> ?n" by (simp add: sizeOf_def)
  then have "unat (hdrLgths ?L) \<le> unat (cd_totalLgth msg1)" using hdrLgths_le [of ?L] small i(8) by simp
  then have "unat (cd_cmdLgth msg1) = ?n - unat (hdrLgths ?L)" using i(8,9,10) by (simp add: unat_sub word_le_nat_alt)
  then have total: "ucast (cd_totalLgth msg1) = (word_of_nat ?n :: u16)" "ucast (cd_cmdLgth msg1) = (word_of_nat (?n - unat (hdrLgths ?L)) :: u16)"
    using i(8) by (metis of_nat_unat)+
  have "storedBytes m f = be16 (hdrU16CmdKey hdr)" if f: "find (\<lambda>f. f_fieldNameId f = COMP_MSG_SPEC_FIELD_CMD_KEY) ?L = Some f" for f
  proof -
    obtain g where g: "find (\<lambda>f. f_fieldNameId f = COMP_MSG_SPEC_FIELD_CMD_KEY) gs1 = Some g" "marked f g" using marked_find [OF i(3) f] by blast
    show ?thesis using k(4) g(1) by (simp only: marked_bytes [OF g(2), symmetric])
  qed
  then have "plainOk (hdrU16CmdKey hdr) ?n (unat (hdrLgths ?L)) ?L m"
    unfolding plainOk_def using keep i(7,11) k(3) total
    by (auto simp: lengthField_def lengthValue_def)
  moreover have "list_all2 marked ?L gs" using list_all2_trans [OF marked_trans i(3) k(2)] .
  ultimately show ?thesis
    using i k openMsg_changed [OF i(2) k(2,3)] apart_marked [OF k(2) i(4)] assms(1)
    by (intro exI [of _ ids'] exI [of _ msg1] exI [of _ "changed msg1 gs1 v1 gs m"] exI [of _ "v1\<lparr>dataView := (dataView v1)\<lparr>data := m\<rparr>\<rparr>"] exI [of _ gs])
       (simp add: buildable_def)
qed

lemma laid_prepField:
  assumes "cd_flags msg = cd_flags (laid self fs)" "cd_headerLgth msg = cd_headerLgth (laid self fs)" "cd_cmdLgth msg = cd_cmdLgth (laid self fs)"
    and "marked f g"
  shows "prepField hl enc msg g = prepField hl enc (laid self fs) f"
proof -
  have "crcRange hl enc msg g = crcRange hl enc (laid self fs) f"
    unfolding crcRange_def assms(1-3) using marked_keeps [OF assms(4)] by simp
  then show ?thesis using marked_keeps [OF assms(4)] by (simp add: prepField_def)
qed

lemma build_prepared:
  assumes "buildable env b hdr fs"
  shows "\<exists>b' msg gs v. buildMsg aes env b = sendBuilt aes env b' (lgth (dataView v))
    \<and> s_msg b' = msg \<and> s_currHdr b' = Some hdr \<and> s_tn b' = s_tn b \<and> s_handles b' = s_handles b \<and> s_sud b' = s_sud b \<and> s_events b' = s_events b
    \<and> openMsg msg gs v \<and> list_all2 marked (layoutOf (s_msg b) fs) gs
    \<and> unat (cd_totalLgth msg) = sizeOf (s_msg b) fs \<and> cd_headerLgth msg = hdrLgths (layoutOf (s_msg b) fs)
    \<and> plainOk (hdrU16CmdKey hdr) (sizeOf (s_msg b) fs) (unat (cd_headerLgth msg)) (layoutOf (s_msg b) fs) (data (dataView v))"
proof -
  let ?L = "layoutOf (s_msg b) fs" and ?n = "sizeOf (s_msg b) fs" and ?prep = "prepField (e_hdrLgth env) (hdrEncryption hdr)"
  obtain tn where tn: "s_tn b = Some tn" using assms by (auto simp: buildable_def)
  obtain ids' msg1 msg2 v gs where k: "initMsg (e_ok env) (b_ids b) ((s_msg b)\<lparr>cd_direction := COMP_MSG_TO_SEND_DATA\<rparr>) = Some (COMP_MSG_ERR_OK, ids', msg1)"
    "setDataValue tn msg1 ''@cmdKey'' (ucast (hdrU16CmdKey hdr)) None = Some (COMP_MSG_ERR_OK, msg2, tn)" "openMsg msg2 gs v"
    "list_all2 marked ?L gs" "all_apart gs" "cd_flags msg2 = cd_flags (s_msg b) OR COMP_MSG_IS_INITTED" "cd_currHdr msg2 = Some (hdrEncryption hdr)"
    "unat (cd_totalLgth msg2) = ?n" "cd_headerLgth msg2 = hdrLgths ?L" "cd_cmdLgth msg2 = cd_totalLgth msg2 - cd_headerLgth msg2"
    "plainOk (hdrU16CmdKey hdr) ?n (unat (cd_headerLgth msg2)) ?L (data (dataView v))"
    using init_with_key [OF assms tn] by blast
  have "cd_totalLgth msg2 = word_of_nat ?n" using k(8) by (metis of_nat_unat ucast_id)
  then have "?prep msg2 g = ?prep (laid (s_msg b) fs) f" if "marked f g" for f g
    using k(6,9,10) that by (intro laid_prepField) (simp_all add: laid_def)
  then have "?prep (laid (s_msg b) fs) f = ?prep msg2 g" if "marked f g" for f g using that by simp
  moreover have same: "?prep (laid (s_msg b) fs) g = ?prep (laid (s_msg b) fs) f" if "marked f g" for f g
    using that by (intro laid_prepField) simp_all
  moreover have "list_all (?prep (laid (s_msg b) fs)) ?L" using assms by (simp add: buildable_def)
  then have "list_all (?prep (laid (s_msg b) fs)) gs" using marked_all [OF k(4), of "?prep (laid (s_msg b) fs)"] same by simp
  ultimately have prep: "list_all (?prep msg2) gs" using marked_simps(1) unfolding list_all_iff by blast
  let ?st = "\<lparr>ps_sequenceNum = b_sequenceNum b, ps_wifiFlags = b_wifiFlags b, ps_data = msg2\<rparr>"
  have len: "length gs = length fs" using list_all2_lengthD [OF k(4)] by (simp add: layoutOf_def)
  have "seqOk (e_saved env) (length gs) ?st" using assms len by (simp add: buildable_def seqOk_def)
  from prepareMsg_ok [of ?st gs v "e_hdrLgth env" "hdrEncryption hdr" "e_saved env" "e_rnd env", simplified, OF k(3) prep k(7) this k(5)]
  obtain st' hs m where p: "prepareMsg (e_hdrLgth env) (e_saved env) (e_rnd env) ?st = Some (COMP_MSG_ERR_OK, st')"
    "ps_data st' = (changed msg2 gs v hs m)\<lparr>cd_flags := cd_flags msg2 OR COMP_MSG_IS_PREPARED\<rparr>" "list_all2 marked gs hs"
    "length m = length (data (dataView v))"
    "\<forall>g \<in> set gs. \<not> isPrepared (f_fieldNameId g) \<longrightarrow> storedBytes m g = storedBytes (data (dataView v)) g" by blast
  let ?v = "v\<lparr>dataView := (dataView v)\<lparr>data := m\<rparr>\<rparr>" and ?msg = "ps_data st'"
  have openm: "openMsg ?msg hs ?v" using openMsg_changed [OF k(3) p(3,4)] k(6)
    by (simp add: p(2) openMsg_def inited_def fieldsOf_def flag_bits)
  have "getMsgData ?msg = Some (Inr (m, lgth (dataView v)))"
    using k(6) or64 [of "cd_flags msg2"] by (simp add: p(2) getMsgData_def getDataViewData_def flag_bits)
  moreover have "fixOffsetsForKeyValues b = Some COMP_MSG_ERR_OK"
    using assms by (auto simp: fixOffsetsForKeyValues_def buildable_def initable_def fieldsOf_def unat_of_nat intro!: fixLoop_ends)
  ultimately have "buildMsg aes env b = sendBuilt aes env (b\<lparr>b_ids := ids', s_tn := Some tn, s_msg := ?msg,
      b_sequenceNum := ps_sequenceNum st', b_wifiFlags := ps_wifiFlags st'\<rparr>) (lgth (dataView ?v))"
    using assms k(1,2) p(1) tn by (simp add: buildMsg_def setMsgValues_def buildable_def)
  moreover have keep: "storedBytes m f = storedBytes (data (dataView v)) f" if f: "f \<in> set ?L" "\<not> isPrepared (f_fieldNameId f)" for f
    by (rule marked_kept [OF k(4) p(5) f])
  have "plainOk (hdrU16CmdKey hdr) ?n (unat (hdrLgths ?L)) ?L m"
    using k(11) keep p(4) unfolding plainOk_def k(9) by (auto simp: isPrepared_def find_Some_iff)
  moreover have "list_all2 marked ?L hs" using list_all2_trans [OF marked_trans k(4) p(3)] .
  ultimately show ?thesis using openm k(8,9) tn assms
    by (intro exI [of _ "b\<lparr>b_ids := ids', s_tn := Some tn, s_msg := ?msg, b_sequenceNum := ps_sequenceNum st', b_wifiFlags := ps_wifiFlags st'\<rparr>"]
          exI [of _ ?msg] exI [of _ hs] exI [of _ ?v]) (simp add: p(2) buildable_def)
qed

subsection \<open>Encryption, total checksum and sending\<close>

text \<open>What the SDK's functions have to do for the key: the hypotheses of the decryption in \<open>Crypto\<close>.\<close>

definition aes_inverse :: "'c aes_funcs \<Rightarrow> mem \<Rightarrow> bool" where
  "aes_inverse aes key \<longleftrightarrow> (\<exists>e d. init (aes OP_ENCRYPT) key = Some e \<and> keeps_block16 (crypt (aes OP_ENCRYPT) e)
     \<and> init (aes OP_DECRYPT) key = Some d \<and> keeps_block16 (crypt (aes OP_DECRYPT) d)
     \<and> inverts (crypt (aes OP_DECRYPT) d) (crypt (aes OP_ENCRYPT) e))"

text \<open>
  The lengths the code assumes: behind the header there are whole blocks and then one byte, the field of the total
  checksum, which is the last one.
\<close>

definition wholeBlocks :: "compMsgField \<Rightarrow> nat \<Rightarrow> nat \<Rightarrow> bool" where
  "wholeBlocks f h n \<longleftrightarrow> f_fieldLgth f = 1 \<and> unat (f_fieldOffset f) + 1 = n \<and> h < n \<and> 16 dvd n - 1 - h \<and> n < 5116"

lemma encryptPart_eq:
  assumes "cd_view msg = Some v" "e_ok env = (\<lambda>_. True)" "hdrEncryption hdr = 69"
    and "aes_inverse aes (e_cryptKey env)" "16 \<le> length (e_cryptKey env)"
    and "length (data (dataView v)) = n" "unat (cd_totalLgth msg) = n" "n < 65536" "h = unat (cd_headerLgth msg)"
    and "t = (if hdrFlags hdr AND COMP_DISP_TOTAL_CRC \<noteq> 0 then 1 else 2)" "h + t \<le> n" "l = n - h - t"
  shows "\<exists>c. length c = pads l
    \<and> decryptMsg aes True c (word_of_nat (length c)) (e_cryptKey env) (e_cryptKey env) 16
        = Some (COMP_MSG_ERR_OK, Block (take l (drop h (data (dataView v))) @ replicate (pads l - l) 0), word_of_nat (length c))
    \<and> (\<forall>iv. 16 \<le> length iv \<longrightarrow> decryptMsg aes True c (word_of_nat (length c)) (e_cryptKey env) iv 16
        = Some (COMP_MSG_ERR_OK, Block (other_iv (take 16 (e_cryptKey env)) (take 16 iv)
            (take l (drop h (data (dataView v))) @ replicate (pads l - l) 0)), word_of_nat (length c)))
    \<and> encryptPart aes env hdr msg =
        (if h + length c \<le> n then Some (COMP_MSG_ERR_OK, with_data msg v (put (data (dataView v)) h c)) else None)"
proof -
  let ?m = "data (dataView v)" and ?k = "e_cryptKey env" and ?l = "cryptLgth hdr msg" and ?p = "take l (drop h (data (dataView v)))"
  have "unat (cd_totalLgth msg - cd_headerLgth msg) = n - h" using assms(7,9,11) by (simp add: unat_sub word_le_nat_alt)
  moreover from this have "unat (cd_totalLgth msg - cd_headerLgth msg - word_of_nat t) = n - h - t"
    using assms(11) by (subst unat_sub) (auto simp: word_le_nat_alt assms(10) split: if_splits)
  moreover have "?l = cd_totalLgth msg - cd_headerLgth msg - word_of_nat t" by (simp add: cryptLgth_def assms(10))
  ultimately have l: "unat ?l = l" using assms(12) by simp
  have p: "drop h ?m = ?p @ drop l (drop h ?m)" "length ?p = l"
    using assms(6,12) by (simp_all only: append_take_drop_id) simp
  obtain e d where aes: "init (aes OP_ENCRYPT) ?k = Some e" "keeps_block16 (crypt (aes OP_ENCRYPT) e)"
     "init (aes OP_DECRYPT) ?k = Some d" "keeps_block16 (crypt (aes OP_DECRYPT) d)"
     "inverts (crypt (aes OP_DECRYPT) d) (crypt (aes OP_ENCRYPT) e)" using assms(4) by (auto simp: aes_inverse_def)
  have len: "unat ?l = length ?p" "length ?p < 2 ^ 30" "unat (16 :: size_t) \<le> length ?k" using l p(2) assms(5,8,12) by simp_all
  obtain c k where c: "encryptMsg aes True ?p ?l ?k ?k 16 = Some (COMP_MSG_ERR_OK, Block c, k)" "unat k = length c"
    "decryptMsg aes True c k ?k ?k 16 = Some (COMP_MSG_ERR_OK, Block (?p @ replicate (pads (length ?p) - length ?p) 0), k)"
    using decrypt_encrypt [OF len aes] by blast
  have k: "k = (?l + 16 - 1) div 16 * 16" using c(1) cryptMsg_cbc [of ?l ?p 16 ?k aes OP_ENCRYPT ?k e] len aes by (simp add: encryptMsg_def)
  have "unat k = pads (unat ?l)" unfolding k using len(1,2) by (intro clen_eq) simp
  then have lc: "length c = pads l" using l c(2) by simp
  have kw: "k = word_of_nat (length c)" using c(2) by (metis of_nat_unat ucast_id)
  have "encryptMsg aes True (drop h ?m) ?l ?k ?k 16 = Some (COMP_MSG_ERR_OK, Block c, k)"
    using encryptMsg_prefix [of ?l ?p aes True "drop l (drop h ?m)" ?k ?k 16] c(1) len(1) p(1) by simp
  then have "encryptPart aes env hdr msg =
      (if h + length c \<le> n then Some (COMP_MSG_ERR_OK, with_data msg v (put ?m h c)) else None)"
    using assms(1-3,6) c(2) by (simp add: encryptPart_def with_data_def rd_block_def wr_block_def flip: assms(9))
  moreover have "decryptMsg aes True c k ?k iv 16
      = Some (COMP_MSG_ERR_OK, Block (other_iv (take 16 ?k) (take 16 iv) (?p @ replicate (pads l - l) 0)), k)" if iv: "16 \<le> length iv" for iv
  proof -
    have "unat (16 :: size_t) \<le> length iv" using iv by simp
    from decrypt_encrypt_other [OF len this aes] show ?thesis using c(1) p(2) assms(5) iv by (auto simp: iv_block_def Let_def)
  qed
  ultimately show ?thesis using c(3) kw lc p(2) by (intro exI [of _ c]) simp
qed

lemma delete_some:
  assumes "wf_names tn" and "wf_handles t"
  shows "\<exists>tn' t' self'. deleteMsg (Some tn) t self = Some (COMP_MSG_ERR_OK, Some tn', t', self')"
proof (cases "cd_handle self = ''''")
  case True
  obtain es rest where "names tn = map Def es @ rest" "unat (numNames tn) = length es"
    using assms(1) by (rule wf_namesE)
  then show ?thesis using True by (simp add: deleteMsg_def freeCompMsgData_def freeCompMsgTypesAndNames_def scan_defined)
next
  case False
  then show ?thesis using delete_releases [OF assms, of self] by blast
qed

text \<open>A message whose last byte is its total checksum.\<close>

definition closed :: "compMsgField \<Rightarrow> mem \<Rightarrow> mem" where
  "closed f m = put m (unat (f_fieldOffset f)) (crcBytes f (NOT (byte_sum (take (unat (f_fieldOffset f)) m))))"

lemma total_closed:
  assumes "wf_view dv" "f_fieldLgth f = 1" "unat (f_fieldOffset f) + 1 = length (data dv)"
  shows "setTotalCrc dv f = Some (DATA_VIEW_ERR_OK, dv\<lparr>data := closed f (data dv)\<rparr>)"
    and "getTotalCrc (dv\<lparr>data := closed f (data dv)\<rparr>) f = Some DATA_VIEW_ERR_OK"
proof -
  have c: "crc_covers dv f 0 (f_fieldOffset f)" using assms by (auto simp: crc_covers_def fits_def wf_view_def crcWidth_def)
  have "covered dv 0 (f_fieldOffset f) = take (unat (f_fieldOffset f)) (data dv)" by (simp add: covered_def)
  then show "setTotalCrc dv f = Some (DATA_VIEW_ERR_OK, dv\<lparr>data := closed f (data dv)\<rparr>)"
    and "getTotalCrc (dv\<lparr>data := closed f (data dv)\<rparr>) f = Some DATA_VIEW_ERR_OK"
    using setCrc_covered [OF c] getCrc_put [OF c] by (simp_all add: total_is_crc closed_def)
qed

lemma total_marked: "marked f g \<Longrightarrow> getTotalCrc dv g = getTotalCrc dv f \<and> closed g = closed f"
  by (auto simp: marked_def getTotalCrc_def checkCrc_def closed_def crcBytes_def fun_eq_iff cong: if_cong)

lemma closePart_ok:
  assumes "openMsg msg gs v" "gs \<noteq> []" "hdrFlags hdr AND COMP_DISP_TOTAL_CRC \<noteq> 0"
    and "f_fieldLgth (last gs) = 1" "unat (f_fieldOffset (last gs)) + 1 = length (data (dataView v))"
  shows "closePart hdr msg = Some (COMP_MSG_ERR_OK, with_data msg v (closed (last gs) (data (dataView v))))"
proof -
  have fields: "fieldsOf msg gs" "cd_view msg = Some v" "wf_view (dataView v)" using assms(1) by (simp_all add: openMsg_def)
  have "unat (cd_numFields msg) = length gs" using fields(1) by (simp add: fieldsOf_def unat_of_nat)
  moreover have "Suc 0 \<le> length gs" using assms(2) by (cases gs) simp_all
  ultimately have "unat (cd_numFields msg - 1) = length gs - 1" by (subst unat_sub) (simp_all add: word_le_nat_alt)
  then have "rd_cell (cd_fields msg) (unat (cd_numFields msg - 1)) = Some (last gs)"
    using fieldsOf_rd [OF fields(1), of "length gs - 1"] assms(2) by (simp add: last_conv_nth)
  then show ?thesis using assms(3) total_closed(1) [OF fields(3) assms(4,5)] onView_with_data [OF fields(2)]
    by (simp add: closePart_def)
qed

lemma sendMsg_socket:
  assumes "s_currHdr b = Some hdr" "hdrHandleType hdr = 65" "s_sud b" "s_tn b = Some tn" "wf_names tn" "wf_handles (s_handles b)"
    and "unat n = length m" "length m < 5116"
  shows "\<exists>b'. sendMsg True net b m n = Some (COMP_MSG_ERR_OK, b')
    \<and> s_events b' = s_events b @ [SocketEvent (Sent (wsFrame (0x80 OR 2) None m))]"
proof -
  have "n = word_of_nat (length m)" using assms(7) by (metis of_nat_unat ucast_id)
  then have "webSocketSendData True m n (ucast OPCODE_BINARY) = Some (0, [Sent (wsFrame (0x80 OR 2) None m)])"
    using send_frame [OF assms(8), of "[]" 2] by simp
  moreover let ?b = "emit [SocketEvent (Sent (wsFrame (0x80 OR 2) None m))] b"
  obtain tn' t' self' where "deleteMsg (Some tn) (s_handles b) (s_msg b) = Some (COMP_MSG_ERR_OK, Some tn', t', self')"
    using delete_some [OF assms(5,6)] by blast
  then have "dropMsg ?b = Some (COMP_MSG_ERR_OK, ?b\<lparr>s_tn := Some tn', s_handles := t', s_msg := self'\<rparr>)"
    using assms(4) by (simp add: dropMsg_def emit_def)
  ultimately show ?thesis using assms(1-3) by (simp add: sendMsg_def emit_def)
qed

subsection \<open>Properties\<close>

text \<open>
  What is sent of a message \<open>plain\<close> with a header of \<open>h\<close> bytes: the header is the one that was built; the part behind it decrypts, with the
  key and any initial vector of 16 bytes, to the blocks that were built apart from the first one, and to all of them exactly if
  the initial vector is the key; and the total checksum in the field \<open>f\<close> is accepted.
\<close>

definition sent_as :: "'c aes_funcs \<Rightarrow> mem \<Rightarrow> compMsgField \<Rightarrow> nat \<Rightarrow> mem \<Rightarrow> mem \<Rightarrow> bool" where
  "sent_as aes key f h plain sent \<longleftrightarrow> length sent = length plain \<and> take h sent = take h plain
     \<and> (let n = length plain - 1 - h in
        \<forall>iv. 16 \<le> length iv \<longrightarrow> (\<exists>blocks. decryptMsg aes True (take n (drop h sent)) (word_of_nat n) key iv 16
            = Some (COMP_MSG_ERR_OK, Block blocks, word_of_nat n)
          \<and> drop 16 blocks = drop 16 (take n (drop h plain))
          \<and> (blocks = take n (drop h plain) \<longleftrightarrow> n = 0 \<or> take 16 iv = take 16 key)))
     \<and> (\<forall>dv. data dv = sent \<longrightarrow> wf_view dv \<longrightarrow> getTotalCrc dv f = Some DATA_VIEW_ERR_OK)"

text \<open>Blocks that decrypt as \<open>sent_as\<close> says, and a message with such blocks and its total checksum.\<close>

definition decrypts_to :: "'c aes_funcs \<Rightarrow> mem \<Rightarrow> mem \<Rightarrow> mem \<Rightarrow> bool" where
  "decrypts_to aes key c b \<longleftrightarrow> (\<forall>iv. 16 \<le> length iv \<longrightarrow> (\<exists>blocks.
     decryptMsg aes True c (word_of_nat (length c)) key iv 16 = Some (COMP_MSG_ERR_OK, Block blocks, word_of_nat (length c))
     \<and> drop 16 blocks = drop 16 b \<and> (blocks = b \<longleftrightarrow> length c = 0 \<or> take 16 iv = take 16 key)))"

lemma other_iv_decrypts:
  assumes "\<forall>iv. 16 \<le> length iv \<longrightarrow> decryptMsg aes True c (word_of_nat (length c)) key iv 16
        = Some (COMP_MSG_ERR_OK, Block (other_iv (take 16 key) (take 16 iv) b), word_of_nat (length c))"
    and "length b = length c" "length c = 0 \<or> 16 \<le> length c" "16 \<le> length key"
  shows "decrypts_to aes key c b"
proof -
  let ?k = "take 16 key"
  have "other_iv ?k (take 16 iv) b = b \<longleftrightarrow> length c = 0 \<or> take 16 iv = ?k" if "16 \<le> length iv" for iv
    using assms(2-4) other_iv_same [of b ?k "take 16 iv"] that by (auto simp: other_iv_def xor_block_def)
  moreover have "drop 16 (other_iv ?k (take 16 iv) b) = drop 16 b" if "16 \<le> length iv" for iv
    using assms(2-4) that by (auto simp: other_iv_def)
  ultimately show ?thesis using assms(1) unfolding decrypts_to_def by blast
qed

lemma encrypted_blocks:
  assumes "cd_view msg = Some v" "e_ok env = (\<lambda>_. True)" "hdrEncryption hdr = 69" "hdrFlags hdr AND COMP_DISP_TOTAL_CRC \<noteq> 0"
    and "aes_inverse aes (e_cryptKey env)" "16 \<le> length (e_cryptKey env)"
    and "length (data (dataView v)) = n" "unat (cd_totalLgth msg) = n" "unat (cd_headerLgth msg) = h" "wholeBlocks f h n"
  shows "\<exists>c. encryptPart aes env hdr msg = Some (COMP_MSG_ERR_OK, with_data msg v (put (data (dataView v)) h c))
    \<and> length c = n - 1 - h \<and> decrypts_to aes (e_cryptKey env) c (take (n - 1 - h) (drop h (data (dataView v))))"
proof -
  have w: "h < n" "n < 65536" "pads (n - 1 - h) = n - 1 - h" "n - 1 - h = 0 \<or> 16 \<le> n - 1 - h"
    using assms(10) by (auto simp: wholeBlocks_def pads_def dest: dvd_imp_le)
  obtain c where c: "length c = n - 1 - h" "encryptPart aes env hdr msg = Some (COMP_MSG_ERR_OK, with_data msg v (put (data (dataView v)) h c))"
    "\<forall>iv. 16 \<le> length iv \<longrightarrow> decryptMsg aes True c (word_of_nat (length c)) (e_cryptKey env) iv 16
        = Some (COMP_MSG_ERR_OK, Block (other_iv (take 16 (e_cryptKey env)) (take 16 iv) (take (n - 1 - h) (drop h (data (dataView v))))), word_of_nat (length c))"
    using encryptPart_eq [OF assms(1-3,5-8) w(2) assms(9) [symmetric], of 1 "n - 1 - h"] assms(4) w(1,3) by auto
  have "length (take (n - 1 - h) (drop h (data (dataView v)))) = length c" "length c = 0 \<or> 16 \<le> length c" using c(1) w(1,4) assms(7) by auto
  from other_iv_decrypts [OF c(3) this assms(6)] show ?thesis using c(1,2) by blast
qed

lemma closed_sent_as:
  assumes "decrypts_to aes key c (take (n - 1 - h) (drop h m))" "length c = n - 1 - h" "length m = n" "wholeBlocks f h n"
  shows "sent_as aes key f h m (closed f (put m h c))"
proof -
  let ?e = "put m h c"
  have f: "f_fieldLgth f = 1" "unat (f_fieldOffset f) + 1 = n" "h < n" using assms(4) by (simp_all add: wholeBlocks_def)
  have room: "h + length c \<le> length m" "h + length c \<le> unat (f_fieldOffset f)" using assms(2,3) f(2,3) by linarith+
  have len: "length (closed f ?e) = n" using assms(3) by (simp add: closed_def)
  have one: "length (crcBytes f x) = 1" for x using f(1) by (simp add: crcWidth_def)
  have head: "take (h + length c) (closed f ?e) = take (h + length c) ?e"
    unfolding closed_def using room(2) f(2) assms(3) by (subst take_put) (simp_all add: crcWidth_def f(1))
  have "take h (closed f ?e) = take h m"
    using arg_cong [OF head, of "take h"] take_put [of h h c m] room(1) by (simp add: min_def)
  moreover have "take (length c) (drop h (closed f ?e)) = c"
    using arg_cong [OF head, of "drop h"] take_drop_put_same [OF room(1)] by (simp add: take_drop add.commute)
  moreover have "getTotalCrc dv f = Some 0" if dv: "data dv = closed f ?e" "wf_view dv" for dv
  proof -
    have "wf_view (dv\<lparr>data := ?e\<rparr>)" using dv assms(3) len by (simp add: wf_view_def)
    from total_closed(2) [OF this f(1)] have "getTotalCrc (dv\<lparr>data := closed f ?e\<rparr>) f = Some 0" using f(2) assms(3) by simp
    moreover have "dv\<lparr>data := closed f ?e\<rparr> = dv" using dv(1) by (cases dv) simp
    ultimately show ?thesis by (simp only:)
  qed
  ultimately show ?thesis using assms(1) len unfolding sent_as_def decrypts_to_def Let_def assms(3) assms(2) [symmetric] by simp
qed

text \<open>
  Claim C13.  A message that can be laid out and prepared, with encryption, and with whole blocks behind its header that are followed by a
  total checksum of one byte as its last field, is built and sent through the websocket as one binary frame.  The plain
  message has the lengths and the command key in their fields; what is sent has the header of the plain
  message and a total checksum over the encrypted bytes that is accepted.  The blocks decrypt to those of
  the plain message exactly if the key is taken as the initial vector, as \<open>buildMsg\<close> does; with another one, such as the
  \<open>cryptIvKey\<close> with which \<^verbatim>\<open>compMsgIdentify.c\<close> decrypts, the first block comes out wrong and the others right.  A
  total checksum of two bytes is not covered: the copy then leaves the message.
\<close>

theorem build_delivers:
  assumes "buildable env b hdr fs" "s_tn b = Some tn" "wf_names tn" "wf_handles (s_handles b)"
    and "hdrHandleType hdr = 65" "s_sud b" "hdrEncryption hdr = 69" "hdrFlags hdr AND COMP_DISP_TOTAL_CRC \<noteq> 0"
    and "aes_inverse aes (e_cryptKey env)" "16 \<le> length (e_cryptKey env)"
    and "wholeBlocks (last (layoutOf (s_msg b) fs)) h n" "h = unat (hdrLgths (layoutOf (s_msg b) fs))" "n = sizeOf (s_msg b) fs"
  shows "\<exists>b' plain sent. buildMsg aes env b = Some (COMP_MSG_ERR_OK, b')
    \<and> s_events b' = s_events b @ [SocketEvent (Sent (wsFrame (0x80 OR 2) None sent))]
    \<and> plainOk (hdrU16CmdKey hdr) n h (layoutOf (s_msg b) fs) plain
    \<and> sent_as aes (e_cryptKey env) (last (layoutOf (s_msg b) fs)) h plain sent"
proof -
  let ?L = "layoutOf (s_msg b) fs"
  obtain b1 msg gs v where p: "buildMsg aes env b = sendBuilt aes env b1 (lgth (dataView v))"
    "s_msg b1 = msg" "s_currHdr b1 = Some hdr" "s_tn b1 = s_tn b" "s_handles b1 = s_handles b" "s_sud b1 = s_sud b" "s_events b1 = s_events b"
    "openMsg msg gs v" "list_all2 marked ?L gs" "unat (cd_totalLgth msg) = n" "cd_headerLgth msg = hdrLgths ?L"
    "plainOk (hdrU16CmdKey hdr) n (unat (cd_headerLgth msg)) ?L (data (dataView v))"
    using build_prepared [OF assms(1), of aes] unfolding assms(13) by blast
  let ?m = "data (dataView v)"
  have ok: "e_ok env = (\<lambda>_. True)" and len: "length ?m = n" "unat (cd_headerLgth msg) = h"
    using assms(1,12) p(11,12) by (simp_all add: buildable_def plainOk_def)
  have cl: "f_fieldLgth (last ?L) = 1" "unat (f_fieldOffset (last ?L)) + 1 = n" "h < n" "n < 5116" using assms(11) by (simp_all add: wholeBlocks_def)
  have v: "cd_view msg = Some v" using p(8) by (simp add: openMsg_def)
  obtain c where c: "encryptPart aes env hdr msg = Some (COMP_MSG_ERR_OK, with_data msg v (put ?m h c))" "length c = n - 1 - h"
    "decrypts_to aes (e_cryptKey env) c (take (n - 1 - h) (drop h ?m))"
    using encrypted_blocks [OF v ok assms(7-10) len(1) p(10) len(2) assms(11)] by blast
  have "length ?L = length fs" "fs \<noteq> []" using assms(1) by (simp_all add: buildable_def initable_def layoutOf_def)
  then have "?L \<noteq> []" by (metis length_0_conv)
  then have gs: "gs \<noteq> []" "marked (last ?L) (last gs)" using marked_last [OF p(9)] by simp_all
  let ?e = "put ?m h c" and ?f = "last ?L" and ?v = "v\<lparr>dataView := (dataView v)\<lparr>data := put (data (dataView v)) h c\<rparr>\<rparr>"
  have "openMsg (with_data msg v ?e) gs ?v" using p(8) by (simp add: openMsg_def with_data_def inited_def fieldsOf_def fits_def wf_view_def)
  then have "closePart hdr (with_data msg v ?e) = Some (COMP_MSG_ERR_OK, with_data (with_data msg v ?e) ?v (closed ?f ?e))"
    using closePart_ok [OF _ gs(1) assms(8)] cl(1,2) len(1) marked_keeps [OF gs(2)] total_marked [OF gs(2)] by simp
  then have "buildMsg aes env b = sendMsg True (e_net env) (b1\<lparr>s_msg := with_data msg v (closed ?f ?e)\<rparr>) (closed ?f ?e) (lgth (dataView v))"
    using p(1-3) c(1) ok by (simp add: sendBuilt_def with_data_def)
  moreover have closed_len: "length (closed ?f ?e) = n" using len(1) by (simp add: closed_def)
  have "unat (lgth (dataView v)) = n" using p(8) len(1) by (simp add: openMsg_def wf_view_def)
  ultimately obtain b' where "buildMsg aes env b = Some (COMP_MSG_ERR_OK, b')"
      "s_events b' = s_events b @ [SocketEvent (Sent (wsFrame (0x80 OR 2) None (closed ?f ?e)))]"
    using sendMsg_socket [of "b1\<lparr>s_msg := with_data msg v (closed ?f ?e)\<rparr>" hdr tn "lgth (dataView v)" "closed ?f ?e" "e_net env"]
      assms(2-6) p(3-7) closed_len cl(4) by auto
  moreover have "sent_as aes (e_cryptKey env) ?f h ?m (closed ?f ?e)" by (rule closed_sent_as [OF c(3,2) len(1) assms(11)])
  ultimately show ?thesis using p(12) unfolding len(2) by blast
qed

text \<open>A message with a checksum and a total checksum of one byte each.\<close>

definition fields7 :: "compMsgField list" where
  "fields7 = [field 3 3 2, field 4 3 2, field 6 3 2, field 7 3 2, field 10 7 0, field 11 1 1, field 12 1 1]"

definition msg7 :: compMsgData where
  "msg7 = the (newCompMsgData True)\<lparr>cd_fields := map Def fields7, cd_flags := 518, cd_numFields := 7,
     cd_maxFields := 7, cd_currHdr := Some 69\<rparr>"

definition header7 :: headerPart where
  "header7 = \<lparr>hdrFromPart = 2, hdrToPart = 1, hdrTotalLgth = 0, hdrGUID = [], hdrSrcId = 0, hdrReserve = [], hdrFiller = [],
     hdrU16CmdKey = 0x4142, hdrU16CmdLgth = 0, hdrU16Crc = 0, hdrU16TotalCrc = 0, hdrTargetPart = 0, hdrU8CmdKey = 0, hdrU8CmdLgth = 0,
     hdrU8Crc = 0, hdrU8TotalCrc = 0, hdrOffset = 0, hdrEncryption = 69, hdrHandleType = 65, hdrLgth = 4, hdrFlags = 0x400, fieldSequence = []\<rparr>"

definition rom7 :: userRom where
  "rom7 = \<lparr>save_data_flag = 0, save_data_size = 0, save_data = replicate 1024 0\<rparr>"

definition builder7 :: builder where
  "builder7 = \<lparr>s_msg = msg7, s_tn = Some tn0, s_handles = handles1, s_currHdr = Some header7, s_sud = True,
     s_rom = rom7, s_runningModeFlags = 0, startSendMsg2 = False,
     cloudMsgData = None, cloudMsgDataLgth = 0, cloudPayload = None, cloudPayloadLgth = 0, s_events = [],
     b_ids = (0, 0), b_sequenceNum = 1, b_wifiFlags = 0\<rparr>"

definition env7 :: buildEnv where
  "env7 = \<lparr>e_ok = (\<lambda>_. True), e_hdrLgth = 4, e_saved = Inr 1, e_rnd = (\<lambda>_ _. 5),
     e_net = \<lparr>n_runClientMode = 0, n_startCloudSocket = 0, n_sendData = (\<lambda>_. 0)\<rparr>, e_cryptKey = replicate 16 7\<rparr>"

lemmas msg7_simps = msg7_def fields7_def field_def zeroField_def newCompMsgData_def

lemma layout7: "layoutOf msg7 fields7 =
   [(field 3 3 2), (field 4 3 2)\<lparr>f_fieldOffset := 2\<rparr>, (field 6 3 2)\<lparr>f_fieldOffset := 4\<rparr>,
    (field 7 3 2)\<lparr>f_fieldOffset := 6\<rparr>, (field 10 7 11)\<lparr>f_fieldOffset := 8\<rparr>, (field 11 1 1)\<lparr>f_fieldOffset := 19\<rparr>,
    (field 12 1 1)\<lparr>f_fieldOffset := 20\<rparr>]"
  by (simp add: layoutOf_def msg7_simps isHeaderField_def crcLgth_def pad_def)

lemma size7: "sizeOf msg7 fields7 = 21" "hdrLgths (layoutOf msg7 fields7) = 4"
  unfolding sizeOf_def layout7 by (simp_all add: msg7_simps isFiller_def isHeaderField_def)

lemma initable7: "initable msg7 fields7"
  unfolding initable_def size7 by (simp add: fieldsOf_def msg7_simps isHeaderField_def lengthFieldOk_def lengthField_def)

lemma buildable7: "buildable env7 builder7 header7 fields7"
proof -
  have "list_all (prepField 4 69 (laid msg7 fields7)) (layoutOf msg7 fields7)"
    unfolding layout7 by (simp add: prepField_def field_def zeroField_def crcRange_def laid_def size7) (simp add: msg7_simps)
  moreover have "list_all cmdKeyOk (layoutOf msg7 fields7)"
    unfolding layout7 by (simp add: cmdKeyOk_def field_def zeroField_def)
  ultimately show ?thesis using initable7
    by (simp add: buildable_def builder7_def env7_def header7_def seqOk_def) (simp add: msg7_simps)
qed

lemma builder7_simps:
  "s_msg builder7 = msg7" "s_tn builder7 = Some tn0" "s_handles builder7 = handles1" "s_sud builder7" "s_events builder7 = []"
  "hdrHandleType header7 = 65" "hdrEncryption header7 = 69" "hdrFlags header7 = 0x400" "hdrU16CmdKey header7 = 0x4142"
  "e_cryptKey env7 = replicate 16 7" "e_ok env7 = (\<lambda>_. True)"
  by (simp_all add: builder7_def header7_def env7_def)

lemma aes_inverse7: "aes_inverse xor_aes (e_cryptKey env7)"
  unfolding aes_inverse_def builder7_simps by (intro exI [of _ "replicate 16 7"]) (simp add: xor_aes_ok)

theorem build_delivers_witness:
  "\<exists>b' plain sent. buildMsg xor_aes env7 builder7 = Some (COMP_MSG_ERR_OK, b')
    \<and> s_events b' = [SocketEvent (Sent (wsFrame (0x80 OR 2) None sent))]
    \<and> plainOk 0x4142 21 4 (layoutOf msg7 fields7) plain
    \<and> sent_as xor_aes (replicate 16 7) (last (layoutOf msg7 fields7)) 4 plain sent"
proof -
  have t: "wf_handles (s_handles builder7)" using slots1 by (auto simp: wf_handles_def builder7_simps)
  have c: "wholeBlocks (last (layoutOf (s_msg builder7) fields7)) 4 21"
    unfolding builder7_simps layout7 by (simp add: wholeBlocks_def field_def zeroField_def)
  have k: "16 \<le> length (e_cryptKey env7)" "hdrFlags header7 AND COMP_DISP_TOTAL_CRC \<noteq> 0" "4 = unat (hdrLgths (layoutOf (s_msg builder7) fields7))"
    "21 = sizeOf (s_msg builder7) fields7" by (simp_all add: builder7_simps size7)
  show ?thesis
    using build_delivers [OF buildable7 builder7_simps(2) wf_tn0(1) t builder7_simps(6,4,7) k(2) aes_inverse7 k(1) c k(3,4)]
    unfolding builder7_simps append_Nil .
qed





text \<open>
  Claim C16.  The loop of \<open>fixOffsetsForKeyValues\<close> ends, with OK, exactly when the message has at most 255 fields: its counter has
  8 bits, so that with more fields it wraps around and \<open>buildMsg\<close> never returns.
\<close>

theorem fix_offsets_terminates:
  "fixOffsetsForKeyValues b = (if unat (cd_numFields (s_msg b)) \<le> 255 then Some COMP_MSG_ERR_OK else None)
   \<and> (255 < unat (cd_numFields (s_msg b)) \<longrightarrow> buildMsg aes env b = None)"
proof -
  have "fixOffsetsForKeyValues b = (if unat (cd_numFields (s_msg b)) \<le> 255 then Some COMP_MSG_ERR_OK else None)"
    using fixLoop_ends [of "cd_numFields (s_msg b)" 0] fixLoop_diverges [of 0 "cd_numFields (s_msg b)"]
    by (cases "fixLoop 0 (cd_numFields (s_msg b))") (auto simp: fixOffsetsForKeyValues_def)
  then show ?thesis by (simp add: buildMsg_def)
qed

theorem fix_offsets_terminates_witness:
  "fixOffsetsForKeyValues builder7 = Some COMP_MSG_ERR_OK
   \<and> buildMsg xor_aes env7 (builder7\<lparr>s_msg := msg7\<lparr>cd_numFields := 300\<rparr>\<rparr>) = None"
  using fix_offsets_terminates [of builder7 xor_aes env7] fix_offsets_terminates [of "builder7\<lparr>s_msg := msg7\<lparr>cd_numFields := 300\<rparr>\<rparr>" xor_aes env7]
  by (simp add: builder7_def msg7_simps)

end
