(* ===== verification/Spec2Isabelle.thy ===== *)
theory Spec2Isabelle
  imports ErrorCodes DataView Base64 Crypto TypesAndNames CompMsgUtil CompMsgDataView CompMsgDataValue
    CompMsgHandles CompMsgData CompMsgLayout CompMsgLifecycle
    CompMsgIdentify CompMsgReceive CompMsgWebSocket
    CompMsgFile CompMsgCallbacks CompMsgMsgDesc CompMsgDescFiles CompMsgHeaderFile CompMsgSequence
    CompMsgRequest CompMsgHttp CompMsgHttpLines
    CompMsgAction CompMsgSendReceive CompMsgBuildMsg CompMsgBuilt
begin

text \<open>
  A verification library for the message system of the firmware, \<^verbatim>\<open>src/app/compMsg\<close>.

  \<^bold>\<open>The program.\<close>  The firmware is NodeMCU with a system of binary messages on top.  A message is a
  sequence of typed fields with an optional header, filler, checksums and encryption.  It is created
  and laid out, filled by field name, prepared and handed out as bytes (\<^verbatim>\<open>compMsgData.c\<close>), through a
  typed view (\<^verbatim>\<open>compMsgDataView.c\<close>) of a block of bytes (\<^verbatim>\<open>dataView.c\<close>).  Names, types and descriptions of
  the fields are in \<^verbatim>\<open>compMsgTypesAndNames.c\<close>, values by command key in \<^verbatim>\<open>compMsgDataValue.c\<close>, coding and
  encryption in \<^verbatim>\<open>compMsgUtil.c\<close> and \<^verbatim>\<open>crypto/mech.c\<close>.  Bytes arrive from uart and sockets, websocket
  frames among them (\<^verbatim>\<open>compMsgWebSocket.c\<close>); \<^verbatim>\<open>compMsgIdentify.c\<close> collects them, recognises the message by
  its header and command key, checks, decrypts, and stores or forwards it.  \<^verbatim>\<open>compMsgDispatcher.c\<close> ties
  the modules together; messages and dispatchers are known to the outside by handles.

  \<^bold>\<open>Conventions\<close> (\<open>Prelude\<close>).  Integers keep their width (\<open>u8\<close>, \<open>u16\<close>, \<open>u32\<close>; \<open>int\<close> is a \<open>32 word\<close> read with
  \<open>sint\<close>; \<open>char\<close> is unsigned on the target).  Every function that can leave a block, dereference null,
  read an indeterminate value or run forever returns an option; \<open>None\<close> is that outcome.  Error codes
  are values: a getter returns \<open>errcode + 'a\<close>, an operation that changes its object returns the code
  with the object as it is left, also on the error paths.  \<open>checkErrOK\<close> is the macro of that name.
  Whether an allocation succeeds is an argument (\<open>ok\<close>, or \<open>allocs\<close> by number), arrays on the heap are
  lists of cells in which reallocated cells are undefined, static counters are passed in and out.
  Structs are records, loops are recursive functions: over the rounds that are left, over the list
  that is left, or with a measure; \<open>webSocketParse\<close>, which may not return, and the loops over the lines and
  files of a file system, which ends them, are \<open>partial_function (option)\<close>.  There is no fuel anywhere.

  \<^bold>\<open>Theories.\<close>  Definitions carry the name of the C function; parts of a long function have names of
  their own and are composed as in the code.

  \<^item> \<open>ErrorCodes\<close>: the enumerations of \<^verbatim>\<open>dataView.h\<close> and \<^verbatim>\<open>compMsgErrorCodes.h\<close>; their common names agree.
  \<^item> \<open>DataView\<close> (\<^verbatim>\<open>dataView.c\<close>): scalar and vector accessors.  The locale \<open>accessor\<close> is the contract of a
    getter and setter pair (stored as its bytes, read back, nothing else changed), \<open>accessor_pair\<close> that
    of two of them; both are interpreted on every pair of the code.  The outcome at every offset is
    proved, the accesses outside the block that the range checks let through included.
  \<^item> \<open>Base64\<close> (\<^verbatim>\<open>compMsgUtil.c\<close>): round trip, and the exact set of accepted texts.
  \<^item> \<open>Crypto\<close> (\<^verbatim>\<open>mech.c\<close>, \<open>encryptMsg\<close> and \<open>decryptMsg\<close> of \<^verbatim>\<open>compMsgUtil.c\<close>): the loop equals cipher block chaining
    written as a function on blocks; decryption inverts encryption up to padding.  The block cipher is
    code of the SDK and a parameter, with the hypothesis that decryption of a block inverts encryption.
  \<^item> \<open>TypesAndNames\<close> (\<^verbatim>\<open>compMsgTypesAndNames.c\<close>): the dictionary of field names refines interning in a list
    through growth and reallocation; the fixed tables are searched to inverse functions.
  \<^item> \<open>CompMsgUtil\<close>: the table of callbacks and the array of message descriptions.
  \<^item> \<open>CompMsgDataView\<close> (\<^verbatim>\<open>compMsgDataView.c\<close>): field values by description, fillers, sequence numbers and the two
    checksums; a checksum that was set is accepted, and a change of one covered byte is detected.
  \<^item> \<open>CompMsgDataValue\<close> (\<^verbatim>\<open>compMsgDataValue.c\<close>): values by command key and field; what was stored is found, and
    \<open>setFieldValueInfo\<close> returns only for the first value of the first message.
  \<^item> \<open>CompMsgHandles\<close>: the locale \<open>handle_table\<close> is the contract of a table of handles (a finite map with a
    restriction on deletion), interpreted on the tables of \<^verbatim>\<open>compMsgData.c\<close> and \<^verbatim>\<open>compMsgDispatcher.c\<close>.
  \<^item> \<open>CompMsgData\<close> (\<^verbatim>\<open>compMsgData.c\<close>): the message with all its operations.  \<open>CompMsgLayout\<close> shows that
    \<open>initMsg\<close> implements a layout function on the list of fields, and that
    the length fields hold the lengths.  \<open>CompMsgLifecycle\<close> has the step relation of the operations, deletion and
    failing allocations included, the invariant of the reachable states, reading after writing by name, the
    error codes outside the phases, and for which checksums the filler completes the blocks.
  \<^item> \<open>CompMsgIdentify\<close> (\<^verbatim>\<open>compMsgIdentify.c\<close>): collecting bytes, reading and looking up the header, command key,
    checksums, decryption, storing and forwarding.  \<open>CompMsgReceive\<close> shows that an encoded header is read
    back and selects the first fitting entry, that the command key selects the entry of the whole
    table, that bytes may arrive in any pieces, and where the buffer overflows.
  \<^item> \<open>CompMsgWebSocket\<close> (\<^verbatim>\<open>compMsgWebSocket.c\<close>): writing and reading frames, compared with the frames of
    RFC 6455; what is sent is delivered, the outcome of every first byte is given, and of two frames in one segment the
    second is lost.
  \<^item> \<open>CompMsgFile\<close> (\<^verbatim>\<open>compMsgFile.c\<close>): lines of files, their fields, numbers and strings.  The flash file system is
    a parameter; that it delivers the bytes of the file from the current position on is a hypothesis.
  \<^item> \<open>CompMsgCallbacks\<close> (\<^verbatim>\<open>compMsgWifiData.c\<close>, \<^verbatim>\<open>compMsgModuleData.c\<close>): the tables of callbacks and their numbers.
  \<^item> \<open>CompMsgMsgDesc\<close> (\<^verbatim>\<open>compMsgMsgDesc.c\<close>): the description files.  \<open>CompMsgDescFiles\<close> has the locale
    \<open>line_handler\<close>, the contract of a handler of lines, in which the loop over a file is shown to apply the
    meaning of each line in order and to return.  \<open>CompMsgHeaderFile\<close> interprets it on the files of the header
    and runs it on the shipped one, \<open>CompMsgSequence\<close> shows the sequence of fields a message gets.
  \<^item> \<open>CompMsgRequest\<close> (\<^verbatim>\<open>compMsgRequest.c\<close>, \<open>uartReceiveCb\<close>): the requests that are being received.  The slots implement
    one list of bytes per socket, and it is shown for which pieces of input that holds; for the uart it ends
    with the second byte.
  \<^item> \<open>CompMsgHttp\<close> (\<^verbatim>\<open>compMsgHttp.c\<close>): header lines, split in place, and what is done with the body.  \<open>CompMsgHttpLines\<close>
    shows that a message written as the protocol says is split into its names, values and body, that an
    unknown name is refused, and that a decoded body arrives in the requests.
  \<^item> \<open>CompMsgAction\<close> (\<^verbatim>\<open>compMsgAction.c\<close>): actions by name, mode and command key.  The static table implements
    the list of registrations, and it is shown which action is run; an action itself is its name and the code it returns.
  \<^item> \<open>CompMsgSendReceive\<close> (\<^verbatim>\<open>compMsgSendReceive.c\<close>, user data of \<^verbatim>\<open>compMsgOta.c\<close>, the configuration of
    \<^verbatim>\<open>rboot-api.c\<close>): where a message is sent to.  What leaves
    the program is a list of events; user data is read back, an answer for the uart is cut at 256 bytes.
  \<^item> \<open>CompMsgBuildMsg\<close> (\<^verbatim>\<open>compMsgBuildMsg.c\<close>): laying out, filling, preparing, encrypting, closing and sending a message.
    \<open>CompMsgBuilt\<close> shows what is sent of a message with a total checksum of one byte: the header as it is, blocks that decrypt to the plain
    ones exactly with the key as initial vector, and an accepted checksum; for which lengths the encryption goes wrong; and for how
    many fields \<open>buildMsg\<close> returns.

  \<^bold>\<open>What connects the components.\<close>  Fields are stored with the accessors of \<open>DataView\<close>, and the theorems
  about fields rest on its interpretations.  The dictionary of \<open>TypesAndNames\<close> resolves the names in
  \<open>setDataValue\<close> and \<open>getDataValue\<close>.  \<open>prepareMsg\<close> and \<open>handleReceivedHeader\<close> use the same checksums, \<open>deleteMsg\<close>
  unregisters the handle, and the receiver decrypts with \<open>decryptMsg\<close>.  \<open>httpParse\<close> decodes with \<open>fromBase64\<close> and
  hands over to \<open>addRequestData\<close>; the theorem about it rests on those about both.  \<open>buildMsg\<close> joins the layout, the
  dictionary, the preparation, the encryption, the checksums, the websocket frames and the handles, and its theorem
  rests on the lemmas about each of them.

  \<^bold>\<open>Not modelled.\<close>  Debug output and the dump functions print only.  The calls of the SDK (sockets, wifi,
  timers, uart, flash, boot loader) and the modules that consist of them (\<^verbatim>\<open>compMsgNetSocket.c\<close>,
  \<^verbatim>\<open>compMsgSSDPSocket.c\<close>, \<^verbatim>\<open>compMsgSocket.c\<close>, \<^verbatim>\<open>compMsgTimer.c\<close>, \<^verbatim>\<open>compMsgOta.c\<close> apart from the user data, the setup of the
  uart in \<^verbatim>\<open>compMsgSendReceive.c\<close>, the connection callbacks of \<^verbatim>\<open>compMsgWebSocket.c\<close>, what the actions of
  \<^verbatim>\<open>compMsgAction.c\<close> do) have their state outside the program.  \<open>unpackReceivedMsg\<close> and
  \<open>startRequest\<close> read pointers whose initialisation is not compiled at this commit, so no behaviour of theirs is
  defined beyond their first lines.  Code inside \<^verbatim>\<open>#ifdef OLD\<close> and \<^verbatim>\<open>#ifdef NOTDEF\<close> is not compiled.  Of
  \<^verbatim>\<open>compMsgMsgDesc.c\<close> the lines of \<^verbatim>\<open>MsgValues.txt\<close> and the search for a message
  by its header values, and the getters of \<^verbatim>\<open>compMsgModuleData.c\<close> and \<^verbatim>\<open>compMsgWifiData.c\<close> are not modelled.  Lua, lwip, spiffs, the display, JSON,
  MQTT and CoAP libraries and the Lua bindings are taken over from other projects.
\<close>

end
